(* ===== verification/Prelude.thy ===== *)
theory Prelude
  imports Main "HOL-Library.Word" "HOL-Library.Multiset"
begin

unbundle bit_operations_syntax

text \<open>
  Shared vocabulary of the development: byte strings, the C++ exceptions the code throws,
  the result type of fallible code, the accessors of \<^verbatim>\<open>std::string_view\<close>, and the
  positional arithmetic of byte strings that every encoder and decoder rests on.

  Conventions. A C++ exception is a value of type \<open>exn\<close>; it keeps the class of the exception and
  the constant part of its message. Behaviour the C++ standard leaves undefined (an index past the
  end of a view) is the value \<open>UndefinedBehaviour\<close>, so that a theorem that rules it out says the
  access was in range. A \<^verbatim>\<open>std::string\<close> of raw bytes is a list of \<open>8 word\<close>.
\<close>

named_theorems byte_simps \<open>lengths and values of byte encodings\<close>
named_theorems result_simps \<open>evaluation of fallible code\<close>

subsection \<open>Exceptions and results\<close>

datatype exn =
    RuntimeError string
  | InvalidArgument string
  | OverflowError string
  | UnderflowError string
  | DomainError string
  | RangeError string
  | OutOfRange string
  | BadCast string
  | FutureError string
  | JsonException string
  | UndefinedBehaviour

type_synonym 'a result = "exn + 'a"

definition bindE :: "'a result \<Rightarrow> ('a \<Rightarrow> 'b result) \<Rightarrow> 'b result" where
  "bindE r f = (case r of Inl e \<Rightarrow> Inl e | Inr x \<Rightarrow> f x)"

definition guardE :: "bool \<Rightarrow> exn \<Rightarrow> unit result" where
  "guardE c e = (if c then Inr () else Inl e)"

lemma bindE_simps [simp, result_simps]:
  "bindE (Inl e) f = Inl e"
  "bindE (Inr x) f = f x"
  by (simp_all add: bindE_def)

lemma bindE_eq_Inr [simp]: "bindE r f = Inr y \<longleftrightarrow> (\<exists>x. r = Inr x \<and> f x = Inr y)"
  by (cases r) auto

lemma if_Inl_eq_Inr [result_simps]:
  "((if c then Inl e else r) = Inr y) \<longleftrightarrow> \<not> c \<and> r = Inr y"
  "((if c then r else Inl e) = Inr y) \<longleftrightarrow> c \<and> r = Inr y"
  by auto

lemma bindE_assoc: "bindE (bindE r f) g = bindE r (\<lambda>x. bindE (f x) g)"
  by (cases r) auto

lemma guardE_eq_Inr [simp]: "guardE c e = Inr u \<longleftrightarrow> c"
  by (simp add: guardE_def)

lemma guardE_True [simp, result_simps]: "c \<Longrightarrow> guardE c e = Inr ()"
  by (simp add: guardE_def)

lemma guardE_False [simp, result_simps]: "\<not> c \<Longrightarrow> guardE c e = Inl e"
  by (simp add: guardE_def)

fun mapE :: "('a \<Rightarrow> 'b result) \<Rightarrow> 'a list \<Rightarrow> 'b list result" where
  "mapE f [] = Inr []"
| "mapE f (x # xs) = bindE (f x) (\<lambda>y. bindE (mapE f xs) (\<lambda>ys. Inr (y # ys)))"

lemma mapE_eq_map: "(\<And>x. x \<in> set xs \<Longrightarrow> f x = Inr (g x)) \<Longrightarrow> mapE f xs = Inr (map g xs)"
  by (induction xs) auto

lemma mapE_length: "mapE f xs = Inr ys \<Longrightarrow> length ys = length xs"
  by (induction xs arbitrary: ys) auto

text \<open>A loop over a sequence that carries a state and stops at the first exception.\<close>

fun foldE :: "('a \<Rightarrow> 's \<Rightarrow> 's result) \<Rightarrow> 'a list \<Rightarrow> 's \<Rightarrow> 's result" where
  "foldE f [] s = Inr s"
| "foldE f (x # xs) s = bindE (f x s) (foldE f xs)"

lemma foldE_append: "foldE f (xs @ ys) s = bindE (foldE f xs s) (foldE f ys)"
  by (induction xs arbitrary: s) (simp_all add: bindE_assoc [symmetric] bindE_def split: sum.splits)

lemma foldE_invariant:
  assumes "foldE f xs s = Inr t" and "I s" and "\<And>x s t. x \<in> set xs \<Longrightarrow> I s \<Longrightarrow> f x s = Inr t \<Longrightarrow> I t"
  shows "I t"
  using assms by (induction xs arbitrary: s) auto

text \<open>\<^verbatim>\<open>insert\<close> of an associative container keeps an entry that is there; \<^verbatim>\<open>operator[]\<close> adds a default entry
  when there is none.\<close>

definition insert_new :: "('k \<rightharpoonup> 'v) \<Rightarrow> 'k \<Rightarrow> 'v \<Rightarrow> ('k \<rightharpoonup> 'v)" where
  "insert_new m k v = (if m k = None then m(k \<mapsto> v) else m)"

definition index_default :: "('k \<rightharpoonup> 'v) \<Rightarrow> 'k \<Rightarrow> 'v \<Rightarrow> ('k \<rightharpoonup> 'v) \<times> 'v" where
  "index_default m k d = (case m k of Some v \<Rightarrow> (m, v) | None \<Rightarrow> (m(k \<mapsto> d), d))"

lemma map_of_rev_distinct: "distinct (map fst es) \<Longrightarrow> map_of (rev es) = map_of es"
proof (induction es)
  case (Cons e es)
  have "map_of es (fst e) = None" using Cons.prems by (simp add: map_of_eq_None_iff)
  then show ?case using Cons by (simp add: fun_eq_iff map_add_def split: option.split)
qed simp

lemma insert_new_Some: "insert_new m k v k' = Some w \<longleftrightarrow> m k' = Some w \<or> (m k' = None \<and> k' = k \<and> w = v)"
  by (auto simp: insert_new_def)

lemma insert_new_fresh [simp]: "m k = None \<Longrightarrow> insert_new m k v = m(k \<mapsto> v)"
  by (simp add: insert_new_def)

lemma insert_new_old [simp]: "m k = Some w \<Longrightarrow> insert_new m k v = m"
  by (simp add: insert_new_def)

text \<open>\<^verbatim>\<open>catch (std::exception &e) { throw std::runtime_error(... + e.what()); }\<close>\<close>

fun what :: "exn \<Rightarrow> string" where
  "what (RuntimeError m) = m"
| "what (InvalidArgument m) = m"
| "what (OverflowError m) = m"
| "what (UnderflowError m) = m"
| "what (DomainError m) = m"
| "what (RangeError m) = m"
| "what (OutOfRange m) = m"
| "what (BadCast m) = m"
| "what (FutureError m) = m"
| "what (JsonException m) = m"
| "what UndefinedBehaviour = ''''"

definition rethrow :: "string \<Rightarrow> 'a result \<Rightarrow> 'a result" where
  "rethrow pre r = (case r of Inr x \<Rightarrow> Inr x
     | Inl e \<Rightarrow> if e = UndefinedBehaviour then Inl e else Inl (RuntimeError (pre @ what e)))"

subsection \<open>State and exceptions\<close>

text \<open>Code that changes an object and may throw: the changes made before the exception stay.\<close>

type_synonym ('s, 'a) action = "'s \<Rightarrow> 's \<times> 'a result"

definition liftS :: "'a result \<Rightarrow> ('s, 'a) action" where
  "liftS r s = (s, r)"

definition bindS :: "('s, 'a) action \<Rightarrow> ('a \<Rightarrow> ('s, 'b) action) \<Rightarrow> ('s, 'b) action" where
  "bindS m f s = (case m s of (s1, Inl e) \<Rightarrow> (s1, Inl e) | (s1, Inr x) \<Rightarrow> f x s1)"

lemma bindS_liftS [simp]: "bindS (liftS (Inr x)) f = f x" "bindS (liftS (Inl e)) f = liftS (Inl e)"
  by (simp_all add: bindS_def liftS_def fun_eq_iff)

lemma bindS_Inr: "m s = (s1, Inr x) \<Longrightarrow> bindS m f s = f x s1"
  by (simp add: bindS_def)

lemma bindS_Inl: "m s = (s1, Inl e) \<Longrightarrow> bindS m f s = (s1, Inl e)"
  by (simp add: bindS_def)

lemma bindS_cases:
  assumes "bindS m f s = (s2, r)"
  obtains (throws) e where "m s = (s2, Inl e)" "r = Inl e" | (continues) s1 x where "m s = (s1, Inr x)" "f x s1 = (s2, r)"
  using assms by (auto simp: bindS_def split: prod.splits sum.splits)

text \<open>A loop over a sequence whose body changes the state and may throw.\<close>

fun forS :: "('a \<Rightarrow> ('s, unit) action) \<Rightarrow> 'a list \<Rightarrow> ('s, unit) action" where
  "forS f [] = liftS (Inr ())"
| "forS f (x # xs) = bindS (f x) (\<lambda>_. forS f xs)"

lemma forS_invariant:
  assumes "forS f xs s = (t, r)" and "I s" and "\<And>x s t r. x \<in> set xs \<Longrightarrow> I s \<Longrightarrow> f x s = (t, r) \<Longrightarrow> I t"
  shows "I t"
  using assms
proof (induction xs arbitrary: s)
  case (Cons x xs)
  from Cons.prems(1) have "bindS (f x) (\<lambda>_. forS f xs) s = (t, r)" by simp
  then show ?case
  proof (cases rule: bindS_cases)
    case (throws e)
    then show ?thesis using Cons.prems by auto
  next
    case (continues s1 u)
    then show ?thesis using Cons.IH [of s1] Cons.prems by auto
  qed
qed (simp add: liftS_def)

subsection \<open>Bytes and byte strings\<close>

type_synonym byte = "8 word"
type_synonym bytes = "byte list"
type_synonym uint8 = "8 word"
type_synonym uint16 = "16 word"
type_synonym uint32 = "32 word"
type_synonym uint64 = "64 word"
type_synonym uint160 = "160 word"
type_synonym uint256 = "256 word"

lemma byte_unat_lt [simp, byte_simps]: "unat (b :: byte) < 256"
proof -
  have "unat b < 2 ^ LENGTH(8)" by (rule unsigned_less)
  then show ?thesis by simp
qed

lemma unat_of_nat_byte [simp, byte_simps]: "unat (of_nat n :: byte) = n mod 256"
  by (simp add: unat_of_nat)

lemma of_nat_unat_byte [simp, byte_simps]: "of_nat (unat (b :: byte)) = b"
  by simp

subsection \<open>Accessors of a string view\<close>

text \<open>
  \<open>view_at\<close> is \<^verbatim>\<open>operator[]\<close>, undefined out of range. \<open>substr\<close> is
  \<^verbatim>\<open>std::string_view::substr\<close>: it throws when the position is past the end and clamps the
  count. \<open>raw_view\<close> is \<^verbatim>\<open>std::string_view(&s[i], n)\<close>, a view built from a pointer: reading it
  is defined only when all of it lies inside the string.
\<close>

definition view_at :: "'a list \<Rightarrow> nat \<Rightarrow> 'a result" where
  "view_at s i = (if i < length s then Inr (s ! i) else Inl UndefinedBehaviour)"

definition substr :: "'a list \<Rightarrow> nat \<Rightarrow> nat \<Rightarrow> 'a list result" where
  "substr s pos n = (if pos \<le> length s then Inr (take n (drop pos s)) else Inl (OutOfRange ''substr''))"

definition raw_view :: "'a list \<Rightarrow> nat \<Rightarrow> nat \<Rightarrow> 'a list result" where
  "raw_view s i n = (if i + n \<le> length s then Inr (take n (drop i s)) else Inl UndefinedBehaviour)"

lemma view_at_app [simp, result_simps]: "view_at (xs @ y # ys) (length xs) = Inr y"
  by (simp add: view_at_def)

lemma view_at_app_eq: "length xs = i \<Longrightarrow> view_at (xs @ y # ys) i = Inr y"
  by auto

lemma raw_view_app_eq: "length xs = i \<Longrightarrow> length ys = n \<Longrightarrow> raw_view (xs @ ys @ zs) i n = Inr ys"
  by (simp add: raw_view_def)

lemma substr_app_eq: "length xs = i \<Longrightarrow> length ys = n \<Longrightarrow> substr (xs @ ys @ zs) i n = Inr ys"
  by (simp add: substr_def)

subsection \<open>Positional value of a byte string\<close>

fun le_nat :: "bytes \<Rightarrow> nat" where
  "le_nat [] = 0"
| "le_nat (b # bs) = unat b + 256 * le_nat bs"

fun le_bytes :: "nat \<Rightarrow> nat \<Rightarrow> bytes" where
  "le_bytes 0 n = []"
| "le_bytes (Suc k) n = of_nat n # le_bytes k (n div 256)"

definition be_nat :: "bytes \<Rightarrow> nat" where
  "be_nat bs = le_nat (rev bs)"

definition be_bytes :: "nat \<Rightarrow> nat \<Rightarrow> bytes" where
  "be_bytes k n = rev (le_bytes k n)"

lemma length_le_bytes [simp, byte_simps]: "length (le_bytes k n) = k"
  by (induction k arbitrary: n) auto

lemma length_be_bytes [simp, byte_simps]: "length (be_bytes k n) = k"
  by (simp add: be_bytes_def)

lemma le_nat_bound: "le_nat bs < 256 ^ length bs"
proof (induction bs)
  case Nil
  then show ?case by simp
next
  case (Cons b bs)
  have "unat b + 256 * le_nat bs < 256 + 256 * le_nat bs" by simp
  also have "\<dots> = 256 * Suc (le_nat bs)" by simp
  also have "\<dots> \<le> 256 * 256 ^ length bs" using Cons.IH by (simp only: mult_le_mono2 Suc_leI)
  finally show ?case by simp
qed

lemma le_nat_le_bytes [byte_simps]: "le_nat (le_bytes k n) = n mod 256 ^ k"
proof (induction k arbitrary: n)
  case 0
  then show ?case by simp
next
  case (Suc k)
  have "n mod 256 ^ Suc k = 256 * (n div 256 mod 256 ^ k) + n mod 256"
    by (simp add: mod_mult2_eq)
  then show ?case using Suc.IH [of "n div 256"] by simp
qed

lemma le_bytes_le_nat: "le_bytes (length bs) (le_nat bs) = bs"
proof (induction bs)
  case Nil
  then show ?case by simp
next
  case (Cons b bs)
  have "(unat b + 256 * le_nat bs) div 256 = le_nat bs" by simp
  moreover have "(of_nat (unat b + 256 * le_nat bs) :: byte) = b"
    by (rule word_unat_eq_iff [THEN iffD2]) (simp only: unat_of_nat_byte, simp)
  ultimately show ?case using Cons.IH by (simp del: of_nat_add of_nat_mult)
qed

lemma be_nat_be_bytes [byte_simps]: "be_nat (be_bytes k n) = n mod 256 ^ k"
  by (simp add: be_nat_def be_bytes_def le_nat_le_bytes)

lemma be_bytes_be_nat: "be_bytes (length bs) (be_nat bs) = bs"
  using le_bytes_le_nat [of "rev bs"] by (simp add: be_nat_def be_bytes_def)

lemma be_bytes_be_nat_eq: "length bs = k \<Longrightarrow> be_bytes k (be_nat bs) = bs"
  using be_bytes_be_nat by blast

lemma be_nat_bound: "be_nat bs < 256 ^ length bs"
  using le_nat_bound [of "rev bs"] by (simp add: be_nat_def)

lemma be_nat_Nil [simp, byte_simps]: "be_nat [] = 0"
  by (simp add: be_nat_def)

lemma be_nat_single [simp, byte_simps]: "be_nat [b] = unat b"
  by (simp add: be_nat_def)

lemma le_nat_append: "le_nat (xs @ ys) = le_nat xs + 256 ^ length xs * le_nat ys"
  by (induction xs) (auto simp: algebra_simps)

lemma be_nat_snoc: "be_nat (bs @ [b]) = 256 * be_nat bs + unat b"
  by (simp add: be_nat_def)

lemma be_nat_append: "be_nat (xs @ ys) = be_nat ys + 256 ^ length ys * be_nat xs"
  by (simp add: be_nat_def le_nat_append)

lemma be_nat_zeros [simp, byte_simps]: "be_nat (replicate k 0 @ bs) = be_nat bs"
proof -
  have "be_nat (replicate k 0) = 0"
    by (induction k) (simp_all add: be_nat_def le_nat_append flip: replicate_append_same)
  then show ?thesis by (simp add: be_nat_append)
qed

subsection \<open>Checked 256-bit arithmetic\<close>

text \<open>\<^verbatim>\<open>uint256_t\<close> is a checked integer: a result that does not fit throws.\<close>

definition u256_add :: "uint256 \<Rightarrow> uint256 \<Rightarrow> uint256 result" where
  "u256_add a b = (if unat a + unat b < 2 ^ 256 then Inr (a + b) else Inl (OverflowError ''overflow in addition''))"

definition u256_sub :: "uint256 \<Rightarrow> uint256 \<Rightarrow> uint256 result" where
  "u256_sub a b = (if b \<le> a then Inr (a - b) else Inl (RangeError ''Subtraction resulted in a negative value''))"

definition u256_mul :: "uint256 \<Rightarrow> uint256 \<Rightarrow> uint256 result" where
  "u256_mul a b = (if unat a * unat b < 2 ^ 256 then Inr (a * b) else Inl (OverflowError ''overflow in multiplication''))"

lemma u256_add_Inr: "u256_add a b = Inr c \<Longrightarrow> unat c = unat a + unat b"
  by (auto simp: u256_add_def unat_word_ariths split: if_splits)

lemma u256_sub_Inr: "u256_sub a b = Inr c \<Longrightarrow> unat c + unat b = unat a"
  by (auto simp: u256_sub_def unat_sub word_le_nat_alt split: if_splits)

lemma u256_mul_Inr: "u256_mul a b = Inr c \<Longrightarrow> unat c = unat a * unat b"
  by (auto simp: u256_mul_def unat_word_ariths split: if_splits)

end
