(* ===== verification/Safe_Vars.thy ===== *)
theory Safe_Vars
  imports Prelude
begin

text \<open>
  Contract variables (\<^verbatim>\<open>src/contract/variables/\<close>): the base class \<^verbatim>\<open>SafeBase\<close>, the checked integers
  \<^verbatim>\<open>SafeUint8_t\<close> to \<^verbatim>\<open>SafeUint256_t\<close> (the five classes differ in the width only, which is the type
  parameter here), \<^verbatim>\<open>SafeAddress\<close> and \<^verbatim>\<open>SafeBool\<close>, and the bookkeeping of \<^verbatim>\<open>DynamicContract\<close> that commits or
  reverts the variables a call has used (\<^verbatim>\<open>src/contract/dynamiccontract.h\<close>).

  A variable is its committed value, the pointer to the pending value (\<open>None\<close> is \<^verbatim>\<open>nullptr\<close>), whether
  it has an owner contract, and the flag \<^verbatim>\<open>registered\<close>. A \<^verbatim>\<open>const\<close> operation may set the pointer to a
  copy of the value (\<^verbatim>\<open>check()\<close>); the lemmas show that this is never observable.
\<close>

subsection \<open>SafeBase\<close>

record 'a safe_var =
  sv_value :: 'a
  sv_ptr :: "'a option"
  sv_owner :: bool
  sv_registered :: bool

definition sv_check :: "'a safe_var \<Rightarrow> 'a safe_var" where
  "sv_check v = (case sv_ptr v of None \<Rightarrow> v\<lparr>sv_ptr := Some (sv_value v)\<rparr> | Some _ \<Rightarrow> v)"

text \<open>\<^verbatim>\<open>markAsUsed\<close> calls \<^verbatim>\<open>registerVariableUse\<close> on the owner exactly when \<open>sv_registers\<close> holds.\<close>

definition sv_registers :: "'a safe_var \<Rightarrow> bool" where
  "sv_registers v \<longleftrightarrow> sv_owner v \<and> \<not> sv_registered v"

definition sv_markAsUsed :: "'a safe_var \<Rightarrow> 'a safe_var" where
  "sv_markAsUsed v = (if sv_registers v then v\<lparr>sv_registered := True\<rparr> else v)"

definition sv_get :: "'a safe_var \<Rightarrow> 'a" where
  "sv_get v = (case sv_ptr (sv_check v) of Some x \<Rightarrow> x | None \<Rightarrow> sv_value v)"

definition sv_commit :: "'a safe_var \<Rightarrow> 'a safe_var" where
  "sv_commit v = (sv_check v)\<lparr>sv_value := sv_get v, sv_ptr := None, sv_registered := False\<rparr>"

definition sv_revert :: "'a safe_var \<Rightarrow> 'a safe_var" where
  "sv_revert v = v\<lparr>sv_ptr := None, sv_registered := False\<rparr>"

text \<open>A compound assignment: the variable is marked before the operation can throw.\<close>

definition sv_modify :: "('a \<Rightarrow> 'a result) \<Rightarrow> 'a safe_var \<Rightarrow> 'a safe_var \<times> unit result" where
  "sv_modify f v =
     (let v1 = sv_markAsUsed (sv_check v) in
      case f (sv_get v1) of
        Inl e \<Rightarrow> (v1, Inl e)
      | Inr x \<Rightarrow> (v1\<lparr>sv_ptr := Some x\<rparr>, Inr ()))"

subsection \<open>SafeUint\<close>

definition SafeUint_owned :: "'w::len word \<Rightarrow> 'w word safe_var" where
  "SafeUint_owned x = \<lparr>sv_value = 0, sv_ptr = Some x, sv_owner = True, sv_registered = False\<rparr>"

definition SafeUint_new :: "'w::len word \<Rightarrow> 'w word safe_var" where
  "SafeUint_new x = \<lparr>sv_value = 0, sv_ptr = Some x, sv_owner = False, sv_registered = False\<rparr>"

definition SafeUint_copy :: "'w::len word safe_var \<Rightarrow> 'w word safe_var" where
  "SafeUint_copy v = SafeUint_new (sv_get v)"

definition numeric_max :: "'w::len word" where
  "numeric_max = - 1"

definition checked_add :: "'w::len word \<Rightarrow> 'w word \<Rightarrow> 'w word result" where
  "checked_add a b = (if a > numeric_max - b then Inl (OverflowError ''Overflow in addition operation'') else Inr (a + b))"

definition checked_sub :: "'w::len word \<Rightarrow> 'w word \<Rightarrow> 'w word result" where
  "checked_sub a b = (if a < b then Inl (UnderflowError ''Underflow in subtraction operation'') else Inr (a - b))"

definition checked_mul :: "'w::len word \<Rightarrow> 'w word \<Rightarrow> 'w word result" where
  "checked_mul a b =
     (if b = 0 \<or> a = 0 then Inl (DomainError ''Multiplication by zero'')
      else if a > numeric_max div b then Inl (OverflowError ''Overflow in multiplication operation'')
      else Inr (a * b))"

definition checked_div :: "'w::len word \<Rightarrow> 'w word \<Rightarrow> 'w word result" where
  "checked_div a b = (if a = 0 \<or> b = 0 then Inl (DomainError ''Division by zero'') else Inr (a div b))"

definition checked_mod :: "'w::len word \<Rightarrow> 'w word \<Rightarrow> 'w word result" where
  "checked_mod a b = (if a = 0 \<or> b = 0 then Inl (DomainError ''Modulo by zero'') else Inr (a mod b))"

text \<open>Shifts on the built-in types promote to \<^verbatim>\<open>int\<close>: the amount must stay below the promoted width.\<close>

definition promoted_width :: "nat \<Rightarrow> nat" where
  "promoted_width w = max 32 w"

definition checked_shl :: "'w::len word \<Rightarrow> 'w word \<Rightarrow> 'w word result" where
  "checked_shl a b = (if unat b < promoted_width LENGTH('w) then Inr (push_bit (unat b) a) else Inl UndefinedBehaviour)"

definition checked_shr :: "'w::len word \<Rightarrow> 'w word \<Rightarrow> 'w word result" where
  "checked_shr a b = (if unat b < promoted_width LENGTH('w) then Inr (drop_bit (unat b) a) else Inl UndefinedBehaviour)"

text \<open>The operators that return a new, unowned variable. The argument is the value of the other
  operand, for both overloads.\<close>

definition SafeUint_add :: "'w::len word safe_var \<Rightarrow> 'w word \<Rightarrow> 'w word safe_var result" where
  "SafeUint_add v x = bindE (checked_add (sv_get v) x) (\<lambda>r. Inr (SafeUint_new r))"

definition SafeUint_sub :: "'w::len word safe_var \<Rightarrow> 'w word \<Rightarrow> 'w word safe_var result" where
  "SafeUint_sub v x = bindE (checked_sub (sv_get v) x) (\<lambda>r. Inr (SafeUint_new r))"

definition SafeUint_mul :: "'w::len word safe_var \<Rightarrow> 'w word \<Rightarrow> 'w word safe_var result" where
  "SafeUint_mul v x = bindE (checked_mul (sv_get v) x) (\<lambda>r. Inr (SafeUint_new r))"

definition SafeUint_div :: "'w::len word safe_var \<Rightarrow> 'w word \<Rightarrow> 'w word safe_var result" where
  "SafeUint_div v x = bindE (checked_div (sv_get v) x) (\<lambda>r. Inr (SafeUint_new r))"

definition SafeUint_mod :: "'w::len word safe_var \<Rightarrow> 'w word \<Rightarrow> 'w word safe_var result" where
  "SafeUint_mod v x = bindE (checked_mod (sv_get v) x) (\<lambda>r. Inr (SafeUint_new r))"

definition SafeUint_and :: "'w::len word safe_var \<Rightarrow> 'w word \<Rightarrow> 'w word safe_var" where
  "SafeUint_and v x = SafeUint_new (sv_get v AND x)"

definition SafeUint_or :: "'w::len word safe_var \<Rightarrow> 'w word \<Rightarrow> 'w word safe_var" where
  "SafeUint_or v x = SafeUint_new (sv_get v OR x)"

definition SafeUint_xor :: "'w::len word safe_var \<Rightarrow> 'w word \<Rightarrow> 'w word safe_var" where
  "SafeUint_xor v x = SafeUint_new (sv_get v XOR x)"

definition SafeUint_shl :: "'w::len word safe_var \<Rightarrow> 'w word \<Rightarrow> 'w word safe_var result" where
  "SafeUint_shl v x = bindE (checked_shl (sv_get v) x) (\<lambda>r. Inr (SafeUint_new r))"

definition SafeUint_shr :: "'w::len word safe_var \<Rightarrow> 'w word \<Rightarrow> 'w word safe_var result" where
  "SafeUint_shr v x = bindE (checked_shr (sv_get v) x) (\<lambda>r. Inr (SafeUint_new r))"

definition SafeUint_lnot :: "'w::len word safe_var \<Rightarrow> bool" where
  "SafeUint_lnot v \<longleftrightarrow> sv_get v = 0"

definition SafeUint_land :: "'w::len word safe_var \<Rightarrow> 'w word \<Rightarrow> bool" where
  "SafeUint_land v x \<longleftrightarrow> sv_get v \<noteq> 0 \<and> x \<noteq> 0"

definition SafeUint_lor :: "'w::len word safe_var \<Rightarrow> 'w word \<Rightarrow> bool" where
  "SafeUint_lor v x \<longleftrightarrow> sv_get v \<noteq> 0 \<or> x \<noteq> 0"

definition SafeUint_eq :: "'w::len word safe_var \<Rightarrow> 'w word \<Rightarrow> bool" where
  "SafeUint_eq v x \<longleftrightarrow> sv_get v = x"

definition SafeUint_less :: "'w::len word safe_var \<Rightarrow> 'w word \<Rightarrow> bool" where
  "SafeUint_less v x \<longleftrightarrow> sv_get v < x"

definition SafeUint_le :: "'w::len word safe_var \<Rightarrow> 'w word \<Rightarrow> bool" where
  "SafeUint_le v x \<longleftrightarrow> sv_get v \<le> x"

text \<open>The operators that modify the variable.\<close>

definition SafeUint_assign :: "'w::len word \<Rightarrow> 'w word safe_var \<Rightarrow> 'w word safe_var \<times> unit result" where
  "SafeUint_assign x = sv_modify (\<lambda>_. Inr x)"

definition SafeUint_add_assign :: "'w::len word \<Rightarrow> 'w word safe_var \<Rightarrow> 'w word safe_var \<times> unit result" where
  "SafeUint_add_assign x = sv_modify (\<lambda>a. checked_add a x)"

definition SafeUint_sub_assign :: "'w::len word \<Rightarrow> 'w word safe_var \<Rightarrow> 'w word safe_var \<times> unit result" where
  "SafeUint_sub_assign x = sv_modify (\<lambda>a. checked_sub a x)"

definition SafeUint_mul_assign :: "'w::len word \<Rightarrow> 'w word safe_var \<Rightarrow> 'w word safe_var \<times> unit result" where
  "SafeUint_mul_assign x = sv_modify (\<lambda>a. checked_mul a x)"

definition SafeUint_div_assign :: "'w::len word \<Rightarrow> 'w word safe_var \<Rightarrow> 'w word safe_var \<times> unit result" where
  "SafeUint_div_assign x = sv_modify (\<lambda>a. checked_div a x)"

definition SafeUint_mod_assign :: "'w::len word \<Rightarrow> 'w word safe_var \<Rightarrow> 'w word safe_var \<times> unit result" where
  "SafeUint_mod_assign x = sv_modify (\<lambda>a. checked_mod a x)"

definition SafeUint_and_assign :: "'w::len word \<Rightarrow> 'w word safe_var \<Rightarrow> 'w word safe_var \<times> unit result" where
  "SafeUint_and_assign x = sv_modify (\<lambda>a. Inr (a AND x))"

definition SafeUint_or_assign :: "'w::len word \<Rightarrow> 'w word safe_var \<Rightarrow> 'w word safe_var \<times> unit result" where
  "SafeUint_or_assign x = sv_modify (\<lambda>a. Inr (a OR x))"

definition SafeUint_xor_assign :: "'w::len word \<Rightarrow> 'w word safe_var \<Rightarrow> 'w word safe_var \<times> unit result" where
  "SafeUint_xor_assign x = sv_modify (\<lambda>a. Inr (a XOR x))"

definition SafeUint_shl_assign :: "'w::len word \<Rightarrow> 'w word safe_var \<Rightarrow> 'w word safe_var \<times> unit result" where
  "SafeUint_shl_assign x = sv_modify (\<lambda>a. checked_shl a x)"

definition SafeUint_shr_assign :: "'w::len word \<Rightarrow> 'w word safe_var \<Rightarrow> 'w word safe_var \<times> unit result" where
  "SafeUint_shr_assign x = sv_modify (\<lambda>a. checked_shr a x)"

definition SafeUint_inc :: "'w::len word safe_var \<Rightarrow> 'w word safe_var \<times> unit result" where
  "SafeUint_inc = sv_modify (\<lambda>a. if a = numeric_max then Inl (OverflowError ''Overflow in increment operation'')
     else Inr (a + 1))"

definition SafeUint_dec :: "'w::len word safe_var \<Rightarrow> 'w word safe_var \<times> unit result" where
  "SafeUint_dec = sv_modify (\<lambda>a. if a = 0 then Inl (UnderflowError ''Underflow in increment operation'')
     else Inr (a - 1))"

subsection \<open>SafeAddress and SafeBool\<close>

definition SafeAddress_owned :: "bytes \<Rightarrow> bytes safe_var" where
  "SafeAddress_owned a = \<lparr>sv_value = a, sv_ptr = Some a, sv_owner = True, sv_registered = False\<rparr>"

definition SafeAddress_assign :: "bytes \<Rightarrow> bytes safe_var \<Rightarrow> bytes safe_var \<times> unit result" where
  "SafeAddress_assign a = sv_modify (\<lambda>_. Inr a)"

text \<open>Unlike the other classes, \<^verbatim>\<open>commit\<close> and \<^verbatim>\<open>revert\<close> leave \<^verbatim>\<open>registered\<close> as it is.\<close>

definition SafeAddress_commit :: "bytes safe_var \<Rightarrow> bytes safe_var" where
  "SafeAddress_commit v = (sv_check v)\<lparr>sv_value := sv_get v, sv_ptr := None\<rparr>"

definition SafeAddress_revert :: "bytes safe_var \<Rightarrow> bytes safe_var" where
  "SafeAddress_revert v = v\<lparr>sv_ptr := None\<rparr>"

definition SafeBool_owned :: "bool \<Rightarrow> bool safe_var" where
  "SafeBool_owned b = \<lparr>sv_value = False, sv_ptr = Some b, sv_owner = True, sv_registered = False\<rparr>"

definition SafeBool_assign :: "bool \<Rightarrow> bool safe_var \<Rightarrow> bool safe_var \<times> unit result" where
  "SafeBool_assign b = sv_modify (\<lambda>_. Inr b)"

definition SafeBool_commit :: "bool safe_var \<Rightarrow> bool safe_var" where
  "SafeBool_commit v = (sv_check v)\<lparr>sv_value := sv_get v, sv_ptr := None, sv_registered := False\<rparr>"

definition SafeBool_revert :: "bool safe_var \<Rightarrow> bool safe_var" where
  "SafeBool_revert v = v\<lparr>sv_ptr := None, sv_registered := False\<rparr>"

subsection \<open>The contract's used variables\<close>

record ('k, 'v) contract_vars =
  cv_vars :: "'k \<Rightarrow> 'v"
  usedVariables :: "'k list"

definition registerVariableUse :: "('k, 'v) contract_vars \<Rightarrow> 'k \<Rightarrow> ('k, 'v) contract_vars" where
  "registerVariableUse c k = c\<lparr>usedVariables := usedVariables c @ [k]\<rparr>"

text \<open>A statement of a contract function that modifies the variable \<open>k\<close>.\<close>

definition contract_modify ::
  "('v \<Rightarrow> bool) \<Rightarrow> ('k, 'v) contract_vars \<Rightarrow> 'k \<times> ('v \<Rightarrow> 'v \<times> unit result)
   \<Rightarrow> ('k, 'v) contract_vars \<times> unit result" where
  "contract_modify registers c stmt =
     (let (k, f) = stmt; v = cv_vars c k; (v', r) = f v;
          c' = (if registers v then registerVariableUse c k else c)
      in (c'\<lparr>cv_vars := (cv_vars c')(k := v')\<rparr>, r))"

fun contract_body ::
  "('v \<Rightarrow> bool) \<Rightarrow> ('k, 'v) contract_vars \<Rightarrow> ('k \<times> ('v \<Rightarrow> 'v \<times> unit result)) list
   \<Rightarrow> ('k, 'v) contract_vars \<times> unit result" where
  "contract_body registers c [] = (c, Inr ())"
| "contract_body registers c (s # ss) =
     (case contract_modify registers c s of
        (c', Inl e) \<Rightarrow> (c', Inl e)
      | (c', Inr _) \<Rightarrow> contract_body registers c' ss)"

definition updateState ::
  "('v \<Rightarrow> 'v) \<Rightarrow> ('v \<Rightarrow> 'v) \<Rightarrow> ('k, 'v) contract_vars \<Rightarrow> bool \<Rightarrow> ('k, 'v) contract_vars" where
  "updateState commit revert c commitToState =
     c\<lparr>cv_vars := fold (\<lambda>k m. m(k := (if commitToState then commit else revert) (m k))) (usedVariables c) (cv_vars c),
       usedVariables := []\<rparr>"

text \<open>\<^verbatim>\<open>DynamicContract::ethCall\<close> around a function body.\<close>

definition contract_ethCall ::
  "('v \<Rightarrow> bool) \<Rightarrow> ('v \<Rightarrow> 'v) \<Rightarrow> ('v \<Rightarrow> 'v) \<Rightarrow> ('k, 'v) contract_vars \<Rightarrow> bool
   \<Rightarrow> ('k \<times> ('v \<Rightarrow> 'v \<times> unit result)) list \<Rightarrow> ('k, 'v) contract_vars \<times> unit result" where
  "contract_ethCall registers commit revert c getCommit body =
     (case contract_body registers c body of
        (c', Inl e) \<Rightarrow> (updateState commit revert c' False, rethrow '''' (Inl e))
      | (c', Inr u) \<Rightarrow> (updateState commit revert c' getCommit, Inr u))"

subsection \<open>Pending values\<close>

lemma sv_get_eq: "sv_get v = (case sv_ptr v of None \<Rightarrow> sv_value v | Some x \<Rightarrow> x)"
  by (simp add: sv_get_def sv_check_def split: option.splits)

lemma sv_check_unobservable [simp]:
  "sv_get (sv_check v) = sv_get v" "sv_commit (sv_check v) = sv_commit v" "sv_revert (sv_check v) = sv_revert v"
  by (simp_all add: sv_get_eq sv_commit_def sv_revert_def sv_check_def split: option.splits)

lemma sv_markAsUsed_simps [simp]:
  "sv_get (sv_markAsUsed v) = sv_get v" "sv_value (sv_markAsUsed v) = sv_value v"
  "sv_owner (sv_markAsUsed v) = sv_owner v" "sv_ptr (sv_markAsUsed v) = sv_ptr v"
  "sv_registered (sv_markAsUsed v) \<longleftrightarrow> sv_registered v \<or> sv_owner v"
  by (auto simp: sv_markAsUsed_def sv_registers_def sv_get_eq split: option.splits)

lemma sv_check_simps [simp]:
  "sv_value (sv_check v) = sv_value v" "sv_owner (sv_check v) = sv_owner v"
  "sv_registered (sv_check v) = sv_registered v" "sv_ptr (sv_check v) = Some (sv_get v)"
  by (simp_all add: sv_check_def sv_get_eq split: option.splits)

lemma sv_modify_fst:
  "sv_value (fst (sv_modify f v)) = sv_value v"
  "sv_owner (fst (sv_modify f v)) = sv_owner v"
  "sv_registered (fst (sv_modify f v)) \<longleftrightarrow> sv_registered v \<or> sv_owner v"
  by (simp_all add: sv_modify_def Let_def split: sum.splits)

lemma sv_modify_get:
  "sv_get (fst (sv_modify f v)) = (case f (sv_get v) of Inl _ \<Rightarrow> sv_get v | Inr x \<Rightarrow> x)"
  "snd (sv_modify f v) = map_sum id (\<lambda>_. ()) (f (sv_get v))"
  by (simp_all add: sv_modify_def Let_def split: sum.splits) (simp_all add: sv_get_eq)

lemma sv_commit_revert_simps [simp]:
  "sv_get (sv_commit v) = sv_get v" "sv_get (sv_revert v) = sv_value v"
  "sv_value (sv_commit v) = sv_get v" "sv_value (sv_revert v) = sv_value v"
  "\<not> sv_registered (sv_commit v)" "\<not> sv_registered (sv_revert v)"
  "sv_owner (sv_commit v) = sv_owner v" "sv_owner (sv_revert v) = sv_owner v"
  by (simp_all add: sv_commit_def sv_revert_def sv_get_eq)

subsection \<open>Calls are atomic on their variables\<close>

text \<open>The contract between a class of variables and the contract that owns them: an operation marks the
  variable and keeps the committed value, \<open>commit\<close> makes the current value the committed one, \<open>revert\<close>
  drops the pending one, and both clear the mark.\<close>

locale safe_variable =
  fixes current :: "'v \<Rightarrow> 'a"
    and committed :: "'v \<Rightarrow> 'a"
    and owned :: "'v \<Rightarrow> bool"
    and marked :: "'v \<Rightarrow> bool"
    and registers :: "'v \<Rightarrow> bool"
    and commit :: "'v \<Rightarrow> 'v"
    and revert :: "'v \<Rightarrow> 'v"
    and operations :: "('v \<Rightarrow> 'v \<times> unit result) set"
  assumes registers_iff: "owned v \<Longrightarrow> registers v \<longleftrightarrow> \<not> marked v"
    and operation_marks: "f \<in> operations \<Longrightarrow> owned v \<Longrightarrow> marked (fst (f v)) \<and> owned (fst (f v))"
    and operation_keeps: "f \<in> operations \<Longrightarrow> committed (fst (f v)) = committed v"
    and commit_laws: "owned v \<Longrightarrow> current (commit v) = current v" "owned v \<Longrightarrow> committed (commit v) = current v"
      "owned v \<Longrightarrow> \<not> marked (commit v)" "owned v \<Longrightarrow> owned (commit v)"
    and revert_laws: "owned v \<Longrightarrow> current (revert v) = committed v" "owned v \<Longrightarrow> committed (revert v) = committed v"
      "owned v \<Longrightarrow> \<not> marked (revert v)" "owned v \<Longrightarrow> owned (revert v)"
begin

definition settled :: "('k, 'v) contract_vars \<Rightarrow> bool" where
  "settled c \<longleftrightarrow> usedVariables c = []
     \<and> (\<forall>k. owned (cv_vars c k) \<and> \<not> marked (cv_vars c k) \<and> current (cv_vars c k) = committed (cv_vars c k))"

definition running :: "('k, 'v) contract_vars \<Rightarrow> ('k, 'v) contract_vars \<Rightarrow> bool" where
  "running c0 c \<longleftrightarrow> distinct (usedVariables c)
     \<and> (\<forall>k. owned (cv_vars c k) \<and> (marked (cv_vars c k) \<longleftrightarrow> k \<in> set (usedVariables c))
          \<and> committed (cv_vars c k) = committed (cv_vars c0 k)
          \<and> (k \<notin> set (usedVariables c) \<longrightarrow> current (cv_vars c k) = committed (cv_vars c0 k)))"

lemma settled_running: "settled c \<Longrightarrow> running c c"
  by (simp add: settled_def running_def)

lemma modify_running:
  assumes "running c0 c" and "f \<in> operations"
  shows "running c0 (fst (contract_modify registers c (k, f)))"
proof -
  obtain v' r where f: "f (cv_vars c k) = (v', r)" by fastforce
  have o: "owned (cv_vars c k)" using assms(1) by (simp add: running_def)
  have v': "marked v'" "owned v'" "committed v' = committed (cv_vars c k)"
    using operation_marks [OF assms(2) o] operation_keeps [OF assms(2), of "cv_vars c k"] by (simp_all add: f)
  show ?thesis
    using assms(1) v' registers_iff [OF o]
    by (auto simp: running_def contract_modify_def f registerVariableUse_def)
qed

lemma body_running:
  "running c0 c \<Longrightarrow> snd ` set body \<subseteq> operations \<Longrightarrow> running c0 (fst (contract_body registers c body))"
proof (induction body arbitrary: c)
  case (Cons s ss)
  obtain k f where s: "s = (k, f)" by fastforce
  obtain c' r where m: "contract_modify registers c s = (c', r)" by fastforce
  have "running c0 c'" using modify_running [OF Cons.prems(1), of f k] Cons.prems(2) s m by simp
  with Cons s m show ?case by (cases r) simp_all
qed simp

lemma updateState_at:
  "distinct (usedVariables c) \<Longrightarrow> cv_vars (updateState commit revert c b) k =
     (if k \<in> set (usedVariables c) then (if b then commit else revert) (cv_vars c k) else cv_vars c k)"
proof -
  have "distinct ks \<Longrightarrow> fold (\<lambda>k m. m(k := g (m k))) ks m k = (if k \<in> set ks then g (m k) else m k)"
    for ks m and g :: "'v \<Rightarrow> 'v"
    by (induction ks arbitrary: m) auto
  then show "distinct (usedVariables c) \<Longrightarrow> ?thesis" by (simp add: updateState_def)
qed

lemma update_settles:
  assumes "running c0 c"
  shows "settled (updateState commit revert c b)"
proof -
  have "usedVariables (updateState commit revert c b) = []" by (simp add: updateState_def)
  with assms show ?thesis
    by (auto simp: settled_def running_def updateState_at commit_laws revert_laws)
qed

lemma revert_restores:
  "running c0 c \<Longrightarrow> current (cv_vars (updateState commit revert c False) k) = committed (cv_vars c0 k)"
  by (simp add: running_def updateState_at revert_laws)

lemma commit_keeps:
  "running c0 c \<Longrightarrow> current (cv_vars (updateState commit revert c True) k) = current (cv_vars c k)"
  by (simp add: running_def updateState_at commit_laws)

lemma call_atomic:
  assumes "settled c" and "snd ` set body \<subseteq> operations"
    and "contract_ethCall registers commit revert c getCommit body = (c', r)"
  shows "settled c'"
    and "\<not> getCommit \<or> isl r \<Longrightarrow> current (cv_vars c' k) = current (cv_vars c k)"
    and "getCommit \<Longrightarrow> \<not> isl r \<Longrightarrow> current (cv_vars c' k) = current (cv_vars (fst (contract_body registers c body)) k)"
proof -
  obtain c1 r1 where b: "contract_body registers c body = (c1, r1)" by fastforce
  have run: "running c c1"
    using body_running [OF settled_running [OF assms(1)] assms(2)] by (simp add: b)
  have c': "c' = updateState commit revert c1 (getCommit \<and> \<not> isl r1)"
    and r: "isl r \<longleftrightarrow> isl r1"
    using assms(3) by (auto simp: contract_ethCall_def b rethrow_def split: sum.splits if_splits)
  show "settled c'" unfolding c' by (rule update_settles [OF run])
  show "\<not> getCommit \<or> isl r \<Longrightarrow> current (cv_vars c' k) = current (cv_vars c k)"
    using revert_restores [OF run, of k] assms(1) by (auto simp: c' r settled_def)
  show "getCommit \<Longrightarrow> \<not> isl r \<Longrightarrow> current (cv_vars c' k) = current (cv_vars (fst (contract_body registers c body)) k)"
    using commit_keeps [OF run, of k] by (simp add: c' r b)
qed

end

text \<open>Every variable is owned, unmarked and has no pending value that differs from the committed one.\<close>

definition contract_settled :: "('k, 'a safe_var) contract_vars \<Rightarrow> bool" where
  "contract_settled c \<longleftrightarrow> usedVariables c = []
     \<and> (\<forall>k. sv_owner (cv_vars c k) \<and> \<not> sv_registered (cv_vars c k) \<and> sv_get (cv_vars c k) = sv_value (cv_vars c k))"

interpretation plain_var: safe_variable sv_get sv_value sv_owner sv_registered sv_registers sv_commit sv_revert
  "range sv_modify"
  by unfold_locales (auto simp: sv_registers_def sv_modify_fst)

lemma settled_iff: "plain_var.settled c \<longleftrightarrow> contract_settled c"
  by (simp add: plain_var.settled_def contract_settled_def)

lemma SafeBool_commit_revert: "SafeBool_commit = sv_commit" "SafeBool_revert = sv_revert"
  by (simp_all add: fun_eq_iff SafeBool_commit_def SafeBool_revert_def sv_commit_def sv_revert_def)

interpretation bool_var: safe_variable sv_get sv_value sv_owner sv_registered sv_registers SafeBool_commit
  SafeBool_revert "range SafeBool_assign"
  by unfold_locales (auto simp: SafeBool_commit_revert SafeBool_assign_def sv_registers_def sv_modify_fst)

definition SafeUint_operations :: "('w::len word safe_var \<Rightarrow> 'w word safe_var \<times> unit result) set" where
  "SafeUint_operations =
     range SafeUint_assign \<union> range SafeUint_add_assign \<union> range SafeUint_sub_assign \<union> range SafeUint_mul_assign
     \<union> range SafeUint_div_assign \<union> range SafeUint_mod_assign \<union> range SafeUint_and_assign
     \<union> range SafeUint_or_assign \<union> range SafeUint_xor_assign \<union> range SafeUint_shl_assign
     \<union> range SafeUint_shr_assign \<union> {SafeUint_inc, SafeUint_dec}"

lemmas SafeUint_assign_defs =
  SafeUint_assign_def SafeUint_add_assign_def SafeUint_sub_assign_def SafeUint_mul_assign_def
  SafeUint_div_assign_def SafeUint_mod_assign_def SafeUint_and_assign_def SafeUint_or_assign_def
  SafeUint_xor_assign_def SafeUint_shl_assign_def SafeUint_shr_assign_def SafeUint_inc_def SafeUint_dec_def

lemma SafeUint_operations_modify: "SafeUint_operations \<subseteq> range sv_modify"
  by (auto simp: SafeUint_operations_def SafeUint_assign_defs)

text \<open>C28. A contract call is atomic on its integer variables. Take a contract whose variables are
  settled and a function body made of any sequence of the modifying operators. When the call
  throws or is not to be committed, every variable has its old value afterwards; when it succeeds
  and is committed, every variable has the value the body gave it. In both cases the variables are
  settled again.\<close>

theorem SafeUint_call_atomic:
  fixes c :: "('k, 'w::len word safe_var) contract_vars"
  assumes "contract_settled c" and "snd ` set body \<subseteq> SafeUint_operations"
    and "contract_ethCall sv_registers sv_commit sv_revert c getCommit body = (c', r)"
  shows "contract_settled c'
    \<and> (\<not> getCommit \<or> isl r \<longrightarrow> (\<forall>k. sv_get (cv_vars c' k) = sv_get (cv_vars c k)))
    \<and> (getCommit \<and> \<not> isl r \<longrightarrow>
         (\<forall>k. sv_get (cv_vars c' k) = sv_get (cv_vars (fst (contract_body sv_registers c body)) k)))"
proof -
  have "snd ` set body \<subseteq> range sv_modify" using assms(2) SafeUint_operations_modify by (rule subset_trans)
  from plain_var.call_atomic [OF _ this assms(3)] assms(1) show ?thesis unfolding settled_iff by blast
qed

definition demo_vars :: "(bool, 8 word safe_var) contract_vars" where
  "demo_vars = \<lparr>cv_vars = (\<lambda>_. sv_commit (SafeUint_owned 200)), usedVariables = []\<rparr>"

theorem SafeUint_call_atomic_witness:
  "let body = [(True, SafeUint_add_assign 50), (False, SafeUint_add_assign 100)];
       (c', r) = contract_ethCall sv_registers sv_commit sv_revert demo_vars True body
   in isl r \<and> contract_settled c' \<and> (\<forall>k. sv_get (cv_vars c' k) = 200)"
proof -
  let ?body = "[(True, SafeUint_add_assign 50), (False, SafeUint_add_assign 100)] ::
    (bool \<times> (8 word safe_var \<Rightarrow> 8 word safe_var \<times> unit result)) list"
  obtain c' r where e: "contract_ethCall sv_registers sv_commit sv_revert demo_vars True ?body = (c', r)" by fastforce
  have s: "contract_settled demo_vars"
    by (simp add: contract_settled_def demo_vars_def) (simp add: SafeUint_owned_def sv_get_eq)
  have o: "snd ` set ?body \<subseteq> SafeUint_operations" by (auto simp: SafeUint_operations_def)
  have r: "isl r"
    using arg_cong [OF e, of "\<lambda>p. isl (snd p)"]
    by (simp add: contract_ethCall_def contract_modify_def demo_vars_def SafeUint_add_assign_def sv_modify_def
        registerVariableUse_def sv_get_eq sv_commit_def SafeUint_owned_def checked_add_def numeric_max_def
        sv_check_def sv_markAsUsed_def sv_registers_def rethrow_def)
  have g: "sv_get (cv_vars demo_vars k) = 200" for k
    by (simp add: demo_vars_def) (simp add: SafeUint_owned_def sv_get_eq)
  show ?thesis
    using SafeUint_call_atomic [OF s o e] r g by (simp add: e)
qed

text \<open>C40. \<^verbatim>\<open>SafeAddress\<close> does not keep that promise: its \<^verbatim>\<open>commit\<close> leaves the variable marked, so a later call
  does not register it again, and the assignment of a call that is not committed survives.\<close>

theorem SafeAddress_not_rolled_back:
  assumes "sv_owner (cv_vars c k)" and "usedVariables c = []"
    and "contract_ethCall sv_registers SafeAddress_commit SafeAddress_revert c True [(k, SafeAddress_assign a)] = (c1, r1)"
    and "contract_ethCall sv_registers SafeAddress_commit SafeAddress_revert c1 False [(k, SafeAddress_assign b)] = (c2, r2)"
  shows "sv_get (cv_vars c2 k) = b"
proof -
  have "sv_registered (cv_vars c1 k) \<and> usedVariables c1 = []"
    using assms(1-3)
    by (cases "sv_registers (cv_vars c k)")
      (auto simp: contract_ethCall_def contract_modify_def SafeAddress_assign_def sv_modify_def Let_def
        updateState_def registerVariableUse_def SafeAddress_commit_def sv_registers_def)
  then show ?thesis
    using assms(4)
    by (auto simp: contract_ethCall_def contract_modify_def SafeAddress_assign_def sv_modify_def Let_def
        updateState_def registerVariableUse_def sv_registers_def sv_get_eq)
qed

definition demo_address_vars :: "(unit, bytes safe_var) contract_vars" where
  "demo_address_vars = \<lparr>cv_vars = (\<lambda>_. SafeAddress_owned [0]), usedVariables = []\<rparr>"

theorem SafeAddress_not_rolled_back_witness:
  "let (c1, r1) = contract_ethCall sv_registers SafeAddress_commit SafeAddress_revert demo_address_vars True
         [((), SafeAddress_assign [1])];
       (c2, r2) = contract_ethCall sv_registers SafeAddress_commit SafeAddress_revert c1 False [((), SafeAddress_assign [2])]
   in sv_get (cv_vars c2 ()) = [2]"
proof -
  have o: "sv_owner (cv_vars demo_address_vars ())" "usedVariables demo_address_vars = []"
    by (simp_all add: demo_address_vars_def SafeAddress_owned_def)
  show ?thesis
    unfolding split_beta Let_def
    by (rule SafeAddress_not_rolled_back [OF o prod.collapse [symmetric] prod.collapse [symmetric]])
qed

subsection \<open>Checked arithmetic is exact\<close>

lemma unat_numeric_max: "unat (numeric_max :: 'w::len word) = 2 ^ LENGTH('w) - 1"
  by (simp add: numeric_max_def unsigned_minus_1_eq_mask mask_eq_exp_minus_1)

lemma unat_word_lt: "unat (a :: 'w::len word) < 2 ^ LENGTH('w)"
  by (rule unsigned_less)

lemma checked_add_exact:
  fixes a b :: "'w::len word"
  shows "checked_add a b = (if unat a + unat b < 2 ^ LENGTH('w) then Inr (of_nat (unat a + unat b))
    else Inl (OverflowError ''Overflow in addition operation''))"
proof -
  have "b \<le> numeric_max" by (simp add: numeric_max_def)
  then have "unat (numeric_max - b) = 2 ^ LENGTH('w) - 1 - unat b" by (simp add: unat_sub unat_numeric_max)
  then have "a > numeric_max - b \<longleftrightarrow> \<not> unat a + unat b < 2 ^ LENGTH('w)"
    using unat_word_lt [of b] unfolding word_less_nat_alt by linarith
  then show ?thesis by (simp add: checked_add_def)
qed

lemma checked_sub_exact:
  "checked_sub a b = (if unat b \<le> unat a then Inr (of_nat (unat a - unat b))
    else Inl (UnderflowError ''Underflow in subtraction operation''))"
  by (auto simp: checked_sub_def word_less_nat_alt not_less of_nat_diff)

lemma checked_mul_exact:
  fixes a b :: "'w::len word"
  shows "checked_mul a b = (if a = 0 \<or> b = 0 then Inl (DomainError ''Multiplication by zero'')
    else if unat a * unat b < 2 ^ LENGTH('w) then Inr (of_nat (unat a * unat b))
    else Inl (OverflowError ''Overflow in multiplication operation''))"
proof (cases "a = 0 \<or> b = 0")
  case False
  then have "0 < unat b" by (simp add: unat_gt_0)
  then have "a > numeric_max div b \<longleftrightarrow> 2 ^ LENGTH('w) - 1 < unat a * unat b"
    by (simp add: word_less_nat_alt unat_div unat_numeric_max div_less_iff_less_mult)
  also have "\<dots> \<longleftrightarrow> \<not> unat a * unat b < 2 ^ LENGTH('w)" by (simp add: Suc_diff_Suc less_eq_Suc_le [symmetric] not_less)
      (metis One_nat_def Suc_le_eq Suc_pred zero_less_numeral zero_less_power)
  finally show ?thesis using False by (simp add: checked_mul_def)
qed (auto simp: checked_mul_def)

text \<open>C30. The arithmetic operators of the checked integers either return the mathematical result or
  throw: addition, subtraction and multiplication at every width, with the exact condition of each
  exception. A zero operand of a multiplication or division, on either side, is an exception as well. A division with a remainder, or one whose result is
  zero, does not throw: it returns the truncated quotient.\<close>

theorem SafeUint_arith_exact:
  fixes v :: "'w::len word safe_var" and x :: "'w word"
  shows "SafeUint_add v x = (if unat (sv_get v) + unat x < 2 ^ LENGTH('w)
      then Inr (SafeUint_new (of_nat (unat (sv_get v) + unat x)))
      else Inl (OverflowError ''Overflow in addition operation''))
    \<and> SafeUint_sub v x = (if unat x \<le> unat (sv_get v)
      then Inr (SafeUint_new (of_nat (unat (sv_get v) - unat x)))
      else Inl (UnderflowError ''Underflow in subtraction operation''))
    \<and> SafeUint_mul v x = (if sv_get v = 0 \<or> x = 0 then Inl (DomainError ''Multiplication by zero'')
      else if unat (sv_get v) * unat x < 2 ^ LENGTH('w)
      then Inr (SafeUint_new (of_nat (unat (sv_get v) * unat x)))
      else Inl (OverflowError ''Overflow in multiplication operation''))
    \<and> SafeUint_div v x = (if sv_get v = 0 \<or> x = 0 then Inl (DomainError ''Division by zero'')
      else Inr (SafeUint_new (of_nat (unat (sv_get v) div unat x))))"
  by (auto simp: SafeUint_add_def SafeUint_sub_def SafeUint_mul_def SafeUint_div_def checked_add_exact
      checked_sub_exact checked_mul_exact checked_div_def word_arith_nat_div)

end
