(* ===== verification/Safe_Map.thy ===== *)
theory Safe_Map
  imports Safe_Vars
begin

text \<open>
  \<^verbatim>\<open>SafeUnorderedMap\<close> (\<^verbatim>\<open>src/contract/variables/safeunorderedmap.h\<close>): the committed map, the pointer to the
  map of pending entries, and the pointer to the set of erased keys. The abstract content of the
  variable is the function \<open>sm_lookup\<close>; the lemmas relate every operation to it, and the locale of
  theory \<^verbatim>\<open>Safe_Vars\<close> is interpreted for maps that are written but not erased from, which is how the
  token contracts use them.
\<close>

record ('k, 'v) safe_map =
  sm_map :: "'k \<rightharpoonup> 'v"
  sm_ptr :: "('k \<rightharpoonup> 'v) option"
  sm_erased :: "'k set option"
  sm_owner :: bool
  sm_registered :: bool

definition SafeMap_owned :: "('k \<rightharpoonup> 'v) \<Rightarrow> ('k, 'v) safe_map" where
  "SafeMap_owned m = \<lparr>sm_map = m, sm_ptr = None, sm_erased = None, sm_owner = True, sm_registered = False\<rparr>"

definition SafeMap_new :: "('k \<rightharpoonup> 'v) \<Rightarrow> ('k, 'v) safe_map" where
  "SafeMap_new m =
     \<lparr>sm_map = Map.empty, sm_ptr = Some m, sm_erased = None, sm_owner = False, sm_registered = False\<rparr>"

text \<open>The maps behind the two pointers; a null pointer is about to become empty.\<close>

definition sm_pending :: "('k, 'v) safe_map \<Rightarrow> 'k \<rightharpoonup> 'v" where
  "sm_pending m = (case sm_ptr m of None \<Rightarrow> Map.empty | Some p \<Rightarrow> p)"

definition sm_erasedKeys :: "('k, 'v) safe_map \<Rightarrow> 'k set" where
  "sm_erasedKeys m = (case sm_erased m of None \<Rightarrow> {} | Some e \<Rightarrow> e)"

definition sm_check :: "('k, 'v) safe_map \<Rightarrow> ('k, 'v) safe_map" where
  "sm_check m = m\<lparr>sm_ptr := Some (sm_pending m), sm_erased := Some (sm_erasedKeys m)\<rparr>"

definition sm_registers :: "('k, 'v) safe_map \<Rightarrow> bool" where
  "sm_registers m \<longleftrightarrow> sm_owner m \<and> \<not> sm_registered m"

definition sm_markAsUsed :: "('k, 'v) safe_map \<Rightarrow> ('k, 'v) safe_map" where
  "sm_markAsUsed m = (if sm_registers m then m\<lparr>sm_registered := True\<rparr> else m)"

definition checkKeyAndCopy :: "('k, 'v) safe_map \<Rightarrow> 'k \<Rightarrow> ('k, 'v) safe_map" where
  "checkKeyAndCopy m key =
     (let m1 = sm_check m in
      if sm_pending m1 key = None
      then (case sm_map m1 key of
              Some x \<Rightarrow> if key \<notin> sm_erasedKeys m1 then m1\<lparr>sm_ptr := Some ((sm_pending m1)(key \<mapsto> x))\<rparr> else m1
            | None \<Rightarrow> m1)
      else m1)"

definition checkKeyAndCreate :: "'v \<Rightarrow> ('k, 'v) safe_map \<Rightarrow> 'k \<Rightarrow> ('k, 'v) safe_map" where
  "checkKeyAndCreate dflt m key =
     (let m1 = sm_check m in
      if sm_pending m1 key = None
      then (case sm_map m1 key of
              None \<Rightarrow> m1\<lparr>sm_ptr := Some ((sm_pending m1)(key \<mapsto> dflt))\<rparr>
            | Some x \<Rightarrow> if key \<notin> sm_erasedKeys m1 then m1\<lparr>sm_ptr := Some ((sm_pending m1)(key \<mapsto> x))\<rparr>
                        else m1\<lparr>sm_ptr := Some ((sm_pending m1)(key \<mapsto> dflt))\<rparr>)
      else m1)"

definition checkKeyAndThrow :: "('k, 'v) safe_map \<Rightarrow> 'k \<Rightarrow> ('k, 'v) safe_map result" where
  "checkKeyAndThrow m key =
     (let m1 = sm_check m in
      if sm_pending m1 key = None
      then (case sm_map m1 key of
              None \<Rightarrow> Inl (RuntimeError ''Key not found'')
            | Some x \<Rightarrow> if key \<notin> sm_erasedKeys m1 then Inr (m1\<lparr>sm_ptr := Some ((sm_pending m1)(key \<mapsto> x))\<rparr>)
                        else Inl (RuntimeError ''Key not found''))
      else Inr m1)"

definition sm_empty :: "('k, 'v) safe_map \<Rightarrow> bool" where
  "sm_empty m \<longleftrightarrow> dom (sm_map m) = {} \<or> dom (sm_pending m) = {}"

definition sm_size :: "('k, 'v) safe_map \<Rightarrow> nat" where
  "sm_size m = card (dom (sm_map m))"

text \<open>\<^verbatim>\<open>insert\<close> and \<^verbatim>\<open>emplace\<close> go to the pending map only; the boolean says whether the key was new there.\<close>

definition sm_insert :: "('k, 'v) safe_map \<Rightarrow> 'k \<Rightarrow> 'v \<Rightarrow> ('k, 'v) safe_map \<times> bool" where
  "sm_insert m key x =
     (let m1 = sm_markAsUsed (sm_check m) in
      if sm_pending m1 key = None then (m1\<lparr>sm_ptr := Some ((sm_pending m1)(key \<mapsto> x))\<rparr>, True) else (m1, False))"

fun sm_insert_list :: "('k, 'v) safe_map \<Rightarrow> ('k \<times> 'v) list \<Rightarrow> ('k, 'v) safe_map" where
  "sm_insert_list m [] = sm_markAsUsed (sm_check m)"
| "sm_insert_list m ((k, x) # xs) = sm_insert_list (fst (sm_insert m k x)) xs"

definition insert_or_assign :: "('k, 'v) safe_map \<Rightarrow> 'k \<Rightarrow> 'v \<Rightarrow> ('k, 'v) safe_map \<times> bool" where
  "insert_or_assign m key x =
     (let m1 = sm_markAsUsed (sm_check m) in
      (m1\<lparr>sm_ptr := Some ((sm_pending m1)(key \<mapsto> x))\<rparr>, sm_pending m1 key = None))"

definition sm_emplace :: "('k, 'v) safe_map \<Rightarrow> 'k \<Rightarrow> 'v \<Rightarrow> ('k, 'v) safe_map \<times> bool" where
  "sm_emplace m key x = sm_insert m key x"

definition sm_erase :: "('k, 'v) safe_map \<Rightarrow> 'k \<Rightarrow> ('k, 'v) safe_map \<times> nat" where
  "sm_erase m key =
     (let m1 = sm_markAsUsed (sm_check m) in
      (m1\<lparr>sm_erased := Some (insert key (sm_erasedKeys m1)), sm_ptr := Some ((sm_pending m1)(key := None))\<rparr>,
       if sm_pending m1 key = None then 0 else 1))"

definition sm_at :: "('k, 'v) safe_map \<Rightarrow> 'k \<Rightarrow> (('k, 'v) safe_map \<times> 'v) result" where
  "sm_at m key =
     bindE (checkKeyAndThrow m key) (\<lambda>m1.
     case sm_pending (sm_markAsUsed m1) key of Some x \<Rightarrow> Inr (sm_markAsUsed m1, x) | None \<Rightarrow> Inl UndefinedBehaviour)"

text \<open>\<^verbatim>\<open>operator[]\<close>; \<open>dflt\<close> is \<^verbatim>\<open>T()\<close>. An assignment through the returned reference is \<open>sm_index_assign\<close>.\<close>

definition sm_index :: "'v \<Rightarrow> ('k, 'v) safe_map \<Rightarrow> 'k \<Rightarrow> ('k, 'v) safe_map \<times> 'v" where
  "sm_index dflt m key =
     (let m1 = sm_markAsUsed (checkKeyAndCreate dflt m key) in
      (m1, case sm_pending m1 key of Some x \<Rightarrow> x | None \<Rightarrow> dflt))"

definition sm_index_assign :: "'v \<Rightarrow> 'k \<Rightarrow> 'v \<Rightarrow> ('k, 'v) safe_map \<Rightarrow> ('k, 'v) safe_map \<times> unit result" where
  "sm_index_assign dflt key x m =
     (let m1 = fst (sm_index dflt m key) in (m1\<lparr>sm_ptr := Some ((sm_pending m1)(key \<mapsto> x))\<rparr>, Inr ()))"

definition sm_count :: "('k, 'v) safe_map \<Rightarrow> 'k \<Rightarrow> nat" where
  "sm_count m key = (if sm_pending (checkKeyAndCopy m key) key = None then 0 else 1)"

definition sm_find :: "('k, 'v) safe_map \<Rightarrow> 'k \<Rightarrow> 'v option" where
  "sm_find m key = sm_pending (checkKeyAndCopy m key) key"

definition sm_contains :: "('k, 'v) safe_map \<Rightarrow> 'k \<Rightarrow> bool" where
  "sm_contains m key \<longleftrightarrow> sm_pending (checkKeyAndCopy m key) key \<noteq> None"

text \<open>\<^verbatim>\<open>map.merge\<close> moves the entries with new keys, the loop overwrites the others, then the erased keys go.
  The set of erased keys is not cleared.\<close>

definition sm_commit :: "('k, 'v) safe_map \<Rightarrow> ('k, 'v) safe_map" where
  "sm_commit m =
     (let m1 = sm_check m;
          merged = (\<lambda>k. case sm_map m1 k of Some x \<Rightarrow> Some x | None \<Rightarrow> sm_pending m1 k);
          left_over = (\<lambda>k. if sm_map m1 k = None then None else sm_pending m1 k);
          updated = (\<lambda>k. case left_over k of Some x \<Rightarrow> Some x | None \<Rightarrow> merged k)
      in m1\<lparr>sm_map := (\<lambda>k. if k \<in> sm_erasedKeys m1 then None else updated k), sm_ptr := None, sm_registered := False\<rparr>)"

definition sm_revert :: "('k, 'v) safe_map \<Rightarrow> ('k, 'v) safe_map" where
  "sm_revert m = m\<lparr>sm_ptr := None, sm_erased := None, sm_registered := False\<rparr>"

subsection \<open>The content of the variable\<close>

definition sm_lookup :: "('k, 'v) safe_map \<Rightarrow> 'k \<rightharpoonup> 'v" where
  "sm_lookup m k = (case sm_pending m k of
     Some x \<Rightarrow> Some x
   | None \<Rightarrow> if k \<in> sm_erasedKeys m then None else sm_map m k)"

lemma sm_base_simps [simp]:
  "sm_pending (sm_check m) = sm_pending m" "sm_erasedKeys (sm_check m) = sm_erasedKeys m"
  "sm_map (sm_check m) = sm_map m" "sm_owner (sm_check m) = sm_owner m" "sm_registered (sm_check m) = sm_registered m"
  "sm_pending (sm_markAsUsed m) = sm_pending m" "sm_erasedKeys (sm_markAsUsed m) = sm_erasedKeys m"
  "sm_map (sm_markAsUsed m) = sm_map m" "sm_owner (sm_markAsUsed m) = sm_owner m"
  "sm_registered (sm_markAsUsed m) \<longleftrightarrow> sm_registered m \<or> sm_owner m"
  "sm_pending (m\<lparr>sm_ptr := Some p\<rparr>) = p" "sm_erasedKeys (m\<lparr>sm_ptr := q\<rparr>) = sm_erasedKeys m"
  "sm_pending (m\<lparr>sm_erased := e\<rparr>) = sm_pending m" "sm_erasedKeys (m\<lparr>sm_erased := Some e'\<rparr>) = e'"
  by (auto simp: sm_check_def sm_markAsUsed_def sm_registers_def sm_pending_def sm_erasedKeys_def)

lemma checkKeyAndCopy_simps [simp]:
  "sm_pending (checkKeyAndCopy m k) k = sm_lookup m k" "sm_lookup (checkKeyAndCopy m k) = sm_lookup m"
  by (auto simp: checkKeyAndCopy_def sm_lookup_def Let_def fun_eq_iff split: option.splits)

lemma sm_find_lookup: "sm_find m k = sm_lookup m k"
  by (simp add: sm_find_def)

lemma sm_contains_lookup: "sm_contains m k \<longleftrightarrow> sm_lookup m k \<noteq> None"
  by (simp add: sm_contains_def)

lemma sm_count_lookup: "sm_count m k = (if sm_lookup m k = None then 0 else 1)"
  by (simp add: sm_count_def)

lemma checkKeyAndCreate_lookup:
  "sm_pending (checkKeyAndCreate d m k) k = Some (case sm_lookup m k of None \<Rightarrow> d | Some x \<Rightarrow> x)"
  "sm_lookup (checkKeyAndCreate d m k) = (sm_lookup m)(k \<mapsto> (case sm_lookup m k of None \<Rightarrow> d | Some x \<Rightarrow> x))"
  "sm_map (checkKeyAndCreate d m k) = sm_map m" "sm_erasedKeys (checkKeyAndCreate d m k) = sm_erasedKeys m"
  "sm_owner (checkKeyAndCreate d m k) = sm_owner m" "sm_registered (checkKeyAndCreate d m k) = sm_registered m"
  by (auto simp: checkKeyAndCreate_def sm_lookup_def Let_def fun_eq_iff split: option.splits)

lemma lookup_markAsUsed [simp]: "sm_lookup (sm_markAsUsed m) = sm_lookup m"
  by (simp add: sm_lookup_def fun_eq_iff split: option.splits)

lemma lookup_set_pending: "sm_lookup (m\<lparr>sm_ptr := Some ((sm_pending m)(k \<mapsto> x))\<rparr>) = (sm_lookup m)(k \<mapsto> x)"
  by (auto simp: sm_lookup_def fun_eq_iff split: option.splits)

lemma sm_index_lookup:
  "snd (sm_index d m k) = (case sm_lookup m k of None \<Rightarrow> d | Some x \<Rightarrow> x)"
  "sm_lookup (fst (sm_index d m k)) = (sm_lookup m)(k \<mapsto> (case sm_lookup m k of None \<Rightarrow> d | Some x \<Rightarrow> x))"
  by (simp_all add: sm_index_def Let_def checkKeyAndCreate_lookup)

lemma sm_index_assign_lookup:
  "sm_lookup (fst (sm_index_assign d k x m)) = (sm_lookup m)(k \<mapsto> x)"
  "sm_map (fst (sm_index_assign d k x m)) = sm_map m"
  "sm_erasedKeys (fst (sm_index_assign d k x m)) = sm_erasedKeys m"
  "sm_owner (fst (sm_index_assign d k x m)) = sm_owner m"
  "sm_registered (fst (sm_index_assign d k x m)) \<longleftrightarrow> sm_registered m \<or> sm_owner m"
  by (simp_all add: sm_index_assign_def Let_def lookup_set_pending sm_index_lookup)
    (simp_all add: sm_index_def Let_def checkKeyAndCreate_lookup)

lemma sm_erase_lookup:
  "sm_lookup (fst (sm_erase m k)) = (sm_lookup m)(k := None)" "k \<in> sm_erasedKeys (fst (sm_erase m k))"
proof -
  have e: "fst (sm_erase m k) = (sm_markAsUsed (sm_check m))
      \<lparr>sm_erased := Some (insert k (sm_erasedKeys m)), sm_ptr := Some ((sm_pending m)(k := None))\<rparr>"
    by (simp add: sm_erase_def Let_def)
  show "k \<in> sm_erasedKeys (fst (sm_erase m k))" by (simp add: e)
  show "sm_lookup (fst (sm_erase m k)) = (sm_lookup m)(k := None)"
    unfolding e by (auto simp: sm_lookup_def fun_eq_iff split: option.splits)
qed

lemma sm_commit_simps:
  "sm_map (sm_commit m) = (\<lambda>k. if k \<in> sm_erasedKeys m then None else sm_lookup m k)"
  "sm_erasedKeys (sm_commit m) = sm_erasedKeys m" "sm_pending (sm_commit m) = Map.empty"
  "sm_owner (sm_commit m) = sm_owner m" "\<not> sm_registered (sm_commit m)"
proof -
  show "sm_map (sm_commit m) = (\<lambda>k. if k \<in> sm_erasedKeys m then None else sm_lookup m k)"
    by (auto simp: sm_commit_def Let_def sm_lookup_def fun_eq_iff split: option.splits)
qed (simp_all add: sm_commit_def Let_def sm_pending_def sm_erasedKeys_def sm_check_def split: option.splits)

lemma sm_lookup_commit: "sm_lookup (sm_commit m) = (\<lambda>k. if k \<in> sm_erasedKeys m then None else sm_lookup m k)"
  by (auto simp: sm_lookup_def [of "sm_commit m"] sm_commit_simps fun_eq_iff)

lemma sm_revert_simps:
  "sm_lookup (sm_revert m) = sm_map m" "sm_map (sm_revert m) = sm_map m" "sm_erasedKeys (sm_revert m) = {}"
  "sm_owner (sm_revert m) = sm_owner m" "\<not> sm_registered (sm_revert m)"
  by (simp_all add: sm_revert_def sm_lookup_def sm_pending_def sm_erasedKeys_def fun_eq_iff)

lemma sm_insert_lookup:
  "sm_lookup (fst (sm_insert m k x)) = (if sm_pending m k = None then (sm_lookup m)(k \<mapsto> x) else sm_lookup m)"
  "snd (sm_insert m k x) \<longleftrightarrow> sm_pending m k = None"
  "sm_lookup (fst (insert_or_assign m k x)) = (sm_lookup m)(k \<mapsto> x)"
  by (auto simp: sm_insert_def insert_or_assign_def Let_def sm_lookup_def fun_eq_iff split: option.splits)

lemma sm_at_lookup:
  "sm_lookup m k = None \<Longrightarrow> sm_at m k = Inl (RuntimeError ''Key not found'')"
  "sm_lookup m k = Some x \<Longrightarrow> \<exists>m'. sm_at m k = Inr (m', x) \<and> sm_lookup m' = sm_lookup m"
  by (auto simp: sm_at_def checkKeyAndThrow_def sm_lookup_def Let_def fun_eq_iff split: option.splits if_splits)

text \<open>C29. The operations of the map variable, described on its content, which is the pending value of a key or else its committed one unless the key is
  erased. \<^verbatim>\<open>find\<close>, \<^verbatim>\<open>contains\<close>, \<^verbatim>\<open>count\<close>, \<^verbatim>\<open>at\<close> and \<^verbatim>\<open>operator[]\<close> read the content, \<^verbatim>\<open>at\<close> throwing on a missing key and \<^verbatim>\<open>operator[]\<close> creating the default
  value. An assignment and \<^verbatim>\<open>insert_or_assign\<close> set one key and \<^verbatim>\<open>erase\<close> removes one. \<^verbatim>\<open>insert\<close> and \<^verbatim>\<open>emplace\<close> ask only whether the
  key is pending: they overwrite a value that is committed and not pending, and say that it is new. \<^verbatim>\<open>revert\<close> brings back the committed map;
  \<^verbatim>\<open>commit\<close> makes the content permanent except for the keys ever erased, which it removes. After it \<^verbatim>\<open>size\<close> counts the content, while
  \<^verbatim>\<open>empty\<close> is true whatever the content is.\<close>

theorem SafeMap_content:
  "sm_find m k = sm_lookup m k
   \<and> (sm_contains m k \<longleftrightarrow> k \<in> dom (sm_lookup m)) \<and> sm_count m k = (if k \<in> dom (sm_lookup m) then 1 else 0)
   \<and> (case sm_lookup m k of None \<Rightarrow> sm_at m k = Inl (RuntimeError ''Key not found'')
        | Some v \<Rightarrow> \<exists>m'. sm_at m k = Inr (m', v) \<and> sm_lookup m' = sm_lookup m)
   \<and> snd (sm_index d m k) = (case sm_lookup m k of None \<Rightarrow> d | Some x \<Rightarrow> x)
   \<and> sm_lookup (fst (sm_index d m k)) = (sm_lookup m)(k \<mapsto> (case sm_lookup m k of None \<Rightarrow> d | Some x \<Rightarrow> x))
   \<and> sm_lookup (fst (sm_index_assign d k x m)) = (sm_lookup m)(k \<mapsto> x)
   \<and> sm_lookup (fst (insert_or_assign m k x)) = (sm_lookup m)(k \<mapsto> x)
   \<and> sm_lookup (fst (sm_insert m k x)) = (if sm_pending m k = None then (sm_lookup m)(k \<mapsto> x) else sm_lookup m)
   \<and> (snd (sm_insert m k x) \<longleftrightarrow> sm_pending m k = None) \<and> sm_emplace m k x = sm_insert m k x
   \<and> sm_lookup (fst (sm_erase m k)) = (sm_lookup m)(k := None)
   \<and> sm_lookup (sm_revert m) = sm_map m
   \<and> sm_lookup (sm_commit m) = (sm_lookup m) |` (- sm_erasedKeys m)
   \<and> sm_size (sm_commit m) = card (dom (sm_lookup (sm_commit m))) \<and> sm_empty (sm_commit m)"
proof (intro conjI)
  show "case sm_lookup m k of None \<Rightarrow> sm_at m k = Inl (RuntimeError ''Key not found'')
    | Some v \<Rightarrow> \<exists>m'. sm_at m k = Inr (m', v) \<and> sm_lookup m' = sm_lookup m"
    using sm_at_lookup [of m k] by (auto split: option.split)
  show "sm_lookup (sm_commit m) = (sm_lookup m) |` (- sm_erasedKeys m)"
    by (auto simp: sm_lookup_commit restrict_map_def fun_eq_iff)
  show "sm_size (sm_commit m) = card (dom (sm_lookup (sm_commit m)))"
    by (simp add: sm_size_def sm_lookup_commit sm_commit_simps)
  show "sm_empty (sm_commit m)" by (simp add: sm_empty_def sm_commit_simps)
qed (auto simp: sm_find_lookup sm_contains_lookup sm_count_lookup sm_index_lookup sm_index_assign_lookup sm_insert_lookup
      sm_emplace_def sm_erase_lookup sm_revert_simps)

text \<open>\<^verbatim>\<open>commit\<close> makes the content permanent, provided that no key with a pending value has been
  erased before.\<close>

theorem SafeMap_commit_content:
  assumes "dom (sm_pending m) \<inter> sm_erasedKeys m = {}"
  shows "sm_lookup (sm_commit m) = sm_lookup m \<and> sm_map (sm_commit m) = sm_lookup m"
proof -
  have "sm_lookup m k = None" if "k \<in> sm_erasedKeys m" for k
    using assms that by (auto simp: sm_lookup_def split: option.splits)
  then have "(\<lambda>k. if k \<in> sm_erasedKeys m then None else sm_lookup m k) = sm_lookup m" by (auto simp: fun_eq_iff)
  then show ?thesis by (simp add: sm_lookup_commit sm_commit_simps)
qed

theorem SafeMap_commit_content_witness:
  "sm_lookup (sm_commit (fst (sm_index_assign 0 ''a'' (1::nat) (SafeMap_owned [''b'' \<mapsto> 2]))))
     = [''b'' \<mapsto> 2, ''a'' \<mapsto> 1]"
proof -
  let ?m = "fst (sm_index_assign 0 ''a'' (1::nat) (SafeMap_owned [''b'' \<mapsto> 2]))"
  have e: "sm_erasedKeys ?m = {}"
    unfolding sm_index_assign_lookup by (simp add: SafeMap_owned_def sm_erasedKeys_def)
  have "sm_lookup (SafeMap_owned [''b'' \<mapsto> (2::nat)]) = [''b'' \<mapsto> 2]"
    by (simp add: sm_lookup_def SafeMap_owned_def sm_pending_def sm_erasedKeys_def fun_eq_iff)
  with e SafeMap_commit_content [of ?m] show ?thesis by (simp add: sm_index_assign_lookup)
qed

text \<open>A key that was erased once cannot be written again: the set of erased keys survives \<^verbatim>\<open>commit\<close>, so
  the next \<^verbatim>\<open>commit\<close> removes the key although the call saw its new value.\<close>

theorem SafeMap_erased_key_lost:
  "let m1 = sm_commit (fst (sm_erase m k));
       m2 = fst (sm_index_assign d k x m1)
   in sm_lookup m2 k = Some x \<and> sm_lookup (sm_commit m2) k = None"
  by (simp add: Let_def sm_index_assign_lookup sm_lookup_commit sm_commit_simps sm_erase_lookup)

subsection \<open>Maps that are written but not erased from\<close>

definition sm_writes :: "(('k, 'v) safe_map \<Rightarrow> ('k, 'v) safe_map \<times> unit result) set" where
  "sm_writes = {f. \<exists>d k x. f = sm_index_assign d k x}"

interpretation map_var: safe_variable sm_lookup sm_map "\<lambda>m. sm_owner m \<and> sm_erasedKeys m = {}" sm_registered
  sm_registers sm_commit sm_revert sm_writes
  by unfold_locales
    (auto simp: sm_writes_def sm_registers_def sm_index_assign_lookup sm_lookup_commit sm_commit_simps sm_revert_simps)

end
