(* ===== verification/Safe_String.thy ===== *)
theory Safe_String
  imports Safe_Map
begin

text \<open>
  \<^verbatim>\<open>SafeString\<close> (\<^verbatim>\<open>src/contract/variables/safestring.h\<close>): a string variable of a contract. Every operation that
  changes the string first copies the committed value if there is no pending one, marks the variable as
  used and then runs the operation of \<^verbatim>\<open>std::string\<close> on the pending value; \<^verbatim>\<open>commit\<close> keeps the pending
  value as it is.
\<close>

definition SafeString_owned :: "bytes \<Rightarrow> bytes safe_var" where
  "SafeString_owned s = \<lparr>sv_value = [], sv_ptr = Some s, sv_owner = True, sv_registered = False\<rparr>"

definition SafeString_assign :: "bytes \<Rightarrow> (bytes safe_var, unit) action" where
  "SafeString_assign s = sv_modify (\<lambda>_. Inr s)"

definition SafeString_commit :: "bytes safe_var \<Rightarrow> bytes safe_var" where
  "SafeString_commit v = (sv_check v)\<lparr>sv_value := sv_get v, sv_registered := False\<rparr>"

definition SafeString_revert :: "bytes safe_var \<Rightarrow> bytes safe_var" where
  "SafeString_revert v = v\<lparr>sv_ptr := None, sv_registered := False\<rparr>"

lemma SafeString_commit_simps [simp]:
  "sv_get (SafeString_commit v) = sv_get v" "sv_value (SafeString_commit v) = sv_get v"
  "sv_owner (SafeString_commit v) = sv_owner v" "\<not> sv_registered (SafeString_commit v)"
  by (auto simp: SafeString_commit_def sv_get_eq sv_check_def split: option.splits)

lemma SafeString_revert_eq: "SafeString_revert = sv_revert"
  by (simp add: SafeString_revert_def sv_revert_def fun_eq_iff)

interpretation string_var: safe_variable sv_get sv_value sv_owner sv_registered sv_registers SafeString_commit
  SafeString_revert "range sv_modify"
  by unfold_locales
    (auto simp: SafeString_revert_eq sv_registers_def sv_modify_fst)

end
