(* ===== verification/Bytes.thy ===== *)
theory Bytes
  imports Prelude
begin

text \<open>
  The byte conversions of \<^verbatim>\<open>src/utils/utils.cpp\<close> and \<^verbatim>\<open>src/utils/utils.h\<close>: fixed-width
  big-endian integers, the unpadded \<^verbatim>\<open>uintToBytes\<close> with \<^verbatim>\<open>bytesRequired\<close>, the templated
  \<^verbatim>\<open>fromBigEndian\<close>, and the padding functions. The host is little-endian (the code's
  \<^verbatim>\<open>#if __BYTE_ORDER == __LITTLE_ENDIAN\<close> branches are the ones modelled).

  \<^verbatim>\<open>uint256_t\<close> and \<^verbatim>\<open>uint160_t\<close> are the checked, unsigned, fixed-width integers of
  \<^verbatim>\<open>utils.h\<close>; their values are words of that width, and an operation whose exact result does
  not fit is an exception. \<open>export_bits8\<close> and the import used by \<^verbatim>\<open>bytesToUint256\<close> read and
  write such a value as its base-256 digits, most significant first.
\<close>

subsection \<open>Unpadded integers\<close>

fun bytesRequired :: "nat \<Rightarrow> nat" where
  "bytesRequired i = (if i = 0 then 0 else Suc (bytesRequired (i div 256)))"

declare bytesRequired.simps [simp del]

text \<open>The loop writes the low byte at the back of the buffer and moves towards its front.\<close>

fun uintToBytes_loop :: "nat \<Rightarrow> bytes \<Rightarrow> bytes" where
  "uintToBytes_loop i acc = (if i = 0 then acc else uintToBytes_loop (i div 256) (of_nat i # acc))"

declare uintToBytes_loop.simps [simp del]

definition uintToBytes :: "nat \<Rightarrow> bytes" where
  "uintToBytes i = uintToBytes_loop i []"

text \<open>\<^verbatim>\<open>fromBigEndian<T>\<close> for the built-in unsigned types: the shift drops the high bits.\<close>

definition fromBigEndian :: "bytes \<Rightarrow> 'w::len word" where
  "fromBigEndian bs = foldl (\<lambda>ret i. push_bit 8 ret OR ucast i) 0 bs"

text \<open>\<^verbatim>\<open>fromBigEndian<uint256_t>\<close>: the shift of a checked integer throws when bits are lost.\<close>

fun fromBigEndian256_loop :: "nat \<Rightarrow> bytes \<Rightarrow> uint256 result" where
  "fromBigEndian256_loop ret [] = Inr (of_nat ret)"
| "fromBigEndian256_loop ret (i # bs) =
     (if ret * 256 < 2 ^ 256 then fromBigEndian256_loop (ret * 256 + unat i) bs
      else Inl (OverflowError ''shift''))"

definition fromBigEndian256 :: "bytes \<Rightarrow> uint256 result" where
  "fromBigEndian256 bs = fromBigEndian256_loop 0 bs"

subsection \<open>Fixed-width integers\<close>

definition export_bits8 :: "nat \<Rightarrow> bytes" where
  "export_bits8 n = (if n = 0 then [0] else uintToBytes n)"

text \<open>The loop \<^verbatim>\<open>ret[k - i] = tmp[tmp.size() - i - 1]\<close> that right-aligns \<^verbatim>\<open>tmp\<close> in \<^verbatim>\<open>ret\<close>.\<close>

definition copy_right :: "bytes \<Rightarrow> nat \<Rightarrow> bytes \<Rightarrow> bytes" where
  "copy_right ret k tmp =
     foldl (\<lambda>r i. r[k - i := tmp ! (length tmp - i - 1)]) ret [0..<length tmp]"

definition uint256ToBytes :: "uint256 \<Rightarrow> bytes" where
  "uint256ToBytes i = copy_right (replicate 32 0) 31 (export_bits8 (unat i))"

definition bytesToUint256 :: "bytes \<Rightarrow> uint256 result" where
  "bytesToUint256 b =
     (if length b \<noteq> 32 then Inl (RuntimeError ''bytesToUint256: Invalid bytes size'')
      else Inr (of_nat (be_nat b)))"

definition uint160ToBytes :: "uint160 \<Rightarrow> bytes" where
  "uint160ToBytes i = copy_right (replicate 20 0) 19 (export_bits8 (unat i))"

definition bytesToUint160 :: "bytes \<Rightarrow> uint160 result" where
  "bytesToUint160 b =
     (if length b \<noteq> 20 then Inl (RuntimeError ''bytesToUint160: Invalid bytes size'')
      else Inr (of_nat (be_nat b)))"

text \<open>\<open>mem_of\<close> and \<open>of_mem\<close> are \<^verbatim>\<open>memcpy\<close> to and from an integer object; \<open>bswap\<close> is
  \<^verbatim>\<open>__builtin_bswap\<close> on an object of \<open>k\<close> bytes.\<close>

definition mem_of :: "nat \<Rightarrow> 'w::len word \<Rightarrow> bytes" where
  "mem_of k w = le_bytes k (unat w)"

definition of_mem :: "bytes \<Rightarrow> 'w::len word" where
  "of_mem b = of_nat (le_nat b)"

definition bswap :: "nat \<Rightarrow> 'w::len word \<Rightarrow> 'w word" where
  "bswap k w = of_mem (rev (mem_of k w))"

definition uint64ToBytes :: "uint64 \<Rightarrow> bytes" where
  "uint64ToBytes i = rev (mem_of 8 i)"

definition bytesToUint64 :: "bytes \<Rightarrow> uint64 result" where
  "bytesToUint64 b =
     (if length b \<noteq> 8 then Inl (RuntimeError ''bytesToUint64: Invalid bytes size'')
      else Inr (bswap 8 (of_mem b)))"

definition uint32ToBytes :: "uint32 \<Rightarrow> bytes" where
  "uint32ToBytes i = rev (mem_of 4 i)"

definition bytesToUint32 :: "bytes \<Rightarrow> uint32 result" where
  "bytesToUint32 b =
     (if length b \<noteq> 4 then Inl (RuntimeError ''bytesToUint32: Invalid bytes size'')
      else Inr (bswap 4 (of_mem b)))"

definition uint16ToBytes :: "uint16 \<Rightarrow> bytes" where
  "uint16ToBytes i = rev (mem_of 2 i)"

definition bytesToUint16 :: "bytes \<Rightarrow> uint16 result" where
  "bytesToUint16 b =
     (if length b \<noteq> 2 then Inl (RuntimeError ''bytesToUint16: Invalid bytes size'')
      else Inr (bswap 2 (of_mem b)))"

definition uint8ToBytes :: "uint8 \<Rightarrow> bytes" where
  "uint8ToBytes i = mem_of 1 i"

definition bytesToUint8 :: "bytes \<Rightarrow> uint8 result" where
  "bytesToUint8 b =
     (if length b \<noteq> 1 then Inl (RuntimeError ''bytesToUint8: Invalid bytes size'')
      else Inr (b ! 0))"

subsection \<open>Padding\<close>

definition has_0x :: "string \<Rightarrow> bool" where
  "has_0x str \<longleftrightarrow> take 2 str = ''0x'' \<or> take 2 str = ''0X''"

definition padLeft :: "string \<Rightarrow> nat \<Rightarrow> char \<Rightarrow> string" where
  "padLeft str charAmount sign =
     (let hasPrefix = has_0x str;
          s = (if hasPrefix then drop 2 str else str);
          padding = (if charAmount > length s then charAmount - length s else 0);
          padded = (if padding \<noteq> 0 then replicate padding sign else '''')
      in (if hasPrefix then ''0x'' else '''') @ padded @ s)"

definition padRight :: "string \<Rightarrow> nat \<Rightarrow> char \<Rightarrow> string" where
  "padRight str charAmount sign =
     (let hasPrefix = has_0x str;
          s = (if hasPrefix then drop 2 str else str);
          padding = (if charAmount > length s then charAmount - length s else 0);
          padded = (if padding \<noteq> 0 then replicate padding sign else '''')
      in (if hasPrefix then ''0x'' else '''') @ s @ padded)"

definition padLeftBytes :: "bytes \<Rightarrow> nat \<Rightarrow> byte \<Rightarrow> bytes" where
  "padLeftBytes str charAmount sign =
     (let padding = (if charAmount > length str then charAmount - length str else 0);
          padded = (if padding \<noteq> 0 then replicate padding sign else [])
      in padded @ str)"

definition padRightBytes :: "bytes \<Rightarrow> nat \<Rightarrow> byte \<Rightarrow> bytes" where
  "padRightBytes str charAmount sign =
     (let padding = (if charAmount > length str then charAmount - length str else 0);
          padded = (if padding \<noteq> 0 then replicate padding sign else [])
      in str @ padded)"

subsection \<open>Unpadded integers: value, length, minimality\<close>

lemma bytesRequired_0 [simp, byte_simps]: "bytesRequired 0 = 0"
  by (simp add: bytesRequired.simps)

lemma bytesRequired_pos: "0 < n \<Longrightarrow> bytesRequired n = Suc (bytesRequired (n div 256))"
  by (simp add: bytesRequired.simps [of n])

lemma bytesRequired_upper: "n < 256 ^ bytesRequired n"
proof (induction n rule: bytesRequired.induct)
  case (1 n)
  show ?case
  proof (cases "n = 0")
    case False
    with "1.IH" have "n div 256 < 256 ^ bytesRequired (n div 256)" by simp
    then have "n < 256 * 256 ^ bytesRequired (n div 256)" by (simp add: div_less_iff_less_mult mult.commute)
    with False show ?thesis by (simp add: bytesRequired_pos)
  qed simp
qed

lemma bytesRequired_le: "n < 256 ^ k \<Longrightarrow> bytesRequired n \<le> k"
proof (induction k arbitrary: n)
  case 0
  then show ?case by simp
next
  case (Suc k)
  show ?case
  proof (cases "n = 0")
    case False
    from Suc.prems have "n div 256 < 256 ^ k" by (simp add: div_less_iff_less_mult mult.commute)
    with Suc.IH False show ?thesis by (simp add: bytesRequired_pos)
  qed simp
qed

lemma bytesRequired_eq_0_iff [simp]: "bytesRequired n = 0 \<longleftrightarrow> n = 0"
  by (cases "n = 0") (auto simp: bytesRequired_pos)

lemma bytesRequired_ge: "256 ^ k \<le> n \<Longrightarrow> k < bytesRequired n"
  using bytesRequired_upper [of n] by (metis le_less_trans nat_power_less_imp_less zero_less_numeral)

lemma uintToBytes_loop_eq: "uintToBytes_loop n acc = rev (le_bytes (bytesRequired n) n) @ acc"
proof (induction n acc rule: uintToBytes_loop.induct)
  case (1 n acc)
  show ?case
  proof (cases "n = 0")
    case True
    then show ?thesis by (simp add: uintToBytes_loop.simps)
  next
    case False
    with "1.IH" show ?thesis by (simp add: uintToBytes_loop.simps [of n] bytesRequired_pos)
  qed
qed

lemma uintToBytes_eq: "uintToBytes n = be_bytes (bytesRequired n) n"
  by (simp add: uintToBytes_def uintToBytes_loop_eq be_bytes_def)

lemma uintToBytes_0 [simp, byte_simps]: "uintToBytes 0 = []"
  by (simp add: uintToBytes_eq be_bytes_def)

lemma length_uintToBytes [simp, byte_simps]: "length (uintToBytes n) = bytesRequired n"
  by (simp add: uintToBytes_eq)

lemma be_nat_uintToBytes [simp, byte_simps]: "be_nat (uintToBytes n) = n"
  using bytesRequired_upper [of n] by (simp add: uintToBytes_eq be_nat_be_bytes)

lemma export_bits8_value [simp]: "be_nat (export_bits8 n) = n"
  by (simp add: export_bits8_def)

lemma length_export_bits8: "n < 256 ^ k \<Longrightarrow> 0 < k \<Longrightarrow> length (export_bits8 n) \<le> k"
  by (simp add: export_bits8_def bytesRequired_le)

subsection \<open>Reading big-endian integers\<close>

lemma push_bit_or_byte:
  "unat (push_bit 8 (w :: 'w::len word) OR ucast (b :: byte)) = (256 * unat w + unat b) mod 2 ^ LENGTH('w)"
proof -
  have "push_bit 8 w OR ucast b = push_bit 8 w + ucast b"
    by (rule disjunctive_add [symmetric]) (auto simp: bit_simps dest: bit_imp_le_length)
  also have "\<dots> = of_nat (256 * unat w + unat b)"
    by (simp add: push_bit_eq_mult)
  finally show ?thesis by (simp only: unat_of_nat)
qed

lemma unat_fromBigEndian:
  "unat (fromBigEndian bs :: 'w::len word) = be_nat bs mod 2 ^ LENGTH('w)"
proof (induction bs rule: rev_induct)
  case Nil
  then show ?case by (simp add: fromBigEndian_def)
next
  case (snoc b bs)
  have "fromBigEndian (bs @ [b]) = push_bit 8 (fromBigEndian bs :: 'w word) OR ucast b"
    by (simp add: fromBigEndian_def)
  then show ?case
    by (simp add: push_bit_or_byte snoc be_nat_snoc) (metis mod_add_left_eq mod_mult_right_eq)
qed

lemma fromBigEndian_uintToBytes [simp, byte_simps]:
  "fromBigEndian (uintToBytes (unat (w :: 'w::len word))) = w"
  by (rule word_unat_eq_iff [THEN iffD2]) (simp add: unat_fromBigEndian unsigned_less)

lemma fromBigEndian_uintToBytes_nat:
  "n < 2 ^ LENGTH('w) \<Longrightarrow> unat (fromBigEndian (uintToBytes n) :: 'w::len word) = n"
  by (simp add: unat_fromBigEndian)

lemma fromBigEndian_single: "fromBigEndian [b] = (ucast b :: 'w::len word)"
  by (simp add: fromBigEndian_def)

lemma fromBigEndian256_loop_ok:
  "ret * 256 ^ length bs + be_nat bs < 2 ^ 256 \<Longrightarrow>
   fromBigEndian256_loop ret bs = Inr (of_nat (ret * 256 ^ length bs + be_nat bs))"
proof (induction bs arbitrary: ret)
  case Nil
  then show ?case by simp
next
  case (Cons b bs)
  have val: "be_nat (b # bs) = be_nat bs + 256 ^ length bs * unat b"
    using be_nat_append [of "[b]" bs] by simp
  have split: "ret * 256 ^ length (b # bs) + be_nat (b # bs) = (ret * 256 + unat b) * 256 ^ length bs + be_nat bs"
    by (simp add: val algebra_simps)
  have "ret * 256 * 1 \<le> ret * 256 * 256 ^ length bs" by (rule mult_le_mono2) simp
  also have "\<dots> < 2 ^ 256" using Cons.prems by simp
  finally have "ret * 256 < 2 ^ 256" by simp
  then show ?case using Cons.IH [of "ret * 256 + unat b"] Cons.prems unfolding split
    by (simp del: of_nat_add of_nat_mult)
qed

lemma fromBigEndian256_eq: "be_nat bs < 2 ^ 256 \<Longrightarrow> fromBigEndian256 bs = Inr (of_nat (be_nat bs))"
  using fromBigEndian256_loop_ok [of 0 bs] by (simp add: fromBigEndian256_def)

lemma uint256_lt [simp]: "unat (w :: uint256) < 2 ^ 256"
proof -
  have "unat w < 2 ^ LENGTH(256)" by (rule unsigned_less)
  then show ?thesis by simp
qed

lemma uint64_lt [simp]: "unat (w :: uint64) < 2 ^ 64"
proof -
  have "unat w < 2 ^ LENGTH(64)" by (rule unsigned_less)
  then show ?thesis by simp
qed

lemma fromBigEndian256_uintToBytes [simp, byte_simps]:
  "fromBigEndian256 (uintToBytes (unat (w :: uint256))) = Inr w"
  using uint256_lt [of w] by (simp add: fromBigEndian256_eq del: uint256_lt)

lemma fromBigEndian256_single [simp, byte_simps]: "fromBigEndian256 [b] = Inr (ucast b)"
  by (simp add: fromBigEndian256_def)

lemma fromBigEndian256_len32: "length bs \<le> 32 \<Longrightarrow> fromBigEndian256 bs = Inr (of_nat (be_nat bs))"
proof (rule fromBigEndian256_eq)
  assume "length bs \<le> 32"
  then have "(256::nat) ^ length bs \<le> 256 ^ 32" by (rule power_increasing) simp
  with be_nat_bound [of bs] show "be_nat bs < 2 ^ 256" by (simp del: power_increasing_iff)
qed

subsection \<open>Fixed-width integers: the right-aligning copy\<close>

lemma copy_right_step:
  "m \<le> length (tmp :: bytes) \<Longrightarrow> length tmp \<le> Suc n \<Longrightarrow>
   foldl (\<lambda>r i. r[length pre + (n - i) := tmp ! (length tmp - Suc i)]) (pre @ replicate (Suc n) 0 @ post) [0..<m]
     = pre @ replicate (Suc n - m) 0 @ drop (length tmp - m) tmp @ post"
proof (induction m)
  case 0
  then show ?case by simp
next
  case (Suc m)
  then have IH: "foldl (\<lambda>r i. r[length pre + (n - i) := tmp ! (length tmp - Suc i)]) (pre @ replicate (Suc n) 0 @ post) [0..<m]
     = pre @ replicate (Suc n - m) 0 @ drop (length tmp - m) tmp @ post" by simp
  have pos: "Suc n - m = Suc (n - m)" and dr: "length tmp - m = Suc (length tmp - Suc m)"
    using Suc.prems by auto
  have d: "drop (length tmp - Suc m) tmp = tmp ! (length tmp - Suc m) # drop (length tmp - m) tmp"
    unfolding dr using Suc.prems by (subst Cons_nth_drop_Suc) auto
  have u: "(replicate (Suc (n - m)) 0)[n - m := v] = replicate (n - m) 0 @ [v]" for v :: byte
    by (simp add: list_update_append flip: replicate_append_same)
  have "(pre @ replicate (Suc (n - m)) 0 @ zs)[length pre + (n - m) := v] = pre @ (replicate (n - m) 0 @ [v]) @ zs" for zs and v :: byte
    unfolding u [symmetric] by (simp add: list_update_append del: replicate_Suc)
  then show ?case unfolding d
    by (simp only: upt_Suc_append zero_le foldl_append IH pos foldl.simps append_assoc append_Cons append_Nil diff_Suc_Suc)
qed

lemma copy_right_app:
  assumes "length tmp \<le> Suc n" and "k = length pre + n"
  shows "copy_right (pre @ replicate (Suc n) 0 @ post) k tmp = pre @ replicate (Suc n - length tmp) 0 @ tmp @ post"
proof -
  have "copy_right (pre @ replicate (Suc n) 0 @ post) k tmp
    = foldl (\<lambda>r i. r[length pre + (n - i) := tmp ! (length tmp - Suc i)]) (pre @ replicate (Suc n) 0 @ post) [0..<length tmp]"
    unfolding copy_right_def
  proof (rule foldl_cong)
    fix a x
    assume "x \<in> set [0..<length tmp]"
    with assms have "k - x = length pre + (n - x)" and "length tmp - x - 1 = length tmp - Suc x" by auto
    then show "a[k - x := tmp ! (length tmp - x - 1)] = a[length pre + (n - x) := tmp ! (length tmp - Suc x)]"
      by simp
  qed simp_all
  with copy_right_step [of "length tmp" tmp n pre post] assms(1) show ?thesis by simp
qed

lemma copy_right_export_app:
  assumes "v < 256 ^ Suc n" and "k = length pre + n"
  shows "copy_right (pre @ replicate (Suc n) 0 @ post) k (export_bits8 v) = pre @ be_bytes (Suc n) v @ post"
proof -
  let ?m = "replicate (Suc n - length (export_bits8 v)) 0 @ export_bits8 v"
  have le: "length (export_bits8 v) \<le> Suc n" using assms(1) by (rule length_export_bits8) simp
  then have len: "length ?m = Suc n" by simp
  have "be_nat ?m = v" by simp
  with be_bytes_be_nat_eq [OF len] have "?m = be_bytes (Suc n) v" by simp
  with copy_right_app [OF le assms(2), of post] show ?thesis by simp
qed

lemma copy_right_export:
  "v < 256 ^ Suc k \<Longrightarrow> copy_right (replicate (Suc k) 0) k (export_bits8 v) = be_bytes (Suc k) v"
  using copy_right_export_app [of v k k "[]" "[]"] by simp

lemma uint256ToBytes_eq: "uint256ToBytes w = be_bytes 32 (unat w)"
  using copy_right_export [of "unat w" 31] uint256_lt [of w]
  by (simp add: uint256ToBytes_def del: uint256_lt replicate.simps)

lemma uint160_lt [simp]: "unat (w :: uint160) < 2 ^ 160"
proof -
  have "unat w < 2 ^ LENGTH(160)" by (rule unsigned_less)
  then show ?thesis by simp
qed

lemma uint160ToBytes_eq: "uint160ToBytes w = be_bytes 20 (unat w)"
  using copy_right_export [of "unat w" 19] uint160_lt [of w]
  by (simp add: uint160ToBytes_def del: uint160_lt replicate.simps)

subsection \<open>The contract of a fixed-width codec\<close>

text \<open>
  Every integer the wire formats carry is written by one function and read back by another; their
  clients (block headers, P2P messages, database entries) rely on exactly these laws.
\<close>

locale int_codec =
  fixes enc :: "'a \<Rightarrow> bytes"
    and dec :: "bytes \<Rightarrow> 'a result"
    and width :: nat
  assumes length_enc: "length (enc x) = width"
    and dec_enc: "dec (enc x) = Inr x"
    and enc_dec: "dec b = Inr x \<Longrightarrow> enc x = b"
    and dec_total: "length b = width \<Longrightarrow> \<exists>x. dec b = Inr x"
begin

lemma enc_inject: "enc x = enc y \<longleftrightarrow> x = y"
  by (metis dec_enc sum.inject(2))

lemma dec_Inr_iff: "dec b = Inr x \<longleftrightarrow> b = enc x"
  using dec_enc enc_dec by blast

lemma dec_fails_iff: "(\<exists>e. dec b = Inl e) \<longleftrightarrow> length b \<noteq> width"
  by (cases "dec b") (use dec_total length_enc enc_dec in fastforce)+

lemma dec_substr: "length xs = i \<Longrightarrow> bindE (substr (xs @ enc x @ ys) i width) dec = Inr x"
  by (simp add: substr_app_eq length_enc dec_enc)

end

lemma unat_of_nat_be_nat:
  "length b = k \<Longrightarrow> (256::nat) ^ k = 2 ^ LENGTH('w) \<Longrightarrow> unat (of_nat (be_nat b) :: 'w::len word) = be_nat b"
  using be_nat_bound [of b] by (simp add: unat_of_nat)

lemma be_codec:
  assumes "(256::nat) ^ k = 2 ^ LENGTH('w)"
  shows "int_codec (\<lambda>w :: 'w::len word. be_bytes k (unat w))
           (\<lambda>b. if length b \<noteq> k then Inl e else Inr (of_nat (be_nat b))) k"
proof unfold_locales
  fix x :: "'w word"
  have "unat x < 256 ^ k" using assms unsigned_less [of x] by simp
  then show "(if length (be_bytes k (unat x)) \<noteq> k then Inl e else Inr (of_nat (be_nat (be_bytes k (unat x))))) = Inr x"
    by (simp add: be_nat_be_bytes)
next
  fix b and x :: "'w word"
  assume "(if length b \<noteq> k then Inl e else Inr (of_nat (be_nat b))) = Inr x"
  then have len: "length b = k" and x: "x = of_nat (be_nat b)" by (auto split: if_splits)
  from len assms have "unat x = be_nat b" unfolding x by (rule unat_of_nat_be_nat)
  with len show "be_bytes k (unat x) = b" by (simp add: be_bytes_be_nat_eq)
qed auto

lemma rev_mem_of: "rev (mem_of k w) = be_bytes k (unat w)"
  by (simp add: mem_of_def be_bytes_def)

lemma bswap_of_mem:
  assumes "length b = k" and "(256::nat) ^ k = 2 ^ LENGTH('w)"
  shows "bswap k (of_mem b) = (of_nat (be_nat b) :: 'w::len word)"
proof -
  have "unat (of_mem b :: 'w word) = le_nat b"
    using le_nat_bound [of b] assms by (simp add: of_mem_def unat_of_nat)
  then show ?thesis
    using le_bytes_le_nat [of b] assms(1) by (simp add: bswap_def mem_of_def of_mem_def be_nat_def)
qed

lemma mem_codec:
  assumes "(256::nat) ^ k = 2 ^ LENGTH('w)"
  shows "int_codec (\<lambda>w :: 'w::len word. rev (mem_of k w))
           (\<lambda>b. if length b \<noteq> k then Inl e else Inr (bswap k (of_mem b))) k"
proof -
  have "(\<lambda>b. if length b \<noteq> k then Inl e else Inr (bswap k (of_mem b) :: 'w word))
      = (\<lambda>b. if length b \<noteq> k then Inl e else Inr (of_nat (be_nat b)))"
    using assms by (auto simp: bswap_of_mem fun_eq_iff)
  then show ?thesis unfolding rev_mem_of using be_codec [OF assms] by simp
qed

lemma u256_fun: "uint256ToBytes = (\<lambda>w. be_bytes 32 (unat w))"
  by (simp add: fun_eq_iff uint256ToBytes_eq)

lemma u160_fun: "uint160ToBytes = (\<lambda>w. be_bytes 20 (unat w))"
  by (simp add: fun_eq_iff uint160ToBytes_eq)

interpretation codec256: int_codec uint256ToBytes bytesToUint256 32
  unfolding u256_fun bytesToUint256_def [abs_def] by (rule be_codec) simp

interpretation codec160: int_codec uint160ToBytes bytesToUint160 20
  unfolding u160_fun bytesToUint160_def [abs_def] by (rule be_codec) simp

interpretation codec64: int_codec uint64ToBytes bytesToUint64 8
  unfolding uint64ToBytes_def [abs_def] bytesToUint64_def [abs_def] by (rule mem_codec) simp

interpretation codec32: int_codec uint32ToBytes bytesToUint32 4
  unfolding uint32ToBytes_def [abs_def] bytesToUint32_def [abs_def] by (rule mem_codec) simp

interpretation codec16: int_codec uint16ToBytes bytesToUint16 2
  unfolding uint16ToBytes_def [abs_def] bytesToUint16_def [abs_def] by (rule mem_codec) simp

interpretation codec8: int_codec uint8ToBytes bytesToUint8 1
proof unfold_locales
  fix b :: bytes and x
  show "bytesToUint8 (uint8ToBytes x) = Inr x"
    by (simp add: uint8ToBytes_def bytesToUint8_def mem_of_def)
  assume "bytesToUint8 b = Inr x"
  then show "uint8ToBytes x = b"
    by (cases b) (auto simp: bytesToUint8_def uint8ToBytes_def mem_of_def split: if_splits)
qed (auto simp: bytesToUint8_def uint8ToBytes_def mem_of_def)

lemmas codec_lengths [simp, byte_simps] =
  codec256.length_enc codec160.length_enc codec64.length_enc codec32.length_enc
  codec16.length_enc codec8.length_enc

lemmas codec_roundtrips [simp, byte_simps] =
  codec256.dec_enc codec160.dec_enc codec64.dec_enc codec32.dec_enc codec16.dec_enc codec8.dec_enc

subsection \<open>Padding\<close>

lemma padLeftBytes_eq: "padLeftBytes s n c = replicate (n - length s) c @ s"
  by (simp add: padLeftBytes_def Let_def)

lemma padRightBytes_eq: "padRightBytes s n c = s @ replicate (n - length s) c"
  by (simp add: padRightBytes_def Let_def)

lemma length_padLeftBytes [simp, byte_simps]: "length (padLeftBytes s n c) = max n (length s)"
  by (simp add: padLeftBytes_eq)

lemma length_padRightBytes [simp, byte_simps]: "length (padRightBytes s n c) = max n (length s)"
  by (simp add: padRightBytes_eq)

lemma padLeft_no_prefix: "\<not> has_0x s \<Longrightarrow> padLeft s n c = replicate (n - length s) c @ s"
  by (simp add: padLeft_def Let_def)

lemma padRight_no_prefix: "\<not> has_0x s \<Longrightarrow> padRight s n c = s @ replicate (n - length s) c"
  by (simp add: padRight_def Let_def)

lemma padLeft_prefix: "has_0x s \<Longrightarrow> padLeft s n c = ''0x'' @ replicate (n - (length s - 2)) c @ drop 2 s"
  by (simp add: padLeft_def Let_def)

lemma padRight_prefix: "has_0x s \<Longrightarrow> padRight s n c = ''0x'' @ drop 2 s @ replicate (n - (length s - 2)) c"
  by (simp add: padRight_def Let_def)

subsection \<open>The codecs as one statement\<close>

text \<open>Each fixed-width decoder accepts exactly the bytes its encoder writes: for every input
  and every value, decoding succeeds with the value if and only if the input is the value's
  big-endian encoding.\<close>

theorem int_codecs_exact:
  "(bytesToUint256 b = Inr x256 \<longleftrightarrow> b = uint256ToBytes x256)
   \<and> (bytesToUint160 b = Inr x160 \<longleftrightarrow> b = uint160ToBytes x160)
   \<and> (bytesToUint64 b = Inr x64 \<longleftrightarrow> b = uint64ToBytes x64)
   \<and> (bytesToUint32 b = Inr x32 \<longleftrightarrow> b = uint32ToBytes x32)
   \<and> (bytesToUint16 b = Inr x16 \<longleftrightarrow> b = uint16ToBytes x16)
   \<and> (bytesToUint8 b = Inr x8 \<longleftrightarrow> b = uint8ToBytes x8)"
  by (intro conjI codec256.dec_Inr_iff codec160.dec_Inr_iff codec64.dec_Inr_iff codec32.dec_Inr_iff
      codec16.dec_Inr_iff codec8.dec_Inr_iff)

text \<open>The unpadded encoding is minimal: no shorter byte string has the same big-endian value,
  and the checked 256-bit reader returns the value.\<close>

theorem uintToBytes_minimal:
  assumes "length bs < bytesRequired (unat x)"
  shows "be_nat bs \<noteq> unat x \<and> length (uintToBytes (unat x)) = bytesRequired (unat x)
    \<and> fromBigEndian256 (uintToBytes (unat (x :: uint256))) = Inr x"
proof -
  have "bytesRequired (be_nat bs) \<le> length bs" by (rule bytesRequired_le [OF be_nat_bound])
  with assms show ?thesis by auto
qed

theorem uintToBytes_minimal_witness:
  "be_nat [255] \<noteq> unat (256 :: uint256) \<and> length (uintToBytes (unat (256 :: uint256))) = bytesRequired (unat (256 :: uint256))
   \<and> fromBigEndian256 (uintToBytes (unat (256 :: uint256))) = Inr 256"
  by (rule uintToBytes_minimal) (simp add: bytesRequired_pos)

end
