(* ===== verification/Crypto.thy ===== *)
theory Crypto
  imports Bytes
begin

text \<open>
  Fixed-size strings (\<^verbatim>\<open>src/utils/strings.h\<close>, \<^verbatim>\<open>strings.cpp\<close>) and the signature layer
  (\<^verbatim>\<open>src/utils/ecdsa.cpp\<close>, \<^verbatim>\<open>Utils::sha3\<close>).

  The hash function and the elliptic-curve operations live in the libraries ethash and
  libsecp256k1, which are not part of the repository. They are the fields of the record
  \<open>crypto\<close>, an argument of every definition that reaches them. \<^verbatim>\<open>ethash_hash256\<close> is a block of
  32 bytes, so the type of \<open>keccak256\<close> is a 256-bit word, the block read big-endian; raw keys and
  signatures are the opaque byte arrays the library's structs hold; a C function that returns 0 on
  failure returns \<open>None\<close>. No property of these functions is assumed anywhere in this theory.
\<close>

record crypto =
  keccak256 :: "bytes \<Rightarrow> uint256"
  ec_pubkey_create :: "bytes \<Rightarrow> bytes option"
  ec_pubkey_parse :: "bytes \<Rightarrow> bytes option"
  ec_pubkey_serialize :: "bool \<Rightarrow> bytes \<Rightarrow> bytes"
  ecdsa_parse_compact :: "bytes \<Rightarrow> int \<Rightarrow> bytes option"
  ecdsa_recover :: "bytes \<Rightarrow> bytes \<Rightarrow> bytes option"
  ecdsa_sign_recoverable :: "bytes \<Rightarrow> bytes \<Rightarrow> bytes option"
  ecdsa_serialize_compact :: "bytes \<Rightarrow> bytes \<times> int"

subsection \<open>Fixed-size strings\<close>

text \<open>\<^verbatim>\<open>FixedStr<N>\<close> built from a string: \<^verbatim>\<open>data.resize(N)\<close>.\<close>

definition FixedStr :: "nat \<Rightarrow> bytes \<Rightarrow> bytes" where
  "FixedStr n s = take n s @ replicate (n - length s) 0"

text \<open>\<^verbatim>\<open>explicit operator bool\<close>: some byte is not zero.\<close>

definition nonzero_str :: "bytes \<Rightarrow> bool" where
  "nonzero_str s \<longleftrightarrow> list_ex (\<lambda>b. b \<noteq> 0) s"

text \<open>\<^verbatim>\<open>Hash(std::string_view)\<close> copies into the 32-byte buffer the default constructor made.\<close>

definition Hash_view :: "bytes \<Rightarrow> bytes result" where
  "Hash_view sv = (if length sv \<le> 32 then Inr (sv @ replicate (32 - length sv) 0) else Inl UndefinedBehaviour)"

definition Hash_uint256 :: "uint256 \<Rightarrow> bytes" where
  "Hash_uint256 n = FixedStr 32 (uint256ToBytes n)"

definition Hash_toUint256 :: "bytes \<Rightarrow> uint256 result" where
  "Hash_toUint256 h = bytesToUint256 h"

definition Address_bytes :: "bytes \<Rightarrow> bytes result" where
  "Address_bytes add =
     (if length add \<noteq> 20 then Inl (InvalidArgument ''Address must be 20 bytes long.'') else Inr add)"

definition Signature_r :: "bytes \<Rightarrow> uint256 result" where
  "Signature_r sig = bindE (substr sig 0 32) bytesToUint256"

definition Signature_s :: "bytes \<Rightarrow> uint256 result" where
  "Signature_s sig = bindE (substr sig 32 32) bytesToUint256"

definition Signature_v :: "bytes \<Rightarrow> uint8 result" where
  "Signature_v sig = bindE (substr sig 64 1) bytesToUint8"

subsection \<open>Hashing and signatures\<close>

definition sha3 :: "crypto \<Rightarrow> bytes \<Rightarrow> bytes" where
  "sha3 C input = uint256ToBytes (keccak256 C input)"

definition ecConst :: uint256 where
  "ecConst = 115792089237316195423570985008687907852837564279074904382605163141518161494337"

definition recover :: "crypto \<Rightarrow> bytes \<Rightarrow> bytes \<Rightarrow> bytes" where
  "recover C sig msg =
     (let v = sint (sig ! 64) in
      if v > 3 then FixedStr 65 []
      else case ecdsa_parse_compact C sig v of
        None \<Rightarrow> FixedStr 65 []
      | Some rawSig \<Rightarrow>
          (case ecdsa_recover C rawSig msg of
             None \<Rightarrow> FixedStr 65 []
           | Some rawPubkey \<Rightarrow> FixedStr 65 (ec_pubkey_serialize C False rawPubkey)))"

definition makeSig :: "uint256 \<Rightarrow> uint256 \<Rightarrow> uint8 \<Rightarrow> bytes" where
  "makeSig r s v =
     (let sig0 = replicate 65 0;
          sig1 = copy_right sig0 31 (export_bits8 (unat r));
          sig2 = copy_right sig1 63 (export_bits8 (unat s))
      in FixedStr 65 (sig2[64 := v]))"

definition verifySig :: "uint256 \<Rightarrow> uint256 \<Rightarrow> uint8 \<Rightarrow> bool" where
  "verifySig r s v \<longleftrightarrow> v \<le> 1 \<and> r > 0 \<and> s > 0 \<and> r < ecConst \<and> s < ecConst"

definition toUPub :: "crypto \<Rightarrow> bytes \<Rightarrow> bytes" where
  "toUPub C key = (case ec_pubkey_create C key of
     None \<Rightarrow> FixedStr 65 []
   | Some rawPubkey \<Rightarrow> FixedStr 65 (ec_pubkey_serialize C False rawPubkey))"

definition toUPub_of_PubKey :: "crypto \<Rightarrow> bytes \<Rightarrow> bytes" where
  "toUPub_of_PubKey C key = (case ec_pubkey_parse C key of
     None \<Rightarrow> FixedStr 65 []
   | Some rawPubkey \<Rightarrow> FixedStr 65 (ec_pubkey_serialize C False rawPubkey))"

definition toPub :: "crypto \<Rightarrow> bytes \<Rightarrow> bytes" where
  "toPub C key = (case ec_pubkey_create C key of
     None \<Rightarrow> FixedStr 33 []
   | Some rawPubkey \<Rightarrow> FixedStr 33 (ec_pubkey_serialize C True rawPubkey))"

definition toAddress :: "crypto \<Rightarrow> bytes \<Rightarrow> bytes" where
  "toAddress C key = drop 12 (sha3 C (take 64 (drop 1 key)))"

definition sign :: "crypto \<Rightarrow> bytes \<Rightarrow> bytes \<Rightarrow> bytes result" where
  "sign C msg key = (case ecdsa_sign_recoverable C msg key of
     None \<Rightarrow> Inr (FixedStr 65 [])
   | Some rawSig \<Rightarrow>
       (let (out, v) = ecdsa_serialize_compact C rawSig;
            sig = FixedStr 64 out @ [0];
            rawV = (of_int v :: uint8)
        in bindE (bindE (substr sig 0 32) bytesToUint256) (\<lambda>r.
           bindE (bindE (substr sig 32 32) bytesToUint256) (\<lambda>s.
             if s > ecConst div 2
             then (if s \<le> ecConst then Inr (makeSig r (ecConst - s) (rawV XOR 1))
                   else Inl (RangeError ''Subtraction resulted in a negative value''))
             else Inr (makeSig r s rawV)))))"

subsection \<open>Lengths\<close>

lemma length_FixedStr [simp, byte_simps]: "length (FixedStr n s) = n"
  by (simp add: FixedStr_def)

lemma FixedStr_id: "length s = n \<Longrightarrow> FixedStr n s = s"
  by (simp add: FixedStr_def)

lemma length_sha3 [simp, byte_simps]: "length (sha3 C x) = 32"
  by (simp add: sha3_def)

lemma length_toAddress [simp, byte_simps]: "length (toAddress C k) = 20"
  by (simp add: toAddress_def)

lemma Hash_view_32: "length s = 32 \<Longrightarrow> Hash_view s = Inr s"
  by (simp add: Hash_view_def)

lemma Hash_uint256_eq: "Hash_uint256 n = uint256ToBytes n"
  by (simp add: Hash_uint256_def FixedStr_id)

lemma Hash_toUint256_of [simp]: "Hash_toUint256 (Hash_uint256 n) = Inr n"
  by (simp add: Hash_toUint256_def Hash_uint256_eq)

lemma length_toUPub [simp, byte_simps]: "length (toUPub C k) = 65"
  by (simp add: toUPub_def split: option.splits)

lemma length_recover [simp, byte_simps]: "length (recover C s m) = 65"
  by (simp add: recover_def Let_def split: option.splits)

subsection \<open>Signatures are the concatenation of their parts\<close>

lemma makeSig_eq: "makeSig r s v = uint256ToBytes r @ uint256ToBytes s @ [v]"
proof -
  have n1: "65 = Suc 31 + (33::nat)" and n2: "33 = Suc 31 + (1::nat)" by simp_all
  have z: "replicate 65 (0::byte) = [] @ replicate (Suc 31) 0 @ replicate 33 0"
    unfolding n1 by (simp only: replicate_add append_Nil)
  have z2: "replicate 33 (0::byte) = replicate (Suc 31) 0 @ [0]"
    by (subst n2) (simp only: replicate_add One_nat_def replicate.simps)
  have r: "unat r < 256 ^ Suc 31" and s: "unat s < 256 ^ Suc 31"
    using uint256_lt [of r] uint256_lt [of s] by (simp_all del: uint256_lt)
  have 1: "copy_right (replicate 65 0) 31 (export_bits8 (unat r)) = uint256ToBytes r @ replicate 33 0"
    unfolding z by (subst copy_right_export_app [OF r]) (simp_all add: uint256ToBytes_eq)
  have 2: "copy_right (uint256ToBytes r @ replicate 33 0) 63 (export_bits8 (unat s))
    = uint256ToBytes r @ uint256ToBytes s @ [0]"
    unfolding z2 by (subst copy_right_export_app [OF s]) (simp_all add: uint256ToBytes_eq)
  have "(uint256ToBytes r @ uint256ToBytes s @ [0])[64 := v] = uint256ToBytes r @ uint256ToBytes s @ [v]"
    by (simp add: list_update_append)
  then show ?thesis by (simp add: makeSig_def Let_def 1 2 FixedStr_id del: replicate.simps)
qed

lemma length_makeSig [simp, byte_simps]: "length (makeSig r s v) = 65"
  by (simp add: makeSig_eq)

lemma Signature_parts [simp, byte_simps]:
  "Signature_r (makeSig r s v) = Inr r"
  "Signature_s (makeSig r s v) = Inr s"
  "Signature_v (makeSig r s v) = Inr v"
  by (simp_all add: Signature_r_def Signature_s_def Signature_v_def makeSig_eq substr_def bytesToUint8_def)

lemma makeSig_of_parts:
  assumes "length sig = 65" and "Signature_r sig = Inr r" and "Signature_s sig = Inr s"
    and "Signature_v sig = Inr v"
  shows "makeSig r s v = sig"
proof -
  have r: "uint256ToBytes r = take 32 sig" and s: "uint256ToBytes s = take 32 (drop 32 sig)"
    using assms by (auto simp: Signature_r_def Signature_s_def substr_def intro: codec256.enc_dec)
  have "v = sig ! 64"
    using assms by (auto simp: Signature_v_def substr_def bytesToUint8_def)
  then have "[v] = drop 64 sig"
    using Cons_nth_drop_Suc [of 64 sig] assms(1) by simp
  then show ?thesis unfolding makeSig_eq r s
    using append_take_drop_id [of 32 "drop 32 sig"] by simp
qed

lemma Signature_parts_total:
  assumes "length sig = 65"
  obtains r s where "Signature_r sig = Inr r" "Signature_s sig = Inr s" "Signature_v sig = Inr (sig ! 64)"
proof -
  have "\<exists>r. Signature_r sig = Inr r" and "\<exists>s. Signature_s sig = Inr s"
    using assms by (auto simp: Signature_r_def Signature_s_def substr_def intro!: codec256.dec_total)
  moreover have "Signature_v sig = Inr (sig ! 64)"
    using assms by (simp add: Signature_v_def substr_def bytesToUint8_def)
  ultimately show thesis using that by blast
qed

lemma sign_length: "sign C msg key = Inr sig \<Longrightarrow> length sig = 65"
  by (auto simp: sign_def Let_def split: option.splits prod.splits if_splits)

lemma uint256ToBytes_0: "uint256ToBytes 0 = replicate 32 0"
  by (rule codec256.enc_dec) (simp add: bytesToUint256_def be_nat_zeros [of _ "[]", simplified])

lemma zero_signature: "FixedStr 65 [] = makeSig 0 0 0"
proof -
  have "replicate 65 0 = replicate 32 0 @ replicate 32 0 @ replicate 1 (0::byte)"
    by (simp only: replicate_add [symmetric]) simp
  then show ?thesis by (simp add: makeSig_eq FixedStr_def uint256ToBytes_0)
qed

lemma upper_half_minus:
  fixes s N :: uint256
  assumes "s > N div 2" and "s \<le> N"
  shows "N - s \<le> N div 2"
proof -
  have "unat (N div 2) = unat N div 2" by (simp add: unat_div)
  with assms show ?thesis by (simp add: word_less_nat_alt word_le_nat_alt unat_sub)
qed

lemma ecConst_half: "s > ecConst div 2 \<Longrightarrow> s \<le> ecConst \<Longrightarrow> ecConst - s \<le> ecConst div 2"
  by (rule upper_half_minus)

text \<open>What libsecp256k1 documents of a signature it makes with a valid key: sixty-four bytes, the values r and s between
  zero and the order of the curve, and a recovery id. The ids two and three, which the parsers of the repository reject, are excluded
  here: the library gives them when the x coordinate of the nonce point is not below the order.\<close>

definition library_signs :: "crypto \<Rightarrow> bytes \<Rightarrow> bytes \<Rightarrow> bool" where
  "library_signs C msg key \<longleftrightarrow> (\<exists>raw r s v. ecdsa_sign_recoverable C msg key = Some raw
     \<and> ecdsa_serialize_compact C raw = (uint256ToBytes r @ uint256ToBytes s, v)
     \<and> 0 < r \<and> r < ecConst \<and> 0 < s \<and> s < ecConst \<and> (v = 0 \<or> v = 1))"

text \<open>Taking the low half of s keeps such a signature in the range the parsers require.\<close>

lemma sign_in_range:
  assumes "library_signs C msg key"
  shows "\<exists>r s v. sign C msg key = Inr (makeSig r s v) \<and> verifySig r s v"
proof -
  obtain raw r s v where raw: "ecdsa_sign_recoverable C msg key = Some raw"
    "ecdsa_serialize_compact C raw = (uint256ToBytes r @ uint256ToBytes s, v)"
    and range: "0 < r" "r < ecConst" "0 < s" "s < ecConst" "v = 0 \<or> v = 1"
    using assms unfolding library_signs_def by blast
  have sub: "substr (FixedStr 64 (uint256ToBytes r @ uint256ToBytes s) @ [0]) 0 32 = Inr (uint256ToBytes r)"
    "substr (FixedStr 64 (uint256ToBytes r @ uint256ToBytes s) @ [0]) 32 32 = Inr (uint256ToBytes s)"
    by (simp_all add: FixedStr_id substr_def)
  have v: "(of_int v :: uint8) \<le> 1" "(of_int v :: uint8) XOR 1 \<le> 1" using range(5) by auto
  have "0 < ecConst - s" "ecConst - s < ecConst"
    using range(3,4) by (simp_all add: word_less_nat_alt unat_sub word_le_nat_alt)
  with range v show ?thesis
    by (cases "s > ecConst div 2") (auto simp: sign_def raw sub Let_def verifySig_def)
qed

text \<open>A concrete provider, used only to show that hypotheses can hold: one key pair, one signature.\<close>

definition demo_crypto :: crypto where
  "demo_crypto = \<lparr>
     keccak256 = (\<lambda>_. 1),
     ec_pubkey_create = (\<lambda>_. Some (replicate 65 4)),
     ec_pubkey_parse = (\<lambda>_. Some (replicate 65 4)),
     ec_pubkey_serialize = (\<lambda>_ raw. raw),
     ecdsa_parse_compact = (\<lambda>s _. Some s),
     ecdsa_recover = (\<lambda>_ _. Some (replicate 65 4)),
     ecdsa_sign_recoverable = (\<lambda>_ _. Some []),
     ecdsa_serialize_compact = (\<lambda>_. (uint256ToBytes 5 @ uint256ToBytes 7, 0))\<rparr>"

lemma demo_sign: "sign demo_crypto msg key = Inr (makeSig 5 7 0)"
proof -
  have 1: "substr ((uint256ToBytes 5 @ uint256ToBytes 7) @ [0]) 0 32 = Inr (uint256ToBytes 5)"
    and 2: "substr ((uint256ToBytes 5 @ uint256ToBytes 7) @ [0]) 32 32 = Inr (uint256ToBytes 7)"
    by (simp_all add: substr_def)
  show ?thesis
    by (simp add: sign_def demo_crypto_def FixedStr_id Let_def 1 [simplified] 2 [simplified] ecConst_def)
qed

lemma demo_library_signs: "library_signs demo_crypto msg key"
proof -
  have "(0::uint256) < 5 \<and> (5::uint256) < ecConst \<and> (0::uint256) < 7 \<and> (7::uint256) < ecConst" by (simp add: ecConst_def)
  moreover have "ecdsa_sign_recoverable demo_crypto msg key = Some []"
    "ecdsa_serialize_compact demo_crypto [] = (uint256ToBytes 5 @ uint256ToBytes 7, 0)" by (simp_all add: demo_crypto_def)
  ultimately show ?thesis unfolding library_signs_def by blast
qed

lemma demo_toUPub: "toUPub demo_crypto key = replicate 65 4"
  by (simp add: toUPub_def demo_crypto_def FixedStr_id)

lemma demo_recover: "recover demo_crypto (makeSig r s 0) msg = replicate 65 4"
  by (simp add: recover_def demo_crypto_def FixedStr_id makeSig_eq nth_append Let_def
     )

lemma demo_nonzero: "nonzero_str (replicate 65 4)"
  by (simp add: nonzero_str_def list_ex_iff)

text \<open>The signing function produces the low half of the two equivalent values of s, whatever
  the library returned, so a signature has one canonical form.\<close>

theorem sign_low_s:
  assumes "sign C msg key = Inr sig"
  shows "\<exists>s. Signature_s sig = Inr s \<and> s \<le> ecConst div 2"
proof (cases "ecdsa_sign_recoverable C msg key")
  case None
  with None assms show ?thesis by (auto simp: sign_def zero_signature)
next
  case (Some rawSig)
  obtain out v where c: "ecdsa_serialize_compact C rawSig = (out, v)" by fastforce
  from assms Some c obtain r s where
    "(if s > ecConst div 2
      then (if s \<le> ecConst then Inr (makeSig r (ecConst - s) ((of_int v :: uint8) XOR 1))
            else Inl (RangeError ''Subtraction resulted in a negative value''))
      else Inr (makeSig r s (of_int v))) = Inr sig"
    unfolding sign_def by (auto simp only: Let_def option.case case_prod_conv bindE_eq_Inr)
  then show ?thesis
    by (cases "s > ecConst div 2"; cases "s \<le> ecConst") (auto simp: ecConst_half not_less)
qed

theorem sign_low_s_witness:
  "sign demo_crypto [] [] = Inr (makeSig 5 7 0)
   \<and> (\<exists>s. Signature_s (makeSig 5 7 0) = Inr s \<and> s \<le> ecConst div 2)"
  using sign_low_s [OF demo_sign [of "[]" "[]"]] demo_sign by blast

end
