(* ===== verification/Hex_Strings.thy ===== *)
theory Hex_Strings
  imports Crypto
begin

text \<open>
  Hexadecimal strings (\<^verbatim>\<open>src/utils/hex.cpp\<close>) and the textual forms of addresses (\<^verbatim>\<open>src/utils/strings.cpp\<close>).
  Text is a list of characters, raw data a list of bytes. Reading \<^verbatim>\<open>s[i]\<close> of a \<^verbatim>\<open>std::string\<close> at its size gives
  the terminating zero character and behind it is undefined; of a \<^verbatim>\<open>std::string_view\<close> it is undefined at
  the size already.
\<close>

definition str_at :: "string \<Rightarrow> nat \<Rightarrow> char result" where
  "str_at s i = (if i < length s then Inr (s ! i) else if i = length s then Inr (CHR 0x00) else Inl UndefinedBehaviour)"

definition hex_filter :: string where
  "hex_filter = ''0123456789abcdefABCDEF''"

text \<open>\<^verbatim>\<open>find_first_not_of(filter, off) == npos\<close>\<close>

definition only_hex_from :: "string \<Rightarrow> nat \<Rightarrow> bool" where
  "only_hex_from s off \<longleftrightarrow> list_all (\<lambda>c. c \<in> set hex_filter) (drop off s)"

record Hex =
  hx_hex :: string
  hx_strict :: bool

definition Hex_isValid :: "string \<Rightarrow> bool \<Rightarrow> bool" where
  "Hex_isValid hex strict =
     (if strict \<and> take 2 hex \<noteq> ''0x'' \<and> take 2 hex \<noteq> ''0X'' then False
      else only_hex_from hex (if strict then 2 else 0))"

text \<open>The condition \<^verbatim>\<open>ret[1] != 'x' || ret[1] != 'X'\<close> is always true, so in strict mode the prefix is inserted
  whenever the string does not begin with the digit zero.\<close>

definition Hex_new :: "string \<Rightarrow> bool \<Rightarrow> Hex result" where
  "Hex_new v strict =
     bindE (if strict
            then bindE (str_at v 0) (\<lambda>c0.
                 if c0 \<noteq> CHR ''0''
                 then bindE (str_at v 1) (\<lambda>c1.
                      Inr (if c1 \<noteq> CHR ''x'' \<or> c1 \<noteq> CHR ''X'' then ''0x'' @ v else v))
                 else Inr v)
            else bindE (str_at v 0) (\<lambda>c0.
                 if c0 = CHR ''0''
                 then bindE (str_at v 1) (\<lambda>c1. Inr (if c1 = CHR ''x'' \<or> c1 = CHR ''X'' then drop 2 v else v))
                 else Inr v))
       (\<lambda>ret. if \<not> Hex_isValid ret strict then Inl (RuntimeError ''Invalid Hex string at constructor'')
              else Inr \<lparr>hx_hex = ret, hx_strict = strict\<rparr>)"

definition hex_digit :: "nat \<Rightarrow> char" where
  "hex_digit n = ''0123456789abcdef'' ! n"

fun hex_digits :: "bytes \<Rightarrow> string" where
  "hex_digits [] = ''''"
| "hex_digits (b # bs) = hex_digit (unat b div 16) # hex_digit (unat b mod 16) # hex_digits bs"

text \<open>The buffer of zero digits gets \<^verbatim>\<open>0x\<close> over its first two characters before the digits are written from
  the offset on; an empty non-strict buffer becomes \<^verbatim>\<open>0x\<close>.\<close>

definition Hex_fromBytes :: "bytes \<Rightarrow> bool \<Rightarrow> Hex result" where
  "Hex_fromBytes bs strict =
     (let off = (if strict then 2 else 0);
          buf = ''0x'' @ drop 2 (replicate (length bs * 2 + off) (CHR ''0''));
          hex = take off buf @ hex_digits bs @ drop (off + length bs * 2) buf
      in Hex_new hex strict)"

definition Hex_fromUTF8 :: "bytes \<Rightarrow> bool \<Rightarrow> Hex result" where
  "Hex_fromUTF8 s strict = Hex_new ((if strict then ''0x'' else '''') @ hex_digits s) strict"

fun hex_number :: "nat \<Rightarrow> string" where
  "hex_number n = (if n < 16 then [hex_digit n] else hex_number (n div 16) @ [hex_digit (n mod 16)])"

declare hex_number.simps [simp del]

definition Hex_fromUint :: "nat \<Rightarrow> bool \<Rightarrow> Hex result" where
  "Hex_fromUint v strict = Hex_new (hex_number v) strict"

definition Hex_toInt :: "char \<Rightarrow> int" where
  "Hex_toInt c =
     (let n = of_char c :: nat in
      if 48 \<le> n \<and> n \<le> 57 then int n - 48
      else if 97 \<le> n \<and> n \<le> 102 then int n - 97 + 10
      else if 65 \<le> n \<and> n \<le> 70 then int n - 65 + 10
      else -1)"

fun hex_pairs :: "string \<Rightarrow> bytes result" where
  "hex_pairs [] = Inr []"
| "hex_pairs [c] = Inl UndefinedBehaviour"
| "hex_pairs (c # d # cs) = bindE (hex_pairs cs) (\<lambda>r. Inr (of_int (Hex_toInt c * 16 + Hex_toInt d) # r))"

definition Hex_toBytes :: "string \<Rightarrow> bytes result" where
  "Hex_toBytes hex =
     bindE (view_at hex 0) (\<lambda>c0.
     bindE (if c0 = CHR ''0'' then bindE (view_at hex 1) (\<lambda>c1. Inr (if c1 = CHR ''x'' \<or> c1 = CHR ''X'' then 2 else 0)) else Inr 0)
       (\<lambda>i.
       if \<not> only_hex_from hex i
       then Inl (RuntimeError (''toBytes: Invalid hex string: '' @ hex @ '' filter: '' @ hex_filter))
       else if length hex mod 2 \<noteq> 0
       then bindE (view_at hex i) (\<lambda>c. bindE (hex_pairs (drop (i + 1) hex)) (\<lambda>r. Inr (of_int (Hex_toInt c) # r)))
       else hex_pairs (drop i hex)))"

definition Hex_bytes :: "Hex \<Rightarrow> bytes result" where
  "Hex_bytes h =
     (let i = (if hx_strict h then 2 else 0) in
      if length (hx_hex h) mod 2 \<noteq> 0
      then bindE (str_at (hx_hex h) i) (\<lambda>c.
           bindE (hex_pairs (drop (i + 1) (hx_hex h))) (\<lambda>r. Inr (of_int (Hex_toInt c) # r)))
      else hex_pairs (drop i (hx_hex h)))"

fun drop_zeros :: "string \<Rightarrow> string" where
  "drop_zeros (c # cs) = (if c = CHR ''0'' then drop_zeros cs else c # cs)"
| "drop_zeros [] = []"

definition Hex_forRPC :: "Hex \<Rightarrow> string result" where
  "Hex_forRPC h =
     bindE (str_at (hx_hex h) 0) (\<lambda>c0.
     bindE (if c0 \<noteq> CHR ''0'' then bindE (str_at (hx_hex h) 1) (\<lambda>c1.
              Inr (if c1 \<noteq> CHR ''x'' then ''0x'' @ hx_hex h else hx_hex h))
            else Inr (hx_hex h))
       (\<lambda>retHex.
       if retHex = ''0x'' then Inr ''0x0''
       else if length retHex < 2 then Inl UndefinedBehaviour
       else Inr (take 2 retHex @ drop_zeros (drop 2 retHex))))"

subsection \<open>Addresses as text\<close>

definition Address_isValid_text :: "string \<Rightarrow> bool result" where
  "Address_isValid_text add =
     bindE (view_at add 0) (\<lambda>c0.
     bindE (if c0 = CHR ''0'' then bindE (view_at add 1) (\<lambda>c1. Inr (c1 = CHR ''x'' \<or> c1 = CHR ''X'')) else Inr False)
       (\<lambda>pfx. if pfx then Inr (length add = 42 \<and> only_hex_from add 2)
              else Inr (length add = 40 \<and> only_hex_from add 0)))"

definition Address_text :: "string \<Rightarrow> bytes result" where
  "Address_text add =
     bindE (Address_isValid_text add) (\<lambda>ok.
     if \<not> ok then Inl (InvalidArgument ''Invalid Hex address.'') else Hex_toBytes add)"

definition to_upper :: "char \<Rightarrow> char" where
  "to_upper c = (let n = of_char c :: nat in if 97 \<le> n \<and> n \<le> 122 then char_of (n - 32) else c)"

definition is_digit :: "char \<Rightarrow> bool" where
  "is_digit c \<longleftrightarrow> 48 \<le> (of_char c :: nat) \<and> (of_char c :: nat) \<le> 57"

definition chksum_char :: "char \<times> char \<Rightarrow> char" where
  "chksum_char cd = (case cd of (c, d) \<Rightarrow> if \<not> is_digit c \<and> Hex_toInt d \<ge> 8 then to_upper c else c)"

definition bytes_of_string :: "string \<Rightarrow> bytes" where
  "bytes_of_string s = map (\<lambda>c. of_nat (of_char c)) s"

text \<open>The letters of \<^verbatim>\<open>str\<close> are lower case already, so \<^verbatim>\<open>std::tolower\<close> leaves them as they are.\<close>

definition Address_toChksum :: "crypto \<Rightarrow> bytes \<Rightarrow> Hex result" where
  "Address_toChksum C a =
     bindE (Hex_fromBytes a False) (\<lambda>h.
     let str = hx_hex h in
     bindE (Hex_fromBytes (sha3 C (bytes_of_string str)) False) (\<lambda>hash.
     Hex_new (''0x'' @ map chksum_char (zip str (hx_hex hash))) True))"

subsection \<open>Digits\<close>

lemma hex_digit_cases: "n < 16 \<Longrightarrow> n \<in> set [0, 1, 2, 3, 4, 5, 6, 7, 8, 9, 10, 11, 12, 13, 14, 15::nat]"
  by (simp; presburger)

lemma toInt_hex_digit: "n < 16 \<Longrightarrow> Hex_toInt (hex_digit n) = int n"
  by (drule hex_digit_cases) (auto simp: hex_digit_def Hex_toInt_def)

lemma hex_digit_in_filter: "n < 16 \<Longrightarrow> hex_digit n \<in> set hex_filter"
  by (drule hex_digit_cases) (auto simp: hex_digit_def hex_filter_def)

lemma hex_digit_not_x: "n < 16 \<Longrightarrow> hex_digit n \<noteq> CHR ''x'' \<and> hex_digit n \<noteq> CHR ''X''"
  by (drule hex_digit_cases) (auto simp: hex_digit_def)

lemma byte_nibbles: "unat (b :: byte) div 16 < 16" "unat b mod 16 < 16"
  using byte_unat_lt [of b] by (simp_all add: less_mult_imp_div_less)

lemma length_hex_digits [simp]: "length (hex_digits bs) = 2 * length bs"
  by (induction bs) simp_all

lemma hex_digits_only_hex: "list_all (\<lambda>c. c \<in> set hex_filter) (hex_digits bs)"
  by (induction bs) (simp_all add: hex_digit_in_filter byte_nibbles)

lemma nibbles_byte: "of_int (int (unat (b :: byte) div 16) * 16 + int (unat b mod 16)) = b"
proof -
  have "int (unat b div 16) * 16 + int (unat b mod 16) = int (unat b)"
    by (metis div_mult_mod_eq of_nat_add of_nat_mult of_nat_numeral)
  then show ?thesis by (simp only: of_int_of_nat_eq of_nat_unat_byte)
qed

lemma hex_pairs_hex_digits: "hex_pairs (hex_digits bs) = Inr bs"
  by (induction bs) (simp_all add: toInt_hex_digit byte_nibbles nibbles_byte del: of_int_add of_int_mult)

subsection \<open>Round trips\<close>

lemma hex_digits_begin:
  assumes "bs \<noteq> []"
  obtains c d cs where "hex_digits bs = c # d # cs" "d \<noteq> CHR ''x''" "d \<noteq> CHR ''X''"
  using assms hex_digit_not_x [OF byte_nibbles(2)] by (cases bs) auto

lemma Hex_new_digits:
  assumes "bs \<noteq> []"
  shows "Hex_new (hex_digits bs) False = Inr \<lparr>hx_hex = hex_digits bs, hx_strict = False\<rparr>"
proof -
  have "Hex_isValid (hex_digits bs) False" using hex_digits_only_hex [of bs] by (simp add: Hex_isValid_def only_hex_from_def)
  with assms show ?thesis by (elim hex_digits_begin) (auto simp: Hex_new_def str_at_def)
qed

lemma Hex_new_prefixed:
  "list_all (\<lambda>c. c \<in> set hex_filter) cs \<Longrightarrow> Hex_new (''0x'' @ cs) True = Inr \<lparr>hx_hex = ''0x'' @ cs, hx_strict = True\<rparr>"
  by (simp add: Hex_new_def str_at_def Hex_isValid_def only_hex_from_def)

lemma Hex_fromBytes_value:
  assumes "bs \<noteq> [] \<or> strict"
  shows "Hex_fromBytes bs strict = Inr \<lparr>hx_hex = (if strict then ''0x'' else '''') @ hex_digits bs, hx_strict = strict\<rparr>"
proof (cases strict)
  case True
  then show ?thesis using Hex_new_prefixed [OF hex_digits_only_hex [of bs]] by (simp add: Hex_fromBytes_def Let_def)
next
  case False
  with assms obtain k where "length bs * 2 = Suc (Suc k)" "bs \<noteq> []" by (cases bs) auto
  with False show ?thesis by (simp add: Hex_fromBytes_def Let_def Hex_new_digits)
qed

lemma Hex_toBytes_prefixed:
  "list_all (\<lambda>c. c \<in> set hex_filter) cs \<Longrightarrow> even (length cs) \<Longrightarrow> Hex_toBytes (''0x'' @ cs) = hex_pairs cs"
  by (simp add: Hex_toBytes_def view_at_def only_hex_from_def)

lemma Hex_toBytes_digits:
  assumes "bs \<noteq> []"
  shows "Hex_toBytes (hex_digits bs) = Inr bs"
proof -
  have "only_hex_from (hex_digits bs) 0" "even (length (hex_digits bs))" "hex_pairs (hex_digits bs) = Inr bs"
    using hex_digits_only_hex [of bs] hex_pairs_hex_digits [of bs] by (simp_all add: only_hex_from_def)
  moreover from assms obtain c d cs where "hex_digits bs = c # d # cs" "d \<noteq> CHR ''x''" "d \<noteq> CHR ''X''" by (rule hex_digits_begin)
  ultimately show ?thesis by (cases "c = CHR ''0''") (simp_all add: Hex_toBytes_def view_at_def)
qed

text \<open>Printing bytes as hexadecimal text and reading them back gives the same bytes, with either reader
  (\<^verbatim>\<open>Hex::bytes\<close> of the object and \<^verbatim>\<open>Hex::toBytes\<close> of its text), with and without the \<^verbatim>\<open>0x\<close> prefix. Only the empty
  string without the prefix is excluded.\<close>

theorem Hex_bytes_roundtrip:
  assumes "bs \<noteq> [] \<or> strict"
  shows "\<exists>h. Hex_fromBytes bs strict = Inr h \<and> Hex_fromUTF8 bs strict = Inr h
           \<and> Hex_bytes h = Inr bs \<and> Hex_toBytes (hx_hex h) = Inr bs"
proof -
  let ?h = "\<lparr>hx_hex = (if strict then ''0x'' else '''') @ hex_digits bs, hx_strict = strict\<rparr>"
  have "Hex_fromUTF8 bs strict = Inr ?h"
    using assms Hex_new_digits [of bs] Hex_new_prefixed [OF hex_digits_only_hex [of bs]] by (auto simp: Hex_fromUTF8_def)
  moreover have "Hex_bytes ?h = Inr bs"
    by (simp add: Hex_bytes_def hex_pairs_hex_digits)
  moreover have "Hex_toBytes (hx_hex ?h) = Inr bs"
    using assms Hex_toBytes_digits [of bs] Hex_toBytes_prefixed [OF hex_digits_only_hex [of bs]] hex_pairs_hex_digits [of bs]
    by (cases strict) auto
  ultimately show ?thesis using Hex_fromBytes_value [OF assms] by blast
qed

lemma demo_hex: "Hex_fromBytes [0x0F, 0xA0] True = Inr \<lparr>hx_hex = ''0x0fa0'', hx_strict = True\<rparr>"
  by (simp add: Hex_fromBytes_value hex_digit_def)

theorem Hex_bytes_roundtrip_witness:
  "Hex_bytes \<lparr>hx_hex = ''0x0fa0'', hx_strict = True\<rparr> = Inr [0x0F, 0xA0] \<and> Hex_toBytes ''0x0fa0'' = Inr [0x0F, 0xA0]"
  using Hex_bytes_roundtrip [of "[0x0F, 0xA0]" True] unfolding demo_hex by auto

lemma hex_number_zero: "hex_number 0 = ''0''"
  by (simp add: hex_number.simps [of 0] hex_digit_def)

text \<open>In strict mode the constructor adds the missing prefix except where the text begins with the digit zero:
  such text is refused, although it is valid hexadecimal, and so is the number zero of \<^verbatim>\<open>fromUint\<close>.\<close>

theorem Hex_strict_leading_zero:
  "Hex_new (CHR ''0'' # CHR ''1'' # cs) True = Inl (RuntimeError ''Invalid Hex string at constructor'')
   \<and> Hex_fromUint 0 True = Inl (RuntimeError ''Invalid Hex string at constructor'')"
  by (simp add: Hex_new_def str_at_def Hex_isValid_def Hex_fromUint_def hex_number_zero)

subsection \<open>Checksummed addresses\<close>

lemma upper_letters:
  "char_of (65 :: nat) = CHR ''A''" "char_of (66 :: nat) = CHR ''B''" "char_of (67 :: nat) = CHR ''C''"
  "char_of (68 :: nat) = CHR ''D''" "char_of (69 :: nat) = CHR ''E''" "char_of (70 :: nat) = CHR ''F''"
  by (simp_all add: char_of_eq_iff)

lemma to_upper_hex: "n < 16 \<Longrightarrow> Hex_toInt (to_upper (hex_digit n)) = int n \<and> to_upper (hex_digit n) \<in> set hex_filter"
  by (drule hex_digit_cases) (auto simp: hex_digit_def Hex_toInt_def to_upper_def hex_filter_def upper_letters)

lemma chksum_char_hex:
  "n < 16 \<Longrightarrow> Hex_toInt (chksum_char (hex_digit n, d)) = int n \<and> chksum_char (hex_digit n, d) \<in> set hex_filter"
  by (simp add: chksum_char_def to_upper_hex toInt_hex_digit hex_digit_in_filter)

lemma chksum_pairs:
  "length (hex_digits bs) \<le> length ds \<Longrightarrow>
   hex_pairs (map chksum_char (zip (hex_digits bs) ds)) = Inr bs
   \<and> list_all (\<lambda>c. c \<in> set hex_filter) (map chksum_char (zip (hex_digits bs) ds))"
proof (induction bs arbitrary: ds)
  case (Cons b bs)
  then obtain d e ds' where ds: "ds = d # e # ds'" "length (hex_digits bs) \<le> length ds'"
    by (cases ds; cases "tl ds") auto
  show ?case unfolding ds(1) hex_digits.simps zip_Cons_Cons list.map hex_pairs.simps list.pred_inject
    by (simp only: Cons.IH [OF ds(2)] chksum_char_hex [OF byte_nibbles(1)] chksum_char_hex [OF byte_nibbles(2)]
          nibbles_byte bindE_simps simp_thms)
qed simp

text \<open>The checksummed text of an address is valid address text and reads back as the same address: the
  mixed case of its letters carries the checksum only.\<close>

theorem Address_chksum_roundtrip:
  assumes "length a = 20"
  shows "\<exists>h. Address_toChksum C a = Inr h \<and> Address_text (hx_hex h) = Inr a"
proof -
  let ?hash = "sha3 C (bytes_of_string (hex_digits a))"
  let ?cs = "map chksum_char (zip (hex_digits a) (hex_digits ?hash))"
  have ne: "a \<noteq> []" "?hash \<noteq> []" using assms length_sha3 [of C "bytes_of_string (hex_digits a)"] by (auto simp del: length_sha3)
  have cs: "hex_pairs ?cs = Inr a" "list_all (\<lambda>c. c \<in> set hex_filter) ?cs"
    using chksum_pairs [of a "hex_digits ?hash"] assms by simp_all
  have len: "length ?cs = 40" using assms by simp
  have "Address_toChksum C a = Inr \<lparr>hx_hex = ''0x'' @ ?cs, hx_strict = True\<rparr>"
    using ne Hex_new_prefixed [OF cs(2)] by (simp add: Address_toChksum_def Hex_fromBytes_value Let_def)
  moreover have "Address_isValid_text (''0x'' @ ?cs) = Inr True"
    using cs(2) len by (simp add: Address_isValid_text_def view_at_def only_hex_from_def)
  then have "Address_text (''0x'' @ ?cs) = Inr a"
    using Hex_toBytes_prefixed [OF cs(2)] cs(1) len by (simp add: Address_text_def)
  ultimately show ?thesis by simp
qed

theorem Address_chksum_roundtrip_witness:
  "\<exists>h. Address_toChksum demo_crypto (replicate 20 0xAB) = Inr h \<and> Address_text (hx_hex h) = Inr (replicate 20 0xAB)"
  by (rule Address_chksum_roundtrip) simp

end
