(* ===== verification/Rlp.thy ===== *)
theory Rlp
  imports Crypto
begin

text \<open>
  The RLP pieces that the transaction code of \<^verbatim>\<open>src/utils/tx.cpp\<close> repeats field by field: the
  encoding of an integer, a byte string and a list header, and the reading of each of them at an
  index of the input. The two transaction classes (theories \<^verbatim>\<open>Tx_Block\<close> and
  \<^verbatim>\<open>Tx_Validator\<close>) are composed of these. The lemmas say that reading at the position of an
  encoded item yields the item and the index behind it.
\<close>

subsection \<open>Encoding\<close>

definition rlp_uint :: "nat \<Rightarrow> bytes" where
  "rlp_uint n =
     (if n = 0 then [0x80]
      else if n < 0x80 then [of_nat n]
      else of_nat (bytesRequired n + 0x80) # uintToBytes n)"

definition rlp_uint_size :: "nat \<Rightarrow> nat" where
  "rlp_uint_size n = (if n < 0x80 then 1 else 1 + bytesRequired n)"

definition rlp_string :: "bytes \<Rightarrow> bytes" where
  "rlp_string d =
     (if length d = 0 then [0x80]
      else if length d \<le> 55 then of_nat (length d + 0x80) # d
      else of_nat (bytesRequired (length d) + 0xb7) # uintToBytes (length d) @ d)"

definition rlp_string_size :: "bytes \<Rightarrow> nat" where
  "rlp_string_size d =
     (if length d = 0 then 1
      else if length d \<le> 55 then 1 + length d
      else 1 + bytesRequired (length d) + length d)"

text \<open>\<^verbatim>\<open>r\<close> and \<^verbatim>\<open>s\<close> are always written as a string, even below 0x80.\<close>

definition rlp_sig_half :: "nat \<Rightarrow> bytes" where
  "rlp_sig_half n = of_nat (bytesRequired n + 0x80) # uintToBytes n"

definition rlp_list_head :: "nat \<Rightarrow> bytes" where
  "rlp_list_head total_size =
     (if total_size \<le> 55 then [of_nat (total_size + 0xc0)]
      else of_nat (bytesRequired total_size + 0xf7) # uintToBytes total_size)"

subsection \<open>Reading\<close>

text \<open>The list header: the first byte is at least 0xf7, the announced length is the rest exactly.
  The result is the index of the first item.\<close>

definition read_list_head :: "bytes \<Rightarrow> nat result" where
  "read_list_head s =
     bindE (view_at s 0) (\<lambda>b0.
     if b0 < 0xf7 then Inl (RuntimeError ''Tx is not a list'')
     else (let listLengthSize = unat (b0 - 0xf7) in
       bindE (raw_view s 1 listLengthSize) (\<lambda>lv.
       let listLength = unat (fromBigEndian lv :: uint64) in
       if listLength < length s - listLengthSize - 1
       then Inl (RuntimeError ''Tx RLP returns smaller size than reported'')
       else if listLength > length s - listLengthSize - 1
       then Inl (RuntimeError ''Tx RLP returns larger size than reported'')
       else Inr (1 + listLengthSize))))"

text \<open>An integer field: a string of at most \<open>lim\<close> bytes or the byte itself.\<close>

definition read_uint :: "bytes \<Rightarrow> nat \<Rightarrow> nat \<Rightarrow> string \<Rightarrow> (bytes \<Rightarrow> 'a result) \<Rightarrow> 'a \<Rightarrow> ('a \<times> nat) result" where
  "read_uint s index lim msg conv zero =
     bindE (view_at s index) (\<lambda>b.
     let len = (if b \<ge> 0x80 then unat (b - 0x80) else 0) in
     if len \<noteq> 0
     then (if len > lim then Inl (RuntimeError msg)
           else bindE (raw_view s (index + 1) len) (\<lambda>v. bindE (conv v) (\<lambda>x. Inr (x, index + 1 + len))))
     else bindE (if b = 0x80 then Inr zero else bindE (raw_view s index 1) conv) (\<lambda>x. Inr (x, index + 1)))"

definition u64_field :: "bytes \<Rightarrow> uint64 result" where
  "u64_field bs = Inr (fromBigEndian bs)"

text \<open>A \<^verbatim>\<open>uint256_t\<close> member that the code fills through \<^verbatim>\<open>fromBigEndian<uint64_t>\<close>.\<close>

definition u64_to_u256_field :: "bytes \<Rightarrow> uint256 result" where
  "u64_to_u256_field bs = Inr (ucast (fromBigEndian bs :: uint64))"

text \<open>A string with its length in front; \<open>index += dataLength\<close> is 64-bit arithmetic.\<close>

definition read_long_string :: "bytes \<Rightarrow> nat \<Rightarrow> byte \<Rightarrow> (bytes \<times> nat) result" where
  "read_long_string s index b =
     (let dataLengthSize = unat (b - 0xb7); i1 = index + 1 in
      bindE (raw_view s i1 dataLengthSize) (\<lambda>lv.
      let dataLength = unat (fromBigEndian lv :: uint64); i2 = i1 + dataLengthSize in
      bindE (substr s i2 dataLength) (\<lambda>d. Inr (d, (i2 + dataLength) mod 2 ^ 64))))"

definition read_string_block :: "bytes \<Rightarrow> nat \<Rightarrow> (bytes \<times> nat) result" where
  "read_string_block s index =
     bindE (view_at s index) (\<lambda>b.
     if b < 0x80 then Inr ([b], index + 1)
     else if b < 0xb7
     then (let dataLength = unat (b - 0x80); i1 = index + 1 in
           if dataLength > 0
           then bindE (substr s i1 dataLength) (\<lambda>d. Inr (d, i1 + dataLength))
           else Inr ([], i1))
     else if b < 0xc0 then read_long_string s index b
     else Inl (RuntimeError ''Data is too large''))"

definition read_string_validator :: "bytes \<Rightarrow> nat \<Rightarrow> (bytes \<times> nat) result" where
  "read_string_validator s index =
     bindE (view_at s index) (\<lambda>b.
     if b < 0x80 then Inr ([b], index + 1)
     else if b < 0xb7
     then (let dataLength = unat (b - 0x80); i1 = index + 1 in
           if dataLength > 0
           then bindE (substr s i1 dataLength) (\<lambda>d. Inr (d, i1 + dataLength))
           else Inr ([], i1))
     else read_long_string s index b)"

text \<open>\<^verbatim>\<open>uint8_t rLength = txData[index] - 0x80\<close> wraps below 0x80.\<close>

definition read_sig_half :: "bytes \<Rightarrow> nat \<Rightarrow> nat \<Rightarrow> string \<Rightarrow> (uint256 \<times> nat) result" where
  "read_sig_half s index lim msg =
     bindE (view_at s index) (\<lambda>b.
     let len = unat (b - 0x80) in
     if len > lim then Inl (RuntimeError msg)
     else bindE (raw_view s (index + 1) len) (\<lambda>v.
          bindE (fromBigEndian256 v) (\<lambda>x. Inr (x, index + 1 + len))))"

subsection \<open>Positions\<close>

lemma drop_step: "drop i s = xs @ rest \<Longrightarrow> drop (i + length xs) s = rest"
  by (metis add.commute append_eq_conv_conj drop_drop)

lemma drop_Cons_step: "drop i s = x # rest \<Longrightarrow> drop (Suc i) s = rest"
  using drop_step [of i s "[x]" rest] by simp

lemma drop_Cons_lt: "drop i s = x # rest \<Longrightarrow> i < length s"
  by (metis drop_all list.distinct(1) not_less)

lemma view_at_drop: "drop i s = b # rest \<Longrightarrow> view_at s i = Inr b"
  using drop_Cons_lt [of i s b rest] by (simp add: view_at_def flip: Cons_nth_drop_Suc)

lemma raw_view_drop:
  assumes "drop i s = xs @ rest" and "length xs = n" and "i \<le> length s"
  shows "raw_view s i n = Inr xs"
proof -
  have "length s - i = n + length rest" using arg_cong [OF assms(1), of length] assms(2) by simp
  with assms show ?thesis by (simp add: raw_view_def)
qed

lemma substr_drop: "drop i s = xs @ rest \<Longrightarrow> length xs = n \<Longrightarrow> i \<le> length s \<Longrightarrow> substr s i n = Inr xs"
  by (simp add: substr_def)

subsection \<open>Bytes with an offset\<close>

lemma unat_off: "k + n < 256 \<Longrightarrow> unat (of_nat (n + k) :: byte) = n + k"
  by (simp del: of_nat_add)

lemma unat_ucast_mod: "unat (ucast (w :: 'a::len word) :: 'b::len word) = unat w mod 2 ^ LENGTH('b)"
  by (simp add: unsigned_ucast_eq take_bit_eq_mod)

lemma bytesRequired_u256: "n < 2 ^ 256 \<Longrightarrow> bytesRequired n \<le> 32"
  by (rule bytesRequired_le) simp

lemma bytesRequired_u64: "n < 2 ^ 64 \<Longrightarrow> bytesRequired n \<le> 8"
  by (rule bytesRequired_le) simp

lemma length_rlp_uint [byte_simps]: "length (rlp_uint n) = rlp_uint_size n"
  by (auto simp: rlp_uint_def rlp_uint_size_def)

lemma length_rlp_string [byte_simps]: "length (rlp_string d) = rlp_string_size d"
  by (auto simp: rlp_string_def rlp_string_size_def)

lemma length_rlp_sig_half [byte_simps]: "length (rlp_sig_half n) = 1 + bytesRequired n"
  by (simp add: rlp_sig_half_def)

subsection \<open>Reading back what was written\<close>

lemma byte_ge_80: "n < 0x80 \<Longrightarrow> 0x80 \<le> (of_nat (n + 0x80) :: byte)"
  by (simp add: word_le_nat_alt unat_off del: of_nat_add)

lemma unat_minus_80: "n < 0x80 \<Longrightarrow> unat ((of_nat (n + 0x80) :: byte) - 0x80) = n"
  by (simp add: unat_of_nat)

lemma read_uint_byte:
  assumes "drop i s = b # rest" and "b < 0x80" and "conv [b] = Inr x"
  shows "read_uint s i lim msg conv z = Inr (x, Suc i)"
proof -
  have "raw_view s i 1 = Inr [b]"
    using assms(1) drop_Cons_lt [OF assms(1)] by (intro raw_view_drop) auto
  with assms show ?thesis by (auto simp: read_uint_def view_at_drop)
qed

lemma read_uint_string:
  assumes "drop i s = of_nat (length bs + 0x80) # bs @ rest" and "bs \<noteq> []" and "length bs \<le> lim"
    and "length bs < 0x80" and "conv bs = Inr x"
  shows "read_uint s i lim msg conv z = Inr (x, Suc i + length bs)"
proof -
  have rv: "raw_view s (Suc i) (length bs) = Inr bs"
    using drop_Cons_step [OF assms(1)] drop_Cons_lt [OF assms(1)] by (intro raw_view_drop) auto
  have b: "0x80 \<le> (of_nat (length bs + 0x80) :: byte)"
    "unat ((of_nat (length bs + 0x80) :: byte) - 0x80) = length bs"
    using assms(4) byte_ge_80 unat_minus_80 by blast+
  show ?thesis
    unfolding read_uint_def view_at_drop [OF assms(1)] using assms b rv by (simp add: Let_def)
qed

lemma read_uint_zero:
  assumes "drop i s = 0x80 # rest"
  shows "read_uint s i lim msg conv z = Inr (z, Suc i)"
  using assms by (simp add: read_uint_def view_at_drop)

text \<open>The encoded integer is read back by any conversion that inverts \<^const>\<open>uintToBytes\<close> on it.\<close>

lemma read_uint_rlp:
  assumes "drop i s = rlp_uint n @ rest" and "bytesRequired n \<le> lim" and "lim \<le> 0x7f"
    and "conv (uintToBytes n) = Inr x" and "n = 0 \<Longrightarrow> z = x" and "n < 0x80 \<Longrightarrow> conv [of_nat n] = Inr x"
  shows "read_uint s i lim msg conv z = Inr (x, i + rlp_uint_size n)"
proof (cases "n = 0 \<or> n < 0x80")
  case True
  with assms show ?thesis
    by (cases "n = 0") (auto simp: rlp_uint_def rlp_uint_size_def read_uint_zero
        intro!: read_uint_byte simp: word_less_nat_alt unat_of_nat)
next
  case False
  then have ne: "uintToBytes n \<noteq> []" and lt: "length (uintToBytes n) < 0x80"
    using assms(2,3) bytesRequired_pos [of n] by (auto simp flip: length_greater_0_conv)
  have "drop i s = of_nat (length (uintToBytes n) + 0x80) # uintToBytes n @ rest"
    using assms(1) False by (simp add: rlp_uint_def)
  from read_uint_string [where lim = lim and msg = msg and conv = conv and z = z, OF this ne _ lt assms(4)]
  show ?thesis using assms(2) False by (simp add: rlp_uint_size_def)
qed

lemma read_uint_u64:
  fixes w :: uint64
  assumes "drop i s = rlp_uint (unat w) @ rest" and "8 \<le> lim" and "lim \<le> 0x7f"
  shows "read_uint s i lim msg u64_field 0 = Inr (w, i + rlp_uint_size (unat w))"
proof (rule read_uint_rlp [OF assms(1) _ assms(3)])
  show "bytesRequired (unat w) \<le> lim"
    using bytesRequired_u64 [of "unat w"] uint64_lt [of w] assms(2) by simp
  show "u64_field (uintToBytes (unat w)) = Inr w" by (simp add: u64_field_def)
  show "unat w < 0x80 \<Longrightarrow> u64_field [of_nat (unat w)] = Inr w"
    by (simp add: u64_field_def fromBigEndian_single word_unat_eq_iff unat_ucast_mod unat_of_nat)
qed (simp add: unat_eq_0)

lemma read_uint_u256:
  fixes w :: uint256
  assumes "drop i s = rlp_uint (unat w) @ rest" and "32 \<le> lim" and "lim \<le> 0x7f"
  shows "read_uint s i lim msg fromBigEndian256 0 = Inr (w, i + rlp_uint_size (unat w))"
proof (rule read_uint_rlp [OF assms(1) _ assms(3)])
  show "bytesRequired (unat w) \<le> lim"
    using bytesRequired_u256 [of "unat w"] uint256_lt [of w] assms(2) by simp
  show "unat w < 0x80 \<Longrightarrow> fromBigEndian256 [of_nat (unat w)] = Inr w"
    by (simp add: word_unat_eq_iff unat_ucast_mod unat_of_nat)
qed (simp_all add: unat_eq_0)

lemma read_uint_u64_to_u256:
  fixes w :: uint256
  assumes "drop i s = rlp_uint (unat w) @ rest" and "unat w < 2 ^ 64" and "8 \<le> lim" and "lim \<le> 0x7f"
  shows "read_uint s i lim msg u64_to_u256_field 0 = Inr (w, i + rlp_uint_size (unat w))"
proof (rule read_uint_rlp [OF assms(1) _ assms(4)])
  show "bytesRequired (unat w) \<le> lim"
    using bytesRequired_u64 [OF assms(2)] assms(3) by simp
  show "u64_to_u256_field (uintToBytes (unat w)) = Inr w"
    using assms(2) by (simp add: u64_to_u256_field_def word_unat_eq_iff unat_ucast_mod unat_fromBigEndian)
  show "unat w < 0x80 \<Longrightarrow> u64_to_u256_field [of_nat (unat w)] = Inr w"
    by (simp add: u64_to_u256_field_def fromBigEndian_single word_unat_eq_iff unat_ucast_mod unat_of_nat)
qed (simp add: unat_eq_0)

lemma read_sig_half_rlp:
  fixes w :: uint256
  assumes "drop i s = rlp_sig_half (unat w) @ rest" and "32 \<le> lim"
  shows "read_sig_half s i lim msg = Inr (w, i + (1 + bytesRequired (unat w)))"
proof -
  have le: "bytesRequired (unat w) \<le> 32" by (rule bytesRequired_u256 [OF uint256_lt])
  have d: "drop i s = of_nat (bytesRequired (unat w) + 0x80) # uintToBytes (unat w) @ rest"
    using assms(1) by (simp add: rlp_sig_half_def)
  have "raw_view s (Suc i) (bytesRequired (unat w)) = Inr (uintToBytes (unat w))"
    using drop_Cons_step [OF d] drop_Cons_lt [OF d] by (intro raw_view_drop) auto
  moreover have "unat ((of_nat (bytesRequired (unat w) + 0x80) :: byte) - 0x80) = bytesRequired (unat w)"
    using le by (intro unat_minus_80) simp
  ultimately show ?thesis
    unfolding read_sig_half_def view_at_drop [OF d] using le assms(2) by (simp add: Let_def)
qed

lemma byte_of_long:
  assumes "0 < n" and "n \<le> 8"
  shows "\<not> (of_nat (n + 0xb7) :: byte) < 0x80" "\<not> (of_nat (n + 0xb7) :: byte) < 0xb7"
    "(of_nat (n + 0xb7) :: byte) < 0xc0" "unat ((of_nat (n + 0xb7) :: byte) - 0xb7) = n"
    "\<not> (of_nat (n + 0xf7) :: byte) < 0xf7" "unat ((of_nat (n + 0xf7) :: byte) - 0xf7) = n"
  using assms by (simp_all add: word_less_nat_alt unat_off unat_of_nat del: of_nat_add)
    (simp_all add: unat_of_nat)

lemma read_long_string_rlp:
  assumes "drop i s = of_nat (bytesRequired (length d) + 0xb7) # uintToBytes (length d) @ d @ rest"
    and "0 < length d" and "length s < 2 ^ 64"
  shows "read_long_string s i (of_nat (bytesRequired (length d) + 0xb7))
    = Inr (d, i + (1 + bytesRequired (length d) + length d))"
proof -
  let ?n = "bytesRequired (length d)"
  have i: "i < length s" by (rule drop_Cons_lt [OF assms(1)])
  have len: "length s = i + (1 + ?n + length d + length rest)"
    using arg_cong [OF assms(1), of length] i by simp
  then have n: "0 < ?n" "?n \<le> 8" using assms(2,3) bytesRequired_u64 [of "length d"]
    by (auto simp: bytesRequired_pos)
  note b = byte_of_long [OF n]
  have 1: "drop (Suc i) s = uintToBytes (length d) @ d @ rest" by (rule drop_Cons_step [OF assms(1)])
  have rv: "raw_view s (Suc i) ?n = Inr (uintToBytes (length d))"
    using 1 i by (intro raw_view_drop) auto
  have 2: "drop (Suc i + ?n) s = d @ rest" using drop_step [OF 1] by simp
  have "substr s (Suc i + ?n) (length d) = Inr d" using 2 len by (intro substr_drop) auto
  moreover have "unat (fromBigEndian (uintToBytes (length d)) :: uint64) = length d"
    using len assms(3) by (intro fromBigEndian_uintToBytes_nat) simp
  moreover have "(Suc i + ?n + length d) mod 2 ^ 64 = i + (1 + ?n + length d)"
    using len assms(3) by simp
  ultimately show ?thesis using b(4) rv by (simp add: read_long_string_def Let_def del: of_nat_add)
qed

lemma short_string_byte:
  assumes "length d < 55"
  shows "\<not> (of_nat (length d + 0x80) :: byte) < 0x80" "(of_nat (length d + 0x80) :: byte) < 0xb7"
  using assms by (simp_all add: word_less_nat_alt unat_off del: of_nat_add)

lemma read_short_string_rlp:
  assumes "drop i s = of_nat (length d + 0x80) # d @ rest"
  shows "substr s (Suc i) (length d) = Inr d"
  using drop_Cons_step [OF assms] drop_Cons_lt [OF assms] by (intro substr_drop) auto

lemma read_string_block_rlp:
  assumes "drop i s = rlp_string d @ rest" and "length d \<noteq> 55" and "length s < 2 ^ 64"
  shows "read_string_block s i = Inr (d, i + rlp_string_size d)"
proof (cases "length d < 55")
  case True
  have d: "drop i s = of_nat (length d + 0x80) # d @ rest"
    using assms(1) True by (cases d) (auto simp: rlp_string_def)
  have u: "unat ((of_nat (length d + 0x80) :: byte) - 0x80) = length d"
    using True by (intro unat_minus_80) simp
  have sz: "rlp_string_size d = Suc (length d)"
    using True by (auto simp: rlp_string_size_def)
  show ?thesis
    unfolding read_string_block_def view_at_drop [OF d] bindE_simps sz
    using short_string_byte [OF True] u read_short_string_rlp [OF d]
    by (auto simp add: Let_def simp del: of_nat_add)
next
  case False
  then have d: "drop i s = of_nat (bytesRequired (length d) + 0xb7) # uintToBytes (length d) @ d @ rest"
    using assms(1,2) by (auto simp: rlp_string_def)
  have "length d < 2 ^ 64"
    using arg_cong [OF d, of length] assms(3) by simp
  then have n: "0 < bytesRequired (length d)" "bytesRequired (length d) \<le> 8"
    using False bytesRequired_u64 by (auto intro: gr0I)
  show ?thesis
    unfolding read_string_block_def view_at_drop [OF d] bindE_simps
    using byte_of_long [OF n] read_long_string_rlp [OF d _ assms(3)] False assms(2)
    by (auto simp add: rlp_string_size_def simp del: of_nat_add)
qed

lemma read_string_validator_block:
  "read_string_block s i = Inr r \<Longrightarrow> read_string_validator s i = Inr r"
  by (auto simp: read_string_block_def read_string_validator_def bindE_eq_Inr split: if_splits)

lemmas read_string_validator_rlp = read_string_validator_block [OF read_string_block_rlp]

text \<open>A string of exactly 55 bytes gets the prefix 0xb7, which the reader takes for a long string
  whose length has no bytes: it reads the empty string and stays on the first data byte.\<close>

lemma read_string_55:
  assumes "drop i s = rlp_string d @ rest" and "length d = 55" and "length s < 2 ^ 64"
  shows "read_string_block s i = Inr ([], Suc i)" "drop (Suc i) s = d @ rest"
proof -
  have d: "drop i s = 0xb7 # d @ rest" using assms(1,2) by (auto simp: rlp_string_def)
  show "drop (Suc i) s = d @ rest" by (rule drop_Cons_step [OF d])
  have lt: "i < length s" by (rule drop_Cons_lt [OF d])
  then show "read_string_block s i = Inr ([], Suc i)"
    unfolding read_string_block_def view_at_drop [OF d] bindE_simps
    using assms(3) by (simp add: read_long_string_def raw_view_def substr_def fromBigEndian_def)
qed

lemma read_list_head_rlp:
  assumes "length body = n" and "55 < n" and "n < 2 ^ 64"
  shows "read_list_head (rlp_list_head n @ body) = Inr (length (rlp_list_head n))"
proof -
  let ?s = "rlp_list_head n @ body"
  have d: "drop 0 ?s = of_nat (bytesRequired n + 0xf7) # uintToBytes n @ body"
    using assms(2) by (simp add: rlp_list_head_def)
  have n: "0 < bytesRequired n" "bytesRequired n \<le> 8"
    using assms bytesRequired_u64 by (auto intro: gr0I)
  have "raw_view ?s 1 (bytesRequired n) = Inr (uintToBytes n)"
    using drop_Cons_step [OF d] by (intro raw_view_drop) (auto simp: rlp_list_head_def)
  moreover have "unat (fromBigEndian (uintToBytes n) :: uint64) = n"
    using assms(3) by (intro fromBigEndian_uintToBytes_nat) simp
  moreover have "length ?s - bytesRequired n - 1 = n" "length (rlp_list_head n) = 1 + bytesRequired n"
    using assms by (simp_all add: rlp_list_head_def)
  ultimately show ?thesis
    unfolding read_list_head_def view_at_drop [OF d] bindE_simps
    using byte_of_long [OF n] by (simp add: Let_def del: of_nat_add)
qed

text \<open>The lists the encoder writes in the short form are not accepted.\<close>

lemma read_list_head_short:
  assumes "length body = n" and "n \<le> 55" and "0 < n"
  shows "\<exists>e. read_list_head (rlp_list_head n @ body) = Inl (RuntimeError e)"
proof -
  let ?b = "of_nat (n + 0xc0) :: byte"
  have d: "drop 0 (rlp_list_head n @ body) = ?b # body" using assms(2) by (simp add: rlp_list_head_def)
  have u: "unat ?b = n + 0xc0" using assms(2) by (intro unat_off) simp
  show ?thesis
  proof (cases "n = 55")
    case True
    then show ?thesis using assms
      by (simp add: read_list_head_def rlp_list_head_def view_at_def raw_view_def fromBigEndian_def)
  next
    case False
    then have "?b < 0xf7" using u assms(2) by (simp add: word_less_nat_alt del: of_nat_add)
    then show ?thesis unfolding read_list_head_def view_at_drop [OF d] bindE_simps by simp
  qed
qed

end
