(* ===== verification/Abi.thy ===== *)
theory Abi
  imports Hex_Strings Rlp
begin

text \<open>
  The Solidity ABI codec (\<^verbatim>\<open>src/contract/abi.cpp\<close>, \<^verbatim>\<open>abi.h\<close>). The variant type of the encoder and the decoder is
  the datatype \<open>abi_value\<close>. Offsets and lengths in the encoded data are \<^verbatim>\<open>uint64_t\<close> and their arithmetic
  wraps; copying a range that does not lie inside the data is \<open>UndefinedBehaviour\<close>, which is what the
  decoder's size checks are there to prevent.
\<close>

datatype abi_value =
    AUint256 uint256 | AUint256Arr "uint256 list" | AAddress bytes | AAddressArr "bytes list"
  | ABool bool | ABoolArr "bool list" | ABytes bytes | ABytesArr "bytes list"

datatype abi_type =
    T_uint256 | T_uint256Arr | T_address | T_addressArr | T_boolean | T_booleanArr
  | T_bytes | T_bytesArr | T_string | T_stringArr

subsection \<open>Encoding single values\<close>

definition encodeFunction :: "crypto \<Rightarrow> string \<Rightarrow> bytes" where
  "encodeFunction C func = take 4 (sha3 C (bytes_of_string func))"

definition encodeUint256 :: "uint256 \<Rightarrow> bytes" where
  "encodeUint256 num = Hash_uint256 num"

definition encodeAddress :: "bytes \<Rightarrow> bytes" where
  "encodeAddress add = padLeftBytes add 32 0"

text \<open>The C string for false is empty.\<close>

definition encodeBool :: "bool \<Rightarrow> bytes" where
  "encodeBool b = padLeftBytes (if b then [1] else []) 32 0"

text \<open>\<^verbatim>\<open>do { pad += 32; } while (pad < n);\<close>\<close>

function pad_loop :: "nat \<Rightarrow> nat \<Rightarrow> nat" where
  "pad_loop pad n = (if pad + 32 < n then pad_loop (pad + 32) n else pad + 32)"
  by auto
termination by (relation "measure (\<lambda>(pad, n). n - pad)") auto

declare pad_loop.simps [simp del]

definition abi_word :: "nat \<Rightarrow> bytes" where
  "abi_word n = padLeftBytes (uintToBytes n) 32 0"

definition encodeBytes :: "bytes \<Rightarrow> bytes" where
  "encodeBytes bs = abi_word (length bs) @ padRightBytes bs (pad_loop 0 (length bs)) 0"

definition encodeUint256Arr :: "uint256 list \<Rightarrow> bytes" where
  "encodeUint256Arr numV = padLeftBytes [0x20] 32 0 @ abi_word (length numV) @ concat (map encodeUint256 numV)"

definition encodeAddressArr :: "bytes list \<Rightarrow> bytes" where
  "encodeAddressArr addV = padLeftBytes [0x20] 32 0 @ abi_word (length addV) @ concat (map encodeAddress addV)"

definition encodeBoolArr :: "bool list \<Rightarrow> bytes" where
  "encodeBoolArr bV = padLeftBytes [0x20] 32 0 @ abi_word (length bV) @ concat (map encodeBool bV)"

text \<open>The loop collects the offsets, the lengths and the padded data. \<^verbatim>\<open>bS.insert(0, "\x00")\<close> inserts an empty
  C string, so it leaves \<^verbatim>\<open>bS\<close> as it is.\<close>

fun bytesArr_loop :: "nat \<Rightarrow> nat \<Rightarrow> nat \<Rightarrow> bytes list \<Rightarrow> bytes list \<times> (bytes \<times> bytes) list" where
  "bytesArr_loop sz i pads [] = ([], [])"
| "bytesArr_loop sz i pads (bS # rest) =
     (let bL = uintToBytes (length bS);
          bO = uintToBytes (32 * sz + 32 * i + 32 * pads);
          p = pad_loop 0 (length bS);
          bD = padRightBytes bS p 0;
          (offs, datas) = bytesArr_loop sz (i + 1) (pads + p div 32) rest
      in (padLeftBytes bO 32 0 # offs, (padLeftBytes bL 32 0, padRightBytes bD 32 0) # datas))"

definition encodeBytesArr :: "bytes list \<Rightarrow> bytes" where
  "encodeBytesArr bytesV =
     (let (offs, datas) = bytesArr_loop (length bytesV) 0 0 bytesV
      in padLeftBytes [0x20] 32 0 @ abi_word (length bytesV) @ concat offs @ concat (map (\<lambda>(l, d). l @ d) datas))"

subsection \<open>The encoder\<close>

fun find_from :: "char \<Rightarrow> nat \<Rightarrow> string \<Rightarrow> nat option" where
  "find_from c b [] = None"
| "find_from c 0 (x # xs) = (if x = c then Some 0 else map_option Suc (find_from c 0 xs))"
| "find_from c (Suc b) (x # xs) = map_option Suc (find_from c b xs)"

lemma find_from_ge: "find_from c b s = Some e \<Longrightarrow> b \<le> e \<and> e < length s"
  by (induction c b s arbitrary: e rule: find_from.induct) (auto split: if_splits)

text \<open>\<^verbatim>\<open>std::holds_alternative\<close> for the type a header names.\<close>

definition header_type :: "string \<Rightarrow> abi_value \<Rightarrow> bool" where
  "header_type t v = (case v of
     AUint256 _ \<Rightarrow> t = ''uint256''
   | AUint256Arr _ \<Rightarrow> t = ''uint256[]''
   | AAddress _ \<Rightarrow> t = ''address''
   | AAddressArr _ \<Rightarrow> t = ''address[]''
   | ABool _ \<Rightarrow> t = ''bool''
   | ABoolArr _ \<Rightarrow> t = ''bool[]''
   | ABytes _ \<Rightarrow> t = ''bytes'' \<or> t = ''string''
   | ABytesArr _ \<Rightarrow> t = ''bytes[]'' \<or> t = ''string[]'')"

definition header_types :: "string list" where
  "header_types = [''uint256'', ''address'', ''bool'', ''bytes'', ''string'',
     ''uint256[]'', ''address[]'', ''bool[]'', ''bytes[]'', ''string[]'']"

text \<open>The loop stops at the last comma, so the last argument is not compared. A comma at position zero
  ends it at once, because the position is the loop condition.\<close>

function header_loop :: "string \<Rightarrow> abi_value list \<Rightarrow> nat \<Rightarrow> nat \<Rightarrow> unit result" where
  "header_loop funcTmp data b ct = (case find_from (CHR '','') b funcTmp of
     None \<Rightarrow> Inr ()
   | Some e \<Rightarrow>
       (if e = 0 then Inr ()
        else let funcType = take (e - b) (drop b funcTmp) in
             if funcType \<notin> set header_types then Inl (RuntimeError ''Invalid function header type'')
             else bindE (view_at data ct) (\<lambda>v.
                  if \<not> header_type funcType v then Inl (RuntimeError ''Header and data types at position '')
                  else header_loop funcTmp data (e + 1) (ct + 1))))"
  by auto
termination
  by (relation "measure (\<lambda>(f, d, b, ct). Suc (length f) - b)") (auto dest: find_from_ge)

declare header_loop.simps [simp del]

definition encode_header :: "crypto \<Rightarrow> string \<Rightarrow> abi_value list \<Rightarrow> bytes result" where
  "encode_header C func data =
     (if func = '''' then Inr []
      else case (find_from (CHR ''('') 0 func, find_from (CHR '')'') 0 func) of
        (Some op, Some cl) \<Rightarrow>
          (if op + 1 > length func - 1 then Inl UndefinedBehaviour
           else let funcTmp = take (length func - 1 - (op + 1)) (drop (op + 1) func) in
                if funcTmp = [] \<and> data \<noteq> [] then Inl (RuntimeError ''Invalid function header'')
                else bindE (header_loop funcTmp data 0 0) (\<lambda>_. Inr (encodeFunction C func)))
      | _ \<Rightarrow> Inl (RuntimeError ''Invalid function header''))"

text \<open>One round of the main loop: the bytes appended to \<^verbatim>\<open>this->data\<close>, those appended to \<^verbatim>\<open>dynamicStr\<close>, and the
  next offset.\<close>

definition encode_arg :: "abi_value \<Rightarrow> uint64 \<Rightarrow> bytes \<times> bytes \<times> uint64" where
  "encode_arg arg nextOffset = (case arg of
     AUint256 n \<Rightarrow> (encodeUint256 n, [], nextOffset)
   | AAddress a \<Rightarrow> (encodeAddress a, [], nextOffset)
   | ABool b \<Rightarrow> (encodeBool b, [], nextOffset)
   | ABytes s \<Rightarrow> (let packed = encodeBytes s in
       (abi_word (unat nextOffset), packed, nextOffset + of_nat (32 * (length packed div 32))))
   | AUint256Arr ns \<Rightarrow> (abi_word (unat nextOffset), drop 32 (encodeUint256Arr ns), nextOffset + of_nat (32 + 32 * length ns))
   | AAddressArr as \<Rightarrow> (abi_word (unat nextOffset), drop 32 (encodeAddressArr as), nextOffset + of_nat (32 + 32 * length as))
   | ABoolArr bs \<Rightarrow> (abi_word (unat nextOffset), drop 32 (encodeBoolArr bs), nextOffset + of_nat (32 + 32 * length bs))
   | ABytesArr ss \<Rightarrow> (let packed = drop 32 (encodeBytesArr ss) in
       (abi_word (unat nextOffset), packed, nextOffset + of_nat (32 * (length packed div 32)))))"

fun encode_loop :: "abi_value list \<Rightarrow> uint64 \<Rightarrow> bytes \<Rightarrow> bytes \<Rightarrow> bytes \<times> bytes" where
  "encode_loop [] nextOffset d dynamicStr = (d, dynamicStr)"
| "encode_loop (arg # rest) nextOffset d dynamicStr =
     (let (h, t, off) = encode_arg arg nextOffset in encode_loop rest off (d @ h) (dynamicStr @ t))"

definition Encoder :: "crypto \<Rightarrow> abi_value list \<Rightarrow> string \<Rightarrow> bytes result" where
  "Encoder C data func =
     bindE (encode_header C func data) (\<lambda>hdr.
     let (d, dynamicStr) = encode_loop data (of_nat (32 * length data)) hdr [] in Inr (d @ dynamicStr))"

subsection \<open>The decoder\<close>

definition lexical_cast_u64 :: "uint256 \<Rightarrow> uint64 result" where
  "lexical_cast_u64 n = (if unat n < 2 ^ 64 then Inr (of_nat (unat n)) else Inl (BadCast ''bad lexical cast''))"

text \<open>Copy 32 bytes at a position and read them as a number below \<open>2 ^ 64\<close>.\<close>

definition read_u64 :: "bytes \<Rightarrow> nat \<Rightarrow> uint64 result" where
  "read_u64 data pos = bindE (bindE (raw_view data pos 32) bytesToUint256) lexical_cast_u64"

definition decodeUint256 :: "bytes \<Rightarrow> uint64 \<Rightarrow> uint256 result" where
  "decodeUint256 data start =
     (if unat (start + 32) > length data then Inl (RuntimeError ''Data too short'')
      else bindE (raw_view data (unat start) 32) bytesToUint256)"

definition decodeAddress :: "bytes \<Rightarrow> uint64 \<Rightarrow> bytes result" where
  "decodeAddress data start =
     (if unat (start + 32) > length data then Inl (RuntimeError ''Data too short'')
      else bindE (raw_view data (unat start + 12) 20) Address_bytes)"

definition decodeBool :: "bytes \<Rightarrow> uint64 \<Rightarrow> bool result" where
  "decodeBool data start =
     (if unat (start + 32) > length data then Inl (RuntimeError ''Data too short'')
      else bindE (view_at data (unat (start + 31))) (\<lambda>b. Inr (b = 1)))"

text \<open>The size check uses the position of the head instead of the position of the data.\<close>

definition decodeBytes :: "bytes \<Rightarrow> uint64 \<Rightarrow> bytes result" where
  "decodeBytes data start =
     bindE (read_u64 data (unat start)) (\<lambda>bytesStart.
     bindE (read_u64 data (unat bytesStart)) (\<lambda>bytesLength.
     if unat (start + 32 + 32 + bytesLength) > length data then Inl (RuntimeError ''Data too short'')
     else raw_view data (unat bytesStart + 32) (unat bytesLength)))"

fun read_items :: "(nat \<Rightarrow> 'a result) \<Rightarrow> nat \<Rightarrow> nat \<Rightarrow> 'a list result" where
  "read_items rd i 0 = Inr []"
| "read_items rd i (Suc n) = bindE (rd i) (\<lambda>x. bindE (read_items rd (i + 1) n) (\<lambda>xs. Inr (x # xs)))"

text \<open>The common shape of the decoders of arrays with items of 32 bytes; \<open>rd\<close> reads the item at a position.\<close>

definition decode_array :: "(bytes \<Rightarrow> nat \<Rightarrow> 'a result) \<Rightarrow> bytes \<Rightarrow> uint64 \<Rightarrow> 'a list result" where
  "decode_array rd data start =
     bindE (read_u64 data (unat start)) (\<lambda>arrayStart.
     bindE (read_u64 data (unat arrayStart)) (\<lambda>arrayLength.
     if unat (arrayStart + 32 + arrayLength * 32) > length data then Inl (RuntimeError ''Data too short'')
     else read_items (\<lambda>i. rd data (unat arrayStart + 32 + unat (of_nat i * 32 :: uint64))) 0 (unat arrayLength)))"

definition decodeUint256Arr :: "bytes \<Rightarrow> uint64 \<Rightarrow> uint256 list result" where
  "decodeUint256Arr = decode_array (\<lambda>data pos. bindE (raw_view data pos 32) bytesToUint256)"

definition decodeAddressArr :: "bytes \<Rightarrow> uint64 \<Rightarrow> bytes list result" where
  "decodeAddressArr = decode_array (\<lambda>data pos. bindE (raw_view data (pos + 12) 20) Address_bytes)"

definition decodeBoolArr :: "bytes \<Rightarrow> uint64 \<Rightarrow> bool list result" where
  "decodeBoolArr = decode_array (\<lambda>data pos. bindE (view_at data (pos + 31)) (\<lambda>b. Inr (b = 1)))"

definition decode_bytes_item :: "bytes \<Rightarrow> uint64 \<Rightarrow> nat \<Rightarrow> bytes result" where
  "decode_bytes_item data arrayStart i =
     bindE (read_u64 data (unat arrayStart + 32 + unat (of_nat i * 32 :: uint64))) (\<lambda>off.
     let bytesStart = off + arrayStart + 32 in
     bindE (read_u64 data (unat bytesStart)) (\<lambda>bytesLength.
     if unat (bytesStart + 32 + bytesLength) > length data then Inl (RuntimeError ''Data too short'')
     else raw_view data (unat bytesStart + 32) (unat bytesLength)))"

definition decodeBytesArr :: "bytes \<Rightarrow> uint64 \<Rightarrow> bytes list result" where
  "decodeBytesArr data start =
     bindE (read_u64 data (unat start)) (\<lambda>arrayStart.
     bindE (read_u64 data (unat arrayStart)) (\<lambda>arrayLength.
     read_items (decode_bytes_item data arrayStart) 0 (unat arrayLength)))"

fun decode_arg :: "abi_type \<Rightarrow> bytes \<Rightarrow> uint64 \<Rightarrow> abi_value result" where
  "decode_arg T_uint256 bs i = bindE (decodeUint256 bs i) (\<lambda>x. Inr (AUint256 x))"
| "decode_arg T_uint256Arr bs i = bindE (decodeUint256Arr bs i) (\<lambda>x. Inr (AUint256Arr x))"
| "decode_arg T_address bs i = bindE (decodeAddress bs i) (\<lambda>x. Inr (AAddress x))"
| "decode_arg T_addressArr bs i = bindE (decodeAddressArr bs i) (\<lambda>x. Inr (AAddressArr x))"
| "decode_arg T_boolean bs i = bindE (decodeBool bs i) (\<lambda>x. Inr (ABool x))"
| "decode_arg T_booleanArr bs i = bindE (decodeBoolArr bs i) (\<lambda>x. Inr (ABoolArr x))"
| "decode_arg T_bytes bs i = bindE (decodeBytes bs i) (\<lambda>x. Inr (ABytes x))"
| "decode_arg T_string bs i = bindE (decodeBytes bs i) (\<lambda>x. Inr (ABytes x))"
| "decode_arg T_bytesArr bs i = bindE (decodeBytesArr bs i) (\<lambda>x. Inr (ABytesArr x))"
| "decode_arg T_stringArr bs i = bindE (decodeBytesArr bs i) (\<lambda>x. Inr (ABytesArr x))"

fun decode_loop :: "abi_type list \<Rightarrow> bytes \<Rightarrow> uint64 \<Rightarrow> abi_value list result" where
  "decode_loop [] bs dataIdx = Inr []"
| "decode_loop (t # ts) bs dataIdx =
     bindE (decode_arg t bs dataIdx) (\<lambda>v. bindE (decode_loop ts bs (dataIdx + 32)) (\<lambda>vs. Inr (v # vs)))"

definition Decoder :: "abi_type list \<Rightarrow> bytes \<Rightarrow> abi_value list result" where
  "Decoder types bs = decode_loop types bs 0"

text \<open>\<^verbatim>\<open>getData<T>\<close> at the types the contracts ask for.\<close>

definition getData :: "abi_value list \<Rightarrow> nat \<Rightarrow> abi_value result" where
  "getData data i = (if i \<ge> length data then Inl (OutOfRange ''Index out of range'') else Inr (data ! i))"

definition getData_uint256 :: "abi_value list \<Rightarrow> nat \<Rightarrow> uint256 result" where
  "getData_uint256 data i =
     bindE (getData data i) (\<lambda>v. case v of AUint256 n \<Rightarrow> Inr n | _ \<Rightarrow> Inl (RuntimeError ''Type mismatch''))"

definition getData_address :: "abi_value list \<Rightarrow> nat \<Rightarrow> bytes result" where
  "getData_address data i =
     bindE (getData data i) (\<lambda>v. case v of AAddress a \<Rightarrow> Inr a | _ \<Rightarrow> Inl (RuntimeError ''Type mismatch''))"

definition getData_string :: "abi_value list \<Rightarrow> nat \<Rightarrow> bytes result" where
  "getData_string data i =
     bindE (getData data i) (\<lambda>v. case v of ABytes s \<Rightarrow> Inr s | _ \<Rightarrow> Inl (RuntimeError ''Type mismatch''))"

subsection \<open>Words and padding\<close>

lemma abi_word_eq:
  assumes "n < 2 ^ 256"
  shows "abi_word n = uint256ToBytes (of_nat n)"
proof -
  have "n < 256 ^ 32" using assms by simp
  then have len: "length (abi_word n) = 32" using bytesRequired_le [of n 32] by (simp add: abi_word_def padLeftBytes_eq)
  have "be_nat (abi_word n) = n" by (simp add: abi_word_def padLeftBytes_eq)
  then have "be_bytes 32 n = abi_word n" using be_bytes_be_nat_eq [OF len] by simp
  then show ?thesis using assms by (simp add: uint256ToBytes_eq unat_of_nat)
qed

lemma pad_loop_ge: "n \<le> pad_loop p n \<and> 32 \<le> pad_loop p n \<and> (32 dvd p \<longrightarrow> 32 dvd pad_loop p n)"
proof (induction p n rule: pad_loop.induct)
  case (1 p n)
  then show ?case by (cases "p + 32 < n") (simp_all add: pad_loop.simps [of p n])
qed

lemma pad_loop_0: "n \<le> pad_loop 0 n" "32 \<le> pad_loop 0 n" "32 dvd pad_loop 0 n"
  using pad_loop_ge [of n 0] by simp_all

lemma padRight_pad: "padRightBytes bs (pad_loop 0 (length bs)) 0 = bs @ replicate (pad_loop 0 (length bs) - length bs) 0"
  by (simp add: padRightBytes_eq)

lemma length_abi_word: "n < 2 ^ 256 \<Longrightarrow> length (abi_word n) = 32"
  by (simp add: abi_word_eq)

lemma length_encodeBytes: "length bs < 2 ^ 256 \<Longrightarrow> length (encodeBytes bs) = 32 + pad_loop 0 (length bs)"
  using pad_loop_0(1) [of "length bs"] by (simp add: encodeBytes_def length_abi_word padRight_pad)

subsection \<open>Parts of the encoded data\<close>

definition sits :: "bytes \<Rightarrow> nat \<Rightarrow> bytes \<Rightarrow> bool" where
  "sits D i x \<longleftrightarrow> i + length x \<le> length D \<and> take (length x) (drop i D) = x"

lemma sits_append: "sits D i (x @ y) \<longleftrightarrow> sits D i x \<and> sits D (i + length x) y"
proof (cases "i + length x \<le> length D")
  case True
  then have "length (take (length x) (drop i D)) = length x" by simp
  then have "take (length x) (drop i D) @ take (length y) (drop (i + length x) D) = x @ y
      \<longleftrightarrow> take (length x) (drop i D) = x \<and> take (length y) (drop (i + length x) D) = y"
    by (rule append_eq_append_conv [OF disjI1])
  then show ?thesis using True by (simp add: sits_def take_add add.commute add.left_commute) blast
qed (simp add: sits_def)

lemma sits_Nil [simp]: "sits D i [] \<longleftrightarrow> i \<le> length D"
  by (simp add: sits_def)

lemma sits_bound: "sits D i x \<Longrightarrow> i + length x \<le> length D"
  by (simp add: sits_def)

lemma sits_raw_view: "sits D i x \<Longrightarrow> length x = n \<Longrightarrow> raw_view D i n = Inr x"
  by (simp add: sits_def raw_view_def)

lemma sits_view_at:
  assumes "sits D i x" and "j < length x"
  shows "view_at D (i + j) = Inr (x ! j)"
proof -
  have "x ! j = take (length x) (drop i D) ! j" using assms(1) by (simp add: sits_def)
  then show ?thesis using assms sits_bound [OF assms(1)] by (simp add: view_at_def)
qed

lemma sits_item:
  assumes "\<forall>x\<in>set xs. length (f x) = 32" and "sits D i (concat (map f xs))" and "k < length xs"
  shows "sits D (i + 32 * k) (f (xs ! k))"
  using assms
proof (induction xs arbitrary: i k)
  case (Cons x xs)
  then show ?case by (cases k) (force simp: sits_append add.assoc)+
qed simp

lemma read_items_eq:
  assumes "\<And>k. k < length xs \<Longrightarrow> rd (i + k) = Inr (xs ! k)"
  shows "read_items rd i (length xs) = Inr xs"
  using assms
proof (induction xs arbitrary: i)
  case (Cons x xs)
  have "rd i = Inr x" using Cons.prems [of 0] by simp
  moreover have "rd (i + 1 + k) = Inr (xs ! k)" if "k < length xs" for k using Cons.prems [of "Suc k"] that by simp
  ultimately show ?case using Cons.IH [of "i + 1"] by simp
qed simp

lemma read_u64_sits: "sits D i (abi_word n) \<Longrightarrow> n < 2 ^ 64 \<Longrightarrow> read_u64 D i = Inr (of_nat n)"
  by (simp add: read_u64_def abi_word_eq sits_raw_view lexical_cast_u64_def unat_of_nat)

subsection \<open>Heads and tails\<close>

fun abi_type_of :: "abi_value \<Rightarrow> abi_type" where
  "abi_type_of (AUint256 _) = T_uint256"
| "abi_type_of (AUint256Arr _) = T_uint256Arr"
| "abi_type_of (AAddress _) = T_address"
| "abi_type_of (AAddressArr _) = T_addressArr"
| "abi_type_of (ABool _) = T_boolean"
| "abi_type_of (ABoolArr _) = T_booleanArr"
| "abi_type_of (ABytes _) = T_bytes"
| "abi_type_of (ABytesArr _) = T_bytesArr"

text \<open>Addresses have twenty bytes; sizes are those of objects in memory.\<close>

fun abi_valid :: "abi_value \<Rightarrow> bool" where
  "abi_valid (AAddress a) = (length a = 20)"
| "abi_valid (AAddressArr as) = (list_all (\<lambda>a. length a = 20) as \<and> length as < 2 ^ 64)"
| "abi_valid (AUint256Arr ns) = (length ns < 2 ^ 64)"
| "abi_valid (ABoolArr bs) = (length bs < 2 ^ 64)"
| "abi_valid (ABytes s) = (length s < 2 ^ 64)"
| "abi_valid (ABytesArr ss) = (list_all (\<lambda>s. length s < 2 ^ 64) ss \<and> length ss < 2 ^ 64)"
| "abi_valid _ = True"

fun abi_tail :: "abi_value \<Rightarrow> bytes" where
  "abi_tail (ABytes s) = encodeBytes s"
| "abi_tail (AUint256Arr ns) = abi_word (length ns) @ concat (map encodeUint256 ns)"
| "abi_tail (AAddressArr as) = abi_word (length as) @ concat (map encodeAddress as)"
| "abi_tail (ABoolArr bs) = abi_word (length bs) @ concat (map encodeBool bs)"
| "abi_tail (ABytesArr ss) = drop 32 (encodeBytesArr ss)"
| "abi_tail _ = []"

fun abi_head :: "nat \<Rightarrow> abi_value \<Rightarrow> bytes" where
  "abi_head off (AUint256 n) = encodeUint256 n"
| "abi_head off (AAddress a) = encodeAddress a"
| "abi_head off (ABool b) = encodeBool b"
| "abi_head off _ = abi_word off"

fun abi_heads :: "nat \<Rightarrow> abi_value list \<Rightarrow> bytes" where
  "abi_heads off [] = []"
| "abi_heads off (v # vs) = abi_head off v @ abi_heads (off + length (abi_tail v)) vs"

text \<open>Where the items of an array of byte strings start.\<close>

fun bytes_offsets :: "nat \<Rightarrow> bytes list \<Rightarrow> nat list" where
  "bytes_offsets off [] = []"
| "bytes_offsets off (s # ss) = off # bytes_offsets (off + length (encodeBytes s)) ss"

lemma length_bytes_offsets [simp]: "length (bytes_offsets off ss) = length ss"
  by (induction ss arbitrary: off) simp_all

lemma bytesArr_loop_eq:
  assumes "\<forall>s\<in>set ss. length s < 2 ^ 256"
  shows "bytesArr_loop sz i pads ss
    = (map abi_word (bytes_offsets (32 * sz + 32 * i + 32 * pads) ss),
       map (\<lambda>s. (abi_word (length s), padRightBytes s (pad_loop 0 (length s)) 0)) ss)"
  using assms
proof (induction ss arbitrary: i pads)
  case (Cons s ss)
  have p: "32 * (pad_loop 0 (length s) div 32) = pad_loop 0 (length s)" using pad_loop_0(3) [of "length s"] by simp
  have offs: "32 * sz + 32 * (i + 1) + 32 * (pads + pad_loop 0 (length s) div 32)
      = 32 * sz + 32 * i + 32 * pads + length (encodeBytes s)"
    using Cons.prems p by (simp add: length_encodeBytes algebra_simps)
  have d: "padRightBytes (padRightBytes s (pad_loop 0 (length s)) 0) 32 0 = padRightBytes s (pad_loop 0 (length s)) 0"
    using pad_loop_0(1,2) [of "length s"] by (simp add: padRightBytes_eq)
  have IH: "bytesArr_loop sz (i + 1) (pads + pad_loop 0 (length s) div 32) ss
      = (map abi_word (bytes_offsets (32 * sz + 32 * i + 32 * pads + length (encodeBytes s)) ss),
         map (\<lambda>s. (abi_word (length s), padRightBytes s (pad_loop 0 (length s)) 0)) ss)"
    using Cons.prems unfolding offs [symmetric] by (intro Cons.IH) simp
  show ?case by (simp only: bytesArr_loop.simps Let_def IH d prod.case) (simp add: abi_word_def)
qed simp

lemma length_items:
  "length (encodeUint256 n) = 32" "length a = 20 \<Longrightarrow> length (encodeAddress a) = 32" "length (encodeBool b) = 32"
  "length (padLeftBytes [0x20] 32 0) = 32"
  by (simp_all add: encodeUint256_def Hash_uint256_def encodeAddress_def encodeBool_def padLeftBytes_eq)

lemma length_concat_items: "\<forall>x\<in>set xs. length (f x) = 32 \<Longrightarrow> length (concat (map f xs)) = 32 * length xs"
  by (induction xs) simp_all

lemma abi_tail_BytesArr:
  assumes "abi_valid (ABytesArr ss)"
  shows "abi_tail (ABytesArr ss)
    = abi_word (length ss) @ concat (map abi_word (bytes_offsets (32 * length ss) ss)) @ concat (map encodeBytes ss)"
proof -
  have small: "\<forall>s\<in>set ss. length s < 2 ^ 256" using assms by (force simp: list_all_iff)
  show ?thesis
    by (simp add: encodeBytesArr_def bytesArr_loop_eq [OF small] length_items encodeBytes_def [abs_def] comp_def)
qed

lemma offsets_lt:
  "k \<in> set (bytes_offsets off ss) \<Longrightarrow> k \<le> off + length (concat (map encodeBytes ss))"
  by (induction ss arbitrary: off) force+

lemma encodeBytes_multiple: "length s < 2 ^ 64 \<Longrightarrow> 32 dvd length (encodeBytes s)"
  using pad_loop_0(3) [of "length s"] by (simp add: length_encodeBytes)

lemma concat_encodeBytes_multiple: "list_all (\<lambda>s. length s < 2 ^ 64) ss \<Longrightarrow> 32 dvd length (concat (map encodeBytes ss))"
  by (induction ss) (simp_all add: encodeBytes_multiple)

lemma abi_tail_multiple:
  assumes "abi_valid v" and "length (abi_tail v) < 2 ^ 64"
  shows "32 * (length (abi_tail v) div 32) = length (abi_tail v)"
proof -
  have "32 dvd length (abi_tail v)"
  proof (cases v)
    case (ABytesArr ss)
    note t = abi_tail_BytesArr [OF assms(1) [unfolded ABytesArr]]
    have "\<forall>k\<in>set (bytes_offsets (32 * length ss) ss). length (abi_word k) = 32"
    proof
      fix k assume "k \<in> set (bytes_offsets (32 * length ss) ss)"
      from offsets_lt [OF this] have "k \<le> 32 * length ss + length (concat (map encodeBytes ss))" .
      moreover have "length (concat (map encodeBytes ss)) < 2 ^ 64" using assms(2) unfolding ABytesArr t by simp
      ultimately show "length (abi_word k) = 32" using assms(1) ABytesArr by (intro length_abi_word) simp
    qed
    then have "length (concat (map abi_word (bytes_offsets (32 * length ss) ss))) = 32 * length ss"
      by (simp add: length_concat_items)
    moreover have "32 dvd length (concat (map encodeBytes ss))"
      using assms(1) ABytesArr by (intro concat_encodeBytes_multiple) simp
    ultimately show ?thesis
      using assms(1) ABytesArr unfolding ABytesArr t by (simp add: length_abi_word del: length_concat)
  qed (use assms in \<open>auto simp: encodeBytes_multiple length_abi_word length_concat_items length_items list_all_iff\<close>)
  then show ?thesis by simp
qed

lemma encode_arg_eq:
  assumes "abi_valid v" and "off + length (abi_tail v) < 2 ^ 64"
  shows "encode_arg v (of_nat off) = (abi_head off v, abi_tail v, of_nat (off + length (abi_tail v)))"
proof -
  have off: "unat (of_nat off :: uint64) = off" using assms(2) by (simp add: unat_of_nat)
  note m = abi_tail_multiple [OF assms(1)]
  show ?thesis
    using assms m
    by (cases v)
      (auto simp: encode_arg_def off Let_def encodeUint256Arr_def encodeAddressArr_def encodeBoolArr_def length_items
        length_concat_items length_abi_word list_all_iff simp del: of_nat_mult)
qed

lemma encode_loop_eq:
  assumes "\<forall>v\<in>set vs. abi_valid v" and "off + length (concat (map abi_tail vs)) < 2 ^ 64"
  shows "encode_loop vs (of_nat off) d dyn = (d @ abi_heads off vs, dyn @ concat (map abi_tail vs))"
  using assms
proof (induction vs arbitrary: off d dyn)
  case (Cons v vs)
  have "encode_arg v (of_nat off) = (abi_head off v, abi_tail v, of_nat (off + length (abi_tail v)))"
    using Cons.prems by (intro encode_arg_eq) (simp_all del: length_concat)
  with Cons.IH [of "off + length (abi_tail v)"] Cons.prems show ?case
    by (simp add: add.assoc del: of_nat_add length_concat)
qed simp

lemma length_abi_head: "abi_valid v \<Longrightarrow> off < 2 ^ 64 \<Longrightarrow> length (abi_head off v) = 32"
  by (cases v) (simp_all add: length_items length_abi_word)

lemma length_abi_heads:
  "\<forall>v\<in>set vs. abi_valid v \<Longrightarrow> off + length (concat (map abi_tail vs)) < 2 ^ 64 \<Longrightarrow> length (abi_heads off vs) = 32 * length vs"
  by (induction vs arbitrary: off) (simp_all add: length_abi_head add.assoc del: length_concat)

subsection \<open>Decoding the parts\<close>

lemma u64_sum: "i + n < 2 ^ 64 \<Longrightarrow> unat (of_nat i + of_nat n :: uint64) = i + n"
  by (simp add: unat_of_nat flip: of_nat_add)

lemma u64_nat: "n < 2 ^ 64 \<Longrightarrow> unat (of_nat n :: uint64) = n"
  by (simp add: unat_of_nat)

lemma decode_array_sits:
  assumes "sits D i (abi_word off)" and "sits D off (abi_word (length xs) @ concat (map f xs))"
    and "\<forall>x\<in>set xs. length (f x) = 32" and "length D < 2 ^ 64" and "length xs < 2 ^ 64"
    and "\<And>pos x. x \<in> set xs \<Longrightarrow> sits D pos (f x) \<Longrightarrow> rd D pos = Inr x"
  shows "decode_array rd D (of_nat i) = Inr xs"
proof -
  have items: "sits D (off + 32) (concat (map f xs))" and word: "sits D off (abi_word (length xs))"
    using assms(2,5) by (simp_all add: sits_append length_abi_word)
  have bound: "off + 32 + 32 * length xs \<le> length D"
    using sits_bound [OF items] assms(3) by (simp add: length_concat_items del: length_concat)
  have i: "i + 32 \<le> length D" using sits_bound [OF assms(1)] bound assms(4) by (simp add: length_abi_word)
  have small: "i < 2 ^ 64" "off < 2 ^ 64" using i bound assms(4) by simp_all
  have eq: "of_nat off + 32 + of_nat (length xs) * 32 = (of_nat (off + 32 + 32 * length xs) :: uint64)" by simp
  have sum: "unat (of_nat off + 32 + of_nat (length xs) * 32 :: uint64) = off + 32 + 32 * length xs"
    unfolding eq by (rule u64_nat) (use bound assms(4) in simp)
  have "rd D (off + 32 + unat (of_nat k * 32 :: uint64)) = Inr (xs ! k)" if "k < length xs" for k
  proof -
    have "unat (of_nat k * 32 :: uint64) = 32 * k"
      using that bound assms(4) u64_nat [of "32 * k"] by (simp add: mult.commute)
    then show ?thesis using sits_item [OF assms(3) items that] assms(6) that by simp
  qed
  then have "read_items (\<lambda>k. rd D (off + 32 + unat (of_nat k * 32 :: uint64))) 0 (length xs) = Inr xs"
    by (intro read_items_eq) simp
  moreover have "read_u64 D (unat (of_nat i :: uint64)) = Inr (of_nat off)"
    using read_u64_sits [OF assms(1) small(2)] u64_nat [OF small(1)] by simp
  moreover have "read_u64 D (unat (of_nat off :: uint64)) = Inr (of_nat (length xs))"
    using read_u64_sits [OF word assms(5)] u64_nat [OF small(2)] by simp
  ultimately show ?thesis
    using bound by (simp add: decode_array_def u64_nat [OF small(2)] u64_nat [OF assms(5)] sum del: bindE_eq_Inr)
qed

lemma offsets_sits:
  assumes "sits D q (concat (map encodeBytes ss))" and "k < length ss" and "off \<le> q"
  shows "sits D (q - off + bytes_offsets off ss ! k) (encodeBytes (ss ! k))"
  using assms
proof (induction ss arbitrary: off q k)
  case (Cons s ss)
  show ?case
  proof (cases k)
    case 0
    with Cons.prems show ?thesis by (simp add: sits_append)
  next
    case (Suc k')
    with Cons.IH [of "q + length (encodeBytes s)" k' "off + length (encodeBytes s)"] Cons.prems show ?thesis
      by (simp add: sits_append)
  qed
qed simp

lemma encodeBytes_sits:
  assumes "sits D pos (encodeBytes s)" and "length s < 2 ^ 64"
  shows "read_u64 D pos = Inr (of_nat (length s))" "raw_view D (pos + 32) (length s) = Inr s" "pos + 32 + length s \<le> length D"
proof -
  have word: "sits D pos (abi_word (length s))" and data: "sits D (pos + 32) s"
    using assms by (simp_all add: encodeBytes_def padRight_pad sits_append length_abi_word)
  show "read_u64 D pos = Inr (of_nat (length s))" by (rule read_u64_sits [OF word assms(2)])
  show "raw_view D (pos + 32) (length s) = Inr s" by (rule sits_raw_view [OF data refl])
  show "pos + 32 + length s \<le> length D" using sits_bound [OF data] by simp
qed

lemma decodeBytes_sits:
  assumes "sits D i (abi_word off)" and "sits D off (encodeBytes s)" and "i + 32 \<le> off"
    and "length D < 2 ^ 64" and "length s < 2 ^ 64"
  shows "decodeBytes D (of_nat i) = Inr s"
proof -
  note e = encodeBytes_sits [OF assms(2,5)]
  have small: "i < 2 ^ 64" "off < 2 ^ 64" using e(3) assms(3,4) by simp_all
  have eq: "of_nat i + 32 + 32 + of_nat (length s) = (of_nat (i + 64 + length s) :: uint64)" by simp
  have sum: "unat (of_nat i + 32 + 32 + of_nat (length s) :: uint64) = i + 64 + length s"
    unfolding eq by (rule u64_nat) (use e(3) assms(3,4) in simp)
  have "read_u64 D (unat (of_nat i :: uint64)) = Inr (of_nat off)"
    using read_u64_sits [OF assms(1) small(2)] u64_nat [OF small(1)] by simp
  moreover have "read_u64 D (unat (of_nat off :: uint64)) = Inr (of_nat (length s))"
    using e(1) u64_nat [OF small(2)] by simp
  ultimately show ?thesis
    using e(2,3) assms(3) by (simp add: decodeBytes_def u64_nat [OF small(2)] u64_nat [OF assms(5)] sum [simplified] del: bindE_eq_Inr)
qed

lemma decode_bytes_item_sits:
  assumes "sits D (a + 32 + 32 * k) (abi_word off)" and "sits D (a + 32 + off) (encodeBytes s)"
    and "length D < 2 ^ 64" and "length s < 2 ^ 64"
  shows "decode_bytes_item D (of_nat a) k = Inr s"
proof -
  note e = encodeBytes_sits [OF assms(2,4)]
  have small: "a < 2 ^ 64" "off < 2 ^ 64" "a + 32 + off < 2 ^ 64" "32 * k < 2 ^ 64"
    using e(3) assms(3) sits_bound [OF assms(1)] by simp_all
  have eq: "of_nat off + of_nat a + 32 = (of_nat (a + 32 + off) :: uint64)"
    "64 + (of_nat off + of_nat a) + of_nat (length s) = (of_nat (64 + (a + off) + length s) :: uint64)" by simp_all
  have start: "unat (of_nat (a + 32 + off) :: uint64) = a + 32 + off" by (rule u64_nat [OF small(3)])
  have sum: "unat (64 + (of_nat off + of_nat a) + of_nat (length s) :: uint64) = 64 + (a + off) + length s"
    unfolding eq(2) by (rule u64_nat) (use e(3) assms(3) in simp)
  have k: "unat (of_nat k * 32 :: uint64) = 32 * k" using u64_nat [OF small(4)] by (simp add: mult.commute)
  have "read_u64 D (a + 32 + 32 * k) = Inr (of_nat off)" by (rule read_u64_sits [OF assms(1) small(2)])
  then show ?thesis
    using e by (simp add: decode_bytes_item_def Let_def k eq(1) start sum u64_nat [OF small(1)] u64_nat [OF assms(4)]
        del: bindE_eq_Inr of_nat_add)
qed

lemma decodeBytesArr_sits:
  assumes "sits D i (abi_word off)" and "sits D off (abi_tail (ABytesArr ss))" and "abi_valid (ABytesArr ss)"
    and "length D < 2 ^ 64"
  shows "decodeBytesArr D (of_nat i) = Inr ss"
proof -
  let ?offs = "bytes_offsets (32 * length ss) ss"
  have parts: "sits D off (abi_word (length ss))" "sits D (off + 32) (concat (map abi_word ?offs) @ concat (map encodeBytes ss))"
    using assms(2,3) unfolding abi_tail_BytesArr [OF assms(3)] by (simp_all add: sits_append length_abi_word)
  have "length (concat (map encodeBytes ss)) < 2 ^ 64" using sits_bound [OF parts(2)] assms(4) by simp
  then have w: "\<forall>k\<in>set ?offs. length (abi_word k) = 32"
    using offsets_lt [of _ "32 * length ss" ss] assms(3) by (intro ballI length_abi_word) fastforce
  have items: "sits D (off + 32) (concat (map abi_word ?offs))"
    "sits D (off + 32 + 32 * length ss) (concat (map encodeBytes ss))"
    using parts(2) w by (simp_all add: sits_append length_concat_items del: length_concat)
  have "decode_bytes_item D (of_nat off) (0 + k) = Inr (ss ! k)" if k: "k < length ss" for k
  proof (rule decode_bytes_item_sits)
    show "sits D (off + 32 + 32 * (0 + k)) (abi_word (?offs ! k))" using sits_item [OF w items(1), of k] k by simp
    show "sits D (off + 32 + ?offs ! k) (encodeBytes (ss ! k))" using offsets_sits [OF items(2) k, of "32 * length ss"] by simp
  qed (use assms(3,4) k in \<open>simp_all add: list_all_iff\<close>)
  then have "read_items (decode_bytes_item D (of_nat off)) 0 (length ss) = Inr ss" by (rule read_items_eq)
  moreover have small: "i < 2 ^ 64" "off < 2 ^ 64"
  proof -
    show "off < 2 ^ 64" using sits_bound [OF parts(1)] assms(4) by simp
    then show "i < 2 ^ 64" using sits_bound [OF assms(1)] assms(4) by simp
  qed
  moreover have "read_u64 D (unat (of_nat i :: uint64)) = Inr (of_nat off)"
    using read_u64_sits [OF assms(1) small(2)] u64_nat [OF small(1)] by simp
  moreover have "length ss < 2 ^ 64" using assms(3) by simp
  then have "read_u64 D (unat (of_nat off :: uint64)) = Inr (of_nat (length ss))" "unat (of_nat (length ss) :: uint64) = length ss"
    using read_u64_sits [OF parts(1)] u64_nat [OF small(2)] u64_nat [of "length ss"] by simp_all
  ultimately show ?thesis by (simp add: decodeBytesArr_def del: bindE_eq_Inr)
qed

lemma address_sits: "length a = 20 \<Longrightarrow> sits D pos (encodeAddress a) \<Longrightarrow> raw_view D (pos + 12) 20 = Inr a"
  by (intro sits_raw_view) (simp_all add: encodeAddress_def padLeftBytes_eq sits_append)

lemma bool_sits: "sits D pos (encodeBool b) \<Longrightarrow> \<exists>x. view_at D (pos + 31) = Inr x \<and> (x = 1 \<longleftrightarrow> b)"
  using sits_view_at [of D pos "encodeBool b" 31] by (auto simp: encodeBool_def padLeftBytes_eq nth_append)

lemma decode_arg_sits:
  assumes "sits D i (abi_head off v)" and "sits D off (abi_tail v)" and "i + 32 \<le> off" and "abi_valid v"
    and "length D < 2 ^ 64"
  shows "decode_arg (abi_type_of v) D (of_nat i) = Inr v"
proof -
  have off: "off < 2 ^ 64" using sits_bound [OF assms(2)] assms(5) by simp
  have bound: "i + 32 \<le> length D" using sits_bound [OF assms(1)] length_abi_head [OF assms(4) off] by simp
  then have i: "i < 2 ^ 64" "i + 31 < 2 ^ 64" "i + 32 < 2 ^ 64" using assms(5) by simp_all
  have u: "unat (of_nat i + 32 :: uint64) = i + 32" "unat (of_nat i + 31 :: uint64) = i + 31" "unat (of_nat i :: uint64) = i"
    using u64_nat [OF i(1)] u64_nat [OF i(2)] u64_nat [OF i(3)] by simp_all
  show ?thesis
  proof (cases v)
    case (AUint256 n)
    then have "raw_view D i 32 = Inr (uint256ToBytes n)"
      using assms(1) by (intro sits_raw_view) (simp_all add: encodeUint256_def Hash_uint256_def FixedStr_id)
    with AUint256 bound u show ?thesis by (simp add: decodeUint256_def)
  next
    case (AAddress a)
    then have "raw_view D (i + 12) 20 = Inr a" using assms(1,4) by (intro address_sits) simp_all
    with AAddress bound u assms(4) show ?thesis by (simp add: decodeAddress_def Address_bytes_def)
  next
    case (ABool b)
    with bool_sits [of D i b] assms(1) bound u show ?thesis by (auto simp: decodeBool_def)
  next
    case (ABytes s)
    with decodeBytes_sits [of D i off s] assms show ?thesis by simp
  next
    case (AUint256Arr ns)
    then have "decodeUint256Arr D (of_nat i) = Inr ns"
      unfolding decodeUint256Arr_def using assms
      by (intro decode_array_sits [where f = encodeUint256 and off = off])
        (auto simp: length_items encodeUint256_def Hash_uint256_def FixedStr_id dest!: sits_raw_view [where n = 32])
    with AUint256Arr show ?thesis by simp
  next
    case (AAddressArr as)
    then have "decodeAddressArr D (of_nat i) = Inr as"
      unfolding decodeAddressArr_def using assms
      by (intro decode_array_sits [where f = encodeAddress and off = off])
        (auto simp: length_items list_all_iff Address_bytes_def address_sits)
    with AAddressArr show ?thesis by simp
  next
    case (ABoolArr bs)
    then have "decodeBoolArr D (of_nat i) = Inr bs"
      unfolding decodeBoolArr_def using assms
      by (intro decode_array_sits [where f = encodeBool and off = off]) (auto simp: length_items dest: bool_sits)
    with ABoolArr show ?thesis by simp
  next
    case (ABytesArr ss)
    with decodeBytesArr_sits [of D i off ss] assms show ?thesis by simp
  qed
qed

lemma decode_loop_sits:
  assumes "sits D i (abi_heads off vs)" and "sits D off (concat (map abi_tail vs))" and "i + 32 * length vs \<le> off"
    and "\<forall>v\<in>set vs. abi_valid v" and "length D < 2 ^ 64"
  shows "decode_loop (map abi_type_of vs) D (of_nat i) = Inr vs"
  using assms
proof (induction vs arbitrary: i off)
  case (Cons v vs)
  have off: "off < 2 ^ 64" using sits_bound [OF Cons.prems(2)] Cons.prems(5) by simp
  have h: "length (abi_head off v) = 32" using Cons.prems(4) off by (intro length_abi_head) simp_all
  have "decode_arg (abi_type_of v) D (of_nat i) = Inr v"
    using Cons.prems by (intro decode_arg_sits [where off = off]) (simp_all add: sits_append)
  moreover have "decode_loop (map abi_type_of vs) D (of_nat (i + 32)) = Inr vs"
    using Cons.prems h by (intro Cons.IH [where off = "off + length (abi_tail v)"]) (simp_all add: sits_append)
  ultimately show ?case by (simp add: add.commute)
qed simp

text \<open>What the encoder produces without a function header: the heads, then the tails.\<close>

definition abi_packed :: "abi_value list \<Rightarrow> bytes" where
  "abi_packed vs = abi_heads (32 * length vs) vs @ concat (map abi_tail vs)"

lemma Encoder_packed:
  assumes "\<forall>v\<in>set vs. abi_valid v" and "32 * length vs + length (concat (map abi_tail vs)) < 2 ^ 64"
  shows "Encoder C vs '''' = Inr (abi_packed vs)"
  using encode_loop_eq [OF assms, of "[]" "[]"] by (simp add: Encoder_def encode_header_def abi_packed_def)

lemma Decoder_packed:
  assumes "\<forall>v\<in>set vs. abi_valid v" and "32 * length vs + length (concat (map abi_tail vs)) < 2 ^ 64"
  shows "Decoder (map abi_type_of vs) (abi_packed vs) = Inr vs"
proof -
  let ?off = "32 * length vs" and ?T = "concat (map abi_tail vs)"
  have len: "length (abi_heads ?off vs) = ?off" by (rule length_abi_heads [OF assms])
  have "decode_loop (map abi_type_of vs) (abi_heads ?off vs @ ?T) (of_nat 0) = Inr vs"
  proof (rule decode_loop_sits [where off = ?off])
    show "sits (abi_heads ?off vs @ ?T) 0 (abi_heads ?off vs)" "sits (abi_heads ?off vs @ ?T) ?off ?T"
      using len by (simp_all add: sits_def)
    show "length (abi_heads ?off vs @ ?T) < 2 ^ 64" using assms(2) len by (simp del: length_concat)
  qed (use assms in simp_all)
  then show ?thesis by (simp add: Decoder_def abi_packed_def)
qed



text \<open>The size check of the decoder of byte strings adds the length to the position of the head instead of
  the position of the data, so it can pass although the data ends before the string does: this call reads
  behind the end of the input.\<close>

theorem decodeBytes_overread:
  "Decoder [T_bytes] (abi_word 96 @ abi_word 0 @ abi_word 0 @ abi_word 64) = Inl UndefinedBehaviour"
proof -
  let ?D = "abi_word 96 @ abi_word 0 @ abi_word 0 @ abi_word 64"
  have len: "length (abi_word 96) = 32" "length (abi_word 0) = 32" "length (abi_word 64) = 32" by (simp_all add: length_abi_word)
  have "sits ?D 0 (abi_word 96)" "sits ?D 96 (abi_word 64)" by (simp_all add: sits_def len)
  then have "read_u64 ?D 0 = Inr 96" "read_u64 ?D 96 = Inr 64" using read_u64_sits [of ?D] by fastforce+
  then show ?thesis by (simp add: Decoder_def decodeBytes_def raw_view_def len)
qed

subsection \<open>Decoded values stand in the data\<close>

text \<open>\<^verbatim>\<open>string\<close> and \<^verbatim>\<open>bytes\<close> share one alternative of the variant.\<close>

fun abi_repr :: "abi_type \<Rightarrow> abi_type" where
  "abi_repr T_string = T_bytes"
| "abi_repr T_stringArr = T_bytesArr"
| "abi_repr t = t"

text \<open>Where the data holds a value whose head is at a position: a static value in the head itself, a dynamic one behind the offset
  that the head holds. The offsets of the items of an array of byte strings count from its first item and wrap at 64 bits.\<close>

definition word_at :: "bytes \<Rightarrow> nat \<Rightarrow> nat \<Rightarrow> bool" where
  "word_at D i n \<longleftrightarrow> n < 2 ^ 64 \<and> sits D i (abi_word n)"

definition address_at :: "bytes \<Rightarrow> nat \<Rightarrow> bytes \<Rightarrow> bool" where
  "address_at D i a \<longleftrightarrow> length a = 20 \<and> sits D (i + 12) a"

definition bool_at :: "bytes \<Rightarrow> nat \<Rightarrow> bool \<Rightarrow> bool" where
  "bool_at D i b \<longleftrightarrow> i + 32 \<le> length D \<and> (b \<longleftrightarrow> D ! (i + 31) = 1)"

definition string_at :: "bytes \<Rightarrow> nat \<Rightarrow> bytes \<Rightarrow> bool" where
  "string_at D p s \<longleftrightarrow> word_at D p (length s) \<and> sits D (p + 32) s"

definition array_at :: "bytes \<Rightarrow> nat \<Rightarrow> (nat \<Rightarrow> nat \<Rightarrow> 'a \<Rightarrow> bool) \<Rightarrow> 'a list \<Rightarrow> bool" where
  "array_at D i item xs \<longleftrightarrow> (\<exists>p. word_at D i p \<and> word_at D p (length xs) \<and> (\<forall>k<length xs. item p (p + 32 + 32 * k) (xs ! k)))"

fun stands_at :: "bytes \<Rightarrow> nat \<Rightarrow> abi_value \<Rightarrow> bool" where
  "stands_at D i (AUint256 n) \<longleftrightarrow> sits D i (uint256ToBytes n)"
| "stands_at D i (AAddress a) \<longleftrightarrow> address_at D i a"
| "stands_at D i (ABool b) \<longleftrightarrow> bool_at D i b"
| "stands_at D i (ABytes s) \<longleftrightarrow> (\<exists>p. word_at D i p \<and> string_at D p s)"
| "stands_at D i (AUint256Arr ns) \<longleftrightarrow> array_at D i (\<lambda>_ j n. sits D j (uint256ToBytes n)) ns"
| "stands_at D i (AAddressArr as) \<longleftrightarrow> array_at D i (\<lambda>_. address_at D) as"
| "stands_at D i (ABoolArr bs) \<longleftrightarrow> array_at D i (\<lambda>_. bool_at D) bs"
| "stands_at D i (ABytesArr ss) \<longleftrightarrow>
     array_at D i (\<lambda>p j s. \<exists>off. word_at D j off \<and> string_at D ((off + p + 32) mod 2 ^ 64) s) ss"

lemma unat_u64: "unat (n :: uint64) < 2 ^ 64"
  using unsigned_less [of n, where ?'a = nat] by simp

lemma raw_view_sits: "raw_view D i n = Inr x \<Longrightarrow> sits D i x \<and> length x = n"
  by (auto simp: raw_view_def sits_def split: if_splits)

lemma read_word_sits:
  assumes "bindE (raw_view D i 32) bytesToUint256 = Inr n"
  shows "sits D i (uint256ToBytes n)"
proof -
  from assms obtain x where x: "raw_view D i 32 = Inr x" "bytesToUint256 x = Inr n" by auto
  have "uint256ToBytes n = x" using raw_view_sits [OF x(1)] x(2) by (intro codec256.enc_dec) auto
  then show ?thesis using raw_view_sits [OF x(1)] by simp
qed

lemma read_u64_word_at:
  assumes "read_u64 D i = Inr w"
  shows "word_at D i (unat w)"
proof -
  from assms obtain n where n: "bindE (raw_view D i 32) bytesToUint256 = Inr n" "unat n < 2 ^ 64" "w = of_nat (unat n)"
    unfolding read_u64_def by (auto simp: lexical_cast_u64_def simp del: of_nat_unat split: if_splits)
  have w: "unat w = unat n" unfolding n(3) by (rule u64_nat [OF n(2)])
  have "abi_word (unat n) = uint256ToBytes n" using n(2) by (simp add: abi_word_eq)
  then show ?thesis using read_word_sits [OF n(1)] n(2) by (simp add: word_at_def w)
qed

lemma read_address_at: "bindE (raw_view D (i + 12) 20) Address_bytes = Inr a \<Longrightarrow> address_at D i a"
  by (auto simp: address_at_def Address_bytes_def dest: raw_view_sits split: if_splits)

lemma read_bool_at: "bindE (view_at D (i + 31)) (\<lambda>b. Inr (b = 1)) = Inr b \<Longrightarrow> bool_at D i b"
  by (auto simp: bool_at_def view_at_def split: if_splits)

lemma read_items_nth: "read_items rd i n = Inr xs \<Longrightarrow> length xs = n \<and> (\<forall>k<n. rd (i + k) = Inr (xs ! k))"
proof (induction n arbitrary: i xs)
  case (Suc n)
  then obtain y ys where y: "rd i = Inr y" "read_items rd (i + 1) n = Inr ys" "xs = y # ys" by auto
  have "rd (i + k) = Inr (xs ! k)" if "k < Suc n" for k
    using that Suc.IH [OF y(2)] y(1,3) by (cases k) auto
  then show ?case using Suc.IH [OF y(2)] y(3) by simp
qed simp

text \<open>The positions of the items do not wrap when every one of them was read.\<close>

lemma items_within:
  fixes n :: uint64
  assumes rd: "\<And>k. k < unat n \<Longrightarrow> a + 32 + unat (of_nat k * 32 :: uint64) + 32 \<le> length D" and "length D < 2 ^ 64" and "k < unat n"
  shows "unat (of_nat k * 32 :: uint64) = 32 * k"
proof -
  have "unat n \<le> 2 ^ 59 - 1"
  proof (rule ccontr)
    assume "\<not> unat n \<le> 2 ^ 59 - 1"
    moreover have "unat (of_nat (2 ^ 59 - 1) * 32 :: uint64) = 2 ^ 64 - 32" by (simp add: unat_of_nat)
    ultimately show False using rd [of "2 ^ 59 - 1"] assms(2) by simp
  qed
  then have "32 * k < 2 ^ 64" using assms(3) by simp
  from u64_nat [OF this] show ?thesis by (simp add: mult.commute)
qed

lemma decode_array_at:
  assumes "decode_array rd D start = Inr xs" and "length D < 2 ^ 64"
    and item: "\<And>pos x. rd D pos = Inr x \<Longrightarrow> P pos x" and within: "\<And>pos x. rd D pos = Inr x \<Longrightarrow> pos + 32 \<le> length D"
  shows "array_at D (unat start) (\<lambda>_. P) xs"
proof -
  obtain a n where a: "read_u64 D (unat start) = Inr a" "read_u64 D (unat a) = Inr n"
    and r: "read_items (\<lambda>i. rd D (unat a + 32 + unat (of_nat i * 32 :: uint64))) 0 (unat n) = Inr xs"
    using assms(1) by (auto simp: decode_array_def result_simps)
  note x = read_items_nth [OF r, simplified]
  have "unat a + 32 + unat (of_nat k * 32 :: uint64) + 32 \<le> length D" if "k < unat n" for k
    using x that by (blast intro: within)
  from items_within [OF this assms(2)] show ?thesis
    using x item read_u64_word_at [OF a(1)] read_u64_word_at [OF a(2)] by (force simp: array_at_def)
qed

lemma word_within: "sits D i (uint256ToBytes n) \<Longrightarrow> i + 32 \<le> length D" "word_at D i p \<Longrightarrow> i + 32 \<le> length D"
  by (auto simp: word_at_def length_abi_word dest!: sits_bound)

lemma decode_bytes_item_at:
  assumes "decode_bytes_item D a i = Inr s"
  shows "\<exists>off. word_at D (unat a + 32 + unat (of_nat i * 32 :: uint64)) off \<and> string_at D ((off + unat a + 32) mod 2 ^ 64) s"
proof -
  obtain off n where r: "read_u64 D (unat a + 32 + unat (of_nat i * 32 :: uint64)) = Inr off"
    "read_u64 D (unat (off + a + 32)) = Inr n" "raw_view D (unat (off + a + 32) + 32) (unat n) = Inr s"
    using assms by (auto simp: decode_bytes_item_def Let_def result_simps)
  have "unat (off + a + 32) = (unat off + unat a + 32) mod 2 ^ 64" by (simp add: unat_word_ariths mod_simps)
  then show ?thesis
    using r read_u64_word_at [OF r(1)] read_u64_word_at [OF r(2)] raw_view_sits [OF r(3)]
    by (intro exI [of _ "unat off"]) (simp add: string_at_def)
qed

lemma decodeBytesArr_at:
  assumes "decodeBytesArr D start = Inr ss" and "length D < 2 ^ 64"
  shows "stands_at D (unat start) (ABytesArr ss)"
proof -
  obtain a n where a: "read_u64 D (unat start) = Inr a" "read_u64 D (unat a) = Inr n"
    and r: "read_items (decode_bytes_item D a) 0 (unat n) = Inr ss"
    using assms(1) by (auto simp: decodeBytesArr_def result_simps)
  note x = read_items_nth [OF r, simplified]
  have item: "\<exists>off. word_at D (unat a + 32 + unat (of_nat k * 32 :: uint64)) off \<and> string_at D ((off + unat a + 32) mod 2 ^ 64) (ss ! k)"
    if "k < unat n" for k by (rule decode_bytes_item_at) (use x that in blast)
  then have "unat a + 32 + unat (of_nat k * 32 :: uint64) + 32 \<le> length D" if "k < unat n" for k
    using that word_within(2) by blast
  note pos = items_within [OF this assms(2)]
  have "\<exists>off. word_at D (unat a + 32 + 32 * k) off \<and> string_at D ((off + unat a + 32) mod 2 ^ 64) (ss ! k)" if "k < length ss" for k
    using item [of k] x that by (simp add: pos)
  then show ?thesis
    using read_u64_word_at [OF a(1)] read_u64_word_at [OF a(2)] x unfolding stands_at.simps array_at_def by metis
qed

lemma decodeBytes_at: "decodeBytes D start = Inr s \<Longrightarrow> stands_at D (unat start) (ABytes s)"
  by (auto simp: decodeBytes_def result_simps string_at_def dest!: read_u64_word_at raw_view_sits)

lemma address_within: "address_at D i a \<Longrightarrow> i + 32 \<le> length D"
  by (auto simp: address_at_def dest!: sits_bound)

text \<open>Every accepted argument has its head inside the data.\<close>

lemma stands_within: "stands_at D i v \<Longrightarrow> i + 32 \<le> length D"
  by (cases v) (auto simp: bool_at_def array_at_def dest: word_within address_within)

lemma decodeBool_at:
  assumes "decodeBool D i = Inr b" and "unat i + 32 \<le> 2 ^ 64"
  shows "bool_at D (unat i) b"
proof -
  have "unat (i + 31) = unat i + 31" using assms(2) u64_nat [of "unat i + 31"] by (simp add: word_unat_eq_iff)
  then show ?thesis using assms(1) read_bool_at [of D "unat i" b] by (auto simp: decodeBool_def split: if_splits)
qed

lemma decode_array_ats:
  assumes "length D < 2 ^ 64"
  shows "decodeUint256Arr D i = Inr ns \<Longrightarrow> stands_at D (unat i) (AUint256Arr ns)"
    and "decodeAddressArr D i = Inr as \<Longrightarrow> stands_at D (unat i) (AAddressArr as)"
    and "decodeBoolArr D i = Inr bs \<Longrightarrow> stands_at D (unat i) (ABoolArr bs)"
proof -
  note within = word_within(1) [OF read_word_sits] address_within [OF read_address_at]
  note at = decode_array_at [OF _ assms]
  show "stands_at D (unat i) (AUint256Arr ns)" if "decodeUint256Arr D i = Inr ns"
    unfolding stands_at.simps by (rule at [OF that [unfolded decodeUint256Arr_def] read_word_sits within(1)])
  show "stands_at D (unat i) (AAddressArr as)" if "decodeAddressArr D i = Inr as"
    unfolding stands_at.simps by (rule at [OF that [unfolded decodeAddressArr_def] read_address_at within(2)])
  show "stands_at D (unat i) (ABoolArr bs)" if "decodeBoolArr D i = Inr bs"
    unfolding stands_at.simps
    by (rule at [OF that [unfolded decodeBoolArr_def] read_bool_at read_bool_at [unfolded bool_at_def, THEN conjunct1]])
qed

lemma decode_arg_at:
  assumes "decode_arg t D i = Inr v" and "length D < 2 ^ 64" and "unat i + 32 \<le> 2 ^ 64"
  shows "abi_type_of v = abi_repr t \<and> stands_at D (unat i) v"
  using assms(1) decode_array_ats [OF assms(2)] decodeBytes_at decodeBytesArr_at [OF _ assms(2)] decodeBool_at [OF _ assms(3)]
    read_word_sits read_address_at
  by (cases t) (auto simp: decodeUint256_def decodeAddress_def simp del: stands_at.simps(5-8) split: if_splits)

lemma decode_loop_at:
  assumes "decode_loop types D (of_nat i) = Inr vs" and "length D < 2 ^ 64" and "i \<le> length D" and "32 dvd i"
  shows "map abi_type_of vs = map abi_repr types \<and> (\<forall>k<length vs. stands_at D (i + 32 * k) (vs ! k))"
  using assms
proof (induction types arbitrary: i vs)
  case (Cons t ts)
  then obtain v ws where v: "decode_arg t D (of_nat i) = Inr v" "decode_loop ts D (of_nat i + 32) = Inr ws" "vs = v # ws" by auto
  have i: "unat (of_nat i :: uint64) = i" using Cons.prems(2,3) by (intro u64_nat) simp
  have "i + 32 \<le> 2 ^ 64" using Cons.prems(2-4) by (auto elim!: dvdE)
  then have s: "abi_type_of v = abi_repr t" "stands_at D i v" using decode_arg_at [OF v(1) Cons.prems(2)] by (simp_all add: i)
  have "map abi_type_of ws = map abi_repr ts \<and> (\<forall>k<length ws. stands_at D (i + 32 + 32 * k) (ws ! k))"
    using v(2) Cons.prems(2,4) stands_within [OF s(2)] by (intro Cons.IH) simp_all
  then show ?case using s v(3) by (auto simp: nth_Cons add.assoc split: nat.split)
qed simp

text \<open>C31. When the decoder accepts its input, it returns one value per requested type, each of the variant alternative of that type and
  equal to what the data holds for it: the head of the i-th value is at 32 i, a number is the 32 bytes there, an address the last twenty of
  them, a flag their last byte compared with one; a byte string and an array have their length at the offset in the head and their content behind it.\<close>

theorem Decoder_reads_slots:
  assumes "Decoder types D = Inr vs" and "length D < 2 ^ 64"
  shows "map abi_type_of vs = map abi_repr types \<and> (\<forall>k<length vs. stands_at D (32 * k) (vs ! k))"
  using decode_loop_at [of types D 0 vs] assms by (simp add: Decoder_def)

theorem Decoder_reads_slots_witness:
  "let D = abi_packed [AAddress (replicate 20 7), ABytes [1]] in
   Decoder [T_address, T_string] D = Inr [AAddress (replicate 20 7), ABytes [1]]
   \<and> stands_at D 0 (AAddress (replicate 20 7)) \<and> stands_at D 32 (ABytes [1])"
proof -
  let ?vs = "[AAddress (replicate 20 7), ABytes [1]]"
  have p: "pad_loop 0 (Suc 0) = 32" by (simp add: pad_loop.simps)
  then have "Decoder (map abi_type_of ?vs) (abi_packed ?vs) = Inr ?vs"
    by (intro Decoder_packed) (simp_all add: length_encodeBytes)
  moreover have "Decoder [T_address, T_string] bs = Decoder [T_address, T_bytes] bs" for bs by (simp add: Decoder_def)
  ultimately have d: "Decoder [T_address, T_string] (abi_packed ?vs) = Inr ?vs" by simp
  have "length (abi_packed ?vs) < 2 ^ 64" by (simp add: abi_packed_def length_encodeBytes p length_items length_abi_word)
  from Decoder_reads_slots [OF d this] have "\<forall>k<2. stands_at (abi_packed ?vs) (32 * k) (?vs ! k)" by simp
  from this [rule_format, of 0] this [rule_format, of 1] d show ?thesis by (simp add: Let_def del: stands_at.simps)
qed

end
