(* ===== verification/Db.thy ===== *)
theory Db
  imports Crypto "HOL-Library.List_Lexorder"
begin

text \<open>
  The database layer (\<^verbatim>\<open>src/utils/db.cpp\<close>, \<^verbatim>\<open>db.h\<close>). RocksDB itself is not part of the repository: it is the
  record \<open>rocksdb\<close>, an argument of every definition. \<open>rk_seek s k\<close> is what an iterator yields from
  \<^verbatim>\<open>Seek(k)\<close> until it is no longer \<^verbatim>\<open>Valid()\<close>; a write returns the new database and whether its status is ok.
  \<open>rocks_ok R A\<close> states the documented behaviour: \<open>A s\<close> is the map stored in \<open>s\<close>, an iterator yields the
  entries from its key on in strictly increasing order of their keys, and a write with status ok takes
  effect, a batch of writes as one. Nothing is assumed of a write with another status.
\<close>

subsection \<open>RocksDB\<close>

datatype write_op = WPut bytes bytes | WDelete bytes

record 's rocksdb =
  rk_seek :: "'s \<Rightarrow> bytes \<Rightarrow> (bytes \<times> bytes) list"
  rk_put :: "'s \<Rightarrow> bytes \<Rightarrow> bytes \<Rightarrow> 's \<times> bool"
  rk_delete :: "'s \<Rightarrow> bytes \<Rightarrow> 's \<times> bool"
  rk_write :: "'s \<Rightarrow> write_op list \<Rightarrow> 's \<times> bool"

type_synonym store = "bytes \<rightharpoonup> bytes"

fun apply_write :: "write_op \<Rightarrow> store \<Rightarrow> store" where
  "apply_write (WPut k v) m = m(k \<mapsto> v)"
| "apply_write (WDelete k) m = m(k := None)"

definition rocks_ok :: "'s rocksdb \<Rightarrow> ('s \<Rightarrow> store) \<Rightarrow> bool" where
  "rocks_ok R A \<longleftrightarrow>
     (\<forall>s k. sorted_wrt (<) (map fst (rk_seek R s k)))
     \<and> (\<forall>s k k' v. (k', v) \<in> set (rk_seek R s k) \<longleftrightarrow> k \<le> k' \<and> A s k' = Some v)
     \<and> (\<forall>s k v. snd (rk_put R s k v) \<longrightarrow> A (fst (rk_put R s k v)) = (A s)(k \<mapsto> v))
     \<and> (\<forall>s k. snd (rk_delete R s k) \<longrightarrow> A (fst (rk_delete R s k)) = (A s)(k := None))
     \<and> (\<forall>s ws. snd (rk_write R s ws) \<longrightarrow> A (fst (rk_write R s ws)) = fold apply_write ws (A s))"

subsection \<open>The class DB\<close>

definition DBPrefix_blocks :: bytes where "DBPrefix_blocks = [0, 1]"
definition DBPrefix_blockHeightMaps :: bytes where "DBPrefix_blockHeightMaps = [0, 2]"
definition DBPrefix_nativeAccounts :: bytes where "DBPrefix_nativeAccounts = [0, 3]"
definition DBPrefix_txToBlocks :: bytes where "DBPrefix_txToBlocks = [0, 4]"
definition DBPrefix_rdPoS :: bytes where "DBPrefix_rdPoS = [0, 5]"
definition DBPrefix_contracts :: bytes where "DBPrefix_contracts = [0, 6]"
definition DBPrefix_contractManager :: bytes where "DBPrefix_contractManager = [0, 7]"

record DBEntry =
  de_key :: bytes
  de_value :: bytes

record DBBatch =
  bt_puts :: "DBEntry list"
  bt_dels :: "bytes list"

fun has_loop :: "bytes \<Rightarrow> (bytes \<times> bytes) list \<Rightarrow> bool" where
  "has_loop sl [] = False"
| "has_loop sl ((k, v) # it) = (if k = sl then True else has_loop sl it)"

definition DB_has :: "'s rocksdb \<Rightarrow> 's \<Rightarrow> bytes \<Rightarrow> bytes \<Rightarrow> bool" where
  "DB_has R db key pfx = has_loop (pfx @ key) (rk_seek R db (pfx @ key))"

fun get_loop :: "bytes \<Rightarrow> (bytes \<times> bytes) list \<Rightarrow> bytes" where
  "get_loop sl [] = []"
| "get_loop sl ((k, v) # it) = (if k = sl then v else get_loop sl it)"

definition DB_get :: "'s rocksdb \<Rightarrow> 's \<Rightarrow> bytes \<Rightarrow> bytes \<Rightarrow> bytes" where
  "DB_get R db key pfx = get_loop (pfx @ key) (rk_seek R db (pfx @ key))"

definition DB_put :: "'s rocksdb \<Rightarrow> 's \<Rightarrow> bytes \<Rightarrow> bytes \<Rightarrow> bytes \<Rightarrow> 's \<times> bool" where
  "DB_put R db key v pfx = rk_put R db (pfx @ key) v"

definition DB_del :: "'s rocksdb \<Rightarrow> 's \<Rightarrow> bytes \<Rightarrow> bytes \<Rightarrow> 's \<times> bool" where
  "DB_del R db key pfx = rk_delete R db (pfx @ key)"

definition batch_writes :: "DBBatch \<Rightarrow> bytes \<Rightarrow> write_op list" where
  "batch_writes batch pfx =
     map (\<lambda>key. WDelete (pfx @ key)) (bt_dels batch) @ map (\<lambda>e. WPut (pfx @ de_key e) (de_value e)) (bt_puts batch)"

definition DB_putBatch :: "'s rocksdb \<Rightarrow> 's \<Rightarrow> DBBatch \<Rightarrow> bytes \<Rightarrow> 's \<times> bool" where
  "DB_putBatch R db batch pfx = rk_write R db (batch_writes batch pfx)"

definition starts_with :: "bytes \<Rightarrow> bytes \<Rightarrow> bool" where
  "starts_with s pfx \<longleftrightarrow> take (length pfx) s = pfx"

fun batch_all :: "bytes \<Rightarrow> (bytes \<times> bytes) list \<Rightarrow> DBEntry list" where
  "batch_all pfx [] = []"
| "batch_all pfx ((k, v) # it) =
     (if starts_with k pfx then [\<lparr>de_key = drop (length pfx) k, de_value = v\<rparr>] else []) @ batch_all pfx it"

fun batch_some :: "bytes \<Rightarrow> bytes list \<Rightarrow> (bytes \<times> bytes) list \<Rightarrow> DBEntry list" where
  "batch_some pfx keys [] = []"
| "batch_some pfx keys ((k, v) # it) =
     (if starts_with k pfx
      then map (\<lambda>_. \<lparr>de_key = drop (length pfx) k, de_value = v\<rparr>) (filter (\<lambda>key. drop (length pfx) k = key) keys)
      else []) @ batch_some pfx keys it"

definition DB_getBatch :: "'s rocksdb \<Rightarrow> 's \<Rightarrow> bytes \<Rightarrow> bytes list \<Rightarrow> DBEntry list" where
  "DB_getBatch R db pfx keys =
     (if keys = [] then batch_all pfx (rk_seek R db pfx) else batch_some pfx keys (rk_seek R db pfx))"

subsection \<open>The prefixes are distinct and of one length\<close>

lemmas DBPrefix_defs = DBPrefix_blocks_def DBPrefix_blockHeightMaps_def DBPrefix_nativeAccounts_def
  DBPrefix_txToBlocks_def DBPrefix_rdPoS_def DBPrefix_contracts_def DBPrefix_contractManager_def

lemma same_length_prefixes: "length p = length q \<Longrightarrow> p @ k = q @ k' \<longleftrightarrow> p = q \<and> k = k'"
  by simp

lemma starts_with_iff: "starts_with s pfx \<longleftrightarrow> (\<exists>k. s = pfx @ k)"
  unfolding starts_with_def by (metis append_eq_conv_conj append_take_drop_id)

lemma prefix_le: "(p :: 'a :: linorder list) \<le> p @ k"
  by (induction p) simp_all

subsection \<open>Refinement of a map\<close>

lemma seek_distinct: "rocks_ok R A \<Longrightarrow> distinct (map fst (rk_seek R s k))"
  by (simp add: rocks_ok_def strict_sorted_iff)

lemma seek_entry: "rocks_ok R A \<Longrightarrow> (k', v) \<in> set (rk_seek R s k) \<longleftrightarrow> k \<le> k' \<and> A s k' = Some v"
  by (simp add: rocks_ok_def)

lemma seek_map_of: "rocks_ok R A \<Longrightarrow> map_of (rk_seek R s k) k = A s k"
  using seek_distinct [of R A s k] seek_entry [of R A k _ s k]
  by (cases "A s k") (auto simp: map_of_eq_None_iff dest: seek_entry)

lemma has_loop_map_of: "has_loop k es \<longleftrightarrow> map_of es k \<noteq> None"
  by (induction es) auto

lemma get_loop_map_of: "get_loop k es = (case map_of es k of None \<Rightarrow> [] | Some v \<Rightarrow> v)"
  by (induction es) auto

lemma DB_has_iff: "rocks_ok R A \<Longrightarrow> DB_has R s key pfx \<longleftrightarrow> A s (pfx @ key) \<noteq> None"
  by (simp add: DB_has_def has_loop_map_of seek_map_of)

lemma DB_get_eq: "rocks_ok R A \<Longrightarrow> DB_get R s key pfx = (case A s (pfx @ key) of None \<Rightarrow> [] | Some v \<Rightarrow> v)"
  by (simp add: DB_get_def get_loop_map_of seek_map_of)

lemma DB_put_abs: "rocks_ok R A \<Longrightarrow> snd (DB_put R s key v pfx) \<Longrightarrow> A (fst (DB_put R s key v pfx)) = (A s)(pfx @ key \<mapsto> v)"
  by (simp add: DB_put_def rocks_ok_def)

lemma DB_del_abs: "rocks_ok R A \<Longrightarrow> snd (DB_del R s key pfx) \<Longrightarrow> A (fst (DB_del R s key pfx)) = (A s)(pfx @ key := None)"
  by (simp add: DB_del_def rocks_ok_def)

lemma DB_putBatch_abs:
  "rocks_ok R A \<Longrightarrow> snd (DB_putBatch R s b pfx) \<Longrightarrow> A (fst (DB_putBatch R s b pfx)) = fold apply_write (batch_writes b pfx) (A s)"
  by (simp add: DB_putBatch_def rocks_ok_def)

lemma batch_all_set: "e \<in> set (batch_all pfx es) \<longleftrightarrow> (pfx @ de_key e, de_value e) \<in> set es"
  by (induction es) (auto simp: starts_with_iff)

lemma batch_all_keys: "map (\<lambda>e. pfx @ de_key e) (batch_all pfx es) = filter (\<lambda>k. starts_with k pfx) (map fst es)"
  by (induction es) (auto simp: starts_with_iff)

lemma batch_all_distinct:
  assumes "distinct (map fst es)"
  shows "distinct (map de_key (batch_all pfx es))"
proof -
  have "distinct (map ((@) pfx) (map de_key (batch_all pfx es)))"
    using distinct_filter [OF assms] by (simp add: batch_all_keys comp_def)
  then show ?thesis by (simp only: distinct_map)
qed

lemma DB_getBatch_all:
  assumes "rocks_ok R A"
  shows "e \<in> set (DB_getBatch R s pfx []) \<longleftrightarrow> A s (pfx @ de_key e) = Some (de_value e)"
    and "distinct (map de_key (DB_getBatch R s pfx []))"
  using assms by (simp_all add: DB_getBatch_def batch_all_set seek_entry batch_all_distinct seek_distinct prefix_le)

lemma batch_some_set:
  "e \<in> set (batch_some pfx keys es) \<longleftrightarrow> de_key e \<in> set keys \<and> (pfx @ de_key e, de_value e) \<in> set es"
  by (induction es) (auto simp: starts_with_iff image_iff)

lemma DB_getBatch_some:
  "rocks_ok R A \<Longrightarrow> keys \<noteq> [] \<Longrightarrow>
   e \<in> set (DB_getBatch R s pfx keys) \<longleftrightarrow> de_key e \<in> set keys \<and> A s (pfx @ de_key e) = Some (de_value e)"
  by (simp add: DB_getBatch_def batch_some_set seek_entry prefix_le)

text \<open>What a batch does to the map: the deletions first, then the insertions, the last one for a key winning.\<close>

definition batch_effect :: "DBBatch \<Rightarrow> bytes \<Rightarrow> store \<Rightarrow> store" where
  "batch_effect b pfx m =
     (m |` (- (\<lambda>k. pfx @ k) ` set (bt_dels b))) ++ map_of (rev (map (\<lambda>e. (pfx @ de_key e, de_value e)) (bt_puts b)))"

lemma fold_deletes: "fold apply_write (map (\<lambda>k. WDelete (f k)) ks) m = m |` (- f ` set ks)"
  by (induction ks arbitrary: m) (auto simp: restrict_map_def fun_eq_iff)

lemma fold_puts:
  "fold apply_write (map (\<lambda>e. WPut (f e) (g e)) es) m = m ++ map_of (rev (map (\<lambda>e. (f e, g e)) es))"
proof (induction es arbitrary: m)
  case (Cons e es)
  have "m(f e \<mapsto> g e) = m ++ map_of [(f e, g e)]" by simp
  then show ?case by (simp add: Cons.IH map_add_assoc del: map_of.simps)
qed simp

lemma batch_writes_effect: "fold apply_write (batch_writes b pfx) m = batch_effect b pfx m"
  by (simp add: batch_writes_def batch_effect_def fold_deletes fold_puts)

lemma DB_putBatch_effect:
  "rocks_ok R A \<Longrightarrow> snd (DB_putBatch R s b pfx) \<Longrightarrow> A (fst (DB_putBatch R s b pfx)) = batch_effect b pfx (A s)"
  by (simp add: DB_putBatch_abs batch_writes_effect)

lemma batch_effect_other_prefix:
  assumes "length pfx' = length pfx" "pfx' \<noteq> pfx"
  shows "batch_effect b pfx m (pfx' @ k) = m (pfx' @ k)"
proof -
  have "map_of (rev (map (\<lambda>e. (pfx @ de_key e, de_value e)) (bt_puts b))) (pfx' @ k) = None"
    using assms by (auto simp: map_of_eq_None_iff)
  with assms show ?thesis by (auto simp: batch_effect_def map_add_def restrict_map_def split: option.splits)
qed

lemma map_of_prefixed: "map_of (map (\<lambda>e. (pfx @ f e, g e)) es) (pfx @ k) = map_of (map (\<lambda>e. (f e, g e)) es) k"
  by (induction es) auto

lemma batch_effect_key:
  "batch_effect b pfx m (pfx @ k)
   = (case map_of (rev (map (\<lambda>e. (de_key e, de_value e)) (bt_puts b))) k of
        Some v \<Rightarrow> Some v
      | None \<Rightarrow> if k \<in> set (bt_dels b) then None else m (pfx @ k))"
  by (auto simp: batch_effect_def map_add_def rev_map map_of_prefixed restrict_map_def split: option.splits)

text \<open>C20. Seen through its own operations, the database layer keeps one map for every prefix of a fixed length. A \<^verbatim>\<open>put\<close> or a
  \<^verbatim>\<open>del\<close> that reports success changes what \<^verbatim>\<open>has\<close> and \<^verbatim>\<open>get\<close> answer for that key under that prefix and for no other; a successful
  \<^verbatim>\<open>putBatch\<close> deletes first and then inserts, the last insertion for a key winning; \<^verbatim>\<open>getBatch\<close> lists exactly the entries under the prefix
  (for the requested keys), each key once when all are asked for. RocksDB is assumed to iterate in the order of the keys and to carry out
  the writes whose status is ok.\<close>

theorem DB_refines_map:
  assumes "rocks_ok R A" and "length q = length p"
  shows "(snd (DB_put R s k v p) \<longrightarrow>
      DB_has R (fst (DB_put R s k v p)) k' q = (q = p \<and> k' = k \<or> DB_has R s k' q)
      \<and> DB_get R (fst (DB_put R s k v p)) k' q = (if q = p \<and> k' = k then v else DB_get R s k' q))
    \<and> (snd (DB_del R s k p) \<longrightarrow>
      DB_has R (fst (DB_del R s k p)) k' q = (\<not> (q = p \<and> k' = k) \<and> DB_has R s k' q)
      \<and> DB_get R (fst (DB_del R s k p)) k' q = (if q = p \<and> k' = k then [] else DB_get R s k' q))
    \<and> (snd (DB_putBatch R s b p) \<longrightarrow>
      (let written = (if q = p then map_of (rev (map (\<lambda>e. (de_key e, de_value e)) (bt_puts b))) k' else None);
           removed = (q = p \<and> k' \<in> set (bt_dels b)) in
       DB_has R (fst (DB_putBatch R s b p)) k' q = (written \<noteq> None \<or> \<not> removed \<and> DB_has R s k' q)
       \<and> DB_get R (fst (DB_putBatch R s b p)) k' q
          = (case written of Some x \<Rightarrow> x | None \<Rightarrow> if removed then [] else DB_get R s k' q)))
    \<and> (e \<in> set (DB_getBatch R s p keys)) = ((keys = [] \<or> de_key e \<in> set keys) \<and> DB_has R s (de_key e) p \<and> de_value e = DB_get R s (de_key e) p)
    \<and> distinct (map de_key (DB_getBatch R s p []))"
proof (intro conjI impI)
  note reads = DB_has_iff [OF assms(1)] DB_get_eq [OF assms(1)]
  show "DB_has R (fst (DB_put R s k v p)) k' q = (q = p \<and> k' = k \<or> DB_has R s k' q)"
    "DB_get R (fst (DB_put R s k v p)) k' q = (if q = p \<and> k' = k then v else DB_get R s k' q)" if "snd (DB_put R s k v p)"
    using DB_put_abs [OF assms(1) that] assms(2) by (auto simp: reads)
  show "DB_has R (fst (DB_del R s k p)) k' q = (\<not> (q = p \<and> k' = k) \<and> DB_has R s k' q)"
    "DB_get R (fst (DB_del R s k p)) k' q = (if q = p \<and> k' = k then [] else DB_get R s k' q)" if "snd (DB_del R s k p)"
    using DB_del_abs [OF assms(1) that] assms(2) by (auto simp: reads)
  show "let written = (if q = p then map_of (rev (map (\<lambda>e. (de_key e, de_value e)) (bt_puts b))) k' else None);
           removed = (q = p \<and> k' \<in> set (bt_dels b)) in
       DB_has R (fst (DB_putBatch R s b p)) k' q = (written \<noteq> None \<or> \<not> removed \<and> DB_has R s k' q)
       \<and> DB_get R (fst (DB_putBatch R s b p)) k' q = (case written of Some x \<Rightarrow> x | None \<Rightarrow> if removed then [] else DB_get R s k' q)"
    if "snd (DB_putBatch R s b p)"
    using DB_putBatch_effect [OF assms(1) that] batch_effect_other_prefix [OF assms(2), of b "A s" k']
    by (cases "q = p") (auto simp: reads batch_effect_key split: option.split)
  show "(e \<in> set (DB_getBatch R s p keys)) = ((keys = [] \<or> de_key e \<in> set keys) \<and> DB_has R s (de_key e) p \<and> de_value e = DB_get R s (de_key e) p)"
    using DB_getBatch_all(1) [OF assms(1)] DB_getBatch_some [OF assms(1)] by (cases "keys = []") (auto simp: reads)
  show "distinct (map de_key (DB_getBatch R s p []))" by (rule DB_getBatch_all(2) [OF assms(1)])
qed

subsection \<open>A concrete database\<close>

definition alist_rocks :: "(bytes \<times> bytes) list rocksdb" where
  "alist_rocks =
     \<lparr>rk_seek = (\<lambda>s k. map (\<lambda>k'. (k', the (map_of s k'))) (filter (\<lambda>k'. k \<le> k') (sort (remdups (map fst s))))),
      rk_put = (\<lambda>s k v. ((k, v) # s, True)),
      rk_delete = (\<lambda>s k. (filter (\<lambda>(k', _). k' \<noteq> k) s, True)),
      rk_write = (\<lambda>s ws. (fold (\<lambda>w s. case w of WPut k v \<Rightarrow> (k, v) # s | WDelete k \<Rightarrow> filter (\<lambda>(k', _). k' \<noteq> k) s) ws s, True))\<rparr>"

lemma map_of_filter_key: "map_of (filter (\<lambda>(k', _). k' \<noteq> k) s) = (map_of s)(k := None)"
  by (induction s) auto

lemma alist_write_abs:
  "map_of (fold (\<lambda>w s. case w of WPut k v \<Rightarrow> (k, v) # s | WDelete k \<Rightarrow> filter (\<lambda>(k', _). k' \<noteq> k) s) ws s)
   = fold apply_write ws (map_of s)"
proof (induction ws arbitrary: s)
  case (Cons w ws)
  then show ?case by (cases w) (simp_all add: map_of_filter_key fun_upd_def)
qed simp

lemma alist_seek_sorted: "sorted_wrt (<) (filter P (sort (remdups (xs :: bytes list))))"
  by (intro sorted_wrt_filter) (simp add: strict_sorted_iff)

lemma alist_rocks_ok: "rocks_ok alist_rocks map_of"
  unfolding rocks_ok_def
proof (intro conjI allI)
  fix s :: "(bytes \<times> bytes) list" and k k' v
  show "sorted_wrt (<) (map fst (rk_seek alist_rocks s k))"
    by (simp add: alist_rocks_def comp_def alist_seek_sorted)
  show "((k', v) \<in> set (rk_seek alist_rocks s k)) = (k \<le> k' \<and> map_of s k' = Some v)"
    by (cases "map_of s k'") (force simp: alist_rocks_def map_of_eq_None_iff image_iff dest: map_of_SomeD)+
qed (simp_all add: alist_rocks_def map_of_filter_key alist_write_abs)

theorem DB_refines_map_witness:
  "DB_get alist_rocks (fst (DB_put alist_rocks [([0, 1, 5], [7])] [6] [8] DBPrefix_blocks)) [6] DBPrefix_blocks = [8]
   \<and> DB_get alist_rocks (fst (DB_put alist_rocks [([0, 1, 5], [7])] [6] [8] DBPrefix_blocks)) [5] DBPrefix_blocks
     = DB_get alist_rocks [([0, 1, 5], [7])] [5] DBPrefix_blocks
   \<and> DB_has alist_rocks (fst (DB_put alist_rocks [([0, 1, 5], [7])] [6] [8] DBPrefix_blocks)) [6] DBPrefix_rdPoS
     = DB_has alist_rocks [([0, 1, 5], [7])] [6] DBPrefix_rdPoS"
proof -
  have "snd (DB_put alist_rocks [([0, 1, 5], [7])] [6] [8] DBPrefix_blocks)" "length DBPrefix_rdPoS = length DBPrefix_blocks"
    "DBPrefix_rdPoS \<noteq> DBPrefix_blocks" by (simp_all add: DB_put_def alist_rocks_def DBPrefix_defs)
  then show ?thesis using DB_refines_map [OF alist_rocks_ok] by fastforce
qed

end
