(* ===== verification/Tx_Block.thy ===== *)
theory Tx_Block
  imports Rlp
begin

text \<open>
  Block transactions: the class \<^verbatim>\<open>TxBlock\<close> of \<^verbatim>\<open>src/utils/tx.h\<close> and \<^verbatim>\<open>src/utils/tx.cpp\<close>, with its
  serialiser, the constructor that parses raw bytes and the constructor that signs. Sizes are
  natural numbers: \<^verbatim>\<open>size_t\<close> values of strings that exist in memory never come near the 64-bit
  bound, which the round-trip theorems keep as an explicit hypothesis.
\<close>

record TxBlock =
  tx_to :: bytes
  tx_from :: bytes
  tx_data :: bytes
  tx_chainId :: uint64
  tx_nonce :: uint256
  tx_value :: uint256
  tx_maxPriorityFeePerGas :: uint256
  tx_maxFeePerGas :: uint256
  tx_gasLimit :: uint256
  tx_v :: uint8
  tx_r :: uint256
  tx_s :: uint256

subsection \<open>Serialisation\<close>

definition TxBlock_total_size :: "TxBlock \<Rightarrow> bool \<Rightarrow> nat" where
  "TxBlock_total_size tx includeSig =
     rlp_uint_size (unat (tx_chainId tx))
     + rlp_uint_size (unat (tx_nonce tx))
     + rlp_uint_size (unat (tx_maxPriorityFeePerGas tx))
     + rlp_uint_size (unat (tx_maxFeePerGas tx))
     + rlp_uint_size (unat (tx_gasLimit tx))
     + (1 + 20)
     + rlp_uint_size (unat (tx_value tx))
     + 1
     + rlp_string_size (tx_data tx)
     + (if includeSig
        then 1 + (1 + bytesRequired (unat (tx_r tx))) + (1 + bytesRequired (unat (tx_s tx)))
        else 0)"

definition TxBlock_rlpSerialize :: "TxBlock \<Rightarrow> bool \<Rightarrow> bytes" where
  "TxBlock_rlpSerialize tx includeSig =
     [0x02]
     @ rlp_list_head (TxBlock_total_size tx includeSig)
     @ rlp_uint (unat (tx_chainId tx))
     @ rlp_uint (unat (tx_nonce tx))
     @ rlp_uint (unat (tx_maxPriorityFeePerGas tx))
     @ rlp_uint (unat (tx_maxFeePerGas tx))
     @ rlp_uint (unat (tx_gasLimit tx))
     @ [0x94] @ tx_to tx
     @ rlp_uint (unat (tx_value tx))
     @ rlp_string (tx_data tx)
     @ [0xc0]
     @ (if includeSig
        then [if tx_v tx = 0 then 0x80 else tx_v tx]
             @ rlp_sig_half (unat (tx_r tx))
             @ rlp_sig_half (unat (tx_s tx))
        else [])"

definition TxBlock_hash :: "crypto \<Rightarrow> TxBlock \<Rightarrow> bool \<Rightarrow> bytes" where
  "TxBlock_hash C tx includeSig = sha3 C (TxBlock_rlpSerialize tx includeSig)"

text \<open>\<^verbatim>\<open>ethCallInfo\<close>: the tuple (from, to, gasLimit, gasPrice, value, data).\<close>

type_synonym ethCallInfo = "bytes \<times> bytes \<times> uint256 \<times> uint256 \<times> uint256 \<times> bytes"

definition txToCallInfo :: "TxBlock \<Rightarrow> ethCallInfo" where
  "txToCallInfo tx =
     (tx_from tx, tx_to tx, tx_gasLimit tx, tx_maxFeePerGas tx, tx_value tx, tx_data tx)"

subsection \<open>Parsing\<close>

text \<open>The receiver: the prefix 0x94 and twenty bytes.\<close>

definition read_to :: "bytes \<Rightarrow> nat \<Rightarrow> (bytes \<times> nat) result" where
  "read_to s index =
     bindE (view_at s index) (\<lambda>b.
     if b \<noteq> 0x94 then Inl (RuntimeError ''Receiver address (to) is not a 20 byte string (address)'')
     else bindE (raw_view s (index + 1) 20) (\<lambda>v.
          bindE (Address_bytes v) (\<lambda>a. Inr (a, index + 1 + 20))))"

text \<open>The members up to the access list, with the index behind it. The sender is not known yet:
  it is the default address.\<close>

definition TxBlock_read_fields :: "bytes \<Rightarrow> nat \<Rightarrow> (TxBlock \<times> nat) result" where
  "TxBlock_read_fields s i0 =
     bindE (read_uint s i0 0x37 ''ChainId is too large'' u64_field 0) (\<lambda>(chainId, i1).
     bindE (read_uint s i1 0x37 ''Nonce is too large'' u64_to_u256_field 0) (\<lambda>(nonce, i2).
     bindE (read_uint s i2 0x37 ''MaxPriorityFeePerGas is too large'' fromBigEndian256 0) (\<lambda>(mpf, i3).
     bindE (read_uint s i3 0x37 ''MaxFeePerGas is too large'' fromBigEndian256 0) (\<lambda>(mf, i4).
     bindE (read_uint s i4 0x37 ''GasLimit is too large'' u64_to_u256_field 0) (\<lambda>(gl, i5).
     bindE (read_to s i5) (\<lambda>(to, i6).
     bindE (read_uint s i6 0x37 ''Value is not a small string'' fromBigEndian256 0) (\<lambda>(val, i7).
     bindE (read_string_block s i7) (\<lambda>(dat, i8).
     bindE (view_at s i8) (\<lambda>al.
     if al \<noteq> 0xc0 then Inl (RuntimeError ''Access list is not empty'')
     else Inr (\<lparr>tx_to = to, tx_from = FixedStr 20 [], tx_data = dat, tx_chainId = chainId,
                tx_nonce = nonce, tx_value = val, tx_maxPriorityFeePerGas = mpf,
                tx_maxFeePerGas = mf, tx_gasLimit = gl, tx_v = 0, tx_r = 0, tx_s = 0\<rparr>,
               i8 + 1))))))))))"

definition TxBlock_read_sig :: "bytes \<Rightarrow> nat \<Rightarrow> (uint8 \<times> uint256 \<times> uint256) result" where
  "TxBlock_read_sig s i9 =
     bindE (view_at s i9) (\<lambda>b.
     let v = (if b = 0x80 then 0 else b) in
     if v > 1 then Inl (RuntimeError ''V is not 0 or 1'')
     else bindE (read_sig_half s (i9 + 1) 0x20 ''R is bigger than 32 bytes'') (\<lambda>(r, i10).
          bindE (read_sig_half s i10 0x20 ''S is bigger than 32 bytes'') (\<lambda>(s', i11).
          Inr (v, r, s'))))"

definition TxBlock_check_sender :: "crypto \<Rightarrow> TxBlock \<Rightarrow> TxBlock result" where
  "TxBlock_check_sender C tx =
     (if \<not> verifySig (tx_r tx) (tx_s tx) (tx_v tx)
      then Inl (RuntimeError ''Invalid tx signature - doesn't fit elliptic curve verification'')
      else (let sig = makeSig (tx_r tx) (tx_s tx) (tx_v tx);
                txMessage = TxBlock_rlpSerialize tx False;
                key = recover C sig (sha3 C txMessage)
            in if \<not> nonzero_str key
               then Inl (RuntimeError ''Invalid tx signature - cannot recover public key'')
               else Inr (tx\<lparr>tx_from := toAddress C key\<rparr>)))"

definition TxBlock_parse :: "crypto \<Rightarrow> bytes \<Rightarrow> uint64 \<Rightarrow> TxBlock result" where
  "TxBlock_parse C bs requiredChainId =
     bindE (substr bs 1 (length bs)) (\<lambda>txData.
     bindE (view_at bs 0) (\<lambda>ty.
     if ty \<noteq> 0x02 then Inl (RuntimeError ''Tx is not type 2'') else
     bindE (read_list_head txData) (\<lambda>i0.
     bindE (TxBlock_read_fields txData i0) (\<lambda>(tx0, i9).
     bindE (TxBlock_read_sig txData i9) (\<lambda>(v, r, s).
     TxBlock_check_sender C (tx0\<lparr>tx_v := v, tx_r := r, tx_s := s\<rparr>))))))"

subsection \<open>Signing\<close>

text \<open>The body of the signing constructor, on the object its initialiser list made.\<close>

definition TxBlock_sign :: "crypto \<Rightarrow> TxBlock \<Rightarrow> bytes \<Rightarrow> TxBlock result" where
  "TxBlock_sign C tx privKey =
     (let pubKey = toUPub C privKey;
          add = toAddress C pubKey
      in if add \<noteq> tx_from tx
      then Inl (RuntimeError ''Private key does not match sender address (from)'')
      else (let hash = TxBlock_hash C tx False in
      bindE (sign C hash privKey) (\<lambda>sig.
      bindE (Signature_r sig) (\<lambda>r.
      bindE (Signature_s sig) (\<lambda>s.
      bindE (view_at sig 64) (\<lambda>v.
      if pubKey \<noteq> recover C sig hash
      then Inl (RuntimeError ''Invalid tx signature - derived key doesn't match public key'')
      else if \<not> verifySig r s v
      then Inl (RuntimeError ''Invalid tx signature - doesn't fit elliptic curve verification'')
      else Inr (tx\<lparr>tx_v := v, tx_r := r, tx_s := s\<rparr>)))))))"

definition TxBlock_new ::
  "crypto \<Rightarrow> bytes \<Rightarrow> bytes \<Rightarrow> bytes \<Rightarrow> uint64 \<Rightarrow> uint256 \<Rightarrow> uint256 \<Rightarrow> uint256 \<Rightarrow> uint256 \<Rightarrow> uint256 \<Rightarrow> bytes
   \<Rightarrow> TxBlock result" where
  "TxBlock_new C to frm dat chainId nonce val mpf mf gl privKey =
     TxBlock_sign C \<lparr>tx_to = to, tx_from = frm, tx_data = dat, tx_chainId = chainId, tx_nonce = nonce,
       tx_value = val, tx_maxPriorityFeePerGas = mpf, tx_maxFeePerGas = mf, tx_gasLimit = gl,
       tx_v = 0, tx_r = 0, tx_s = 0\<rparr> privKey"

subsection \<open>The payload and its size\<close>

definition TxBlock_unsigned_body :: "TxBlock \<Rightarrow> bytes" where
  "TxBlock_unsigned_body tx =
     rlp_uint (unat (tx_chainId tx)) @ rlp_uint (unat (tx_nonce tx))
     @ rlp_uint (unat (tx_maxPriorityFeePerGas tx)) @ rlp_uint (unat (tx_maxFeePerGas tx))
     @ rlp_uint (unat (tx_gasLimit tx)) @ 0x94 # tx_to tx @ rlp_uint (unat (tx_value tx))
     @ rlp_string (tx_data tx) @ [0xc0]"

definition TxBlock_sig_body :: "TxBlock \<Rightarrow> bytes" where
  "TxBlock_sig_body tx =
     (if tx_v tx = 0 then 0x80 else tx_v tx) # rlp_sig_half (unat (tx_r tx)) @ rlp_sig_half (unat (tx_s tx))"

lemma TxBlock_rlpSerialize_True:
  "TxBlock_rlpSerialize tx True =
     0x02 # rlp_list_head (TxBlock_total_size tx True) @ TxBlock_unsigned_body tx @ TxBlock_sig_body tx"
  by (simp add: TxBlock_rlpSerialize_def TxBlock_unsigned_body_def TxBlock_sig_body_def)

lemma TxBlock_payload_size:
  "length (tx_to tx) = 20 \<Longrightarrow>
   length (TxBlock_unsigned_body tx @ TxBlock_sig_body tx) = TxBlock_total_size tx True"
  by (simp add: TxBlock_total_size_def TxBlock_unsigned_body_def TxBlock_sig_body_def byte_simps)

subsection \<open>Reading the members back\<close>

lemma read_to_rlp:
  assumes "drop i s = 0x94 # a @ rest" and "length a = 20"
  shows "read_to s i = Inr (a, i + 21)"
proof -
  have "raw_view s (Suc i) 20 = Inr a"
    using drop_Cons_step [OF assms(1)] drop_Cons_lt [OF assms(1)] assms(2) by (intro raw_view_drop) auto
  then show ?thesis
    using assms(2) by (simp add: read_to_def view_at_drop [OF assms(1)] Address_bytes_def)
qed

lemma TxBlock_fold_fields:
  "\<lparr>tx_to = tx_to tx, tx_from = f, tx_data = d, tx_chainId = tx_chainId tx, tx_nonce = tx_nonce tx,
    tx_value = tx_value tx, tx_maxPriorityFeePerGas = tx_maxPriorityFeePerGas tx,
    tx_maxFeePerGas = tx_maxFeePerGas tx, tx_gasLimit = tx_gasLimit tx, tx_v = v, tx_r = r, tx_s = s\<rparr>
   = tx\<lparr>tx_from := f, tx_data := d, tx_v := v, tx_r := r, tx_s := s\<rparr>"
  by (rule TxBlock.equality) simp_all

text \<open>The members before the data, read from any input that holds their encoding; the index behind
  them is where the data begins.\<close>

lemma read_fields_prefix:
  assumes "drop i s = TxBlock_unsigned_body tx @ rest" and "length (tx_to tx) = 20"
    and "unat (tx_nonce tx) < 2 ^ 64" and "unat (tx_gasLimit tx) < 2 ^ 64"
  obtains i7 where "drop i7 s = rlp_string (tx_data tx) @ 0xc0 # rest"
    and "TxBlock_read_fields s i =
      bindE (read_string_block s i7) (\<lambda>(dat, i8). bindE (view_at s i8) (\<lambda>al.
        if al \<noteq> 0xc0 then Inl (RuntimeError ''Access list is not empty'')
        else Inr (tx\<lparr>tx_from := FixedStr 20 [], tx_data := dat, tx_v := 0, tx_r := 0, tx_s := 0\<rparr>, i8 + 1)))"
proof -
  note d0 = assms(1) [unfolded TxBlock_unsigned_body_def append_assoc]
  note d1 = drop_step [OF d0, unfolded length_rlp_uint]
  note d2 = drop_step [OF d1, unfolded length_rlp_uint]
  note d3 = drop_step [OF d2, unfolded length_rlp_uint]
  note d4 = drop_step [OF d3, unfolded length_rlp_uint]
  note d5 = drop_step [OF d4, unfolded length_rlp_uint append_Cons append_assoc append_Nil]
  note d6 = drop_step [OF d5 [THEN drop_Cons_step], unfolded assms(2)]
  note d7 = drop_step [OF d6, unfolded length_rlp_uint]
  note r = read_uint_u64 [OF d0] read_uint_u64_to_u256 [OF d1 assms(3)] read_uint_u256 [OF d2]
    read_uint_u256 [OF d3] read_uint_u64_to_u256 [OF d4 assms(4)] read_to_rlp [OF d5 assms(2)]
  have v: "read_uint s (j + 21) 0x37 msg fromBigEndian256 0
      = Inr (tx_value tx, Suc j + 20 + rlp_uint_size (unat (tx_value tx)))"
    if "drop (Suc j + 20) s = rlp_uint (unat (tx_value tx)) @ rlp_string (tx_data tx) @ 0xc0 # rest" for j msg
    using read_uint_u256 [OF that] by (simp add: eval_nat_numeral)
  show thesis
    by (rule that [OF d7]) (simp add: TxBlock_read_fields_def r v [OF d6] TxBlock_fold_fields cong: if_cong)
qed

lemma TxBlock_read_sig_rlp:
  assumes "drop i s = TxBlock_sig_body tx" and "tx_v tx \<le> 1"
  shows "TxBlock_read_sig s i = Inr (tx_v tx, tx_r tx, tx_s tx)"
proof -
  let ?b = "if tx_v tx = 0 then 0x80 else tx_v tx"
  note d = assms(1) [unfolded TxBlock_sig_body_def]
  note d1 = drop_Cons_step [OF d]
  note d2 = drop_step [OF d1, unfolded length_rlp_sig_half]
  have v: "(if ?b = 0x80 then 0 else ?b) = tx_v tx"
    using assms(2) by (auto simp: word_le_nat_alt)
  have r: "read_sig_half s (Suc i) 0x20 m = Inr (tx_r tx, Suc i + (1 + bytesRequired (unat (tx_r tx))))" for m
    by (rule read_sig_half_rlp [OF d1]) simp
  have s: "read_sig_half s (Suc i + (1 + bytesRequired (unat (tx_r tx)))) 0x20 m
      = Inr (tx_s tx, Suc i + (1 + bytesRequired (unat (tx_r tx))) + (1 + bytesRequired (unat (tx_s tx))))" for m
    by (rule read_sig_half_rlp [of _ _ _ "[]"]) (use d2 in simp_all)
  show ?thesis
    unfolding TxBlock_read_sig_def view_at_drop [OF d] bindE_simps Let_def v
    using assms(2) by (simp add: r s [simplified])
qed

text \<open>What a transaction must satisfy to be read back: the nonce and the gas limit fit the 64 bits
  the parser reads, the payload needs the long list form, and the data is not 55 bytes long.\<close>

definition TxBlock_serialisable :: "TxBlock \<Rightarrow> bool" where
  "TxBlock_serialisable tx \<longleftrightarrow>
     length (tx_to tx) = 20 \<and> unat (tx_nonce tx) < 2 ^ 64 \<and> unat (tx_gasLimit tx) < 2 ^ 64
     \<and> 55 < TxBlock_total_size tx True \<and> TxBlock_total_size tx True + 9 < 2 ^ 64
     \<and> length (tx_data tx) \<noteq> 55"

definition TxBlock_sender_ok :: "crypto \<Rightarrow> TxBlock \<Rightarrow> bool" where
  "TxBlock_sender_ok C tx \<longleftrightarrow>
     verifySig (tx_r tx) (tx_s tx) (tx_v tx)
     \<and> (let key = recover C (makeSig (tx_r tx) (tx_s tx) (tx_v tx)) (TxBlock_hash C tx False)
        in nonzero_str key \<and> tx_from tx = toAddress C key)"

lemma TxBlock_restore:
  "tx\<lparr>tx_from := f, tx_data := tx_data tx, tx_v := 0, tx_r := 0, tx_s := 0,
      tx_v := tx_v tx, tx_r := tx_r tx, tx_s := tx_s tx\<rparr> = tx\<lparr>tx_from := f\<rparr>"
  by (rule TxBlock.equality) simp_all

lemma TxBlock_check_sender_ok:
  assumes "TxBlock_sender_ok C tx"
  shows "TxBlock_check_sender C (tx\<lparr>tx_from := f\<rparr>) = Inr tx"
proof -
  have "TxBlock_rlpSerialize (tx\<lparr>tx_from := f\<rparr>) False = TxBlock_rlpSerialize tx False"
    by (simp add: TxBlock_rlpSerialize_def TxBlock_total_size_def)
  then show ?thesis
    using assms by (simp add: TxBlock_check_sender_def TxBlock_sender_ok_def TxBlock_hash_def Let_def)
qed

lemma length_rlp_list_head: "n < 2 ^ 64 \<Longrightarrow> length (rlp_list_head n) \<le> 9"
  using bytesRequired_u64 [of n] by (simp add: rlp_list_head_def)

lemma TxBlock_parse_steps:
  fixes cid :: uint64
  assumes "length (tx_to tx) = 20" and "55 < TxBlock_total_size tx True"
    and "TxBlock_total_size tx True + 9 < 2 ^ 64"
  obtains s i0 where "length s < 2 ^ 64" and "drop i0 s = TxBlock_unsigned_body tx @ TxBlock_sig_body tx"
    and "TxBlock_parse C (TxBlock_rlpSerialize tx True) cid =
      bindE (TxBlock_read_fields s i0) (\<lambda>(tx0, i9).
      bindE (TxBlock_read_sig s i9) (\<lambda>(v, r, s).
      TxBlock_check_sender C (tx0\<lparr>tx_v := v, tx_r := r, tx_s := s\<rparr>)))"
proof -
  let ?n = "TxBlock_total_size tx True"
  let ?body = "TxBlock_unsigned_body tx @ TxBlock_sig_body tx"
  let ?s = "rlp_list_head ?n @ ?body"
  have len: "length ?body = ?n" by (rule TxBlock_payload_size [OF assms(1)])
  have "read_list_head ?s = Inr (length (rlp_list_head ?n))"
    by (rule read_list_head_rlp [OF len assms(2)]) (use assms(3) in simp)
  moreover have "length ?s < 2 ^ 64"
    using length_rlp_list_head [of ?n] assms(3) len by simp
  moreover have "substr (2 # ?s) 1 (length (2 # ?s)) = Inr ?s" by (simp add: substr_def)
  ultimately show thesis
    by (intro that [of ?s "length (rlp_list_head ?n)"])
      (simp_all add: TxBlock_parse_def TxBlock_rlpSerialize_True view_at_def)
qed

lemma TxBlock_roundtrip:
  assumes "TxBlock_serialisable tx" and "TxBlock_sender_ok C tx"
  shows "TxBlock_parse C (TxBlock_rlpSerialize tx True) cid = Inr tx"
proof -
  note wf = assms(1) [unfolded TxBlock_serialisable_def]
  obtain s i0 where s: "length s < 2 ^ 64" "drop i0 s = TxBlock_unsigned_body tx @ TxBlock_sig_body tx"
    and p: "TxBlock_parse C (TxBlock_rlpSerialize tx True) cid =
      bindE (TxBlock_read_fields s i0) (\<lambda>(tx0, i9).
      bindE (TxBlock_read_sig s i9) (\<lambda>(v, r, s).
      TxBlock_check_sender C (tx0\<lparr>tx_v := v, tx_r := r, tx_s := s\<rparr>)))"
    using TxBlock_parse_steps [of tx C cid] wf by blast
  from wf s(2) obtain i7 where d7: "drop i7 s = rlp_string (tx_data tx) @ 0xc0 # TxBlock_sig_body tx"
    and f: "TxBlock_read_fields s i0 =
      bindE (read_string_block s i7) (\<lambda>(dat, i8). bindE (view_at s i8) (\<lambda>al.
        if al \<noteq> 0xc0 then Inl (RuntimeError ''Access list is not empty'')
        else Inr (tx\<lparr>tx_from := FixedStr 20 [], tx_data := dat, tx_v := 0, tx_r := 0, tx_s := 0\<rparr>, i8 + 1)))"
    by (elim conjE) (rule read_fields_prefix)
  note d8 = drop_step [OF d7, unfolded length_rlp_string]
  have "read_string_block s i7 = Inr (tx_data tx, i7 + rlp_string_size (tx_data tx))"
    using read_string_block_rlp [OF d7] wf s(1) by blast
  moreover have "TxBlock_read_sig s (Suc (i7 + rlp_string_size (tx_data tx))) = Inr (tx_v tx, tx_r tx, tx_s tx)"
    using TxBlock_read_sig_rlp [OF drop_Cons_step [OF d8]] assms(2)
    by (simp add: TxBlock_sender_ok_def verifySig_def)
  ultimately show ?thesis
    unfolding p f by (simp only: bindE_simps case_prod_conv view_at_drop [OF d8] not_True_eq_False
        simp_thms if_False Suc_eq_plus1 [symmetric] TxBlock_restore TxBlock_check_sender_ok [OF assms(2)])
qed

subsection \<open>Signed transactions\<close>

lemma TxBlock_unsigned_ignores_sig:
  "TxBlock_rlpSerialize (tx\<lparr>tx_v := v, tx_r := r, tx_s := s\<rparr>) False = TxBlock_rlpSerialize tx False"
  by (simp add: TxBlock_rlpSerialize_def TxBlock_total_size_def)

lemma Signature_v_view_at: "length sig = 65 \<Longrightarrow> Signature_v sig = view_at sig 64"
  by (simp add: Signature_v_def view_at_def substr_def bytesToUint8_def)

lemma TxBlock_sign_sender_ok:
  assumes "TxBlock_sign C tx0 privKey = Inr tx" and "nonzero_str (toUPub C privKey)"
  shows "TxBlock_sender_ok C tx"
proof -
  from assms(1) obtain sig r s v where
    sig: "sign C (TxBlock_hash C tx0 False) privKey = Inr sig"
    and parts: "Signature_r sig = Inr r" "Signature_s sig = Inr s" "view_at sig 64 = Inr v"
    and ok: "toUPub C privKey = recover C sig (TxBlock_hash C tx0 False)" "verifySig r s v"
    and frm: "tx_from tx0 = toAddress C (toUPub C privKey)"
    and tx: "tx = tx0\<lparr>tx_v := v, tx_r := r, tx_s := s\<rparr>"
    by (auto simp: TxBlock_sign_def Let_def if_Inl_eq_Inr)
  have "makeSig r s v = sig"
    using sign_length [OF sig] parts by (intro makeSig_of_parts) (simp_all add: Signature_v_view_at)
  moreover have "TxBlock_hash C tx False = TxBlock_hash C tx0 False"
    unfolding TxBlock_hash_def tx TxBlock_unsigned_ignores_sig ..
  moreover have "tx_r tx = r" "tx_s tx = s" "tx_v tx = v" "tx_from tx = tx_from tx0" by (simp_all add: tx)
  ultimately show ?thesis
    using ok frm assms(2) by (simp add: TxBlock_sender_ok_def Let_def)
qed

lemma TxBlock_new_sender_ok:
  "TxBlock_new C to frm dat chainId nonce val mpf mf gl privKey = Inr tx \<Longrightarrow> nonzero_str (toUPub C privKey)
   \<Longrightarrow> TxBlock_sender_ok C tx"
  unfolding TxBlock_new_def by (rule TxBlock_sign_sender_ok)

text \<open>C1. A transaction that the signing constructor made is read back from its serialisation exactly, every member and the sender address,
  provided that the public key of the private key is not the zero string, the receiver has twenty bytes, the nonce and the gas limit fit 64 bits, the payload is longer
  than 55 bytes and shorter than the 64-bit range, and the data is not exactly 55 bytes long.\<close>

theorem TxBlock_sign_parse:
  assumes "TxBlock_new C to frm dat chainId nonce val mpf mf gl privKey = Inr tx"
    and "nonzero_str (toUPub C privKey)"
    and "TxBlock_serialisable tx"
  shows "TxBlock_parse C (TxBlock_rlpSerialize tx True) requiredChainId = Inr tx"
  using assms by (intro TxBlock_roundtrip TxBlock_new_sender_ok)

definition demo_tx :: "bytes \<Rightarrow> TxBlock" where
  "demo_tx dat = \<lparr>tx_to = replicate 20 1, tx_from = toAddress demo_crypto (replicate 65 4), tx_data = dat,
     tx_chainId = 8080, tx_nonce = 3, tx_value = 1000, tx_maxPriorityFeePerGas = 0, tx_maxFeePerGas = 200,
     tx_gasLimit = 21000, tx_v = 0, tx_r = 5, tx_s = 7\<rparr>"

lemma demo_tx_new:
  "TxBlock_new demo_crypto (replicate 20 1) (toAddress demo_crypto (replicate 65 4)) dat 8080 3 1000 0 200 21000 key
   = Inr (demo_tx dat)"
  by (simp add: TxBlock_new_def TxBlock_sign_def demo_toUPub demo_sign demo_recover demo_tx_def verifySig_def ecConst_def Let_def
      view_at_def makeSig_eq [of 5 7 0, symmetric])
    (simp add: makeSig_eq nth_append)

lemma demo_tx_serialisable: "TxBlock_serialisable (demo_tx (replicate 60 9))"
  by (simp add: TxBlock_serialisable_def TxBlock_total_size_def demo_tx_def rlp_uint_size_def rlp_string_size_def
      bytesRequired_pos)

theorem TxBlock_sign_parse_witness:
  "TxBlock_parse demo_crypto (TxBlock_rlpSerialize (demo_tx (replicate 60 9)) True) 8080
   = Inr (demo_tx (replicate 60 9))"
  by (rule TxBlock_sign_parse [OF demo_tx_new [of "replicate 60 9" "[]"] _ demo_tx_serialisable])
    (simp only: demo_toUPub demo_nonzero)

text \<open>C22. Whatever bytes the parser accepts, the sender of the transaction is the address of the
  key that the signature recovers for the transaction's own unsigned serialisation, the signature
  values are in the range the curve allows, and the receiver has twenty bytes.\<close>

theorem TxBlock_parse_authentic:
  assumes "TxBlock_parse C bs requiredChainId = Inr tx"
  shows "TxBlock_sender_ok C tx \<and> length (tx_to tx) = 20"
proof -
  from assms obtain s i0 i9 tx0 v r s' where
    f: "TxBlock_read_fields s i0 = Inr (tx0, i9)"
    and c: "TxBlock_check_sender C (tx0\<lparr>tx_v := v, tx_r := r, tx_s := s'\<rparr>) = Inr tx"
    by (auto simp: TxBlock_parse_def split: if_splits)
  from f have "length (tx_to tx0) = 20"
    by (auto simp: TxBlock_read_fields_def read_to_def Address_bytes_def split: if_splits)
  moreover have "TxBlock_rlpSerialize (t\<lparr>tx_from := a\<rparr>) False = TxBlock_rlpSerialize t False" for t a
    by (simp add: TxBlock_rlpSerialize_def TxBlock_total_size_def)
  ultimately show ?thesis
    using c by (auto simp: TxBlock_check_sender_def TxBlock_sender_ok_def TxBlock_hash_def Let_def
        split: if_splits)
qed

theorem TxBlock_parse_authentic_witness:
  "TxBlock_sender_ok demo_crypto (demo_tx (replicate 60 9)) \<and> length (tx_to (demo_tx (replicate 60 9))) = 20"
proof (rule TxBlock_parse_authentic)
  show "TxBlock_parse demo_crypto (TxBlock_rlpSerialize (demo_tx (replicate 60 9)) True) 0 = Inr (demo_tx (replicate 60 9))"
    using demo_nonzero demo_tx_serialisable TxBlock_new_sender_ok [OF demo_tx_new [of "replicate 60 9" "[]"]]
    by (intro TxBlock_roundtrip) (simp_all only: demo_toUPub)
qed

subsection \<open>Data of 55 bytes\<close>

lemma unat_u64_to_u256: "unat (ucast (w :: uint64) :: uint256) < 2 ^ 64"
  using unsigned_less [of w, where ?'a = nat] by (simp add: unat_ucast_mod less_le_trans [OF _ order.refl] order.strict_trans1 [OF mod_less_eq_dividend])

lemma read_uint_u64_lt: "read_uint s i b msg u64_to_u256_field 0 = Inr (x, j) \<Longrightarrow> unat x < 2 ^ 64"
  by (auto simp: read_uint_def u64_to_u256_field_def Let_def unat_u64_to_u256 [simplified] split: if_splits)

lemma TxBlock_read_fields_members:
  "TxBlock_read_fields s i = Inr (tx, j) \<Longrightarrow> length (tx_to tx) = 20 \<and> unat (tx_nonce tx) < 2 ^ 64 \<and> unat (tx_gasLimit tx) < 2 ^ 64"
  by (auto simp: TxBlock_read_fields_def read_to_def Address_bytes_def dest!: read_uint_u64_lt split: if_splits)

lemma TxBlock_check_sender_data: "TxBlock_check_sender C tx0 = Inr tx \<Longrightarrow> tx_data tx = tx_data tx0"
  by (auto simp: TxBlock_check_sender_def Let_def split: if_splits)

lemma TxBlock_parse_members:
  assumes "TxBlock_parse C bs cid = Inr tx"
  shows "length (tx_to tx) = 20" "unat (tx_nonce tx) < 2 ^ 64" "unat (tx_gasLimit tx) < 2 ^ 64"
proof -
  from assms obtain s i0 i9 tx0 v r s' where f: "TxBlock_read_fields s i0 = Inr (tx0, i9)"
    and c: "TxBlock_check_sender C (tx0\<lparr>tx_v := v, tx_r := r, tx_s := s'\<rparr>) = Inr tx"
    by (auto simp: TxBlock_parse_def split: if_splits)
  then show "length (tx_to tx) = 20" "unat (tx_nonce tx) < 2 ^ 64" "unat (tx_gasLimit tx) < 2 ^ 64"
    using TxBlock_read_fields_members [OF f] by (auto simp: TxBlock_check_sender_def Let_def split: if_splits)
qed

lemma TxBlock_size_55:
  assumes "length (tx_data tx) = 55"
  shows "55 < TxBlock_total_size tx True" "TxBlock_total_size tx True + 9 < 2 ^ 64"
proof -
  have u: "rlp_uint_size (unat x) \<le> 33" "bytesRequired (unat x) \<le> 32" for x :: uint256
    using bytesRequired_u256 [OF uint256_lt [of x]] by (simp_all add: rlp_uint_size_def)
  have c: "rlp_uint_size (unat x) \<le> 9" for x :: uint64
    using bytesRequired_u64 [of "unat x"] unsigned_less [of x, where ?'a = nat] by (simp add: rlp_uint_size_def)
  show "55 < TxBlock_total_size tx True" using assms by (simp add: TxBlock_total_size_def rlp_string_size_def)
  show "TxBlock_total_size tx True + 9 < 2 ^ 64"
    using assms u(1) [of "tx_nonce tx"] u(1) [of "tx_maxPriorityFeePerGas tx"] u(1) [of "tx_maxFeePerGas tx"] u(1) [of "tx_gasLimit tx"]
      u(1) [of "tx_value tx"] u(2) [of "tx_r tx"] u(2) [of "tx_s tx"] c [of "tx_chainId tx"]
    by (simp add: TxBlock_total_size_def rlp_string_size_def)
qed

text \<open>What the parser makes of such a transaction: empty data, and the first data byte in the place of the access list.\<close>

lemma TxBlock_parse_55:
  assumes "length (tx_to tx) = 20" and "unat (tx_nonce tx) < 2 ^ 64" and "unat (tx_gasLimit tx) < 2 ^ 64" and "length (tx_data tx) = 55"
  obtains i9 s where "TxBlock_parse C (TxBlock_rlpSerialize tx True) cid =
    (if hd (tx_data tx) \<noteq> 0xc0 then Inl (RuntimeError ''Access list is not empty'')
     else bindE (TxBlock_read_sig s i9) (\<lambda>(v, r, s'). TxBlock_check_sender C
       (tx\<lparr>tx_from := FixedStr 20 [], tx_data := [], tx_v := v, tx_r := r, tx_s := s'\<rparr>)))"
proof -
  obtain s i0 where
    s: "length s < 2 ^ 64" "drop i0 s = TxBlock_unsigned_body tx @ TxBlock_sig_body tx"
    and p: "TxBlock_parse C (TxBlock_rlpSerialize tx True) cid =
      bindE (TxBlock_read_fields s i0) (\<lambda>(tx0, i9). bindE (TxBlock_read_sig s i9) (\<lambda>(v, r, s).
        TxBlock_check_sender C (tx0\<lparr>tx_v := v, tx_r := r, tx_s := s\<rparr>)))"
    using TxBlock_parse_steps [OF assms(1) TxBlock_size_55 [OF assms(4)]] by blast
  obtain i7 where d7: "drop i7 s = rlp_string (tx_data tx) @ 0xc0 # TxBlock_sig_body tx"
    and f: "TxBlock_read_fields s i0 =
      bindE (read_string_block s i7) (\<lambda>(dat, i8). bindE (view_at s i8) (\<lambda>al.
        if al \<noteq> 0xc0 then Inl (RuntimeError ''Access list is not empty'')
        else Inr (tx\<lparr>tx_from := FixedStr 20 [], tx_data := dat, tx_v := 0, tx_r := 0, tx_s := 0\<rparr>, i8 + 1)))"
    using read_fields_prefix [OF s(2) assms(1-3)] by blast
  note d = read_string_55 [OF d7 assms(4) s(1)]
  obtain b bs where b: "tx_data tx = b # bs" using assms(4) by (cases "tx_data tx") auto
  have "view_at s (Suc i7) = Inr b" using d(2) by (intro view_at_drop) (simp add: b)
  then show thesis by (intro that [of s "Suc i7 + 1"]) (simp add: p f d(1) b)
qed

text \<open>C39. No transaction whose data has exactly 55 bytes, the longest the short form holds, is read back: the serialiser writes the prefix 0xb7,
  which the parser takes for the long form with an empty length. Unless the first data byte is 0xc0, the parser rejects such a transaction with the error of a
  nonempty access list when its receiver, nonce and gas limit are otherwise readable.\<close>

theorem TxBlock_data_55_rejected:
  assumes "length (tx_data tx) = 55"
  shows "TxBlock_parse C (TxBlock_rlpSerialize tx True) requiredChainId \<noteq> Inr tx
    \<and> (length (tx_to tx) = 20 \<and> unat (tx_nonce tx) < 2 ^ 64 \<and> unat (tx_gasLimit tx) < 2 ^ 64 \<and> hd (tx_data tx) \<noteq> 0xc0
       \<longrightarrow> TxBlock_parse C (TxBlock_rlpSerialize tx True) requiredChainId = Inl (RuntimeError ''Access list is not empty''))"
proof (intro conjI impI notI)
  assume p: "TxBlock_parse C (TxBlock_rlpSerialize tx True) requiredChainId = Inr tx"
  note m = TxBlock_parse_members [OF this]
  obtain i9 s where "TxBlock_parse C (TxBlock_rlpSerialize tx True) requiredChainId =
    (if hd (tx_data tx) \<noteq> 0xc0 then Inl (RuntimeError ''Access list is not empty'')
     else bindE (TxBlock_read_sig s i9) (\<lambda>(v, r, s'). TxBlock_check_sender C
       (tx\<lparr>tx_from := FixedStr 20 [], tx_data := [], tx_v := v, tx_r := r, tx_s := s'\<rparr>)))"
    by (rule TxBlock_parse_55 [OF m assms])
  with p obtain v r s' where "TxBlock_check_sender C (tx\<lparr>tx_from := FixedStr 20 [], tx_data := [], tx_v := v, tx_r := r, tx_s := s'\<rparr>) = Inr tx"
    by (auto split: if_splits)
  from TxBlock_check_sender_data [OF this] have "tx_data tx = []" by simp
  with assms show False by simp
next
  assume "length (tx_to tx) = 20 \<and> unat (tx_nonce tx) < 2 ^ 64 \<and> unat (tx_gasLimit tx) < 2 ^ 64 \<and> hd (tx_data tx) \<noteq> 0xc0"
  then show "TxBlock_parse C (TxBlock_rlpSerialize tx True) requiredChainId = Inl (RuntimeError ''Access list is not empty'')"
    using TxBlock_parse_55 [of tx C requiredChainId] assms by metis
qed

theorem TxBlock_data_55_rejected_witness:
  "TxBlock_parse demo_crypto (TxBlock_rlpSerialize (demo_tx (replicate 55 9)) True) 8080
     = Inl (RuntimeError ''Access list is not empty'')
   \<and> TxBlock_parse demo_crypto (TxBlock_rlpSerialize (demo_tx (replicate 55 0xc0)) True) 8080 \<noteq> Inr (demo_tx (replicate 55 0xc0))"
  using TxBlock_data_55_rejected [of "demo_tx (replicate 55 9)" demo_crypto 8080]
    TxBlock_data_55_rejected [of "demo_tx (replicate 55 0xc0)" demo_crypto 8080] by (simp add: demo_tx_def)

end
