(* ===== verification/Tokens.thy ===== *)
theory Tokens
  imports Safe_String Abi Db Tx_Block
begin

text \<open>
  Contracts: the base classes (\<^verbatim>\<open>src/contract/contract.h\<close>, \<^verbatim>\<open>dynamiccontract.h\<close>) and the token contracts \<^verbatim>\<open>ERC20\<close> and
  \<^verbatim>\<open>NativeWrapper\<close> (\<^verbatim>\<open>erc20.cpp\<close>, \<^verbatim>\<open>nativewrapper.cpp\<close>). The class hierarchy is a chain of record extensions. The
  contract variables are those of the theories \<^verbatim>\<open>Safe_Vars\<close>, \<^verbatim>\<open>Safe_String\<close> and \<^verbatim>\<open>Safe_Map\<close>; a use of a variable
  registers it with the contract, and \<^verbatim>\<open>updateState\<close> commits or reverts the registered ones.

  The last part relates the code to an abstract token: balances and allowances as total functions into
  the natural numbers, and the three calls as partial functions on them.
\<close>

subsection \<open>Contract objects\<close>

record BaseContract =
  contractName :: bytes
  contractAddress :: bytes
  contractCreator :: bytes
  contractChainId :: uint64
  loc_origin :: bytes
  loc_caller :: bytes
  loc_value :: uint256
  loc_commit :: bool

datatype member = V_name | V_symbol | V_decimals | V_totalSupply | V_balances | V_allowed | V_tokensAndBalances

record DynamicContract = BaseContract +
  dc_used :: "member list"

type_synonym balance_map = "(bytes, uint256) safe_map"
type_synonym nested_map = "(bytes, bytes \<rightharpoonup> uint256) safe_map"

record token = DynamicContract +
  tok_name :: "bytes safe_var"
  tok_symbol :: "bytes safe_var"
  tok_decimals :: "uint8 safe_var"
  tok_totalSupply :: "uint256 safe_var"
  tok_balances :: balance_map
  tok_allowed :: nested_map

text \<open>The two constructors of the base class. The first writes the four attributes to the database, the
  second reads three of them back.\<close>

definition contract_prefix :: "bytes \<Rightarrow> bytes" where
  "contract_prefix address = DBPrefix_contracts @ address"

definition BaseContract_put :: "'s rocksdb \<Rightarrow> 's \<Rightarrow> bytes \<Rightarrow> bytes \<Rightarrow> bytes \<Rightarrow> uint64 \<Rightarrow> 's" where
  "BaseContract_put R db name address creator chainId =
     (let put = (\<lambda>key v db. fst (DB_put R db (bytes_of_string key) v (contract_prefix address)))
      in put ''contractChainId'' (uint64ToBytes chainId) (put ''contractCreator'' creator
           (put ''contractAddress'' address (put ''contractName'' name db))))"

definition BaseContract_new :: "bytes \<Rightarrow> bytes \<Rightarrow> bytes \<Rightarrow> uint64 \<Rightarrow> BaseContract" where
  "BaseContract_new name address creator chainId =
     \<lparr>contractName = name, contractAddress = address, contractCreator = creator, contractChainId = chainId,
      loc_origin = replicate 20 0, loc_caller = replicate 20 0, loc_value = 0, loc_commit = False\<rparr>"

definition BaseContract_load :: "'s rocksdb \<Rightarrow> 's \<Rightarrow> bytes \<Rightarrow> BaseContract result" where
  "BaseContract_load R db address =
     (let get = (\<lambda>key. DB_get R db (bytes_of_string key) (contract_prefix address))
      in bindE (Address_bytes (get ''contractCreator'')) (\<lambda>creator.
         bindE (bytesToUint64 (get ''contractChainId'')) (\<lambda>chainId.
         Inr (BaseContract_new (get ''contractName'') address creator chainId))))"

text \<open>The contract manager sets these before every call.\<close>

definition set_locals :: "bytes \<Rightarrow> bytes \<Rightarrow> uint256 \<Rightarrow> bool \<Rightarrow> 'a BaseContract_scheme \<Rightarrow> 'a BaseContract_scheme" where
  "set_locals orig call v c t = t\<lparr>loc_origin := orig, loc_caller := call, loc_value := v, loc_commit := c\<rparr>"

definition token_of_base :: "BaseContract \<Rightarrow> token" where
  "token_of_base b = DynamicContract.extend (BaseContract.extend b (DynamicContract.fields []))
     (token.fields (SafeString_owned []) (SafeString_owned []) (SafeUint_owned 0) (SafeUint_owned 0)
        (SafeMap_owned Map.empty) (SafeMap_owned Map.empty))"

subsection \<open>Using variables\<close>

definition note_use :: "member \<Rightarrow> bool \<Rightarrow> 'a DynamicContract_scheme \<Rightarrow> 'a DynamicContract_scheme" where
  "note_use v new c = (if new then c\<lparr>dc_used := dc_used c @ [v]\<rparr> else c)"

definition on_name :: "(bytes safe_var, 'r) action \<Rightarrow> (token, 'r) action" where
  "on_name f t = (let (v, r) = f (tok_name t) in (note_use V_name (sv_registers (tok_name t)) (t\<lparr>tok_name := v\<rparr>), r))"

definition on_symbol :: "(bytes safe_var, 'r) action \<Rightarrow> (token, 'r) action" where
  "on_symbol f t =
     (let (v, r) = f (tok_symbol t) in (note_use V_symbol (sv_registers (tok_symbol t)) (t\<lparr>tok_symbol := v\<rparr>), r))"

definition on_decimals :: "(uint8 safe_var, 'r) action \<Rightarrow> (token, 'r) action" where
  "on_decimals f t =
     (let (v, r) = f (tok_decimals t) in (note_use V_decimals (sv_registers (tok_decimals t)) (t\<lparr>tok_decimals := v\<rparr>), r))"

definition on_totalSupply :: "(uint256 safe_var, 'r) action \<Rightarrow> (token, 'r) action" where
  "on_totalSupply f t =
     (let (v, r) = f (tok_totalSupply t)
      in (note_use V_totalSupply (sv_registers (tok_totalSupply t)) (t\<lparr>tok_totalSupply := v\<rparr>), r))"

definition on_balances :: "(balance_map, 'r) action \<Rightarrow> (token, 'r) action" where
  "on_balances f t =
     (let (m, r) = f (tok_balances t) in (note_use V_balances (sm_registers (tok_balances t)) (t\<lparr>tok_balances := m\<rparr>), r))"

definition on_allowed :: "(nested_map, 'r) action \<Rightarrow> (token, 'r) action" where
  "on_allowed f t =
     (let (m, r) = f (tok_allowed t) in (note_use V_allowed (sm_registers (tok_allowed t)) (t\<lparr>tok_allowed := m\<rparr>), r))"

text \<open>A compound assignment through the reference that \<^verbatim>\<open>operator[]\<close> returns.\<close>

definition sm_index_modify :: "'v \<Rightarrow> 'k \<Rightarrow> ('v \<Rightarrow> 'v result) \<Rightarrow> (('k, 'v) safe_map, unit) action" where
  "sm_index_modify dflt key f m =
     (let (m1, x) = sm_index dflt m key in
      case f x of Inl e \<Rightarrow> (m1, Inl e) | Inr y \<Rightarrow> (m1\<lparr>sm_ptr := Some ((sm_pending m1)(key \<mapsto> y))\<rparr>, Inr ()))"

text \<open>\<^verbatim>\<open>operator[]\<close> of the inner \<^verbatim>\<open>std::unordered_map\<close>.\<close>

definition inner_at :: "(bytes \<rightharpoonup> uint256) \<Rightarrow> bytes \<Rightarrow> uint256" where
  "inner_at m k = snd (index_default m k 0)"

definition inner_modify :: "bytes \<Rightarrow> (uint256 \<Rightarrow> uint256 result) \<Rightarrow> (bytes \<rightharpoonup> uint256) \<Rightarrow> (bytes \<rightharpoonup> uint256) result" where
  "inner_modify k f m = bindE (f (inner_at m k)) (\<lambda>x. Inr (m(k \<mapsto> x)))"

fun update_member :: "bool \<Rightarrow> member \<Rightarrow> token \<Rightarrow> token" where
  "update_member c V_name t = t\<lparr>tok_name := (if c then SafeString_commit else SafeString_revert) (tok_name t)\<rparr>"
| "update_member c V_symbol t = t\<lparr>tok_symbol := (if c then SafeString_commit else SafeString_revert) (tok_symbol t)\<rparr>"
| "update_member c V_decimals t = t\<lparr>tok_decimals := (if c then sv_commit else sv_revert) (tok_decimals t)\<rparr>"
| "update_member c V_totalSupply t = t\<lparr>tok_totalSupply := (if c then sv_commit else sv_revert) (tok_totalSupply t)\<rparr>"
| "update_member c V_balances t = t\<lparr>tok_balances := (if c then sm_commit else sm_revert) (tok_balances t)\<rparr>"
| "update_member c V_allowed t = t\<lparr>tok_allowed := (if c then sm_commit else sm_revert) (tok_allowed t)\<rparr>"
| "update_member c V_tokensAndBalances t = t"

definition token_updateState :: "bool \<Rightarrow> token \<Rightarrow> token" where
  "token_updateState commitToState t = (fold (update_member commitToState) (dc_used t) t)\<lparr>dc_used := []\<rparr>"

subsection \<open>ERC20\<close>

definition mintValue :: "bytes \<Rightarrow> uint256 \<Rightarrow> (token, unit) action" where
  "mintValue address v =
     bindS (on_balances (sm_index_modify 0 address (\<lambda>b. u256_add b v))) (\<lambda>_.
     on_totalSupply (SafeUint_add_assign v))"

definition ERC20_new ::
  "'s rocksdb \<Rightarrow> bytes \<Rightarrow> bytes \<Rightarrow> uint8 \<Rightarrow> uint256 \<Rightarrow> bytes \<Rightarrow> bytes \<Rightarrow> uint64 \<Rightarrow> ('s, token) action" where
  "ERC20_new R name symbol decimals mint address creator chainId db =
     (let cname = bytes_of_string ''ERC20'';
          (t, r) = bindS (on_name (SafeString_assign name)) (\<lambda>_.
                   bindS (on_symbol (SafeString_assign symbol)) (\<lambda>_.
                   bindS (on_decimals (SafeUint_assign decimals)) (\<lambda>_.
                   mintValue creator mint))) (token_of_base (BaseContract_new cname address creator chainId))
      in (BaseContract_put R db cname address creator chainId, bindE r (\<lambda>_. Inr (token_updateState True t))))"

definition ERC20_name :: "crypto \<Rightarrow> token \<Rightarrow> bytes result" where
  "ERC20_name C t = Encoder C [ABytes (sv_get (tok_name t))] ''''"

definition ERC20_symbol :: "crypto \<Rightarrow> token \<Rightarrow> bytes result" where
  "ERC20_symbol C t = Encoder C [ABytes (sv_get (tok_symbol t))] ''''"

definition ERC20_decimals :: "crypto \<Rightarrow> token \<Rightarrow> bytes result" where
  "ERC20_decimals C t = Encoder C [AUint256 (ucast (sv_get (tok_decimals t)))] ''''"

definition ERC20_totalSupply :: "crypto \<Rightarrow> token \<Rightarrow> bytes result" where
  "ERC20_totalSupply C t = Encoder C [AUint256 (sv_get (tok_totalSupply t))] ''''"

definition ERC20_balanceOf :: "crypto \<Rightarrow> bytes \<Rightarrow> token \<Rightarrow> bytes result" where
  "ERC20_balanceOf C owner t =
     (case sm_find (tok_balances t) owner of
        None \<Rightarrow> Encoder C [AUint256 0] ''''
      | Some b \<Rightarrow> Encoder C [AUint256 b] '''')"

definition ERC20_transfer :: "bytes \<Rightarrow> uint256 \<Rightarrow> (token, unit) action" where
  "ERC20_transfer to v t =
     bindS (on_balances (sm_index_modify 0 (loc_caller t) (\<lambda>b. u256_sub b v))) (\<lambda>_.
     on_balances (sm_index_modify 0 to (\<lambda>b. u256_add b v))) t"

definition ERC20_approve :: "bytes \<Rightarrow> uint256 \<Rightarrow> (token, unit) action" where
  "ERC20_approve spender v t =
     on_allowed (sm_index_modify Map.empty (loc_caller t) (inner_modify spender (\<lambda>_. Inr v))) t"

definition ERC20_allowance :: "crypto \<Rightarrow> bytes \<Rightarrow> bytes \<Rightarrow> token \<Rightarrow> bytes result" where
  "ERC20_allowance C owner spender t =
     (case sm_find (tok_allowed t) owner of
        None \<Rightarrow> Encoder C [AUint256 0] ''''
      | Some m \<Rightarrow> (case m spender of
          None \<Rightarrow> Encoder C [AUint256 0] ''''
        | Some x \<Rightarrow> Encoder C [AUint256 x] ''''))"

definition ERC20_transferFrom :: "bytes \<Rightarrow> bytes \<Rightarrow> uint256 \<Rightarrow> (token, unit) action" where
  "ERC20_transferFrom from to v t =
     bindS (on_allowed (sm_index_modify Map.empty from (inner_modify (loc_caller t) (\<lambda>a. u256_sub a v)))) (\<lambda>_.
     bindS (on_balances (sm_index_modify 0 from (\<lambda>b. u256_sub b v))) (\<lambda>_.
     on_balances (sm_index_modify 0 to (\<lambda>b. u256_add b v)))) t"

text \<open>The maps that \<^verbatim>\<open>registerContractFunctions\<close> fills. \<open>args\<close> is the decoder of the arguments behind the
  four bytes of the selector.\<close>

definition args :: "abi_type list \<Rightarrow> bytes \<Rightarrow> (abi_value list \<Rightarrow> ('s, 'r) action) \<Rightarrow> ('s, 'r) action" where
  "args types data f = bindS (liftS (Decoder types (drop 4 data))) f"

definition arg_address :: "abi_value list \<Rightarrow> nat \<Rightarrow> (bytes \<Rightarrow> ('s, 'r) action) \<Rightarrow> ('s, 'r) action" where
  "arg_address d i f = bindS (liftS (getData_address d i)) f"

definition arg_uint256 :: "abi_value list \<Rightarrow> nat \<Rightarrow> (uint256 \<Rightarrow> ('s, 'r) action) \<Rightarrow> ('s, 'r) action" where
  "arg_uint256 d i f = bindS (liftS (getData_uint256 d i)) f"

definition ERC20_functions :: "bytes \<Rightarrow> (bytes \<Rightarrow> (token, unit) action) option" where
  "ERC20_functions functor =
     (if functor = [0xa9, 0x05, 0x9c, 0xbb] then Some (\<lambda>data. args [T_address, T_uint256] data (\<lambda>d.
        arg_address d 0 (\<lambda>to. arg_uint256 d 1 (\<lambda>v. ERC20_transfer to v))))
      else if functor = [0x09, 0x5e, 0xa7, 0xb3] then Some (\<lambda>data. args [T_address, T_uint256] data (\<lambda>d.
        arg_address d 0 (\<lambda>spender. arg_uint256 d 1 (\<lambda>v. ERC20_approve spender v))))
      else if functor = [0x23, 0xb8, 0x72, 0xdd] then Some (\<lambda>data. args [T_address, T_address, T_uint256] data (\<lambda>d.
        arg_address d 0 (\<lambda>from. arg_address d 1 (\<lambda>to. arg_uint256 d 2 (\<lambda>v. ERC20_transferFrom from to v)))))
      else None)"

definition ERC20_viewFunctions :: "crypto \<Rightarrow> bytes \<Rightarrow> (bytes \<Rightarrow> token \<Rightarrow> bytes result) option" where
  "ERC20_viewFunctions C functor =
     (if functor = [0x06, 0xfd, 0xde, 0x03] then Some (\<lambda>data. ERC20_name C)
      else if functor = [0x95, 0xd8, 0x9b, 0x41] then Some (\<lambda>data. ERC20_symbol C)
      else if functor = [0x31, 0x3c, 0xe5, 0x67] then Some (\<lambda>data. ERC20_decimals C)
      else if functor = [0x18, 0x16, 0x0d, 0xdd] then Some (\<lambda>data. ERC20_totalSupply C)
      else if functor = [0x70, 0xa0, 0x82, 0x31] then Some (\<lambda>data t.
        bindE (Decoder [T_address] (drop 4 data)) (\<lambda>d. bindE (getData_address d 0) (\<lambda>owner. ERC20_balanceOf C owner t)))
      else if functor = [0xdd, 0x62, 0xed, 0x3e] then Some (\<lambda>data t.
        bindE (Decoder [T_address, T_address] (drop 4 data)) (\<lambda>d. bindE (getData_address d 0) (\<lambda>owner.
        bindE (getData_address d 1) (\<lambda>spender. ERC20_allowance C owner spender t))))
      else None)"

text \<open>\<^verbatim>\<open>DynamicContract::ethCall\<close> and \<^verbatim>\<open>ethCallView\<close> of a token.\<close>

definition token_ethCall :: "(bytes \<Rightarrow> (bytes \<Rightarrow> (token, unit) action) option) \<Rightarrow> bytes \<Rightarrow> (token, unit) action" where
  "token_ethCall functions data t =
     (case (case functions (take 4 data) of
              None \<Rightarrow> (t, Inl (RuntimeError ''Functor not found''))
            | Some f \<Rightarrow> f data t) of
        (t1, Inl e) \<Rightarrow> (token_updateState False t1, rethrow '''' (Inl e))
      | (t1, Inr u) \<Rightarrow> (token_updateState (loc_commit t1) t1, Inr u))"

definition token_ethCallView :: "(bytes \<Rightarrow> (bytes \<Rightarrow> token \<Rightarrow> bytes result) option) \<Rightarrow> bytes \<Rightarrow> token \<Rightarrow> bytes result" where
  "token_ethCallView views data t =
     rethrow '''' (case views (take 4 data) of None \<Rightarrow> Inl (RuntimeError ''Functor not found'') | Some f \<Rightarrow> f data t)"

subsection \<open>NativeWrapper\<close>

text \<open>\<^verbatim>\<open>nativewrapper.cpp\<close> repeats the functions of \<^verbatim>\<open>erc20.cpp\<close> on members of the same names; only the constructor
  and the two payable functions are its own. \<^verbatim>\<open>withdraw\<close> goes on with \<^verbatim>\<open>sendTokens\<close>, in theory \<^verbatim>\<open>Manager\<close>.\<close>

definition NativeWrapper_new ::
  "'s rocksdb \<Rightarrow> bytes \<Rightarrow> bytes \<Rightarrow> uint8 \<Rightarrow> bytes \<Rightarrow> bytes \<Rightarrow> uint64 \<Rightarrow> ('s, token) action" where
  "NativeWrapper_new R name symbol decimals address creator chainId db =
     (let cname = bytes_of_string ''NativeWrapper'';
          (t, r) = bindS (on_name (SafeString_assign name)) (\<lambda>_.
                   bindS (on_symbol (SafeString_assign symbol)) (\<lambda>_.
                   on_decimals (SafeUint_assign decimals))) (token_of_base (BaseContract_new cname address creator chainId))
      in (BaseContract_put R db cname address creator chainId, bindE r (\<lambda>_. Inr (token_updateState True t))))"

definition NativeWrapper_name :: "crypto \<Rightarrow> token \<Rightarrow> bytes result" where
  "NativeWrapper_name = ERC20_name"

definition NativeWrapper_symbol :: "crypto \<Rightarrow> token \<Rightarrow> bytes result" where
  "NativeWrapper_symbol = ERC20_symbol"

definition NativeWrapper_decimals :: "crypto \<Rightarrow> token \<Rightarrow> bytes result" where
  "NativeWrapper_decimals = ERC20_decimals"

definition NativeWrapper_totalSupply :: "crypto \<Rightarrow> token \<Rightarrow> bytes result" where
  "NativeWrapper_totalSupply = ERC20_totalSupply"

definition NativeWrapper_balanceOf :: "crypto \<Rightarrow> bytes \<Rightarrow> token \<Rightarrow> bytes result" where
  "NativeWrapper_balanceOf = ERC20_balanceOf"

definition NativeWrapper_allowance :: "crypto \<Rightarrow> bytes \<Rightarrow> bytes \<Rightarrow> token \<Rightarrow> bytes result" where
  "NativeWrapper_allowance = ERC20_allowance"

definition NativeWrapper_transfer :: "bytes \<Rightarrow> uint256 \<Rightarrow> (token, unit) action" where
  "NativeWrapper_transfer = ERC20_transfer"

definition NativeWrapper_approve :: "bytes \<Rightarrow> uint256 \<Rightarrow> (token, unit) action" where
  "NativeWrapper_approve = ERC20_approve"

definition NativeWrapper_transferFrom :: "bytes \<Rightarrow> bytes \<Rightarrow> uint256 \<Rightarrow> (token, unit) action" where
  "NativeWrapper_transferFrom = ERC20_transferFrom"

definition NativeWrapper_deposit :: "(token, unit) action" where
  "NativeWrapper_deposit t = on_balances (sm_index_modify 0 (loc_caller t) (\<lambda>b. u256_add b (loc_value t))) t"

definition NativeWrapper_debit :: "uint256 \<Rightarrow> (token, unit) action" where
  "NativeWrapper_debit v t = on_balances (sm_index_modify 0 (loc_caller t) (\<lambda>b. u256_sub b v)) t"

subsection \<open>Variables during a call\<close>

lemma sm_index_modify_simps:
  "snd (sm_index_modify d k f m) = map_sum id (\<lambda>_. ()) (f (case sm_lookup m k of None \<Rightarrow> d | Some x \<Rightarrow> x))"
  "f (case sm_lookup m k of None \<Rightarrow> d | Some x \<Rightarrow> x) = Inr y \<Longrightarrow>
     sm_lookup (fst (sm_index_modify d k f m)) = (sm_lookup m)(k \<mapsto> y)"
  "sm_map (fst (sm_index_modify d k f m)) = sm_map m"
  "sm_erasedKeys (fst (sm_index_modify d k f m)) = sm_erasedKeys m"
  "sm_owner (fst (sm_index_modify d k f m)) = sm_owner m"
  "sm_registered (fst (sm_index_modify d k f m)) \<longleftrightarrow> sm_registered m \<or> sm_owner m"
proof -
  define m1 where "m1 = fst (sm_index d m k)"
  define x where "x = (case sm_lookup m k of None \<Rightarrow> d | Some x \<Rightarrow> x)"
  have i: "sm_index d m k = (m1, x)" by (simp add: m1_def x_def prod_eq_iff sm_index_lookup)
  have m1: "sm_lookup m1 = (sm_lookup m)(k \<mapsto> x)" "sm_map m1 = sm_map m" "sm_erasedKeys m1 = sm_erasedKeys m"
    "sm_owner m1 = sm_owner m" "sm_registered m1 \<longleftrightarrow> sm_registered m \<or> sm_owner m"
    unfolding m1_def x_def sm_index_lookup by (simp_all add: sm_index_def Let_def checkKeyAndCreate_lookup)
  show "snd (sm_index_modify d k f m) = map_sum id (\<lambda>_. ()) (f (case sm_lookup m k of None \<Rightarrow> d | Some x \<Rightarrow> x))"
    "f (case sm_lookup m k of None \<Rightarrow> d | Some x \<Rightarrow> x) = Inr y \<Longrightarrow>
       sm_lookup (fst (sm_index_modify d k f m)) = (sm_lookup m)(k \<mapsto> y)"
    "sm_map (fst (sm_index_modify d k f m)) = sm_map m" "sm_erasedKeys (fst (sm_index_modify d k f m)) = sm_erasedKeys m"
    "sm_owner (fst (sm_index_modify d k f m)) = sm_owner m"
    "sm_registered (fst (sm_index_modify d k f m)) \<longleftrightarrow> sm_registered m \<or> sm_owner m"
    by (simp_all add: sm_index_modify_def i m1 x_def [symmetric] lookup_set_pending split: sum.splits)
qed

text \<open>A map variable while the call runs: \<open>b\<close> says whether it was used, \<open>saved\<close> is the committed map.\<close>

definition map_tracked :: "bool \<Rightarrow> ('k \<rightharpoonup> 'v) \<Rightarrow> ('k, 'v) safe_map \<Rightarrow> bool" where
  "map_tracked b saved m \<longleftrightarrow> sm_owner m \<and> sm_erasedKeys m = {} \<and> (sm_registered m \<longleftrightarrow> b) \<and> sm_map m = saved
     \<and> (\<not> b \<longrightarrow> sm_lookup m = saved)"

abbreviation map_settled :: "('k, 'v) safe_map \<Rightarrow> bool" where
  "map_settled m \<equiv> map_tracked False (sm_lookup m) m"

lemma map_tracked_modify:
  "map_tracked b saved m \<Longrightarrow> map_tracked True saved (fst (sm_index_modify d k f m)) \<and> (sm_registers m \<longleftrightarrow> \<not> b)"
  by (auto simp: map_tracked_def sm_index_modify_simps sm_registers_def)

lemma map_tracked_update:
  "map_tracked True saved m \<Longrightarrow> map_tracked False (if c then sm_lookup m else saved) ((if c then sm_commit else sm_revert) m)"
  by (auto simp: map_tracked_def sm_commit_simps sm_revert_simps sm_lookup_commit)

text \<open>Everything of a token but its two map variables and the list of used variables.\<close>

definition token_frame :: "token \<Rightarrow> token" where
  "token_frame t = t\<lparr>dc_used := [], tok_balances := SafeMap_owned Map.empty, tok_allowed := SafeMap_owned Map.empty\<rparr>"

definition token_running :: "token \<Rightarrow> token \<Rightarrow> bool" where
  "token_running t0 t \<longleftrightarrow> distinct (dc_used t) \<and> set (dc_used t) \<subseteq> {V_balances, V_allowed}
     \<and> map_tracked (V_balances \<in> set (dc_used t)) (sm_lookup (tok_balances t0)) (tok_balances t)
     \<and> map_tracked (V_allowed \<in> set (dc_used t)) (sm_lookup (tok_allowed t0)) (tok_allowed t)
     \<and> token_frame t = token_frame t0"

definition token_settled :: "token \<Rightarrow> bool" where
  "token_settled t \<longleftrightarrow> dc_used t = [] \<and> map_settled (tok_balances t) \<and> map_settled (tok_allowed t)"

lemma token_frame_eq: "token_frame t = token_frame t0 \<Longrightarrow>
    loc_caller t = loc_caller t0 \<and> loc_value t = loc_value t0 \<and> loc_commit t = loc_commit t0
  \<and> contractAddress t = contractAddress t0 \<and> tok_totalSupply t = tok_totalSupply t0"
  by (cases t, cases t0) (simp add: token_frame_def)

lemma token_frame_upd [simp]:
  "token_frame (t\<lparr>tok_balances := m\<rparr>) = token_frame t" "token_frame (t\<lparr>tok_allowed := m'\<rparr>) = token_frame t"
  "token_frame (note_use v b t) = token_frame t" "token_frame (t\<lparr>dc_used := u\<rparr>) = token_frame t"
  by (simp_all add: token_frame_def note_use_def)

lemma settled_token_running: "token_settled t \<Longrightarrow> token_running t t"
  by (simp add: token_settled_def token_running_def)

lemma note_use_simps [simp]:
  "tok_balances (note_use v b t) = tok_balances t" "tok_allowed (note_use v b t) = tok_allowed t"
  "dc_used (note_use v b t) = (if b then dc_used t @ [v] else dc_used t)"
  by (simp_all add: note_use_def)

lemma on_balances_step:
  assumes "token_running t0 t"
  obtains t1 where "on_balances (sm_index_modify 0 k f) t
       = (t1, map_sum id (\<lambda>_. ()) (f (inner_at (sm_lookup (tok_balances t)) k)))"
    and "token_running t0 t1" and "tok_allowed t1 = tok_allowed t"
    and "\<And>y. f (inner_at (sm_lookup (tok_balances t)) k) = Inr y \<Longrightarrow>
           sm_lookup (tok_balances t1) = (sm_lookup (tok_balances t))(k \<mapsto> y)"
proof
  let ?m = "tok_balances t"
  let ?t1 = "note_use V_balances (sm_registers ?m) (t\<lparr>tok_balances := fst (sm_index_modify 0 k f ?m)\<rparr>)"
  have at: "inner_at (sm_lookup ?m) k = (case sm_lookup ?m k of None \<Rightarrow> 0 | Some x \<Rightarrow> x)"
    by (simp add: inner_at_def index_default_def split: option.split)
  show "on_balances (sm_index_modify 0 k f) t = (?t1, map_sum id (\<lambda>_. ()) (f (inner_at (sm_lookup ?m) k)))"
    by (simp add: on_balances_def at sm_index_modify_simps(1) [symmetric] split: prod.split)
  show "token_running t0 ?t1"
    using assms map_tracked_modify [of "V_balances \<in> set (dc_used t)" "sm_lookup (tok_balances t0)" ?m 0 k f]
    by (auto simp: token_running_def)
  show "\<And>y. f (inner_at (sm_lookup ?m) k) = Inr y \<Longrightarrow> sm_lookup (tok_balances ?t1) = (sm_lookup ?m)(k \<mapsto> y)"
    by (simp add: at sm_index_modify_simps(2))
qed simp

lemma on_allowed_step:
  assumes "token_running t0 t"
  obtains t1 where "on_allowed (sm_index_modify Map.empty k f) t
       = (t1, map_sum id (\<lambda>_. ()) (f (case sm_lookup (tok_allowed t) k of None \<Rightarrow> Map.empty | Some x \<Rightarrow> x)))"
    and "token_running t0 t1" and "tok_balances t1 = tok_balances t"
    and "\<And>y. f (case sm_lookup (tok_allowed t) k of None \<Rightarrow> Map.empty | Some x \<Rightarrow> x) = Inr y \<Longrightarrow>
           sm_lookup (tok_allowed t1) = (sm_lookup (tok_allowed t))(k \<mapsto> y)"
proof
  let ?m = "tok_allowed t"
  let ?t1 = "note_use V_allowed (sm_registers ?m) (t\<lparr>tok_allowed := fst (sm_index_modify Map.empty k f ?m)\<rparr>)"
  show "on_allowed (sm_index_modify Map.empty k f) t
       = (?t1, map_sum id (\<lambda>_. ()) (f (case sm_lookup ?m k of None \<Rightarrow> Map.empty | Some x \<Rightarrow> x)))"
    by (simp add: on_allowed_def sm_index_modify_simps(1) [symmetric] split: prod.split)
  show "token_running t0 ?t1"
    using assms map_tracked_modify [of "V_allowed \<in> set (dc_used t)" "sm_lookup (tok_allowed t0)" ?m Map.empty k f]
    by (auto simp: token_running_def)
  show "\<And>y. f (case sm_lookup ?m k of None \<Rightarrow> Map.empty | Some x \<Rightarrow> x) = Inr y \<Longrightarrow>
      sm_lookup (tok_allowed ?t1) = (sm_lookup ?m)(k \<mapsto> y)"
    by (simp add: sm_index_modify_simps(2))
qed simp

text \<open>The end of a call: the variables are settled, with the new content or with the old one.\<close>

lemma update_member_simps:
  assumes "set us \<subseteq> {V_balances, V_allowed}" and "distinct us"
  shows "tok_balances (fold (update_member c) us t) =
       (if V_balances \<in> set us then (if c then sm_commit else sm_revert) (tok_balances t) else tok_balances t)"
    and "tok_allowed (fold (update_member c) us t) =
       (if V_allowed \<in> set us then (if c then sm_commit else sm_revert) (tok_allowed t) else tok_allowed t)"
    and "token_frame (fold (update_member c) us t) = token_frame t"
  using assms by (induction us arbitrary: t) auto

lemma map_tracked_end:
  fixes c :: bool
  assumes "map_tracked b saved m"
  defines "m1 \<equiv> if b then (if c then sm_commit else sm_revert) m else m"
  shows "map_settled m1 \<and> sm_lookup m1 = (if c then sm_lookup m else saved)"
proof (cases b)
  case True
  then have "map_tracked False (if c then sm_lookup m else saved) m1"
    using map_tracked_update [of saved m c] assms by simp
  then show ?thesis by (simp add: map_tracked_def)
next
  case False
  then show ?thesis using assms by (auto simp: map_tracked_def)
qed

lemma token_updateState_end:
  fixes c :: bool
  assumes "token_running t0 t"
  defines "t1 \<equiv> token_updateState c t"
  shows "token_settled t1" and "token_frame t1 = token_frame t0"
    and "sm_lookup (tok_balances t1) = sm_lookup (tok_balances (if c then t else t0))"
    and "sm_lookup (tok_allowed t1) = sm_lookup (tok_allowed (if c then t else t0))"
proof -
  note run = assms(1) [unfolded token_running_def]
  have b: "tok_balances t1 = (if V_balances \<in> set (dc_used t) then (if c then sm_commit else sm_revert) (tok_balances t) else tok_balances t)"
    and a: "tok_allowed t1 = (if V_allowed \<in> set (dc_used t) then (if c then sm_commit else sm_revert) (tok_allowed t) else tok_allowed t)"
    and f: "token_frame t1 = token_frame t" "dc_used t1 = []"
    using run by (simp_all add: t1_def token_updateState_def update_member_simps)
  have tb: "map_tracked (V_balances \<in> set (dc_used t)) (sm_lookup (tok_balances t0)) (tok_balances t)"
    and ta: "map_tracked (V_allowed \<in> set (dc_used t)) (sm_lookup (tok_allowed t0)) (tok_allowed t)"
    using run by simp_all
  have eb: "map_settled (tok_balances t1)" "sm_lookup (tok_balances t1) = sm_lookup (tok_balances (if c then t else t0))"
    using map_tracked_end [OF tb, of c] unfolding b [symmetric] by (cases c; simp)+
  have ea: "map_settled (tok_allowed t1)" "sm_lookup (tok_allowed t1) = sm_lookup (tok_allowed (if c then t else t0))"
    using map_tracked_end [OF ta, of c] unfolding a [symmetric] by (cases c; simp)+
  show "token_settled t1" "token_frame t1 = token_frame t0"
    "sm_lookup (tok_balances t1) = sm_lookup (tok_balances (if c then t else t0))"
    "sm_lookup (tok_allowed t1) = sm_lookup (tok_allowed (if c then t else t0))"
    using eb ea f run by (simp_all add: token_settled_def)
qed

end
