(* ===== verification/Tx_Validator.thy ===== *)
theory Tx_Validator
  imports Rlp
begin

text \<open>
  Validator transactions: the class \<^verbatim>\<open>TxValidator\<close> of \<^verbatim>\<open>src/utils/tx.h\<close> and \<^verbatim>\<open>src/utils/tx.cpp\<close>. They
  carry a block height instead of a nonce and encode the chain id in \<^verbatim>\<open>v\<close>, as in EIP-155.
\<close>

record TxValidator =
  tv_from :: bytes
  tv_data :: bytes
  tv_chainId :: uint64
  tv_nHeight :: uint64
  tv_v :: uint256
  tv_r :: uint256
  tv_s :: uint256

subsection \<open>Serialisation\<close>

definition TxValidator_total_size :: "TxValidator \<Rightarrow> bool \<Rightarrow> nat" where
  "TxValidator_total_size tx includeSig =
     rlp_string_size (tv_data tx)
     + rlp_uint_size (unat (tv_nHeight tx))
     + (if includeSig then rlp_uint_size (unat (tv_v tx)) else rlp_uint_size (unat (tv_chainId tx)))
     + (if \<not> includeSig then 1 else 1 + bytesRequired (unat (tv_r tx)))
     + (if \<not> includeSig then 1 else 1 + bytesRequired (unat (tv_s tx)))"

text \<open>\<^verbatim>\<open>v\<close> and the chain id are written without the special case for zero.\<close>

definition rlp_v :: "nat \<Rightarrow> bytes" where
  "rlp_v n = (if n < 0x80 then [of_nat n] else of_nat (bytesRequired n + 0x80) # uintToBytes n)"

definition TxValidator_rlpSerialize :: "TxValidator \<Rightarrow> bool \<Rightarrow> bytes" where
  "TxValidator_rlpSerialize tx includeSig =
     rlp_list_head (TxValidator_total_size tx includeSig)
     @ rlp_string (tv_data tx)
     @ rlp_uint (unat (tv_nHeight tx))
     @ (if includeSig then rlp_v (unat (tv_v tx)) else rlp_v (unat (tv_chainId tx)))
     @ (if \<not> includeSig then [0x80] else rlp_sig_half (unat (tv_r tx)))
     @ (if \<not> includeSig then [0x80] else rlp_sig_half (unat (tv_s tx)))"

definition TxValidator_hash :: "crypto \<Rightarrow> TxValidator \<Rightarrow> bool \<Rightarrow> bytes" where
  "TxValidator_hash C tx includeSig = sha3 C (TxValidator_rlpSerialize tx includeSig)"

subsection \<open>Parsing\<close>

text \<open>\<^verbatim>\<open>boost::lexical_cast<std::string>\<close> of an unsigned number.\<close>

fun dec_string :: "nat \<Rightarrow> string" where
  "dec_string n = (if n < 10 then [char_of (48 + n)] else dec_string (n div 10) @ [char_of (48 + n mod 10)])"

declare dec_string.simps [simp del]

text \<open>The chain id and the recovery id that \<^verbatim>\<open>v\<close> encodes. The conversion of \<^verbatim>\<open>(v - 35) / 2\<close> to 64 bits
  is a checked one. For \<^verbatim>\<open>v\<close> equal to 27 or 28 the code goes on with the member \<^verbatim>\<open>chainId\<close>, which no
  statement has initialised.\<close>

definition TxValidator_chain_of_v :: "uint256 \<Rightarrow> uint64 result" where
  "TxValidator_chain_of_v v =
     (if v > 36
      then (let c = (v - 35) div 2 in
            if unat c < 2 ^ 64 then Inr (ucast c)
            else Inl (RangeError ''Could not convert to the target type - value is out of range.''))
      else if v \<noteq> 27 \<and> v \<noteq> 28
      then Inl (RuntimeError (''Invalid tx signature - v is not 27 or 28, v is '' @ dec_string (unat v)))
      else Inl UndefinedBehaviour)"

definition TxValidator_recoveryId :: "uint256 \<Rightarrow> uint64 \<Rightarrow> uint8" where
  "TxValidator_recoveryId v chainId = ucast (v - (ucast chainId * 2 + 35))"

definition TxValidator_check_sender :: "crypto \<Rightarrow> TxValidator \<Rightarrow> TxValidator result" where
  "TxValidator_check_sender C tx =
     (let recoveryId = TxValidator_recoveryId (tv_v tx) (tv_chainId tx) in
      if \<not> verifySig (tv_r tx) (tv_s tx) recoveryId
      then Inl (RuntimeError ''Invalid tx signature - doesn't fit elliptic curve verification'')
      else (let sig = makeSig (tv_r tx) (tv_s tx) recoveryId;
                msgHash = TxValidator_hash C tx False;
                key = recover C sig msgHash
            in if key = FixedStr 65 []
               then Inl (RuntimeError ''Invalid tx signature - cannot recover public key'')
               else Inr (tx\<lparr>tv_from := toAddress C key\<rparr>)))"

definition TxValidator_parse :: "crypto \<Rightarrow> bytes \<Rightarrow> uint64 \<Rightarrow> TxValidator result" where
  "TxValidator_parse C bs requiredChainId =
     bindE (read_list_head bs) (\<lambda>i0.
     bindE (read_string_validator bs i0) (\<lambda>(dat, i1).
     bindE (read_uint bs i1 0x7f '''' u64_field 0) (\<lambda>(nHeight, i2).
     bindE (read_uint bs i2 0x37 ''V is not a small string'' fromBigEndian256 0) (\<lambda>(v, i3).
     bindE (read_sig_half bs i3 0x37 ''R is not a small string'') (\<lambda>(r, i4).
     bindE (read_sig_half bs i4 0x37 ''S is not a small string'') (\<lambda>(s, i5).
     bindE (TxValidator_chain_of_v v) (\<lambda>chainId.
     TxValidator_check_sender C
       \<lparr>tv_from = FixedStr 20 [], tv_data = dat, tv_chainId = chainId, tv_nHeight = nHeight,
        tv_v = v, tv_r = r, tv_s = s\<rparr>)))))))"

subsection \<open>Signing\<close>

text \<open>\<^verbatim>\<open>recoveryIds + (this->chainId * 2 + 35)\<close> is 64-bit arithmetic.\<close>

definition TxValidator_sign :: "crypto \<Rightarrow> TxValidator \<Rightarrow> bytes \<Rightarrow> TxValidator result" where
  "TxValidator_sign C tx privKey =
     (let pubKey = toUPub C privKey;
          add = toAddress C pubKey;
          hash = TxValidator_hash C tx False
      in if add \<noteq> tv_from tx
      then Inl (RuntimeError ''Private key does not match sender address (from)'')
      else
      bindE (sign C hash privKey) (\<lambda>sig.
      bindE (Signature_r sig) (\<lambda>r.
      bindE (Signature_s sig) (\<lambda>s.
      bindE (view_at sig 64) (\<lambda>recoveryIds.
      let v = ucast (ucast recoveryIds + (tv_chainId tx * 2 + 35)) in
      if \<not> verifySig r s recoveryIds
      then Inl (RuntimeError ''Invalid tx signature - doesn't fit elliptic curve verification'')
      else if pubKey \<noteq> recover C sig hash
      then Inl (RuntimeError ''Invalid transaction signature, signature derived key doens't match public key'')
      else Inr (tx\<lparr>tv_v := v, tv_r := r, tv_s := s\<rparr>))))))"

definition TxValidator_new ::
  "crypto \<Rightarrow> bytes \<Rightarrow> bytes \<Rightarrow> uint64 \<Rightarrow> uint64 \<Rightarrow> bytes \<Rightarrow> TxValidator result" where
  "TxValidator_new C frm dat chainId nHeight privKey =
     TxValidator_sign C \<lparr>tv_from = frm, tv_data = dat, tv_chainId = chainId, tv_nHeight = nHeight,
       tv_v = 0, tv_r = 0, tv_s = 0\<rparr> privKey"

subsection \<open>Chain id and recovery id\<close>

lemma rlp_v_eq: "0 < n \<Longrightarrow> rlp_v n = rlp_uint n"
  by (simp add: rlp_v_def rlp_uint_def)

lemma chain_v_nat:
  fixes c :: uint64 and rid :: uint8
  assumes "unat c * 2 + 36 < 2 ^ 64" and "rid \<le> 1"
  shows "unat (ucast (ucast rid + (c * 2 + 35) :: uint64) :: uint256) = unat rid + (unat c * 2 + 35)"
proof -
  have r: "unat rid \<le> 1" using assms(2) by (simp add: word_le_nat_alt)
  have "unat (ucast rid + (c * 2 + 35) :: uint64) = unat (of_nat (unat rid + (unat c * 2 + 35)) :: uint64)"
    by simp
  also have "\<dots> = unat rid + (unat c * 2 + 35)"
    using assms(1) r by (simp only: unat_of_nat) simp
  finally have u: "unat (ucast rid + (c * 2 + 35) :: uint64) = unat rid + (unat c * 2 + 35)" .
  show ?thesis unfolding unat_ucast_mod u using assms(1) r by simp
qed

lemma TxValidator_v_decodes:
  fixes c :: uint64 and rid :: uint8
  assumes "unat c * 2 + 36 < 2 ^ 64" and "rid \<le> 1" and "c \<noteq> 0"
  shows "TxValidator_chain_of_v (ucast (ucast rid + (c * 2 + 35) :: uint64)) = Inr c"
    and "TxValidator_recoveryId (ucast (ucast rid + (c * 2 + 35) :: uint64)) c = rid"
proof -
  let ?v = "ucast (ucast rid + (c * 2 + 35) :: uint64) :: uint256"
  have v: "unat ?v = unat rid + (unat c * 2 + 35)" by (rule chain_v_nat [OF assms(1,2)])
  have c: "1 \<le> unat c" using assms(3) by (simp add: Suc_le_eq unat_gt_0)
  have r: "unat rid \<le> 1" using assms(2) by (simp add: word_le_nat_alt)
  have gt: "?v > 36" unfolding word_less_nat_alt v using c by simp
  have "35 \<le> ?v" unfolding word_le_nat_alt v by simp
  then have "unat ((?v - 35) div 2) = (unat rid + unat c * 2) div 2"
    by (simp add: unat_div unat_sub v)
  also have "\<dots> = unat c" using r by simp
  finally have d: "unat ((?v - 35) div 2) = unat c" .
  have "ucast ((?v - 35) div 2) = c"
    unfolding word_unat_eq_iff unat_ucast_mod d using uint64_lt [of c] by simp
  then show "TxValidator_chain_of_v ?v = Inr c"
    unfolding TxValidator_chain_of_v_def Let_def d using gt uint64_lt [of c] by simp
  have "unat (ucast c * 2 + 35 :: uint256) = unat (of_nat (unat c * 2 + 35) :: uint256)" by simp
  also have "\<dots> = unat c * 2 + 35" using assms(1) by (simp only: unat_of_nat) simp
  finally have k: "unat (ucast c * 2 + 35 :: uint256) = unat c * 2 + 35" .
  then have "ucast c * 2 + 35 \<le> ?v" unfolding word_le_nat_alt v by simp
  then have "unat (?v - (ucast c * 2 + 35)) = unat rid" by (simp add: unat_sub v k)
  then show "TxValidator_recoveryId ?v c = rid"
    unfolding TxValidator_recoveryId_def word_unat_eq_iff unat_ucast_mod using r by simp
qed

subsection \<open>Round trip\<close>

definition TxValidator_serialisable :: "TxValidator \<Rightarrow> bool" where
  "TxValidator_serialisable tx \<longleftrightarrow>
     tv_chainId tx \<noteq> 0 \<and> unat (tv_chainId tx) * 2 + 36 < 2 ^ 64
     \<and> 55 < TxValidator_total_size tx True \<and> TxValidator_total_size tx True + 9 < 2 ^ 64
     \<and> length (tv_data tx) \<noteq> 55"

text \<open>The signature of \<open>tx\<close> was made by the key behind its sender address.\<close>

definition TxValidator_sender_ok :: "crypto \<Rightarrow> TxValidator \<Rightarrow> bool" where
  "TxValidator_sender_ok C tx \<longleftrightarrow>
     TxValidator_chain_of_v (tv_v tx) = Inr (tv_chainId tx)
     \<and> (let rid = TxValidator_recoveryId (tv_v tx) (tv_chainId tx);
            key = recover C (makeSig (tv_r tx) (tv_s tx) rid) (TxValidator_hash C tx False)
        in verifySig (tv_r tx) (tv_s tx) rid \<and> key \<noteq> FixedStr 65 [] \<and> tv_from tx = toAddress C key)"

lemma TxValidator_hash_unsigned:
  "TxValidator_hash C (tx\<lparr>tv_from := f\<rparr>) False = TxValidator_hash C tx False"
  "TxValidator_hash C (tx\<lparr>tv_v := v, tv_r := r, tv_s := s\<rparr>) False = TxValidator_hash C tx False"
  by (simp_all add: TxValidator_hash_def TxValidator_rlpSerialize_def TxValidator_total_size_def)

lemma TxValidator_check_sender_ok:
  "TxValidator_sender_ok C tx \<Longrightarrow> TxValidator_check_sender C (tx\<lparr>tv_from := f\<rparr>) = Inr tx"
  by (simp add: TxValidator_check_sender_def TxValidator_sender_ok_def Let_def TxValidator_hash_unsigned)

lemma TxValidator_fold:
  "\<lparr>tv_from = f, tv_data = tv_data tx, tv_chainId = tv_chainId tx, tv_nHeight = tv_nHeight tx,
    tv_v = tv_v tx, tv_r = tv_r tx, tv_s = tv_s tx\<rparr> = tx\<lparr>tv_from := f\<rparr>"
  by (rule TxValidator.equality) simp_all

lemma TxValidator_roundtrip:
  assumes "TxValidator_serialisable tx" and "TxValidator_sender_ok C tx"
  shows "TxValidator_parse C (TxValidator_rlpSerialize tx True) cid = Inr tx"
proof -
  let ?n = "TxValidator_total_size tx True"
  let ?body = "rlp_string (tv_data tx) @ rlp_uint (unat (tv_nHeight tx)) @ rlp_uint (unat (tv_v tx))
    @ rlp_sig_half (unat (tv_r tx)) @ rlp_sig_half (unat (tv_s tx))"
  let ?s = "rlp_list_head ?n @ ?body"
  note wf = assms(1) [unfolded TxValidator_serialisable_def]
  have chain: "TxValidator_chain_of_v (tv_v tx) = Inr (tv_chainId tx)"
    using assms(2) by (simp add: TxValidator_sender_ok_def)
  then have "0 < unat (tv_v tx)" by (auto simp: TxValidator_chain_of_v_def unat_gt_0)
  then have ser: "TxValidator_rlpSerialize tx True = ?s"
    by (simp add: TxValidator_rlpSerialize_def rlp_v_eq)
  have len: "length ?body = ?n" by (simp add: TxValidator_total_size_def byte_simps)
  have hd: "read_list_head ?s = Inr (length (rlp_list_head ?n))"
    by (rule read_list_head_rlp [OF len]) (use wf in simp_all)
  have lt: "length ?s < 2 ^ 64"
    using bytesRequired_u64 [of ?n] wf len by (simp add: rlp_list_head_def)
  have d0: "drop (length (rlp_list_head ?n)) ?s = ?body" by simp
  note d1 = drop_step [OF d0, unfolded length_rlp_string]
  note d2 = drop_step [OF d1, unfolded length_rlp_uint]
  note d3 = drop_step [OF d2, unfolded length_rlp_uint]
  note d4 = drop_step [OF d3, unfolded length_rlp_sig_half]
  have 1: "read_string_validator ?s (length (rlp_list_head ?n))
      = Inr (tv_data tx, length (rlp_list_head ?n) + rlp_string_size (tv_data tx))"
    using wf by (intro read_string_validator_rlp [OF d0 _ lt]) simp
  have 2: "(8::nat) \<le> 0x7f" "(0x7f :: nat) \<le> 0x7f" "(32::nat) \<le> 0x37" "(0x37::nat) \<le> 0x7f" by simp_all
  note r = read_uint_u64 [OF d1 2(1,2)] read_uint_u256 [OF d2 2(3,4)] read_sig_half_rlp [OF d3 2(3)]
    read_sig_half_rlp [of _ _ "tv_s tx" "[]", unfolded append_Nil2, OF d4 2(3)]
  show ?thesis
    unfolding ser TxValidator_parse_def hd 1 bindE_simps case_prod_conv
    by (simp only: r chain bindE_simps case_prod_conv TxValidator_fold
        TxValidator_check_sender_ok [OF assms(2)])
qed

lemma TxValidator_sign_sender_ok:
  assumes "TxValidator_sign C tx0 privKey = Inr tx" and "nonzero_str (toUPub C privKey)"
    and "tv_chainId tx \<noteq> 0" and "unat (tv_chainId tx) * 2 + 36 < 2 ^ 64"
  shows "TxValidator_sender_ok C tx"
proof -
  let ?v = "\<lambda>rid :: uint8. ucast (ucast rid + (tv_chainId tx0 * 2 + 35)) :: uint256"
  from assms(1) obtain sig r s rid where
    sig: "sign C (TxValidator_hash C tx0 False) privKey = Inr sig"
    and parts: "Signature_r sig = Inr r" "Signature_s sig = Inr s" "view_at sig 64 = Inr rid"
    and ok: "recover C sig (TxValidator_hash C tx0 False) = toUPub C privKey" "verifySig r s rid"
    and frm: "tv_from tx0 = toAddress C (toUPub C privKey)"
    and tx: "tx = tx0\<lparr>tv_v := ?v rid, tv_r := r, tv_s := s\<rparr>"
    by (auto simp: TxValidator_sign_def Let_def if_Inl_eq_Inr)
  have m: "makeSig r s rid = sig"
    using sign_length [OF sig] parts
    by (intro makeSig_of_parts) (simp_all add: Signature_v_def view_at_def substr_def bytesToUint8_def)
  have h: "TxValidator_hash C tx False = TxValidator_hash C tx0 False"
    unfolding tx by (rule TxValidator_hash_unsigned)
  have sel: "tv_chainId tx0 = tv_chainId tx" "tv_r tx = r" "tv_s tx = s" "tv_from tx = tv_from tx0"
    "tv_v tx = ?v rid" by (simp_all add: tx)
  have "rid \<le> 1" using ok(2) by (simp add: verifySig_def)
  note v = TxValidator_v_decodes [OF assms(4) this assms(3)]
  have "toUPub C privKey \<noteq> FixedStr 65 []"
    using assms(2) by (auto simp: nonzero_str_def FixedStr_def list_ex_iff)
  then show ?thesis
    unfolding TxValidator_sender_ok_def Let_def h sel v m using ok frm by (simp only: v m simp_thms)
qed

text \<open>A validator transaction that the signing constructor made is read back from its
  serialisation exactly, its chain id and recovery id decoded from \<^verbatim>\<open>v\<close> included.\<close>

theorem TxValidator_sign_parse:
  assumes "TxValidator_new C frm dat chainId nHeight privKey = Inr tx"
    and "nonzero_str (toUPub C privKey)"
    and "TxValidator_serialisable tx"
  shows "TxValidator_parse C (TxValidator_rlpSerialize tx True) requiredChainId = Inr tx"
  using assms TxValidator_sign_sender_ok [of C _ privKey tx]
  by (intro TxValidator_roundtrip) (auto simp: TxValidator_new_def TxValidator_serialisable_def)

definition demo_vtx :: "bytes \<Rightarrow> uint64 \<Rightarrow> TxValidator" where
  "demo_vtx dat h = \<lparr>tv_from = toAddress demo_crypto (replicate 65 4), tv_data = dat, tv_chainId = 8080,
     tv_nHeight = h, tv_v = 16195, tv_r = 5, tv_s = 7\<rparr>"

lemma demo_vtx_new:
  "TxValidator_new demo_crypto (toAddress demo_crypto (replicate 65 4)) dat 8080 h key = Inr (demo_vtx dat h)"
  by (simp add: TxValidator_new_def TxValidator_sign_def demo_toUPub demo_sign demo_recover demo_vtx_def
      verifySig_def ecConst_def Let_def view_at_def makeSig_eq [of 5 7 0, symmetric])
    (simp add: makeSig_eq nth_append)

lemma demo_vtx_serialisable: "TxValidator_serialisable (demo_vtx (replicate 60 9) 1)"
  by (simp add: TxValidator_serialisable_def TxValidator_total_size_def demo_vtx_def rlp_uint_size_def
      rlp_string_size_def bytesRequired_pos)

theorem TxValidator_sign_parse_witness:
  "TxValidator_parse demo_crypto (TxValidator_rlpSerialize (demo_vtx (replicate 60 9) 1) True) 8080
   = Inr (demo_vtx (replicate 60 9) 1)"
  by (rule TxValidator_sign_parse [OF demo_vtx_new [of "replicate 60 9" 1 "[]"] _ demo_vtx_serialisable])
    (simp only: demo_toUPub demo_nonzero)

text \<open>The parser accepts no transaction whose \<^verbatim>\<open>v\<close> does not encode its chain id: an accepted
  transaction has \<^verbatim>\<open>v\<close> above 36, the chain id is \<^verbatim>\<open>(v - 35) / 2\<close>, and the sender is the address of the
  key recovered for the unsigned serialisation.\<close>

theorem TxValidator_parse_authentic:
  assumes "TxValidator_parse C bs requiredChainId = Inr tx"
  shows "TxValidator_sender_ok C tx \<and> 36 < tv_v tx \<and> unat (tv_chainId tx) = (unat (tv_v tx) - 35) div 2"
proof -
  from assms obtain tx0 where c: "TxValidator_check_sender C tx0 = Inr tx"
    and v: "TxValidator_chain_of_v (tv_v tx0) = Inr (tv_chainId tx0)"
    by (auto simp: TxValidator_parse_def)
  from c have t: "TxValidator_sender_ok C tx" "tv_v tx = tv_v tx0" "tv_chainId tx = tv_chainId tx0"
    using v by (auto simp: TxValidator_check_sender_def TxValidator_sender_ok_def Let_def if_Inl_eq_Inr
        TxValidator_hash_unsigned)
  from v have gt: "36 < tv_v tx0" and u: "unat ((tv_v tx0 - 35) div 2) < 2 ^ 64"
    and e: "tv_chainId tx0 = ucast ((tv_v tx0 - 35) div 2)"
    by (auto simp: TxValidator_chain_of_v_def Let_def split: if_splits)
  have "35 \<le> tv_v tx0" using gt by (simp add: word_less_nat_alt word_le_nat_alt)
  then have "unat (tv_chainId tx0) = (unat (tv_v tx0) - 35) div 2"
    unfolding e unat_ucast_mod using u by (simp add: unat_div unat_sub)
  with t gt show ?thesis by simp
qed

theorem TxValidator_parse_authentic_witness:
  "TxValidator_sender_ok demo_crypto (demo_vtx (replicate 60 9) 1) \<and> 36 < tv_v (demo_vtx (replicate 60 9) 1)
   \<and> unat (tv_chainId (demo_vtx (replicate 60 9) 1)) = (unat (tv_v (demo_vtx (replicate 60 9) 1)) - 35) div 2"
proof (rule TxValidator_parse_authentic)
  have "TxValidator_sender_ok demo_crypto (demo_vtx (replicate 60 9) 1)"
    by (rule TxValidator_sign_sender_ok [OF demo_vtx_new [of "replicate 60 9" 1 "[]", unfolded TxValidator_new_def]])
      (simp_all add: demo_toUPub demo_nonzero demo_vtx_def)
  then show "TxValidator_parse demo_crypto (TxValidator_rlpSerialize (demo_vtx (replicate 60 9) 1) True) 0
      = Inr (demo_vtx (replicate 60 9) 1)"
    by (intro TxValidator_roundtrip demo_vtx_serialisable)
qed

end
