(* ===== verification/Merkle_Tree.thy ===== *)
theory Merkle_Tree
  imports Crypto "HOL-Library.List_Lexorder"
begin

text \<open>
  Merkle trees (\<^verbatim>\<open>src/utils/merkle.cpp\<close>, \<^verbatim>\<open>merkle.h\<close>) and the seeded generator
  (\<^verbatim>\<open>src/utils/randomgen.h\<close>, \<^verbatim>\<open>randomgen.cpp\<close>). \<^verbatim>\<open>std::min\<close> and \<^verbatim>\<open>std::max\<close> on strings compare
  lexicographically by unsigned byte, which is the order that the library theory puts on lists of
  words. A tree is the list of its layers, leaves first.
\<close>

subsection \<open>Building a tree\<close>

definition hash_pair :: "crypto \<Rightarrow> bytes \<Rightarrow> bytes \<Rightarrow> bytes" where
  "hash_pair C a b = sha3 C (min a b @ max a b)"

fun newLayer :: "crypto \<Rightarrow> bytes list \<Rightarrow> bytes list" where
  "newLayer C (a # b # rest) = hash_pair C a b # newLayer C rest"
| "newLayer C [a] = [a]"
| "newLayer C [] = []"

lemma length_newLayer [simp]: "length (newLayer C l) = (length l + 1) div 2"
  by (induction C l rule: newLayer.induct) auto

function Merkle_layers :: "crypto \<Rightarrow> bytes list \<Rightarrow> bytes list list" where
  "Merkle_layers C back = (if length back > 1 then back # Merkle_layers C (newLayer C back) else [back])"
  by auto
termination by (relation "measure (\<lambda>(C, l). length l)") auto

declare Merkle_layers.simps [simp del]

definition Merkle :: "crypto \<Rightarrow> bytes list \<Rightarrow> bytes list list" where
  "Merkle C leaves = Merkle_layers C (map (sha3 C) leaves)"

definition getRoot :: "bytes list list \<Rightarrow> bytes" where
  "getRoot tree = (if length (last tree) = 0 then FixedStr 32 [] else hd (last tree))"

subsection \<open>Proofs of membership\<close>

fun getProof_loop :: "bytes list list \<Rightarrow> nat \<Rightarrow> bytes list result" where
  "getProof_loop [] pos = Inr []"
| "getProof_loop (layer # layers) pos =
     (if length layer = 1 then Inr []
      else (let pos' = (if pos mod 2 = 0 then pos + 1 else pos - 1) in
            if pos' < length layer
            then bindE (getProof_loop layers (pos' div 2)) (\<lambda>ret. Inr (layer ! pos' # ret))
            else Inl UndefinedBehaviour))"

text \<open>\<^verbatim>\<open>size() - 1\<close> is unsigned: for an empty leaf layer the comparison is with the largest
  \<^verbatim>\<open>uint64_t\<close>.\<close>

definition getProof :: "bytes list list \<Rightarrow> nat \<Rightarrow> bytes list result" where
  "getProof tree leafIndex =
     (if leafIndex > (if length (hd tree) = 0 then 2 ^ 64 - 1 else length (hd tree) - 1) then Inr []
      else getProof_loop tree leafIndex)"

definition Merkle_verify :: "crypto \<Rightarrow> bytes list \<Rightarrow> bytes \<Rightarrow> bytes \<Rightarrow> bool" where
  "Merkle_verify C pf leaf root \<longleftrightarrow> foldl (hash_pair C) leaf pf = root"

subsection \<open>The seeded generator\<close>

definition RandomGen_call :: "crypto \<Rightarrow> bytes \<Rightarrow> (uint256 \<times> bytes) result" where
  "RandomGen_call C seed =
     (let seed' = sha3 C seed in bindE (Hash_toUint256 seed') (\<lambda>ret. Inr (ret, seed')))"

definition list_swap :: "'a list \<Rightarrow> nat \<Rightarrow> nat \<Rightarrow> 'a list" where
  "list_swap v n i = v[n := v ! i, i := v ! n]"

function shuffle_loop :: "crypto \<Rightarrow> bytes \<Rightarrow> 'a list \<Rightarrow> nat \<Rightarrow> ('a list \<times> bytes) result" where
  "shuffle_loop C seed v i =
     (if i < length v
      then (let seed' = sha3 C seed in
            bindE (Hash_toUint256 seed') (\<lambda>u.
            let n = i + unat u mod (length v - i) in
            shuffle_loop C seed' (list_swap v n i) (i + 1)))
      else Inr (v, seed))"
  by auto
termination
  by (relation "measure (\<lambda>(C, seed, v, i). length v - i)") (auto simp: list_swap_def)

declare shuffle_loop.simps [simp del]

definition shuffle :: "crypto \<Rightarrow> bytes \<Rightarrow> 'a list \<Rightarrow> ('a list \<times> bytes) result" where
  "shuffle C seed v = shuffle_loop C seed v 0"

subsection \<open>Layers\<close>

lemma hash_pair_commute: "hash_pair C a b = hash_pair C b a"
  by (simp add: hash_pair_def min.commute max.commute)

lemma newLayer_nth_pair:
  "Suc (2 * j) < length l \<Longrightarrow> newLayer C l ! j = hash_pair C (l ! (2 * j)) (l ! Suc (2 * j))"
proof (induction C l arbitrary: j rule: newLayer.induct)
  case (1 C a b rest)
  then show ?case by (cases j) auto
qed auto

text \<open>The hash above a position is the hash of the two siblings, whichever of them is asked for.\<close>

lemma newLayer_parent:
  assumes "pos < length l" and "pos' = (if pos mod 2 = 0 then pos + 1 else pos - 1)" and "pos' < length l"
  shows "newLayer C l ! (pos div 2) = hash_pair C (l ! pos) (l ! pos')" and "pos' div 2 = pos div 2"
proof -
  show "pos' div 2 = pos div 2" using assms(2) by (cases "even pos") (auto elim: evenE oddE)
  show "newLayer C l ! (pos div 2) = hash_pair C (l ! pos) (l ! pos')"
  proof (cases "even pos")
    case True
    with assms show ?thesis using newLayer_nth_pair [of "pos div 2" l C] by simp
  next
    case False
    then have "Suc (2 * (pos div 2)) = pos" "pos' = 2 * (pos div 2)"
      using assms(2) by (simp_all add: odd_two_times_div_two_succ) presburger
    with assms show ?thesis
      using newLayer_nth_pair [of "pos div 2" l C] by (simp add: hash_pair_commute)
  qed
qed

lemma hd_Merkle_layers [simp]: "hd (Merkle_layers C l) = l"
  by (simp add: Merkle_layers.simps [of C l])

lemma Merkle_layers_not_Nil [simp]: "Merkle_layers C l \<noteq> []"
  by (simp add: Merkle_layers.simps [of C l])

lemma getRoot_layers_step: "1 < length l \<Longrightarrow> getRoot (Merkle_layers C l) = getRoot (Merkle_layers C (newLayer C l))"
  by (subst Merkle_layers.simps) (simp add: getRoot_def)

lemma getProof_loop_verifies:
  assumes "getProof_loop (Merkle_layers C l) pos = Inr pf" and "pos < length l"
  shows "foldl (hash_pair C) (l ! pos) pf = getRoot (Merkle_layers C l)"
  using assms
proof (induction C l arbitrary: pos pf rule: Merkle_layers.induct)
  case (1 C l)
  show ?case
  proof (cases "length l > 1")
    case False
    with "1.prems"(2) have l: "l = [l ! 0]" "pos = 0" by (cases l; simp)+
    then have "pf = []" "getRoot (Merkle_layers C l) = l ! 0"
      using "1.prems"(1) False by (auto simp: Merkle_layers.simps [of C l] getRoot_def hd_conv_nth split: if_splits)
    with l(2) show ?thesis by simp
  next
    case True
    let ?pos' = "if pos mod 2 = 0 then pos + 1 else pos - 1"
    from True "1.prems"(1) obtain rest where lt: "?pos' < length l"
      and rest: "getProof_loop (Merkle_layers C (newLayer C l)) (?pos' div 2) = Inr rest"
      and proof_eq: "pf = l ! ?pos' # rest"
      by (subst (asm) Merkle_layers.simps) (auto simp: Let_def split: if_splits)
    note par = newLayer_parent [OF "1.prems"(2) refl lt]
    have "foldl (hash_pair C) (newLayer C l ! (pos div 2)) rest = getRoot (Merkle_layers C (newLayer C l))"
      using "1.prems"(2) rest unfolding par(2) by (intro "1.IH" [OF True]) simp_all
    then show ?thesis by (simp add: proof_eq par getRoot_layers_step [OF True])
  qed
qed

lemma getProof_loop_power2:
  assumes "length l = 2 ^ k" and "pos < 2 ^ k"
  shows "\<exists>pf. getProof_loop (Merkle_layers C l) pos = Inr pf \<and> length pf = k"
  using assms
proof (induction k arbitrary: l pos)
  case 0
  then show ?case by (simp add: Merkle_layers.simps [of C l])
next
  case (Suc k)
  let ?pos' = "if pos mod 2 = 0 then pos + 1 else pos - 1"
  have "(1::nat) \<le> 2 ^ k" by (rule one_le_power) simp
  then have len: "1 < length l" "length (newLayer C l) = 2 ^ k"
    unfolding length_newLayer Suc.prems(1) power_Suc by linarith+
  have lt: "?pos' < length l"
    using Suc.prems by (cases "even pos") (auto elim!: evenE)
  have "pos < length l" using Suc.prems by simp
  from newLayer_parent(2) [OF this refl lt] have "?pos' div 2 < 2 ^ k"
    using Suc.prems(2) by (metis less_mult_imp_div_less mult.commute power_Suc)
  from Suc.IH [OF len(2) this] obtain rest where
    "getProof_loop (Merkle_layers C (newLayer C l)) (?pos' div 2) = Inr rest" "length rest = k" by blast
  with lt len(1) show ?case by (subst Merkle_layers.simps) (simp add: Let_def)
qed

lemma getProof_layers:
  "i < length l \<Longrightarrow> getProof (Merkle_layers C l) i = getProof_loop (Merkle_layers C l) i"
  by (auto simp: getProof_def)

text \<open>C21. A proof that \<^verbatim>\<open>getProof\<close> returns for a leaf of the tree is accepted by \<^verbatim>\<open>verify\<close> against the
  root of the tree, for every number of leaves.\<close>

theorem Merkle_proof_verifies:
  assumes "i < length leaves" and "getProof (Merkle C leaves) i = Inr pf"
  shows "Merkle_verify C pf (sha3 C (leaves ! i)) (getRoot (Merkle C leaves))"
  using assms getProof_loop_verifies [of C "map (sha3 C) leaves" i pf]
  by (simp add: getProof_layers Merkle_verify_def Merkle_def)

theorem Merkle_proof_verifies_witness:
  "Merkle_verify demo_crypto [sha3 demo_crypto [2]] (sha3 demo_crypto [1]) (getRoot (Merkle demo_crypto [[1], [2]]))"
  using Merkle_proof_verifies [of 0 "[[1], [2]]" demo_crypto "[sha3 demo_crypto [2]]"]
  by (simp add: getProof_def Merkle_def Merkle_layers.simps)

text \<open>When the number of leaves is a power of two, \<^verbatim>\<open>getProof\<close> returns a proof for every leaf, one
  hash per layer below the root, and the proof is accepted.\<close>

theorem Merkle_proof_complete:
  assumes "length leaves = 2 ^ k" and "i < 2 ^ k"
  shows "\<exists>pf. getProof (Merkle C leaves) i = Inr pf \<and> length pf = k
    \<and> Merkle_verify C pf (sha3 C (leaves ! i)) (getRoot (Merkle C leaves))"
proof -
  have i: "i < length leaves" using assms by simp
  from assms getProof_loop_power2 [of "map (sha3 C) leaves" k i C] obtain pf where
    pf: "getProof_loop (Merkle C leaves) i = Inr pf" "length pf = k" by (auto simp: Merkle_def)
  with getProof_loop_verifies [of C "map (sha3 C) leaves" i pf] i show ?thesis
    by (auto simp: getProof_layers Merkle_verify_def Merkle_def)
qed

theorem Merkle_proof_complete_witness:
  "\<exists>pf. getProof (Merkle demo_crypto [[1], [2], [3], [4]]) 2 = Inr pf \<and> length pf = 2
    \<and> Merkle_verify demo_crypto pf (sha3 demo_crypto ([[1], [2], [3], [4]] ! 2))
         (getRoot (Merkle demo_crypto [[1], [2], [3], [4]]))"
  by (rule Merkle_proof_complete) simp_all

text \<open>With an odd number of leaves above one, asking for the proof of the last leaf reads one
  element behind the end of the leaf layer.\<close>

theorem getProof_odd_out_of_bounds:
  assumes "odd (length leaves)" and "1 < length leaves"
  shows "getProof (Merkle C leaves) (length leaves - 1) = Inl UndefinedBehaviour"
proof -
  from assms obtain n where n: "length leaves = Suc n" "n mod 2 = 0" by (auto elim: oddE)
  have "getProof (Merkle C leaves) n = getProof_loop (Merkle C leaves) n"
    unfolding Merkle_def using n(1) by (intro getProof_layers) simp
  also have "\<dots> = Inl UndefinedBehaviour"
    using n assms(2) by (simp add: Merkle_def Merkle_layers.simps [of C "map (sha3 C) leaves"])
  finally show ?thesis by (simp add: n(1))
qed

theorem getProof_odd_out_of_bounds_witness:
  "getProof (Merkle demo_crypto [[1], [2], [3]]) (length [[1::byte], [2], [3]] - 1) = Inl UndefinedBehaviour"
  by (rule getProof_odd_out_of_bounds) simp_all

subsection \<open>Shuffling\<close>

lemma mset_list_swap: "n < length v \<Longrightarrow> i < length v \<Longrightarrow> mset (list_swap v n i) = mset v"
  by (simp add: list_swap_def mset_swap)

lemma Hash_toUint256_sha3: "Hash_toUint256 (sha3 C x) = Inr (keccak256 C x)"
  by (simp add: Hash_toUint256_def sha3_def)

lemma shuffle_loop_spec:
  "i \<le> length v \<Longrightarrow> \<exists>v'. shuffle_loop C seed v i = Inr (v', (sha3 C ^^ (length v - i)) seed) \<and> mset v' = mset v
     \<and> take i v' = take i v"
proof (induction C seed v i rule: shuffle_loop.induct)
  case (1 C seed v i)
  show ?case
  proof (cases "i < length v")
    case True
    let ?n = "i + unat (keccak256 C seed) mod (length v - i)"
    have n: "?n < length v" "i \<le> ?n" using True mod_less_divisor [of "length v - i" "unat (keccak256 C seed)"] by linarith+
    have len: "length (list_swap v ?n i) = length v" by (simp add: list_swap_def)
    have "i + 1 \<le> length (list_swap v ?n i)" using True len by simp
    from "1.IH" [OF True refl refl this] obtain v' where
      v': "shuffle_loop C (sha3 C seed) (list_swap v ?n i) (i + 1)
          = Inr (v', (sha3 C ^^ (length v - Suc i)) (sha3 C seed))"
        "mset v' = mset (list_swap v ?n i)" "take (i + 1) v' = take (i + 1) (list_swap v ?n i)"
      by (auto simp: len)
    have "take i v' = take i v"
      using arg_cong [OF v'(3), of "take i"] n by (simp add: list_swap_def min_def)
    moreover have "(sha3 C ^^ (length v - Suc i)) (sha3 C seed) = (sha3 C ^^ (length v - i)) seed"
      using True by (simp add: funpow_swap1 flip: funpow_Suc_right Suc_diff_Suc)
    ultimately show ?thesis
      using v' True mset_list_swap [OF n(1) True]
      by (subst shuffle_loop.simps) (simp add: Let_def Hash_toUint256_sha3)
  qed (use 1 in \<open>simp add: shuffle_loop.simps\<close>)
qed

text \<open>\<^verbatim>\<open>shuffle\<close> always returns; the result is a permutation of the input and the seed has advanced
  by one hash per element. So two nodes that start from the same seed stay in step.\<close>

theorem shuffle_permutes:
  "\<exists>v'. shuffle C seed v = Inr (v', (sha3 C ^^ length v) seed) \<and> mset v' = mset v"
  using shuffle_loop_spec [of 0 v C seed] by (auto simp: shuffle_def)

end
