(* ===== verification/Blocks.thy ===== *)
theory Blocks
  imports Tx_Block Tx_Validator Merkle_Tree
begin

text \<open>
  Blocks: the class \<^verbatim>\<open>Block\<close> of \<^verbatim>\<open>src/utils/block.h\<close> and \<^verbatim>\<open>src/utils/block.cpp\<close>, and the two static functions
  of \<^verbatim>\<open>src/core/rdpos.cpp\<close> it calls (\<^verbatim>\<open>getTxValidatorFunction\<close>, \<^verbatim>\<open>parseTxSeedList\<close>). The parser reads the
  block transactions in one loop, or in one loop per hardware thread when there are more than 2000
  of them; \<open>thrNum\<close> stands for \<^verbatim>\<open>std::thread::hardware_concurrency()\<close>. The asynchronous tasks only read
  the input, so a task is the value it returns.
\<close>

subsection \<open>The functions of rdPoS that blocks use\<close>

datatype TxValidatorFunction = INVALID | RANDOMHASH | RANDOMSEED

definition getTxValidatorFunction :: "TxValidator \<Rightarrow> TxValidatorFunction" where
  "getTxValidatorFunction tx =
     (if length (tv_data tx) \<noteq> 36 then INVALID
      else (let functionABI = take 4 (tv_data tx) in
            if functionABI = [0xcf, 0xff, 0xe7, 0x46] then RANDOMHASH
            else if functionABI = [0x6f, 0xc5, 0xa2, 0xd6] then RANDOMSEED
            else INVALID))"

fun seed_concat :: "TxValidator list \<Rightarrow> bytes" where
  "seed_concat [] = []"
| "seed_concat (tx # txs) =
     (if getTxValidatorFunction tx = RANDOMSEED then take 32 (drop 4 (tv_data tx)) else []) @ seed_concat txs"

definition parseTxSeedList :: "crypto \<Rightarrow> TxValidator list \<Rightarrow> bytes" where
  "parseTxSeedList C txs = (if length txs = 0 then FixedStr 32 [] else sha3 C (seed_concat txs))"

subsection \<open>The class\<close>

record Block =
  validatorSig :: bytes
  prevBlockHash :: bytes
  blockRandomness :: bytes
  validatorMerkleRoot :: bytes
  txMerkleRoot :: bytes
  timestamp :: uint64
  nHeight :: uint64
  txValidators :: "TxValidator list"
  txs :: "TxBlock list"
  validatorPubKey :: bytes
  finalized :: bool

definition Block_new :: "bytes \<Rightarrow> uint64 \<Rightarrow> uint64 \<Rightarrow> Block" where
  "Block_new prev ts h =
     \<lparr>validatorSig = FixedStr 65 [], prevBlockHash = prev, blockRandomness = FixedStr 32 [],
      validatorMerkleRoot = FixedStr 32 [], txMerkleRoot = FixedStr 32 [], timestamp = ts, nHeight = h,
      txValidators = [], txs = [], validatorPubKey = FixedStr 65 [], finalized = False\<rparr>"

definition serializeHeader :: "Block \<Rightarrow> bytes" where
  "serializeHeader b =
     prevBlockHash b @ blockRandomness b @ validatorMerkleRoot b @ txMerkleRoot b
     @ uint64ToBytes (timestamp b) @ uint64ToBytes (nHeight b)"

fun sized_items :: "bytes list \<Rightarrow> bytes" where
  "sized_items [] = []"
| "sized_items (t # ts) = uint32ToBytes (of_nat (length t)) @ t @ sized_items ts"

text \<open>\<^verbatim>\<open>memcpy\<close> of eight bytes over the placeholder.\<close>

definition overwrite8 :: "bytes \<Rightarrow> nat \<Rightarrow> bytes \<Rightarrow> bytes" where
  "overwrite8 buf loc src = take loc buf @ take 8 src @ drop (loc + 8) buf"

definition serializeBlock :: "Block \<Rightarrow> bytes" where
  "serializeBlock b =
     (let ret0 = validatorSig b @ serializeHeader b;
          txValidatorStartLoc = length ret0;
          ret1 = ret0 @ uint64ToBytes 0;
          ret2 = ret1 @ sized_items (map (\<lambda>tx. TxBlock_rlpSerialize tx True) (txs b));
          txValidatorStart = uint64ToBytes (of_nat (length ret2));
          ret3 = overwrite8 ret2 txValidatorStartLoc txValidatorStart
      in ret3 @ sized_items (map (\<lambda>tx. TxValidator_rlpSerialize tx True) (txValidators b)))"

definition Block_hash :: "crypto \<Rightarrow> Block \<Rightarrow> bytes" where
  "Block_hash C b = sha3 C (serializeHeader b)"

definition appendTx :: "Block \<Rightarrow> TxBlock \<Rightarrow> Block \<times> bool" where
  "appendTx b tx = (if finalized b then (b, False) else (b\<lparr>txs := txs b @ [tx]\<rparr>, True))"

definition appendTxValidator :: "Block \<Rightarrow> TxValidator \<Rightarrow> Block \<times> bool" where
  "appendTxValidator b tx =
     (if finalized b then (b, False) else (b\<lparr>txValidators := txValidators b @ [tx]\<rparr>, True))"

definition txs_root :: "crypto \<Rightarrow> TxBlock list \<Rightarrow> bytes" where
  "txs_root C ts = getRoot (Merkle C (map (\<lambda>tx. TxBlock_hash C tx True) ts))"

definition txValidators_root :: "crypto \<Rightarrow> TxValidator list \<Rightarrow> bytes" where
  "txValidators_root C ts = getRoot (Merkle C (map (\<lambda>tx. TxValidator_hash C tx True) ts))"

definition Block_finalize :: "crypto \<Rightarrow> Block \<Rightarrow> bytes \<Rightarrow> uint64 \<Rightarrow> (Block \<times> bool) result" where
  "Block_finalize C b validatorPrivKey newTimestamp =
     (if finalized b then Inr (b, False)
      else if timestamp b > newTimestamp then Inr (b, False)
      else (let b1 = b\<lparr>timestamp := newTimestamp,
                       txMerkleRoot := txs_root C (txs b),
                       validatorMerkleRoot := txValidators_root C (txValidators b),
                       blockRandomness := parseTxSeedList C (txValidators b)\<rparr> in
            bindE (sign C (Block_hash C b1) validatorPrivKey) (\<lambda>sig.
            Inr (b1\<lparr>validatorSig := sig, validatorPubKey := recover C sig (Block_hash C b1), finalized := True\<rparr>,
                 True))))"

subsection \<open>Parsing\<close>

text \<open>The four-byte length in front of a transaction.\<close>

definition item_size :: "bytes \<Rightarrow> nat \<Rightarrow> nat result" where
  "item_size bs index = bindE (bindE (substr bs index 4) bytesToUint32) (\<lambda>n. Inr (unat n))"

text \<open>The counting loops. Every round advances the index by at least four.\<close>

function count_items :: "bytes \<Rightarrow> nat \<Rightarrow> nat \<Rightarrow> nat result" where
  "count_items bs index limit =
     (if index < limit
      then bindE (item_size bs index) (\<lambda>txSize. bindE (count_items bs (index + txSize + 4) limit) (\<lambda>n. Inr (n + 1)))
      else Inr 0)"
  by auto
termination by (relation "measure (\<lambda>(bs, index, limit). limit - index)") auto

declare count_items.simps [simp del]

fun parse_items :: "(bytes \<Rightarrow> 'a result) \<Rightarrow> bytes \<Rightarrow> nat \<Rightarrow> nat \<Rightarrow> ('a list \<times> nat) result" where
  "parse_items parse bs index 0 = Inr ([], index)"
| "parse_items parse bs index (Suc n) =
     bindE (item_size bs index) (\<lambda>txSize.
     bindE (bindE (substr bs (index + 4) txSize) parse) (\<lambda>tx.
     bindE (parse_items parse bs (index + 4 + txSize) n) (\<lambda>(rest, i). Inr (tx # rest, i))))"

fun skip_items :: "bytes \<Rightarrow> nat \<Rightarrow> nat \<Rightarrow> nat result" where
  "skip_items bs index 0 = Inr index"
| "skip_items bs index (Suc n) = bindE (item_size bs index) (\<lambda>len. skip_items bs (index + len + 4) n)"

text \<open>One entry per thread: where it starts and how many transactions it reads. The offset is not
  advanced after the last thread.\<close>

fun thread_starts :: "bytes \<Rightarrow> nat \<Rightarrow> nat list \<Rightarrow> (nat \<times> nat) list result" where
  "thread_starts bs thrOff [] = Inr []"
| "thread_starts bs thrOff [n] = Inr [(thrOff, n)]"
| "thread_starts bs thrOff (n # m # ns) =
     bindE (skip_items bs thrOff n) (\<lambda>thrOff'.
     bindE (thread_starts bs thrOff' (m # ns)) (\<lambda>rest. Inr ((thrOff, n) # rest)))"

definition txsPerThr :: "nat \<Rightarrow> nat \<Rightarrow> nat list" where
  "txsPerThr thrNum txCount =
     (let l = replicate thrNum (txCount div thrNum) in l[thrNum - 1 := last l + txCount mod thrNum])"

definition parse_items_threaded ::
  "(bytes \<Rightarrow> 'a result) \<Rightarrow> nat \<Rightarrow> bytes \<Rightarrow> nat \<Rightarrow> nat \<Rightarrow> 'a list result" where
  "parse_items_threaded parse thrNum bs index txCount =
     bindE (thread_starts bs index (txsPerThr thrNum txCount)) (\<lambda>starts.
     bindE (mapE (\<lambda>(startIdx, nTxs). bindE (parse_items parse bs startIdx nTxs) (\<lambda>(txVec, _). Inr txVec)) starts)
       (\<lambda>f. Inr (concat f)))"

fun parse_validators :: "crypto \<Rightarrow> uint64 \<Rightarrow> uint64 \<Rightarrow> bytes \<Rightarrow> nat \<Rightarrow> nat \<Rightarrow> TxValidator list result" where
  "parse_validators C cid h bs index 0 = Inr []"
| "parse_validators C cid h bs index (Suc n) =
     bindE (item_size bs index) (\<lambda>txSize.
     bindE (bindE (substr bs (index + 4) txSize) (\<lambda>b. TxValidator_parse C b cid)) (\<lambda>tx.
     if tv_nHeight tx \<noteq> h then Inl (RuntimeError ''Invalid validator tx height'')
     else bindE (parse_validators C cid h bs (index + 4 + txSize) n) (\<lambda>rest. Inr (tx # rest))))"

definition Block_parse_txs :: "crypto \<Rightarrow> nat \<Rightarrow> bytes \<Rightarrow> uint64 \<Rightarrow> nat \<Rightarrow> TxBlock list result" where
  "Block_parse_txs C thrNum bs cid txCount =
     (if thrNum \<le> 1 \<or> txCount \<le> 2000
      then bindE (parse_items (\<lambda>b. TxBlock_parse C b cid) bs 217 txCount) (\<lambda>(ts, _). Inr ts)
      else parse_items_threaded (\<lambda>b. TxBlock_parse C b cid) thrNum bs 217 txCount)"

definition Block_checks :: "crypto \<Rightarrow> Block \<Rightarrow> Block result" where
  "Block_checks C b =
     (if txs_root C (txs b) \<noteq> txMerkleRoot b then Inl (RuntimeError ''Invalid tx merkle root'')
      else if txValidators_root C (txValidators b) \<noteq> validatorMerkleRoot b
      then Inl (RuntimeError ''Invalid validator merkle root'')
      else if parseTxSeedList C (txValidators b) \<noteq> blockRandomness b
      then Inl (RuntimeError ''Invalid block randomness'')
      else bindE (Signature_r (validatorSig b)) (\<lambda>r.
           bindE (Signature_s (validatorSig b)) (\<lambda>s.
           bindE (Signature_v (validatorSig b)) (\<lambda>v.
           if \<not> verifySig r s v then Inl (RuntimeError ''Invalid validator signature'')
           else Inr (b\<lparr>validatorPubKey := recover C (validatorSig b) (Block_hash C b), finalized := True\<rparr>)))))"

definition Block_parse :: "crypto \<Rightarrow> nat \<Rightarrow> bytes \<Rightarrow> uint64 \<Rightarrow> Block result" where
  "Block_parse C thrNum bs requiredChainId = rethrow ''Block: ''
     (if length bs < 217 then Inl (RuntimeError ''Invalid block size - too short'') else
      bindE (substr bs 0 65) (\<lambda>sig.
      bindE (bindE (substr bs 65 32) Hash_view) (\<lambda>prev.
      bindE (bindE (substr bs 97 32) Hash_view) (\<lambda>rand.
      bindE (bindE (substr bs 129 32) Hash_view) (\<lambda>vroot.
      bindE (bindE (substr bs 161 32) Hash_view) (\<lambda>troot.
      bindE (bindE (substr bs 193 8) bytesToUint64) (\<lambda>ts.
      bindE (bindE (substr bs 201 8) bytesToUint64) (\<lambda>h.
      bindE (bindE (substr bs 209 8) bytesToUint64) (\<lambda>start.
      bindE (count_items bs 217 (unat start)) (\<lambda>txCount.
      bindE (count_items bs (unat start) (length bs)) (\<lambda>valTxCount.
      bindE (Block_parse_txs C thrNum bs requiredChainId txCount) (\<lambda>ts'.
      bindE (parse_validators C requiredChainId h bs (unat start) valTxCount) (\<lambda>vs.
      Block_checks C
        \<lparr>validatorSig = FixedStr 65 sig, prevBlockHash = prev, blockRandomness = rand,
         validatorMerkleRoot = vroot, txMerkleRoot = troot, timestamp = ts, nHeight = h,
         txValidators = vs, txs = ts', validatorPubKey = FixedStr 65 [], finalized = False\<rparr>)))))))))))))"

subsection \<open>The threaded loop computes what the sequential loop computes\<close>

lemma parse_items_add:
  "parse_items p bs i (a + b) =
     bindE (parse_items p bs i a) (\<lambda>(xs, i1). bindE (parse_items p bs i1 b) (\<lambda>(ys, i2). Inr (xs @ ys, i2)))"
proof (induction a arbitrary: i)
  case 0
  then show ?case by (cases "parse_items p bs i b") auto
next
  case (Suc a)
  show ?case
    by (simp add: Suc bindE_assoc case_prod_unfold)
qed

lemma parse_items_skip: "parse_items p bs i n = Inr (xs, j) \<Longrightarrow> skip_items bs i n = Inr j"
  by (induction n arbitrary: i xs) (auto simp: ac_simps)

lemma skip_items_add: "skip_items bs i (a + b) = bindE (skip_items bs i a) (\<lambda>j. skip_items bs j b)"
  by (induction a arbitrary: i) (auto simp: bindE_assoc)

lemma count_items_skip: "count_items bs i lim = Inr n \<Longrightarrow> \<exists>j. skip_items bs i n = Inr j"
proof (induction bs i lim arbitrary: n rule: count_items.induct)
  case (1 bs i lim)
  show ?case
  proof (cases "i < lim")
    case True
    with "1.prems" obtain k m where "item_size bs i = Inr k" "count_items bs (i + k + 4) lim = Inr m" "n = Suc m"
      by (subst (asm) count_items.simps) auto
    with "1.IH" [OF True, of k m] show ?thesis by auto
  qed (use "1.prems" in \<open>simp add: count_items.simps\<close>)
qed

abbreviation read_thread :: "(bytes \<Rightarrow> 'a result) \<Rightarrow> bytes \<Rightarrow> nat \<times> nat \<Rightarrow> 'a list result" where
  "read_thread p bs \<equiv> (\<lambda>(startIdx, nTxs). bindE (parse_items p bs startIdx nTxs) (\<lambda>(txVec, _). Inr txVec))"

lemma thread_starts_total:
  "skip_items bs i (sum_list ns) = Inr j \<Longrightarrow> \<exists>st. thread_starts bs i ns = Inr st"
  by (induction ns arbitrary: i rule: induct_list012) (auto simp: skip_items_add)

lemma threads_read_all:
  assumes "skip_items bs i (sum_list ns) = Inr j"
  shows "bindE (thread_starts bs i ns) (\<lambda>st. bindE (mapE (read_thread p bs) st) (\<lambda>f. Inr (concat f)))
    = bindE (parse_items p bs i (sum_list ns)) (\<lambda>(ts, _). Inr ts)"
  using assms
proof (induction ns arbitrary: i rule: induct_list012)
  case 1
  then show ?case by simp
next
  case (2 n)
  then show ?case by (simp add: bindE_assoc case_prod_unfold)
next
  case (3 n m ns)
  from "3.prems" obtain i1 where i1: "skip_items bs i n = Inr i1" "skip_items bs i1 (sum_list (m # ns)) = Inr j"
    by (auto simp: skip_items_add)
  from thread_starts_total [OF i1(2)] obtain st where st: "thread_starts bs i1 (m # ns) = Inr st" by blast
  note IH = "3.IH"(2) [OF i1(2), unfolded st bindE_simps]
  show ?case
  proof (cases "parse_items p bs i n")
    case (Inr r)
    then obtain xs where r: "parse_items p bs i n = Inr (xs, i1)"
      using parse_items_skip [of p bs i n "fst r" "snd r"] i1(1) by (cases r) auto
    show ?thesis
      using IH r i1(1) st
      by (cases "mapE (read_thread p bs) st"; cases "parse_items p bs i1 (sum_list (m # ns))")
        (auto simp: parse_items_add [of p bs i n])
  qed (simp add: i1(1) st parse_items_add [of p bs i n])
qed

lemma sum_list_txsPerThr: "0 < thrNum \<Longrightarrow> sum_list (txsPerThr thrNum n) = n"
proof (cases thrNum)
  case (Suc k)
  have "(replicate (Suc k) x)[k := y] = replicate k x @ [y]" for x y :: nat
    by (induction k) simp_all
  then show ?thesis
    by (simp add: txsPerThr_def Let_def Suc sum_list_replicate last_replicate del: replicate_Suc)
      (metis add.assoc add.commute div_mult_mod_eq mult.commute mult_Suc)
qed simp

lemma bindE_cong: "(\<And>x. r = Inr x \<Longrightarrow> f x = g x) \<Longrightarrow> bindE r f = bindE r g"
  by (cases r) auto

lemma Block_parse_txs_sequential:
  assumes "count_items bs 217 lim = Inr n"
  shows "Block_parse_txs C thrNum bs cid n
    = bindE (parse_items (\<lambda>b. TxBlock_parse C b cid) bs 217 n) (\<lambda>(ts, _). Inr ts)"
proof (cases "thrNum \<le> 1 \<or> n \<le> 2000")
  case False
  then have sum: "sum_list (txsPerThr thrNum n) = n" by (intro sum_list_txsPerThr) simp
  from count_items_skip [OF assms] obtain j where "skip_items bs 217 n = Inr j" by blast
  with sum False threads_read_all [of bs 217 "txsPerThr thrNum n" j "\<lambda>b. TxBlock_parse C b cid"] show ?thesis
    by (simp add: Block_parse_txs_def parse_items_threaded_def)
qed (simp add: Block_parse_txs_def)

text \<open>C26. Parsing a block gives the same block or the same error on every machine: splitting the
  transactions over the hardware threads does not change the outcome.\<close>

theorem Block_parse_thread_independent:
  "Block_parse C thrNum bs requiredChainId = Block_parse C 1 bs requiredChainId"
  unfolding Block_parse_def
  by (intro arg_cong [where f = "rethrow ''Block: ''"] if_cong refl bindE_cong)
    (simp only: Block_parse_txs_sequential)

subsection \<open>Round trip\<close>

lemma item_size_at:
  assumes "drop i bs = uint32ToBytes (of_nat n) @ rest" and "n < 2 ^ 32"
  shows "item_size bs i = Inr n"
proof -
  have "i \<le> length bs" using arg_cong [OF assms(1), of length] by simp
  with assms(1) have "substr bs i 4 = Inr (uint32ToBytes (of_nat n))" by (intro substr_drop) auto
  with assms(2) show ?thesis by (simp add: item_size_def unat_of_nat)
qed

lemma sized_items_step:
  assumes "drop i bs = sized_items (t # ts) @ rest" and "length t < 2 ^ 32"
  shows "item_size bs i = Inr (length t)" and "substr bs (i + 4) (length t) = Inr t"
    and "drop (i + 4 + length t) bs = sized_items ts @ rest"
proof -
  have d: "drop i bs = uint32ToBytes (of_nat (length t)) @ t @ sized_items ts @ rest" using assms(1) by simp
  show "item_size bs i = Inr (length t)" by (rule item_size_at [OF d assms(2)])
  note d1 = drop_step [OF d, simplified]
  have "i + 4 \<le> length bs" using arg_cong [OF d, of length] by (simp split: if_splits)
  then show "substr bs (i + 4) (length t) = Inr t" using d1 by (intro substr_drop) auto
  show "drop (i + 4 + length t) bs = sized_items ts @ rest" using drop_step [OF d1] by simp
qed

lemma count_items_sized:
  assumes "drop i bs = sized_items ts @ rest" and "\<forall>t\<in>set ts. length t < 2 ^ 32"
    and "limit = i + length (sized_items ts)"
  shows "count_items bs i limit = Inr (length ts)"
  using assms
proof (induction ts arbitrary: i)
  case (Cons t ts)
  note st = sized_items_step [OF Cons.prems(1)]
  have "count_items bs (i + 4 + length t) limit = Inr (length ts)"
    using Cons.prems st(3) by (intro Cons.IH) simp_all
  then show ?case
    using st(1) Cons.prems by (subst count_items.simps) (simp add: ac_simps)
qed (simp add: count_items.simps)

lemma parse_items_sized:
  assumes "drop i bs = sized_items (map ser xs) @ rest"
    and "\<forall>x\<in>set xs. length (ser x) < 2 ^ 32 \<and> p (ser x) = Inr x"
  shows "\<exists>j. parse_items p bs i (length xs) = Inr (xs, j)"
  using assms
proof (induction xs arbitrary: i)
  case (Cons x xs)
  have "drop i bs = sized_items (ser x # map ser xs) @ rest" using Cons.prems(1) by simp
  note st = sized_items_step [OF this]
  from Cons.IH [OF st(3)] Cons.prems(2) obtain j where
    "parse_items p bs (i + 4 + length (ser x)) (length xs) = Inr (xs, j)" by auto
  with st Cons.prems(2) show ?case by simp
qed simp

lemma parse_validators_sized:
  assumes "drop i bs = sized_items (map (\<lambda>tx. TxValidator_rlpSerialize tx True) vs) @ rest"
    and "\<forall>v\<in>set vs. length (TxValidator_rlpSerialize v True) < 2 ^ 32 \<and> tv_nHeight v = h
      \<and> TxValidator_parse C (TxValidator_rlpSerialize v True) cid = Inr v"
  shows "parse_validators C cid h bs i (length vs) = Inr vs"
  using assms
proof (induction vs arbitrary: i)
  case (Cons v vs)
  have "drop i bs = sized_items (TxValidator_rlpSerialize v True # map (\<lambda>tx. TxValidator_rlpSerialize tx True) vs) @ rest"
    using Cons.prems(1) by simp
  note st = sized_items_step [OF this]
  with Cons.IH [OF st(3)] Cons.prems(2) show ?case by simp
qed simp

text \<open>Sizes of the fixed members, and members that survive their own serialisation.\<close>

definition Block_sizes :: "Block \<Rightarrow> bool" where
  "Block_sizes b \<longleftrightarrow> length (validatorSig b) = 65 \<and> length (prevBlockHash b) = 32
     \<and> length (blockRandomness b) = 32 \<and> length (validatorMerkleRoot b) = 32 \<and> length (txMerkleRoot b) = 32"

definition Block_txs_ok :: "crypto \<Rightarrow> uint64 \<Rightarrow> Block \<Rightarrow> bool" where
  "Block_txs_ok C cid b \<longleftrightarrow>
     (\<forall>tx\<in>set (txs b). length (TxBlock_rlpSerialize tx True) < 2 ^ 32
        \<and> TxBlock_parse C (TxBlock_rlpSerialize tx True) cid = Inr tx)
     \<and> (\<forall>tx\<in>set (txValidators b). length (TxValidator_rlpSerialize tx True) < 2 ^ 32
        \<and> tv_nHeight tx = nHeight b
        \<and> TxValidator_parse C (TxValidator_rlpSerialize tx True) cid = Inr tx)
     \<and> length (serializeBlock b) < 2 ^ 64"

lemma serializeBlock_eq:
  assumes "Block_sizes b"
  shows "serializeBlock b = validatorSig b @ prevBlockHash b @ blockRandomness b @ validatorMerkleRoot b
    @ txMerkleRoot b @ uint64ToBytes (timestamp b) @ uint64ToBytes (nHeight b)
    @ uint64ToBytes (of_nat (217 + length (sized_items (map (\<lambda>tx. TxBlock_rlpSerialize tx True) (txs b)))))
    @ sized_items (map (\<lambda>tx. TxBlock_rlpSerialize tx True) (txs b))
    @ sized_items (map (\<lambda>tx. TxValidator_rlpSerialize tx True) (txValidators b))"
  using assms by (simp add: serializeBlock_def serializeHeader_def overwrite8_def Let_def Block_sizes_def)

lemma newLayer_lengths: "\<forall>h\<in>set l. length h = 32 \<Longrightarrow> \<forall>h\<in>set (newLayer C l). length h = 32"
  by (induction C l rule: newLayer.induct) (auto simp: hash_pair_def)

lemma Merkle_layers_small: "length l \<le> 1 \<Longrightarrow> Merkle_layers C l = [l]"
  by (simp add: Merkle_layers.simps [of C l])

lemma length_getRoot_layers: "\<forall>h\<in>set l. length h = 32 \<Longrightarrow> length (getRoot (Merkle_layers C l)) = 32"
proof (induction C l rule: Merkle_layers.induct)
  case (1 C l)
  show ?case
  proof (cases "length l > 1")
    case True
    with 1 newLayer_lengths show ?thesis by (simp add: getRoot_layers_step)
  next
    case False
    with "1.prems" show ?thesis by (cases l) (auto simp: Merkle_layers_small getRoot_def)
  qed
qed

lemma length_roots [simp]: "length (txs_root C ts) = 32" "length (txValidators_root C vs) = 32"
  by (simp_all add: txs_root_def txValidators_root_def Merkle_def length_getRoot_layers)

lemma length_parseTxSeedList [simp]: "length (parseTxSeedList C vs) = 32"
  by (simp add: parseTxSeedList_def)

lemma Block_parse_serialized:
  assumes sz: "Block_sizes b" and ok: "Block_txs_ok C cid b"
  shows "Block_parse C thrNum (serializeBlock b) cid
    = rethrow ''Block: '' (Block_checks C (b\<lparr>validatorPubKey := FixedStr 65 [], finalized := False\<rparr>))"
proof -
  let ?bs = "serializeBlock b"
  let ?items = "map (\<lambda>tx. TxBlock_rlpSerialize tx True) (txs b)"
  let ?vitems = "map (\<lambda>tx. TxValidator_rlpSerialize tx True) (txValidators b)"
  let ?start = "217 + length (sized_items ?items)"
  note len = sz [unfolded Block_sizes_def]
  note eq = serializeBlock_eq [OF sz]
  have total: "length ?bs = ?start + length (sized_items ?vitems)" using len by (simp add: eq)
  then have start: "unat (of_nat ?start :: uint64) = ?start"
    using ok by (simp only: unat_of_nat) (simp add: Block_txs_ok_def)
  have sub: "substr ?bs 0 65 = Inr (validatorSig b)" "substr ?bs 65 32 = Inr (prevBlockHash b)"
    "substr ?bs 97 32 = Inr (blockRandomness b)" "substr ?bs 129 32 = Inr (validatorMerkleRoot b)"
    "substr ?bs 161 32 = Inr (txMerkleRoot b)" "substr ?bs 193 8 = Inr (uint64ToBytes (timestamp b))"
    "substr ?bs 201 8 = Inr (uint64ToBytes (nHeight b))" "substr ?bs 209 8 = Inr (uint64ToBytes (of_nat ?start))"
    using len by (simp_all add: eq substr_def)
  have d: "drop 217 ?bs = sized_items ?items @ sized_items ?vitems" using len by (simp add: eq)
  have dv: "drop ?start ?bs = sized_items ?vitems @ []" using drop_step [OF d] by simp
  have c1: "count_items ?bs 217 ?start = Inr (length (txs b))"
    using count_items_sized [OF d, of ?start] ok by (simp add: Block_txs_ok_def)
  have c2: "count_items ?bs ?start (length ?bs) = Inr (length (txValidators b))"
    using count_items_sized [OF dv, of "length ?bs"] ok total by (simp add: Block_txs_ok_def)
  have "\<exists>j. parse_items (\<lambda>b. TxBlock_parse C b cid) ?bs 217 (length (txs b)) = Inr (txs b, j)"
    using ok by (intro parse_items_sized [OF d]) (auto simp: Block_txs_ok_def)
  then have p1: "Block_parse_txs C thrNum ?bs cid (length (txs b)) = Inr (txs b)"
    using Block_parse_txs_sequential [OF c1, of C thrNum cid] by auto
  have p2: "parse_validators C cid (nHeight b) ?bs ?start (length (txValidators b)) = Inr (txValidators b)"
    using ok by (intro parse_validators_sized [OF dv]) (auto simp: Block_txs_ok_def)
  have b: "\<lparr>validatorSig = FixedStr 65 (validatorSig b), prevBlockHash = prevBlockHash b,
      blockRandomness = blockRandomness b, validatorMerkleRoot = validatorMerkleRoot b,
      txMerkleRoot = txMerkleRoot b, timestamp = timestamp b, nHeight = nHeight b,
      txValidators = txValidators b, txs = txs b, validatorPubKey = FixedStr 65 [], finalized = False\<rparr>
    = b\<lparr>validatorPubKey := FixedStr 65 [], finalized := False\<rparr>"
    by (rule Block.equality) (simp_all add: FixedStr_id len)
  show ?thesis
    unfolding Block_parse_def sub bindE_simps codec_roundtrips start c1 c2 p1 p2
    using len total by (simp add: Hash_view_32 b c1 c2 p1 p2)
qed

text \<open>The signature values are in the range the parser requires.\<close>

definition Block_sig_valid :: "Block \<Rightarrow> bool" where
  "Block_sig_valid b \<longleftrightarrow>
     (case (Signature_r (validatorSig b), Signature_s (validatorSig b), Signature_v (validatorSig b)) of
        (Inr r, Inr s, Inr v) \<Rightarrow> verifySig r s v
      | _ \<Rightarrow> False)"

definition Block_roots_ok :: "crypto \<Rightarrow> Block \<Rightarrow> bool" where
  "Block_roots_ok C b \<longleftrightarrow>
     txMerkleRoot b = txs_root C (txs b) \<and> validatorMerkleRoot b = txValidators_root C (txValidators b)
     \<and> blockRandomness b = parseTxSeedList C (txValidators b)"

lemma Block_checks_ok:
  assumes "Block_roots_ok C b" and "Block_sig_valid b" and "finalized b"
    and "validatorPubKey b = recover C (validatorSig b) (Block_hash C b)"
  shows "Block_checks C (b\<lparr>validatorPubKey := k, finalized := False\<rparr>) = Inr b"
proof -
  have h: "Block_hash C (b\<lparr>validatorPubKey := k, finalized := False\<rparr>) = Block_hash C b"
    by (simp add: Block_hash_def serializeHeader_def)
  from assms(2) obtain r s v where "Signature_r (validatorSig b) = Inr r" "Signature_s (validatorSig b) = Inr s"
    "Signature_v (validatorSig b) = Inr v" "verifySig r s v"
    by (auto simp: Block_sig_valid_def split: sum.splits)
  then show ?thesis
    using assms(1,3,4) by (simp add: Block_checks_def Block_roots_ok_def h)
qed

text \<open>What \<^verbatim>\<open>finalize\<close> leaves behind when it succeeds.\<close>

lemma Block_finalize_spec:
  assumes "Block_finalize C b0 key ts = Inr (b, True)"
  shows "Block_roots_ok C b" "finalized b" "validatorPubKey b = recover C (validatorSig b) (Block_hash C b)"
    "length (validatorSig b) = 65" "prevBlockHash b = prevBlockHash b0" "txs b = txs b0"
    "txValidators b = txValidators b0" "nHeight b = nHeight b0" "timestamp b = ts"
    "\<not> finalized b0" "timestamp b0 \<le> ts"
    "sign C (Block_hash C b) key = Inr (validatorSig b)"
proof -
  from assms obtain sig b1 where
    b1: "b1 = b0\<lparr>timestamp := ts, txMerkleRoot := txs_root C (txs b0),
      validatorMerkleRoot := txValidators_root C (txValidators b0), blockRandomness := parseTxSeedList C (txValidators b0)\<rparr>"
    and sig: "sign C (Block_hash C b1) key = Inr sig"
    and b: "b = b1\<lparr>validatorSig := sig, validatorPubKey := recover C sig (Block_hash C b1), finalized := True\<rparr>"
    and g: "\<not> finalized b0" "timestamp b0 \<le> ts"
    by (auto simp: Block_finalize_def Let_def not_less split: if_splits)
  have h: "Block_hash C b = Block_hash C b1" by (simp add: b Block_hash_def serializeHeader_def)
  show "Block_roots_ok C b" "finalized b" "length (validatorSig b) = 65"
    "prevBlockHash b = prevBlockHash b0" "txs b = txs b0" "txValidators b = txValidators b0"
    "nHeight b = nHeight b0" "timestamp b = ts" "\<not> finalized b0" "timestamp b0 \<le> ts"
    using sign_length [OF sig] g by (simp_all add: b b1 Block_roots_ok_def)
  show "validatorPubKey b = recover C (validatorSig b) (Block_hash C b)" unfolding h by (simp add: b)
  show "sign C (Block_hash C b) key = Inr (validatorSig b)" unfolding h sig by (simp add: b)
qed

text \<open>What the members of a block must satisfy for the block to be read back: every transaction and every validator transaction
  has a form that survives its serialisation and carries its sender's signature, a validator transaction is for the height of the block,
  and the sizes fit the four-byte and eight-byte fields of the format.\<close>

definition Block_members_ok :: "crypto \<Rightarrow> Block \<Rightarrow> bool" where
  "Block_members_ok C b \<longleftrightarrow>
     (\<forall>tx\<in>set (txs b). TxBlock_serialisable tx \<and> TxBlock_sender_ok C tx \<and> length (TxBlock_rlpSerialize tx True) < 2 ^ 32)
     \<and> (\<forall>tx\<in>set (txValidators b). TxValidator_serialisable tx \<and> TxValidator_sender_ok C tx \<and> tv_nHeight tx = nHeight b
          \<and> length (TxValidator_rlpSerialize tx True) < 2 ^ 32)
     \<and> length (serializeBlock b) < 2 ^ 64"

lemma Block_members_txs_ok: "Block_members_ok C b \<Longrightarrow> Block_txs_ok C cid b"
  by (simp add: Block_members_ok_def Block_txs_ok_def TxBlock_roundtrip TxValidator_roundtrip)

lemma Block_finalize_sig_valid:
  assumes "Block_finalize C b0 key ts = Inr (b, True)" and "library_signs C (Block_hash C b) key"
  shows "Block_sig_valid b"
  using sign_in_range [OF assms(2)] Block_finalize_spec(12) [OF assms(1)] by (auto simp: Block_sig_valid_def)

text \<open>A finalized block whose header and members are consistent; such a block is read back from its serialisation.\<close>

definition Block_complete :: "crypto \<Rightarrow> Block \<Rightarrow> bool" where
  "Block_complete C b \<longleftrightarrow> Block_sizes b \<and> Block_members_ok C b \<and> Block_roots_ok C b \<and> Block_sig_valid b \<and> finalized b
     \<and> validatorPubKey b = recover C (validatorSig b) (Block_hash C b)"

lemma Block_complete_parse: "Block_complete C b \<Longrightarrow> Block_parse C thrNum (serializeBlock b) cid = Inr b"
  using Block_parse_serialized [OF _ Block_members_txs_ok, of b C thrNum cid] Block_checks_ok [of C b]
  by (simp add: Block_complete_def rethrow_def)

lemma Block_finalize_complete:
  assumes "Block_finalize C b0 key ts = Inr (b, True)" and "length (prevBlockHash b0) = 32" and "Block_members_ok C b"
    and "library_signs C (Block_hash C b) key"
  shows "Block_complete C b"
  using Block_finalize_spec [OF assms(1)] Block_finalize_sig_valid [OF assms(1,4)] assms(2,3)
  by (simp add: Block_complete_def Block_sizes_def Block_roots_ok_def)

text \<open>C2. A block that \<^verbatim>\<open>finalize\<close> closed is read back exactly from its serialisation, on every number of
  hardware threads, when every transaction in it can be serialised and is signed by its sender, the validator transactions are for its height, and
  the curve library signs its hash with values in range.\<close>

theorem Block_finalize_parse:
  assumes "Block_finalize C b0 key newTimestamp = Inr (b, True)"
    and "length (prevBlockHash b0) = 32"
    and "Block_members_ok C b"
    and "library_signs C (Block_hash C b) key"
  shows "Block_parse C thrNum (serializeBlock b) requiredChainId = Inr b"
  using Block_finalize_complete [OF assms] by (rule Block_complete_parse)

lemma length_TxBlock_rlpSerialize:
  "length (tx_to tx) = 20 \<Longrightarrow> length (TxBlock_rlpSerialize tx True)
     = 1 + length (rlp_list_head (TxBlock_total_size tx True)) + TxBlock_total_size tx True"
  using TxBlock_payload_size [of tx] by (simp add: TxBlock_rlpSerialize_True)

definition demo_block0 :: Block where
  "demo_block0 = (Block_new (replicate 32 7) 3 1)
     \<lparr>txs := [demo_tx (replicate 60 9)], txValidators := [demo_vtx (replicate 60 9) 1]\<rparr>"

definition demo_block :: Block where
  "demo_block = demo_block0
     \<lparr>timestamp := 5, txMerkleRoot := txs_root demo_crypto (txs demo_block0),
      validatorMerkleRoot := txValidators_root demo_crypto (txValidators demo_block0),
      blockRandomness := parseTxSeedList demo_crypto (txValidators demo_block0),
      validatorSig := makeSig 5 7 0, validatorPubKey := replicate 65 4, finalized := True\<rparr>"

lemma demo_block_finalize: "Block_finalize demo_crypto demo_block0 [] 5 = Inr (demo_block, True)"
  by (simp add: Block_finalize_def demo_block_def demo_sign demo_recover Let_def)
    (simp add: demo_block0_def Block_new_def)

lemma demo_sender_ok:
  "TxBlock_sender_ok demo_crypto (demo_tx (replicate 60 9))" "TxValidator_sender_ok demo_crypto (demo_vtx (replicate 60 9) 1)"
  using TxBlock_new_sender_ok [OF demo_tx_new [of "replicate 60 9" "[]"]] demo_nonzero
    TxValidator_sign_sender_ok [OF demo_vtx_new [of "replicate 60 9" 1 "[]", unfolded TxValidator_new_def]]
  by (simp_all add: demo_toUPub demo_nonzero demo_vtx_def)

lemma demo_tx_length: "length (TxBlock_rlpSerialize (demo_tx (replicate 60 9)) True) < 1000"
  by (subst length_TxBlock_rlpSerialize)
    (simp_all add: demo_tx_def TxBlock_total_size_def rlp_uint_size_def rlp_string_size_def bytesRequired_pos
      rlp_list_head_def)

lemma demo_vtx_length: "length (TxValidator_rlpSerialize (demo_vtx (replicate 60 9) 1) True) < 1000"
  by (simp add: TxValidator_rlpSerialize_def TxValidator_total_size_def demo_vtx_def rlp_uint_size_def
      rlp_string_size_def bytesRequired_pos rlp_list_head_def rlp_v_def byte_simps)

lemma demo_block_members:
  "txs demo_block = [demo_tx (replicate 60 9)]" "txValidators demo_block = [demo_vtx (replicate 60 9) 1]"
  "nHeight demo_block = 1" "validatorSig demo_block = makeSig 5 7 0" "prevBlockHash demo_block = replicate 32 7"
  by (simp_all add: demo_block_def demo_block0_def Block_new_def)

lemma demo_block_sizes: "Block_sizes demo_block"
  using Block_finalize_spec [OF demo_block_finalize]
  by (simp add: Block_sizes_def Block_roots_ok_def demo_block0_def Block_new_def)

lemma demo_block_members_ok: "Block_members_ok demo_crypto demo_block"
proof -
  have "length (serializeBlock demo_block) < 3000"
    using demo_tx_length demo_vtx_length demo_block_sizes [unfolded Block_sizes_def]
    by (simp add: serializeBlock_eq [OF demo_block_sizes] demo_block_members)
  then show ?thesis
    using demo_tx_length demo_vtx_length demo_tx_serialisable demo_vtx_serialisable demo_sender_ok
    by (simp add: Block_members_ok_def demo_block_members) (simp add: demo_vtx_def)
qed

lemmas demo_block_txs_ok = Block_members_txs_ok [OF demo_block_members_ok]

lemma demo_block_sig_valid: "Block_sig_valid demo_block"
  by (simp add: Block_sig_valid_def demo_block_members verifySig_def ecConst_def)

lemma demo_block_complete: "Block_complete demo_crypto demo_block"
  by (rule Block_finalize_complete [OF demo_block_finalize _ demo_block_members_ok demo_library_signs])
    (simp add: demo_block0_def Block_new_def)

theorem Block_finalize_parse_witness:
  "Block_parse demo_crypto 8 (serializeBlock demo_block) 8080 = Inr demo_block"
  by (rule Block_finalize_parse [OF demo_block_finalize _ demo_block_members_ok demo_library_signs])
    (simp add: demo_block0_def Block_new_def)

text \<open>C27. Whatever bytes the block parser accepts, the block is finalized, its Merkle roots and its
  randomness are those of its transactions, its signature is in range and the stored public key
  is the one the signature recovers for the block's hash.\<close>

theorem Block_parse_checked:
  assumes "Block_parse C thrNum bs requiredChainId = Inr b"
  shows "Block_roots_ok C b \<and> Block_sig_valid b \<and> finalized b
    \<and> validatorPubKey b = recover C (validatorSig b) (Block_hash C b) \<and> length (validatorSig b) = 65"
proof -
  from assms obtain b1 where c: "Block_checks C b1 = Inr b" and "length (validatorSig b1) = 65"
    by (auto simp: Block_parse_def rethrow_def split: sum.splits if_splits)
  moreover have "Block_hash C (b\<lparr>validatorPubKey := k, finalized := f\<rparr>) = Block_hash C b" for b k f
    by (simp add: Block_hash_def serializeHeader_def)
  ultimately show ?thesis
    by (auto simp: Block_checks_def Block_roots_ok_def Block_sig_valid_def if_Inl_eq_Inr)
qed

theorem Block_parse_checked_witness:
  "Block_roots_ok demo_crypto demo_block \<and> Block_sig_valid demo_block \<and> finalized demo_block
    \<and> validatorPubKey demo_block = recover demo_crypto (validatorSig demo_block) (Block_hash demo_crypto demo_block)
    \<and> length (validatorSig demo_block) = 65"
  by (rule Block_parse_checked [OF Block_complete_parse [OF demo_block_complete]])

subsection \<open>A finalized block does not change\<close>

datatype block_op = AppendTx TxBlock | AppendTxValidator TxValidator | Finalize bytes uint64

definition Block_apply :: "crypto \<Rightarrow> Block \<Rightarrow> block_op \<Rightarrow> (Block \<times> bool) result" where
  "Block_apply C b oper = (case oper of
     AppendTx tx \<Rightarrow> Inr (appendTx b tx)
   | AppendTxValidator tx \<Rightarrow> Inr (appendTxValidator b tx)
   | Finalize key ts \<Rightarrow> Block_finalize C b key ts)"

text \<open>On a finalized block every mutating operation of the class reports failure and leaves the
  block as it is.\<close>

theorem Block_finalized_immutable:
  assumes "finalized b"
  shows "Block_apply C b oper = Inr (b, False)"
  using assms
  by (simp add: Block_apply_def appendTx_def appendTxValidator_def Block_finalize_def split: block_op.splits)

theorem Block_finalized_immutable_witness:
  "Block_apply demo_crypto demo_block (Finalize [] 9) = Inr (demo_block, False)"
  by (rule Block_finalized_immutable) (simp add: demo_block_def)

end
