(* ===== verification/Rdpos.thy ===== *)
theory Rdpos
  imports Blocks
begin

text \<open>
  The consensus component \<^verbatim>\<open>rdPoS\<close> (\<^verbatim>\<open>src/core/rdpos.h\<close>, \<^verbatim>\<open>rdpos.cpp\<close>): the validator set, the shuffled list, the
  mempool of validator transactions, and the validation and processing of blocks. The set of
  validators is the list of its elements in ascending order, as \<^verbatim>\<open>std::set\<close> iterates over it. The mempool
  is an association list from hashes; no operation depends on the order of an \<^verbatim>\<open>unordered_map\<close>.
  \<^verbatim>\<open>storage->latest()\<close> enters as the height of the latest block. Mutexes are not modelled: every
  operation holds the lock for its whole duration.
\<close>

record rdPoS =
  validators :: "bytes list"
  randomList :: "bytes list"
  validatorMempool :: "(bytes \<times> TxValidator) list"
  validatorKey :: bytes
  isValidator :: bool
  randomGen :: bytes
  bestRandomSeed :: bytes

definition minValidators :: nat where
  "minValidators = 4"

subsection \<open>Validating a block\<close>

text \<open>\<^verbatim>\<open>txHashToSeedMap.emplace\<close>: keys are compared by the hash of the transaction.\<close>

definition emplace_pair ::
  "crypto \<Rightarrow> (TxValidator \<times> TxValidator) list \<Rightarrow> TxValidator \<Rightarrow> TxValidator \<Rightarrow> (TxValidator \<times> TxValidator) list" where
  "emplace_pair C acc h s =
     (if list_ex (\<lambda>(a, _). TxValidator_hash C a True = TxValidator_hash C h True) acc then acc else acc @ [(h, s)])"

text \<open>The loop over the first \<^verbatim>\<open>minValidators\<close> positions; \<open>None\<close> is the early \<^verbatim>\<open>return false\<close>.\<close>

fun pair_loop ::
  "crypto \<Rightarrow> bytes list \<Rightarrow> TxValidator list \<Rightarrow> nat list \<Rightarrow> (TxValidator \<times> TxValidator) list
   \<Rightarrow> (TxValidator \<times> TxValidator) list option result" where
  "pair_loop C rl vts [] acc = Inr (Some acc)"
| "pair_loop C rl vts (i # is) acc =
     bindE (view_at vts i) (\<lambda>h.
     bindE (view_at rl (i + 1)) (\<lambda>v.
     if tv_from h \<noteq> v then Inr None else
     bindE (view_at vts (i + minValidators)) (\<lambda>s.
     if tv_from s \<noteq> v then Inr None else pair_loop C rl vts is (emplace_pair C acc h s))))"

definition pair_ok :: "crypto \<Rightarrow> TxValidator \<times> TxValidator \<Rightarrow> bool" where
  "pair_ok C p =
     (let (hashTx, seedTx) = p;
          hashTxFunction = getTxValidatorFunction hashTx;
          seedTxFunction = getTxValidatorFunction seedTx
      in if hashTxFunction = INVALID then False
         else if seedTxFunction = INVALID then False
         else if tv_from hashTx \<noteq> tv_from seedTx then False
         else if hashTxFunction \<noteq> RANDOMHASH then False
         else if seedTxFunction \<noteq> RANDOMSEED then False
         else sha3 C (drop 4 (tv_data seedTx)) = drop 4 (tv_data hashTx))"

definition validateBlock :: "crypto \<Rightarrow> rdPoS \<Rightarrow> Block \<Rightarrow> bool result" where
  "validateBlock C rd block =
     (if \<not> finalized block then Inr False else
      bindE (view_at (randomList rd) 0) (\<lambda>v0.
      if toAddress C (validatorPubKey block) \<noteq> v0 then Inr False
      else if length (txValidators block) \<noteq> minValidators * 2 then Inr False
      else if list_ex (\<lambda>tx. tv_nHeight tx \<noteq> nHeight block) (txValidators block) then Inr False
      else bindE (pair_loop C (randomList rd) (txValidators block) [0..<minValidators] []) (\<lambda>m.
           case m of
             None \<Rightarrow> Inr False
           | Some txHashToSeedMap \<Rightarrow>
               if length txHashToSeedMap \<noteq> minValidators then Inr False
               else Inr (list_all (pair_ok C) txHashToSeedMap))))"

subsection \<open>Processing a block\<close>

definition processBlock :: "crypto \<Rightarrow> rdPoS \<Rightarrow> Block \<Rightarrow> (rdPoS \<times> bytes) result" where
  "processBlock C rd block =
     (if \<not> finalized block then Inl (RuntimeError ''Block is not finalized.'')
      else (let seed = blockRandomness block in
            bindE (shuffle C seed (validators rd)) (\<lambda>(rl, gen).
            Inr (rd\<lparr>validatorMempool := [], randomList := rl, bestRandomSeed := seed, randomGen := gen\<rparr>, seed))))"

definition signBlock :: "crypto \<Rightarrow> rdPoS \<Rightarrow> Block \<Rightarrow> uint64 \<Rightarrow> Block result" where
  "signBlock C rd block newTimestamp =
     bindE (Block_finalize C block (validatorKey rd) newTimestamp) (\<lambda>(b, _). Inr b)"

subsection \<open>The mempool\<close>

definition mempool_contains :: "(bytes \<times> TxValidator) list \<Rightarrow> bytes \<Rightarrow> bool" where
  "mempool_contains mp h \<longleftrightarrow> list_ex (\<lambda>(k, _). k = h) mp"

text \<open>The loop over \<^verbatim>\<open>randomList[1]\<close> to \<^verbatim>\<open>randomList[minValidators]\<close>, with its \<^verbatim>\<open>break\<close>.\<close>

fun participates_loop :: "bytes list \<Rightarrow> bytes \<Rightarrow> nat list \<Rightarrow> bool result" where
  "participates_loop rl sender [] = Inr False"
| "participates_loop rl sender (i # is) =
     bindE (view_at rl i) (\<lambda>v. if sender = v then Inr True else participates_loop rl sender is)"

definition from_sender :: "rdPoS \<Rightarrow> bytes \<Rightarrow> TxValidator list" where
  "from_sender rd a = filter (\<lambda>t. tv_from t = a) (map snd (validatorMempool rd))"

definition addValidatorTx :: "crypto \<Rightarrow> uint64 \<Rightarrow> rdPoS \<Rightarrow> TxValidator \<Rightarrow> (rdPoS \<times> bool) result" where
  "addValidatorTx C latestHeight rd tx =
     (let h = TxValidator_hash C tx True in
      if mempool_contains (validatorMempool rd) h then Inr (rd, True)
      else if tv_nHeight tx \<noteq> latestHeight + 1 then Inr (rd, False)
      else bindE (participates_loop (randomList rd) (tv_from tx) [1..<minValidators + 1]) (\<lambda>participates.
           if \<not> participates then Inr (rd, False)
           else (let ts = from_sender rd (tv_from tx);
                     added = rd\<lparr>validatorMempool := validatorMempool rd @ [(h, tx)]\<rparr>
                 in if length ts = 0 then Inr (added, True)
                    else if length ts = 1
                    then (if take 4 (tv_data (ts ! 0)) = take 4 (tv_data tx) then Inr (rd, False)
                          else Inr (added, True))
                    else Inr (rd, False))))"

definition clearMempool :: "rdPoS \<Rightarrow> rdPoS" where
  "clearMempool rd = rd\<lparr>validatorMempool := []\<rparr>"

definition isValidatorAddress :: "rdPoS \<Rightarrow> bytes \<Rightarrow> bool" where
  "isValidatorAddress rd a \<longleftrightarrow> a \<in> set (validators rd)"

subsection \<open>Start-up\<close>

text \<open>The constructor: \<open>entries\<close> are the values stored under the prefix of rdPoS, \<open>seed\<close> the randomness of
  the latest block.\<close>

definition set_insert :: "bytes \<Rightarrow> bytes list \<Rightarrow> bytes list" where
  "set_insert a vs = (if a \<in> set vs then vs else insort a vs)"

definition rdPoS_init :: "crypto \<Rightarrow> bytes list \<Rightarrow> bytes \<Rightarrow> bytes \<Rightarrow> rdPoS result" where
  "rdPoS_init C entries key seed =
     (if length entries = 0 then Inl (RuntimeError ''No rdPoS in DB.'')
      else bindE (mapE Address_bytes entries) (\<lambda>as.
           let vs = fold set_insert as [] in
           bindE (shuffle C seed vs) (\<lambda>(rl, gen).
           Inr \<lparr>validators = vs, randomList = rl, validatorMempool = [], validatorKey = key,
                isValidator = nonzero_str key, randomGen = gen, bestRandomSeed = seed\<rparr>)))"

text \<open>The two transactions a participating validator creates for a block; \<open>randomness\<close> stands for
  \<^verbatim>\<open>Hash::random()\<close>.\<close>

definition doTxCreation_txs ::
  "crypto \<Rightarrow> uint64 \<Rightarrow> rdPoS \<Rightarrow> uint64 \<Rightarrow> bytes \<Rightarrow> bytes \<Rightarrow> (TxValidator \<times> TxValidator) option result" where
  "doTxCreation_txs C chainId rd h me randomness =
     (let randomHash = sha3 C randomness in
      bindE (TxValidator_new C me ([0xcf, 0xff, 0xe7, 0x46] @ randomHash) chainId h (validatorKey rd)) (\<lambda>hashTx.
      bindE (TxValidator_new C me ([0x6f, 0xc5, 0xa2, 0xd6] @ randomness) chainId h (validatorKey rd)) (\<lambda>seedTx.
      if sha3 C (drop 4 (tv_data seedTx)) \<noteq> drop 4 (tv_data hashTx) then Inr None
      else Inr (Some (hashTx, seedTx)))))"

subsection \<open>What an accepted block satisfies\<close>

lemma view_at_nth: "i < length xs \<Longrightarrow> view_at xs i = Inr (xs ! i)"
  by (simp add: view_at_def)

lemma pair_loop_eq:
  assumes "\<forall>i\<in>set is. i + 1 < length rl \<and> i + minValidators < length vts"
  shows "pair_loop C rl vts is acc =
    Inr (if \<forall>i\<in>set is. tv_from (vts ! i) = rl ! (i + 1) \<and> tv_from (vts ! (i + minValidators)) = rl ! (i + 1)
         then Some (fold (\<lambda>i acc. emplace_pair C acc (vts ! i) (vts ! (i + minValidators))) is acc) else None)"
  using assms
proof (induction "is" arbitrary: acc)
  case (Cons i "is")
  then have "i < length vts" "i + 1 < length rl" "i + minValidators < length vts" by auto
  with Cons show ?case by (auto simp: view_at_nth simp del: One_nat_def)
qed simp

text \<open>The map has one entry per position exactly when the hashes of the first halves are distinct.\<close>

lemma fold_emplace_le:
  "length (fold (\<lambda>i acc. emplace_pair C acc (f i) (g i)) is acc) \<le> length acc + length is"
proof (induction "is" arbitrary: acc)
  case (Cons i "is")
  have "length (emplace_pair C acc (f i) (g i)) \<le> Suc (length acc)" by (simp add: emplace_pair_def)
  with Cons [of "emplace_pair C acc (f i) (g i)"] show ?case by simp
qed simp

lemma fold_emplace_full:
  assumes "length (fold (\<lambda>i acc. emplace_pair C acc (f i) (g i)) is acc) = length acc + length is"
  shows "fold (\<lambda>i acc. emplace_pair C acc (f i) (g i)) is acc = acc @ map (\<lambda>i. (f i, g i)) is
    \<and> (\<forall>i\<in>set is. \<forall>a\<in>set acc. TxValidator_hash C (fst a) True \<noteq> TxValidator_hash C (f i) True)
    \<and> distinct (map (\<lambda>i. TxValidator_hash C (f i) True) is)"
  using assms
proof (induction "is" arbitrary: acc)
  case (Cons i "is")
  let ?acc = "emplace_pair C acc (f i) (g i)"
  have "length ?acc = Suc (length acc)"
    using Cons.prems fold_emplace_le [of C f g "is" ?acc] by (auto simp: emplace_pair_def split: if_splits)
  then have new: "?acc = acc @ [(f i, g i)]" "\<forall>a\<in>set acc. TxValidator_hash C (fst a) True \<noteq> TxValidator_hash C (f i) True"
    by (auto simp: emplace_pair_def list_ex_iff split: if_splits)
  with Cons.IH [of ?acc] Cons.prems show ?case by auto
qed simp

lemma fold_emplace_distinct:
  assumes "\<forall>i\<in>set is. \<forall>a\<in>set acc. TxValidator_hash C (fst a) True \<noteq> TxValidator_hash C (f i) True"
    and "distinct (map (\<lambda>i. TxValidator_hash C (f i) True) is)"
  shows "fold (\<lambda>i acc. emplace_pair C acc (f i) (g i)) is acc = acc @ map (\<lambda>i. (f i, g i)) is"
  using assms
proof (induction "is" arbitrary: acc)
  case (Cons i "is")
  have e: "emplace_pair C acc (f i) (g i) = acc @ [(f i, g i)]"
    using Cons.prems(1) by (auto simp: emplace_pair_def list_ex_iff)
  have "\<forall>j\<in>set is. \<forall>a\<in>set (acc @ [(f i, g i)]). TxValidator_hash C (fst a) True \<noteq> TxValidator_hash C (f j) True"
    using Cons.prems by auto
  with Cons.IH [of "acc @ [(f i, g i)]"] Cons.prems(2) show ?case by (simp add: e)
qed simp

text \<open>The declarative reading of the checks: the proposer is the first of the random list, the next four
  each contribute a hash and the seed behind it, in the order of the list.\<close>

definition block_valid :: "crypto \<Rightarrow> rdPoS \<Rightarrow> Block \<Rightarrow> bool" where
  "block_valid C rd b \<longleftrightarrow>
     finalized b \<and> toAddress C (validatorPubKey b) = randomList rd ! 0
     \<and> length (txValidators b) = 8 \<and> (\<forall>tx\<in>set (txValidators b). tv_nHeight tx = nHeight b)
     \<and> (\<forall>i<4. tv_from (txValidators b ! i) = randomList rd ! (i + 1)
          \<and> tv_from (txValidators b ! (i + 4)) = randomList rd ! (i + 1)
          \<and> getTxValidatorFunction (txValidators b ! i) = RANDOMHASH
          \<and> getTxValidatorFunction (txValidators b ! (i + 4)) = RANDOMSEED
          \<and> sha3 C (drop 4 (tv_data (txValidators b ! (i + 4)))) = drop 4 (tv_data (txValidators b ! i)))
     \<and> distinct (map (\<lambda>i. TxValidator_hash C (txValidators b ! i) True) [0..<4])"

lemma pair_ok_iff:
  "pair_ok C (h, s) \<longleftrightarrow> tv_from h = tv_from s \<and> getTxValidatorFunction h = RANDOMHASH
     \<and> getTxValidatorFunction s = RANDOMSEED \<and> sha3 C (drop 4 (tv_data s)) = drop 4 (tv_data h)"
  by (auto simp: pair_ok_def Let_def)

lemma validateBlock_eq:
  assumes "5 \<le> length (randomList rd)"
  shows "validateBlock C rd b = Inr (block_valid C rd b)"
proof (cases "finalized b \<and> toAddress C (validatorPubKey b) = randomList rd ! 0
    \<and> length (txValidators b) = 8 \<and> (\<forall>tx\<in>set (txValidators b). tv_nHeight tx = nHeight b)")
  case False
  moreover have "view_at (randomList rd) 0 = Inr (randomList rd ! 0)"
    by (rule view_at_nth) (use assms in linarith)
  ultimately show ?thesis
    by (auto simp: validateBlock_def block_valid_def minValidators_def list_ex_iff)
next
  case True
  let ?vts = "txValidators b" and ?rl = "randomList rd"
  let ?from = "\<forall>i\<in>{0..<4}. tv_from (?vts ! i) = ?rl ! (i + 1) \<and> tv_from (?vts ! (i + 4)) = ?rl ! (i + 1)"
  let ?pairs = "fold (\<lambda>i acc. emplace_pair C acc (?vts ! i) (?vts ! (i + 4))) [0..<4] []"
  have v0: "view_at ?rl 0 = Inr (?rl ! 0)" by (rule view_at_nth) (use assms in linarith)
  have loop: "pair_loop C ?rl ?vts [0..<4] [] = Inr (if ?from then Some ?pairs else None)"
    using pair_loop_eq [of "[0..<4]" ?rl ?vts C "[]"] assms True by (simp add: minValidators_def)
  have val: "validateBlock C rd b = Inr (?from \<and> length ?pairs = 4 \<and> list_all (pair_ok C) ?pairs)"
    using True v0 loop by (auto simp: validateBlock_def minValidators_def list_ex_iff)
  have full: "length ?pairs = 4 \<longleftrightarrow> distinct (map (\<lambda>i. TxValidator_hash C (?vts ! i) True) [0..<4])"
    and eq: "length ?pairs = 4 \<Longrightarrow> ?pairs = map (\<lambda>i. (?vts ! i, ?vts ! (i + 4))) [0..<4]"
    using fold_emplace_full [of C "\<lambda>i. ?vts ! i" "\<lambda>i. ?vts ! (i + 4)" "[0..<4]" "[]"]
      fold_emplace_distinct [of "[0..<4]" "[]" C "\<lambda>i. ?vts ! i" "\<lambda>i. ?vts ! (i + 4)"] by auto
  show ?thesis
  proof (cases "length ?pairs = 4")
    case l: True
    have "list_all (pair_ok C) ?pairs \<longleftrightarrow> (\<forall>i\<in>{0..<4}. pair_ok C (?vts ! i, ?vts ! (i + 4)))"
      unfolding eq [OF l] by (simp add: list_all_iff)
    with True full l show ?thesis unfolding val block_valid_def by (auto simp: pair_ok_iff)
  next
    case False
    with full show ?thesis unfolding val block_valid_def by simp
  qed
qed

text \<open>C7. \<^verbatim>\<open>validateBlock\<close> decides exactly the declarative conditions of the protocol, whenever the random list
  has at least five entries.\<close>

theorem validateBlock_decides:
  assumes "5 \<le> length (randomList rd)"
  shows "validateBlock C rd b = Inr (block_valid C rd b)"
  using assms by (rule validateBlock_eq)

text \<open>A provider whose hash of 32 bytes is those bytes, so that a whole round can be written down.\<close>

definition echo_crypto :: crypto where
  "echo_crypto = demo_crypto\<lparr>keccak256 := (\<lambda>b. of_nat (be_nat b))\<rparr>"

definition round_tx :: "bool \<Rightarrow> nat \<Rightarrow> TxValidator" where
  "round_tx seed i = \<lparr>tv_from = replicate 20 (of_nat i),
     tv_data = (if seed then [0x6f, 0xc5, 0xa2, 0xd6] else [0xcf, 0xff, 0xe7, 0x46]) @ replicate 32 (of_nat i),
     tv_chainId = 1, tv_nHeight = 1, tv_v = 37, tv_r = 1, tv_s = 2 ^ 255 + of_nat i\<rparr>"

definition round_block :: Block where
  "round_block = demo_block\<lparr>txValidators := map (round_tx False) [0..<4] @ map (round_tx True) [0..<4]\<rparr>"

definition round_rd :: rdPoS where
  "round_rd = \<lparr>validators = [], randomList = toAddress echo_crypto (validatorPubKey round_block)
       # map (\<lambda>i. replicate 20 (of_nat i)) [0..<4],
     validatorMempool = [], validatorKey = [], isValidator = True, randomGen = [], bestRandomSeed = []\<rparr>"

lemma echo_sha3: "length b = 32 \<Longrightarrow> sha3 echo_crypto b = b"
  using be_bytes_be_nat_eq [of b 32] unat_of_nat_be_nat [of b 32, where 'w = 256]
  by (simp add: sha3_def echo_crypto_def uint256ToBytes_eq)

lemma echo_hash_tail:
  assumes "2 ^ 248 \<le> unat (tv_s tx)"
  shows "keccak256 echo_crypto (TxValidator_rlpSerialize tx True) = tv_s tx"
proof -
  have "(256::nat) ^ 31 \<le> unat (tv_s tx)" using assms by simp
  then have len: "bytesRequired (unat (tv_s tx)) = 32"
    using bytesRequired_ge [of 31 "unat (tv_s tx)"] bytesRequired_u256 [OF uint256_lt [of "tv_s tx"]] by simp
  have "\<exists>pre. TxValidator_rlpSerialize tx True = pre @ uintToBytes (unat (tv_s tx))"
    by (simp add: TxValidator_rlpSerialize_def rlp_sig_half_def flip: append_assoc append_Cons)
  then obtain pre where pre: "TxValidator_rlpSerialize tx True = pre @ uintToBytes (unat (tv_s tx))" by blast
  have "be_nat (TxValidator_rlpSerialize tx True) = be_nat pre * 256 ^ 32 + unat (tv_s tx)"
    unfolding pre be_nat_append length_uintToBytes len be_nat_uintToBytes by simp
  then have "(of_nat (be_nat (TxValidator_rlpSerialize tx True)) :: uint256) = of_nat (be_nat pre) * of_nat (256 ^ 32) + tv_s tx"
    by simp
  also have "(of_nat (256 ^ 32) :: uint256) = 0" unfolding word_of_nat_eq_0_iff by simp
  finally show ?thesis by (simp add: echo_crypto_def)
qed

lemma round_tx_s: "i < 4 \<Longrightarrow> unat (tv_s (round_tx b i)) = 2 ^ 255 + i"
  by (simp add: round_tx_def unat_word_ariths unat_of_nat)

lemma round_hash:
  "i < 4 \<Longrightarrow> TxValidator_hash echo_crypto (round_tx b i) True = uint256ToBytes (2 ^ 255 + of_nat i)"
  using echo_hash_tail [of "round_tx b i"] round_tx_s [of i b]
  by (simp add: TxValidator_hash_def sha3_def round_tx_def)

lemma round_members:
  "i < 4 \<Longrightarrow> txValidators round_block ! i = round_tx False i"
  "i < 4 \<Longrightarrow> txValidators round_block ! (i + 4) = round_tx True i"
  "set (txValidators round_block) = round_tx False ` {0..<4} \<union> round_tx True ` {0..<4}"
  "length (txValidators round_block) = 8" "finalized round_block" "nHeight round_block = 1"
  by (simp_all add: round_block_def nth_append demo_block_members) (simp add: demo_block_def)

lemma round_valid: "block_valid echo_crypto round_rd round_block"
proof -
  have r: "i < 4 \<Longrightarrow> randomList round_rd ! (i + 1) = replicate 20 (of_nat i)" for i
    by (simp add: round_rd_def)
  have "inj_on (\<lambda>i. TxValidator_hash echo_crypto (txValidators round_block ! i) True) {0..<4}"
  proof (rule inj_onI)
    fix i j assume ij: "i \<in> {0..<4::nat}" "j \<in> {0..<4::nat}"
      and "TxValidator_hash echo_crypto (txValidators round_block ! i) True
        = TxValidator_hash echo_crypto (txValidators round_block ! j) True"
    then have "(2 ^ 255 + of_nat i :: uint256) = 2 ^ 255 + of_nat j"
      by (simp add: round_members round_hash codec256.enc_inject)
    then have "unat (of_nat i :: uint256) = unat (of_nat j :: uint256)" by simp
    with ij show "i = j" by (simp only: unat_of_nat) simp
  qed
  then have d: "distinct (map (\<lambda>i. TxValidator_hash echo_crypto (txValidators round_block ! i) True) [0..<4])"
    by (simp add: distinct_map)
  have f: "getTxValidatorFunction (round_tx False i) = RANDOMHASH" "getTxValidatorFunction (round_tx True i) = RANDOMSEED" for i
    by (simp_all add: getTxValidatorFunction_def round_tx_def)
  show ?thesis
    unfolding block_valid_def using d r
    by (auto simp: round_members f simp del: One_nat_def) (simp_all add: round_rd_def round_tx_def echo_sha3)
qed

theorem validateBlock_decides_witness:
  "validateBlock echo_crypto round_rd round_block = Inr True"
  using validateBlock_decides [of round_rd echo_crypto round_block] round_valid by (simp add: round_rd_def)

subsection \<open>The mempool invariant\<close>

definition participants :: "rdPoS \<Rightarrow> bytes set" where
  "participants rd = (\<lambda>i. randomList rd ! i) ` {1..4}"

text \<open>Hashes are unique keys; every transaction is for the next height and from one of the four validators
  of the round; a validator has at most two, with different function selectors.\<close>

definition mempool_ok :: "crypto \<Rightarrow> uint64 \<Rightarrow> rdPoS \<Rightarrow> bool" where
  "mempool_ok C h rd \<longleftrightarrow>
     distinct (map fst (validatorMempool rd))
     \<and> (\<forall>(k, t)\<in>set (validatorMempool rd). k = TxValidator_hash C t True \<and> tv_nHeight t = h + 1
          \<and> tv_from t \<in> participants rd)
     \<and> (\<forall>a. length (from_sender rd a) \<le> 2 \<and> distinct (map (\<lambda>t. take 4 (tv_data t)) (from_sender rd a)))"

lemma length_by_class:
  assumes "finite S" and "\<forall>x\<in>set xs. f x \<in> S"
  shows "length xs = (\<Sum>a\<in>S. length (filter (\<lambda>x. f x = a) xs))"
  using assms(2)
proof (induction xs)
  case (Cons x xs)
  have "(\<Sum>a\<in>S. length (filter (\<lambda>y. f y = a) (x # xs)))
      = (\<Sum>a\<in>S. (if f x = a then 1 else 0) + length (filter (\<lambda>y. f y = a) xs))"
    by (rule sum.cong) auto
  also have "\<dots> = 1 + length xs"
    using Cons assms(1) by (simp add: sum.distrib)
  finally show ?case by simp
qed simp

lemma mempool_size:
  assumes "mempool_ok C h rd"
  shows "length (validatorMempool rd) \<le> 8"
proof -
  have fin: "finite (participants rd)" by (simp add: participants_def)
  have "card (participants rd) \<le> card {1..4::nat}" unfolding participants_def by (rule card_image_le) simp
  then have "card (participants rd) \<le> 4" by simp
  moreover have "length (map snd (validatorMempool rd)) = (\<Sum>a\<in>participants rd. length (from_sender rd a))"
    unfolding from_sender_def using assms fin by (intro length_by_class) (auto simp: mempool_ok_def)
  moreover have "(\<Sum>a\<in>participants rd. length (from_sender rd a)) \<le> card (participants rd) * 2"
    using sum_bounded_above [of "participants rd" "\<lambda>a. length (from_sender rd a)" 2] assms
    by (simp add: mempool_ok_def)
  ultimately show ?thesis by simp
qed

lemma participates_loop_eq:
  "\<forall>i\<in>set is. i < length rl \<Longrightarrow> participates_loop rl a is = Inr (a \<in> (\<lambda>i. rl ! i) ` set is)"
  by (induction "is") (auto simp: view_at_nth)

lemma mempool_contains_iff: "mempool_contains mp h \<longleftrightarrow> h \<in> fst ` set mp"
  by (force simp: mempool_contains_def list_ex_iff)

lemma mempool_ok_add:
  assumes ok: "mempool_ok C h rd" and new: "\<not> mempool_contains (validatorMempool rd) (TxValidator_hash C tx True)"
    and "tv_nHeight tx = h + 1" and "tv_from tx \<in> participants rd"
    and sel: "from_sender rd (tv_from tx) = [] \<or>
      (\<exists>t. from_sender rd (tv_from tx) = [t] \<and> take 4 (tv_data t) \<noteq> take 4 (tv_data tx))"
  shows "mempool_ok C h (rd\<lparr>validatorMempool := validatorMempool rd @ [(TxValidator_hash C tx True, tx)]\<rparr>)"
proof -
  let ?rd = "rd\<lparr>validatorMempool := validatorMempool rd @ [(TxValidator_hash C tx True, tx)]\<rparr>"
  have p: "participants ?rd = participants rd" by (simp add: participants_def)
  have f: "from_sender ?rd a = from_sender rd a @ (if tv_from tx = a then [tx] else [])" for a
    by (simp add: from_sender_def)
  have "length (from_sender ?rd a) \<le> 2 \<and> distinct (map (\<lambda>t. take 4 (tv_data t)) (from_sender ?rd a))" for a
    using ok sel unfolding f mempool_ok_def by (cases "tv_from tx = a") auto
  with ok new assms(3,4) show ?thesis
    unfolding mempool_ok_def p by (auto simp: mempool_contains_iff)
qed

lemma addValidatorTx_keeps:
  assumes "mempool_ok C h rd" and "5 \<le> length (randomList rd)"
  shows "\<exists>rd' r. addValidatorTx C h rd tx = Inr (rd', r) \<and> mempool_ok C h rd'
    \<and> length (validatorMempool rd') \<le> 8
    \<and> (if r then mempool_contains (validatorMempool rd') (TxValidator_hash C tx True) else rd' = rd)"
proof -
  let ?k = "TxValidator_hash C tx True"
  let ?add = "rd\<lparr>validatorMempool := validatorMempool rd @ [(?k, tx)]\<rparr>"
  have "{1..<5} = {1..4::nat}" by auto
  then have loop: "participates_loop (randomList rd) (tv_from tx) [1..<5] = Inr (tv_from tx \<in> participants rd)"
    using participates_loop_eq [of "[1..<5]" "randomList rd" "tv_from tx"] assms(2)
    by (simp add: participants_def del: upt_Suc)
  have ex: "\<exists>rd' r. addValidatorTx C h rd tx = Inr (rd', r) \<and> mempool_ok C h rd'
    \<and> (if r then mempool_contains (validatorMempool rd') ?k else rd' = rd)"
  proof (cases "mempool_contains (validatorMempool rd) ?k \<or> tv_nHeight tx \<noteq> h + 1 \<or> tv_from tx \<notin> participants rd")
    case True
    with assms(1) loop show ?thesis
      by (auto simp: addValidatorTx_def Let_def minValidators_def)
  next
    case False
    let ?ts = "from_sender rd (tv_from tx)"
    have add: "addValidatorTx C h rd tx =
       (if length ?ts = 0 then Inr (?add, True)
        else if length ?ts = 1
        then (if take 4 (tv_data (?ts ! 0)) = take 4 (tv_data tx) then Inr (rd, False) else Inr (?add, True))
        else Inr (rd, False))"
      using False loop by (simp add: addValidatorTx_def Let_def minValidators_def)
    have c: "mempool_contains (validatorMempool ?add) ?k" by (simp add: mempool_contains_iff)
    show ?thesis
    proof (cases "?ts = [] \<or> (\<exists>t. ?ts = [t] \<and> take 4 (tv_data t) \<noteq> take 4 (tv_data tx))")
      case True
      with False have ok: "mempool_ok C h ?add" by (intro mempool_ok_add [OF assms(1)]) blast+
      from True have "addValidatorTx C h rd tx = Inr (?add, True)"
        unfolding add by (elim disjE exE) simp_all
      with ok c show ?thesis by (intro exI [of _ ?add] exI [of _ True]) simp
    next
      case none: False
      then have "addValidatorTx C h rd tx = Inr (rd, False)"
        unfolding add by (auto simp: length_Suc_conv)
      with assms(1) show ?thesis by (intro exI [of _ rd] exI [of _ False]) simp
    qed
  qed
  with mempool_size show ?thesis by blast
qed

text \<open>C23. Adding a validator transaction always returns, keeps the mempool invariant and never grows the
  mempool beyond eight transactions; when it reports success the transaction is in the mempool,
  otherwise nothing has changed.\<close>

theorem addValidatorTx_invariant:
  assumes "mempool_ok C h rd" and "5 \<le> length (randomList rd)"
  shows "\<exists>rd' r. addValidatorTx C h rd tx = Inr (rd', r) \<and> mempool_ok C h rd'
    \<and> length (validatorMempool rd') \<le> 8
    \<and> (if r then mempool_contains (validatorMempool rd') (TxValidator_hash C tx True) else rd' = rd)"
  using assms by (rule addValidatorTx_keeps)

theorem addValidatorTx_invariant_witness:
  "\<exists>rd' r. addValidatorTx echo_crypto 0 round_rd (round_tx True 2) = Inr (rd', r) \<and> mempool_ok echo_crypto 0 rd'
    \<and> length (validatorMempool rd') \<le> 8
    \<and> (if r then mempool_contains (validatorMempool rd') (TxValidator_hash echo_crypto (round_tx True 2) True) else rd' = round_rd)"
proof (rule addValidatorTx_invariant)
  show "mempool_ok echo_crypto 0 round_rd"
    by (simp add: mempool_ok_def from_sender_def round_rd_def)
  show "5 \<le> length (randomList round_rd)" by (simp add: round_rd_def)
qed

lemma processBlock_finalized:
  assumes "finalized b"
  shows "\<exists>rd' seed. processBlock C rd b = Inr (rd', seed) \<and> seed = blockRandomness b
    \<and> mset (randomList rd') = mset (validators rd) \<and> validators rd' = validators rd
    \<and> (\<exists>g. shuffle C (blockRandomness b) (validators rd) = Inr (randomList rd', g))
    \<and> bestRandomSeed rd' = blockRandomness b \<and> (\<forall>h. mempool_ok C h rd')"
proof -
  obtain v' g where v: "shuffle C (blockRandomness b) (validators rd) = Inr (v', g)" "mset v' = mset (validators rd)"
    using shuffle_loop_spec [of 0 "validators rd" C "blockRandomness b"] by (auto simp: shuffle_def)
  then show ?thesis
    using assms by (simp add: processBlock_def Let_def mempool_ok_def from_sender_def)
qed

text \<open>C24. Processing a finalized block always succeeds: the new random list is a permutation of the
  validators that depends on nothing but the validators and the block's randomness, the seed is the
  block's randomness, and the mempool is empty, so its invariant holds for every height.\<close>

theorem processBlock_new_round:
  assumes "finalized b"
  shows "\<exists>rd' seed. processBlock C rd b = Inr (rd', seed) \<and> seed = blockRandomness b
    \<and> mset (randomList rd') = mset (validators rd) \<and> validators rd' = validators rd
    \<and> (\<exists>g. shuffle C (blockRandomness b) (validators rd) = Inr (randomList rd', g))
    \<and> bestRandomSeed rd' = blockRandomness b \<and> (\<forall>h. mempool_ok C h rd')"
  using assms by (rule processBlock_finalized)

theorem processBlock_new_round_witness:
  "\<exists>rd' seed. processBlock demo_crypto round_rd demo_block = Inr (rd', seed) \<and> seed = blockRandomness demo_block
    \<and> mset (randomList rd') = mset (validators round_rd) \<and> validators rd' = validators round_rd
    \<and> (\<exists>g. shuffle demo_crypto (blockRandomness demo_block) (validators round_rd) = Inr (randomList rd', g))
    \<and> bestRandomSeed rd' = blockRandomness demo_block \<and> (\<forall>h. mempool_ok demo_crypto h rd')"
  by (rule processBlock_new_round) (simp add: demo_block_def)

end
