(* ===== verification/Storages.thy ===== *)
theory Storages
  imports Blocks Db Hex_Strings
begin

text \<open>
  The block storage: the class \<^verbatim>\<open>Storage\<close> of \<^verbatim>\<open>src/core/storage.h\<close> and \<^verbatim>\<open>storage.cpp\<close>. The chain in memory is a
  list, oldest block first; the hash indices and the caches are maps; the database is threaded
  beside it. A shared pointer to an immutable object is the object, a null pointer is \<open>None\<close>. The
  mutexes only order the operations, so an operation is one function. Taking an element of an empty
  deque, following a null pointer and indexing a vector past its end are \<open>UndefinedBehaviour\<close>.
\<close>

subsection \<open>State\<close>

datatype StorageStatus = NotFound | OnChain | OnCache | OnDB

type_synonym tx_location = "bytes \<times> uint64 \<times> uint64"
type_synonym located_tx = "TxBlock option \<times> bytes \<times> uint64 \<times> uint64"

record Storage =
  st_chain :: "Block list"
  blockByHash :: "bytes \<rightharpoonup> Block"
  txByHash :: "bytes \<rightharpoonup> tx_location"
  blockHeightByHash :: "bytes \<rightharpoonup> uint64"
  blockHashByHeight :: "uint64 \<rightharpoonup> bytes"
  cachedBlocks :: "bytes \<rightharpoonup> Block"
  cachedTxs :: "bytes \<rightharpoonup> located_tx"

definition Storage_empty :: Storage where
  "Storage_empty = \<lparr>st_chain = [], blockByHash = Map.empty, txByHash = Map.empty, blockHeightByHash = Map.empty,
     blockHashByHeight = Map.empty, cachedBlocks = Map.empty, cachedTxs = Map.empty\<rparr>"

abbreviation tx_hash :: "crypto \<Rightarrow> TxBlock \<Rightarrow> bytes" where
  "tx_hash C tx \<equiv> TxBlock_hash C tx True"

definition null_located :: located_tx where
  "null_located = (None, FixedStr 32 [], 0, 0)"

subsection \<open>Adding and removing blocks\<close>

definition push_error :: "crypto \<Rightarrow> Block \<Rightarrow> string \<Rightarrow> exn" where
  "push_error C b m = (case Hex_fromBytes (Block_hash C b) False of
     Inl e \<Rightarrow> e
   | Inr h \<Rightarrow> RuntimeError (''Block '' @ hx_hex h @ m))"

text \<open>The loop that enters the transactions counts in a \<^verbatim>\<open>uint32_t\<close>.\<close>

fun index_txs :: "crypto \<Rightarrow> bytes \<Rightarrow> uint64 \<Rightarrow> uint32 \<Rightarrow> TxBlock list \<Rightarrow> (bytes \<rightharpoonup> tx_location) \<Rightarrow> (bytes \<rightharpoonup> tx_location)" where
  "index_txs C bh h i [] m = m"
| "index_txs C bh h i (tx # rest) m = index_txs C bh h (i + 1) rest (insert_new m (tx_hash C tx) (bh, ucast i, h))"

definition index_block :: "crypto \<Rightarrow> Block \<Rightarrow> Storage \<Rightarrow> Storage" where
  "index_block C b st = st
     \<lparr>blockByHash := insert_new (blockByHash st) (Block_hash C b) b,
      blockHashByHeight := insert_new (blockHashByHeight st) (nHeight b) (Block_hash C b),
      blockHeightByHash := insert_new (blockHeightByHash st) (Block_hash C b) (nHeight b),
      txByHash := index_txs C (Block_hash C b) (nHeight b) 0 (txs b) (txByHash st)\<rparr>"

definition pushBack :: "crypto \<Rightarrow> Storage \<Rightarrow> Block \<Rightarrow> Storage result" where
  "pushBack C st b =
     (if st_chain st \<noteq> [] \<and> Block_hash C (last (st_chain st)) \<noteq> prevBlockHash b
      then Inl (push_error C b '' does not have the correct previous block hash.'')
      else if st_chain st \<noteq> [] \<and> nHeight b \<noteq> nHeight (last (st_chain st)) + 1
      then Inl (push_error C b '' does not have the correct height.'')
      else Inr (index_block C b (st\<lparr>st_chain := st_chain st @ [b]\<rparr>)))"

definition pushFront :: "crypto \<Rightarrow> Storage \<Rightarrow> Block \<Rightarrow> Storage result" where
  "pushFront C st b =
     (if st_chain st \<noteq> [] \<and> prevBlockHash (hd (st_chain st)) \<noteq> Block_hash C b
      then Inl (push_error C b '' does not have the correct previous block hash.'')
      else if st_chain st \<noteq> [] \<and> nHeight b \<noteq> nHeight (hd (st_chain st)) - 1
      then Inl (push_error C b '' does not have the correct height.'')
      else Inr (index_block C b (st\<lparr>st_chain := b # st_chain st\<rparr>)))"

definition unindex_block :: "crypto \<Rightarrow> Block \<Rightarrow> Storage \<Rightarrow> Storage" where
  "unindex_block C b st = st
     \<lparr>txByHash := fold (\<lambda>tx m. m(tx_hash C tx := None)) (txs b) (txByHash st),
      blockByHash := (blockByHash st)(Block_hash C b := None)\<rparr>"

definition popBack :: "crypto \<Rightarrow> Storage \<Rightarrow> Storage result" where
  "popBack C st =
     (if st_chain st = [] then Inl UndefinedBehaviour
      else let st' = unindex_block C (last (st_chain st)) st in Inr (st'\<lparr>st_chain := butlast (st_chain st')\<rparr>))"

definition popFront :: "crypto \<Rightarrow> Storage \<Rightarrow> Storage result" where
  "popFront C st =
     (if st_chain st = [] then Inl UndefinedBehaviour
      else let st' = unindex_block C (hd (st_chain st)) st in Inr (st'\<lparr>st_chain := tl (st_chain st')\<rparr>))"

subsection \<open>Finding blocks\<close>

definition blockExists :: "'s rocksdb \<Rightarrow> 's \<Rightarrow> Storage \<Rightarrow> bytes \<Rightarrow> StorageStatus" where
  "blockExists R db st hash =
     (if blockByHash st hash \<noteq> None then OnChain
      else if cachedBlocks st hash \<noteq> None then OnCache
      else if DB_has R db hash DBPrefix_blocks then OnDB
      else NotFound)"

definition blockExists_height :: "Storage \<Rightarrow> uint64 \<Rightarrow> StorageStatus" where
  "blockExists_height st height = (case blockHashByHeight st height of
     Some hash \<Rightarrow>
       (if blockByHash st hash \<noteq> None then OnChain
        else if cachedBlocks st hash \<noteq> None then OnCache
        else OnDB)
   | None \<Rightarrow> NotFound)"

definition deref :: "'a option \<Rightarrow> 'a result" where
  "deref p = (case p of None \<Rightarrow> Inl UndefinedBehaviour | Some x \<Rightarrow> Inr x)"

text \<open>Reading a block from the database into the cache.\<close>

definition cache_block ::
  "'s rocksdb \<Rightarrow> 's \<Rightarrow> crypto \<Rightarrow> nat \<Rightarrow> uint64 \<Rightarrow> Storage \<Rightarrow> bytes \<Rightarrow> (Storage \<times> Block option) result" where
  "cache_block R db C thrNum cid st hash =
     bindE (Block_parse C thrNum (DB_get R db hash DBPrefix_blocks) cid) (\<lambda>b.
     let st' = st\<lparr>cachedBlocks := insert_new (cachedBlocks st) hash b\<rparr> in Inr (st', cachedBlocks st' hash))"

definition getBlock ::
  "'s rocksdb \<Rightarrow> 's \<Rightarrow> crypto \<Rightarrow> nat \<Rightarrow> uint64 \<Rightarrow> Storage \<Rightarrow> bytes \<Rightarrow> (Storage \<times> Block option) result" where
  "getBlock R db C thrNum cid st hash = (case blockExists R db st hash of
     NotFound \<Rightarrow> Inr (st, None)
   | OnChain \<Rightarrow> Inr (st, blockByHash st hash)
   | OnCache \<Rightarrow> Inr (st, cachedBlocks st hash)
   | OnDB \<Rightarrow> cache_block R db C thrNum cid st hash)"

definition getBlock_height ::
  "'s rocksdb \<Rightarrow> 's \<Rightarrow> crypto \<Rightarrow> nat \<Rightarrow> uint64 \<Rightarrow> Storage \<Rightarrow> uint64 \<Rightarrow> (Storage \<times> Block option) result" where
  "getBlock_height R db C thrNum cid st height = (case blockExists_height st height of
     NotFound \<Rightarrow> Inr (st, None)
   | OnChain \<Rightarrow> bindE (deref (blockHashByHeight st height)) (\<lambda>hash. Inr (st, blockByHash st hash))
   | OnCache \<Rightarrow> bindE (deref (blockHashByHeight st height)) (\<lambda>hash. Inr (st, cachedBlocks st hash))
   | OnDB \<Rightarrow> bindE (deref (blockHashByHeight st height)) (\<lambda>hash. cache_block R db C thrNum cid st hash))"

definition latest :: "Storage \<Rightarrow> Block result" where
  "latest st = (if st_chain st = [] then Inl UndefinedBehaviour else Inr (last (st_chain st)))"

definition currentChainSize :: "Storage \<Rightarrow> uint64 result" where
  "currentChainSize st = bindE (latest st) (\<lambda>b. Inr (nHeight b + 1))"

subsection \<open>Finding transactions\<close>

text \<open>The size in front of a transaction is read as a \<^verbatim>\<open>uint32_t\<close> and four is added at that width.\<close>

fun skip_txs :: "bytes \<Rightarrow> nat \<Rightarrow> nat \<Rightarrow> nat result" where
  "skip_txs blockData index 0 = Inr index"
| "skip_txs blockData index (Suc n) =
     bindE (bindE (substr blockData index 4) bytesToUint32) (\<lambda>txSize.
     skip_txs blockData (index + unat (txSize + 4)) n)"

definition getTxFromBlockWithIndex :: "crypto \<Rightarrow> uint64 \<Rightarrow> bytes \<Rightarrow> uint64 \<Rightarrow> TxBlock result" where
  "getTxFromBlockWithIndex C cid blockData txIndex =
     bindE (skip_txs blockData 217 (unat txIndex)) (\<lambda>index.
     bindE (bindE (substr blockData index 4) bytesToUint32) (\<lambda>txSize.
     bindE (substr blockData (index + 4) (unat txSize)) (\<lambda>data. TxBlock_parse C data cid)))"

definition txExists :: "'s rocksdb \<Rightarrow> 's \<Rightarrow> Storage \<Rightarrow> bytes \<Rightarrow> StorageStatus" where
  "txExists R db st tx =
     (if txByHash st tx \<noteq> None then OnChain
      else if cachedTxs st tx \<noteq> None then OnCache
      else if DB_has R db tx DBPrefix_txToBlocks then OnDB
      else NotFound)"

definition tx_of_block :: "Block option \<Rightarrow> uint64 \<Rightarrow> TxBlock result" where
  "tx_of_block p i = bindE (deref p) (\<lambda>b. view_at (txs b) (unat i))"

definition cache_tx :: "Storage \<Rightarrow> bytes \<Rightarrow> located_tx \<Rightarrow> Storage \<times> located_tx" where
  "cache_tx st h v = (let m = insert_new (cachedTxs st) h v in (st\<lparr>cachedTxs := m\<rparr>, the (m h)))"

definition getTx ::
  "'s rocksdb \<Rightarrow> 's \<Rightarrow> crypto \<Rightarrow> uint64 \<Rightarrow> Storage \<Rightarrow> bytes \<Rightarrow> (Storage \<times> located_tx) result" where
  "getTx R db C cid st tx = (case txExists R db st tx of
     NotFound \<Rightarrow> Inr (st, null_located)
   | OnChain \<Rightarrow>
       bindE (deref (txByHash st tx)) (\<lambda>(blockHash, blockIndex, blockHeight).
       bindE (tx_of_block (blockByHash st blockHash) blockIndex) (\<lambda>transaction.
       if tx_hash C transaction \<noteq> tx then Inl (RuntimeError ''Tx hash mismatch'')
       else Inr (st, Some transaction, blockHash, blockIndex, blockHeight)))
   | OnCache \<Rightarrow> bindE (deref (cachedTxs st tx)) (\<lambda>v. Inr (st, v))
   | OnDB \<Rightarrow>
       (let txData = DB_get R db tx DBPrefix_txToBlocks in
        bindE (bindE (substr txData 0 32) Hash_view) (\<lambda>blockHash.
        bindE (bindE (substr txData 32 4) bytesToUint32) (\<lambda>blockIndex.
        bindE (bindE (substr txData 36 8) bytesToUint64) (\<lambda>blockHeight.
        bindE (getTxFromBlockWithIndex C cid (DB_get R db blockHash DBPrefix_blocks) (ucast blockIndex)) (\<lambda>Tx.
        Inr (cache_tx st tx (Some Tx, blockHash, ucast blockIndex, blockHeight))))))))"

text \<open>The part the two lookups by position share once the block is known to be cached, or in the database.\<close>

definition cached_by_index :: "crypto \<Rightarrow> Storage \<Rightarrow> bytes \<Rightarrow> uint64 \<Rightarrow> (Storage \<times> located_tx) result" where
  "cached_by_index C st blockHash blockIndex =
     bindE (tx_of_block (cachedBlocks st blockHash) blockIndex) (\<lambda>t.
     let (m, v) = index_default (cachedTxs st) (tx_hash C t) null_located in Inr (st\<lparr>cachedTxs := m\<rparr>, v))"

definition db_by_index ::
  "'s rocksdb \<Rightarrow> 's \<Rightarrow> crypto \<Rightarrow> uint64 \<Rightarrow> Storage \<Rightarrow> bytes \<Rightarrow> uint64 \<Rightarrow> (Storage \<times> located_tx) result" where
  "db_by_index R db C cid st blockHash blockIndex =
     bindE (getTxFromBlockWithIndex C cid (DB_get R db blockHash DBPrefix_blocks) blockIndex) (\<lambda>tx.
     let (m, blockHeight) = index_default (blockHeightByHash st) blockHash 0 in
     Inr (cache_tx (st\<lparr>blockHeightByHash := m\<rparr>) (tx_hash C tx) (Some tx, blockHash, blockIndex, blockHeight)))"

text \<open>\<^verbatim>\<open>txByHash[...]\<close> inserts a default entry for a hash that is not indexed. When the lookup then throws, that entry stays
  in the code, while the result here is only the exception.\<close>

definition getTxByBlockHashAndIndex ::
  "'s rocksdb \<Rightarrow> 's \<Rightarrow> crypto \<Rightarrow> uint64 \<Rightarrow> Storage \<Rightarrow> bytes \<Rightarrow> uint64 \<Rightarrow> (Storage \<times> located_tx) result" where
  "getTxByBlockHashAndIndex R db C cid st blockHash blockIndex = (case blockExists R db st blockHash of
     NotFound \<Rightarrow> Inr (st, null_located)
   | OnChain \<Rightarrow>
       bindE (tx_of_block (blockByHash st blockHash) blockIndex) (\<lambda>transaction.
       let (m, txBlockHash, txBlockIndex, txBlockHeight)
             = index_default (txByHash st) (tx_hash C transaction) (FixedStr 32 [], 0, 0) in
       if txBlockHash \<noteq> blockHash \<or> txBlockIndex \<noteq> blockIndex then Inl (RuntimeError ''Tx hash mismatch'')
       else Inr (st\<lparr>txByHash := m\<rparr>, Some transaction, txBlockHash, txBlockIndex, txBlockHeight))
   | OnCache \<Rightarrow> cached_by_index C st blockHash blockIndex
   | OnDB \<Rightarrow> db_by_index R db C cid st blockHash blockIndex)"

definition getTxByBlockNumberAndIndex ::
  "'s rocksdb \<Rightarrow> 's \<Rightarrow> crypto \<Rightarrow> uint64 \<Rightarrow> Storage \<Rightarrow> uint64 \<Rightarrow> uint64 \<Rightarrow> (Storage \<times> located_tx) result" where
  "getTxByBlockNumberAndIndex R db C cid st blockHeight blockIndex = (case blockExists_height st blockHeight of
     NotFound \<Rightarrow> Inr (st, null_located)
   | OnChain \<Rightarrow>
       bindE (deref (blockHashByHeight st blockHeight)) (\<lambda>blockHash.
       bindE (tx_of_block (blockByHash st blockHash) blockIndex) (\<lambda>transaction.
       let (m, txBlockHash, txBlockIndex, txBlockHeight)
             = index_default (txByHash st) (tx_hash C transaction) (FixedStr 32 [], 0, 0) in
       Inr (st\<lparr>txByHash := m\<rparr>, Some transaction, txBlockHash, txBlockIndex, txBlockHeight)))
   | OnCache \<Rightarrow> bindE (deref (blockHashByHeight st blockHeight)) (\<lambda>blockHash. cached_by_index C st blockHash blockIndex)
   | OnDB \<Rightarrow> bindE (deref (blockHashByHeight st blockHeight)) (\<lambda>blockHash. db_by_index R db C cid st blockHash blockIndex))"

subsection \<open>Opening and closing\<close>

definition latest_key :: bytes where
  "latest_key = bytes_of_string ''latest''"

definition genesis_key :: string where
  "genesis_key = ''0xe89ef6409c467285bcae9f80ab1cfeb3487cfe61ab28fb7d36443e1daa0c2867''"

definition initializeBlockchain :: "'s rocksdb \<Rightarrow> crypto \<Rightarrow> 's \<Rightarrow> 's result" where
  "initializeBlockchain R C db =
     (if DB_has R db latest_key DBPrefix_blocks then Inr db
      else bindE (Hex_toBytes genesis_key) (\<lambda>key.
           bindE (Block_finalize C (Block_new (FixedStr 32 (uint256ToBytes 0)) 1656356645000000 0)
                    (FixedStr 32 key) 1656356646000000) (\<lambda>(genesis, _).
           let db1 = fst (DB_put R db latest_key (serializeBlock genesis) DBPrefix_blocks);
               db2 = fst (DB_put R db1 (uint64ToBytes (nHeight genesis)) (Block_hash C genesis) DBPrefix_blockHeightMaps);
               db3 = fst (DB_put R db2 (Block_hash C genesis) (serializeBlock genesis) DBPrefix_blocks)
           in Inr db3)))"

definition load_map :: "DBEntry \<Rightarrow> Storage \<Rightarrow> Storage result" where
  "load_map e st =
     bindE (bytesToUint64 (de_key e)) (\<lambda>height.
     bindE (Hash_view (de_value e)) (\<lambda>hash.
     Inr (st\<lparr>blockHashByHeight := insert_new (blockHashByHeight st) height hash,
             blockHeightByHash := insert_new (blockHeightByHash st) hash height\<rparr>)))"

definition load_block :: "'s rocksdb \<Rightarrow> crypto \<Rightarrow> nat \<Rightarrow> uint64 \<Rightarrow> 's \<Rightarrow> uint64 \<Rightarrow> nat \<Rightarrow> Storage \<Rightarrow> Storage result" where
  "load_block R C thrNum cid db depth i st =
     (let (m, hash) = index_default (blockHashByHeight st) (depth - of_nat i) (FixedStr 32 []) in
      bindE (Block_parse C thrNum (DB_get R db hash DBPrefix_blocks) cid) (\<lambda>b.
      pushFront C (st\<lparr>blockHashByHeight := m\<rparr>) b))"

text \<open>The constructor. The loop runs while \<^verbatim>\<open>i <= 500 && i <= depth\<close>.\<close>

definition Storage_open :: "'s rocksdb \<Rightarrow> crypto \<Rightarrow> nat \<Rightarrow> uint64 \<Rightarrow> 's \<Rightarrow> (Storage \<times> 's) result" where
  "Storage_open R C thrNum cid db0 =
     bindE (initializeBlockchain R C db0) (\<lambda>db.
     bindE (Block_parse C thrNum (DB_get R db latest_key DBPrefix_blocks) cid) (\<lambda>latest.
     let depth = nHeight latest in
     bindE (foldE load_map (DB_getBatch R db DBPrefix_blockHeightMaps []) Storage_empty) (\<lambda>st.
     bindE (foldE (load_block R C thrNum cid db depth) [0..<Suc (min 500 (unat depth))] st) (\<lambda>st'.
     Inr (st', db)))))"

fun tx_entries :: "crypto \<Rightarrow> Block \<Rightarrow> uint32 \<Rightarrow> TxBlock list \<Rightarrow> DBEntry list" where
  "tx_entries C b i [] = []"
| "tx_entries C b i (tx # rest) =
     \<lparr>de_key = tx_hash C tx, de_value = Block_hash C b @ uint32ToBytes i @ uint64ToBytes (nHeight b)\<rparr>
     # tx_entries C b (i + 1) rest"

text \<open>The destructor empties the chain from the front; only the three batches and the last block survive.\<close>

definition Storage_close :: "'s rocksdb \<Rightarrow> crypto \<Rightarrow> Storage \<Rightarrow> 's \<Rightarrow> 's result" where
  "Storage_close R C st db =
     bindE (latest st) (\<lambda>last_block.
     let blockBatch = \<lparr>bt_puts = map (\<lambda>b. \<lparr>de_key = Block_hash C b, de_value = serializeBlock b\<rparr>) (st_chain st), bt_dels = []\<rparr>;
         heightBatch = \<lparr>bt_puts = map (\<lambda>b. \<lparr>de_key = uint64ToBytes (nHeight b), de_value = Block_hash C b\<rparr>) (st_chain st), bt_dels = []\<rparr>;
         txToBlockBatch = \<lparr>bt_puts = concat (map (\<lambda>b. tx_entries C b 0 (txs b)) (st_chain st)), bt_dels = []\<rparr>;
         db1 = fst (DB_putBatch R db blockBatch DBPrefix_blocks);
         db2 = fst (DB_putBatch R db1 heightBatch DBPrefix_blockHeightMaps);
         db3 = fst (DB_putBatch R db2 txToBlockBatch DBPrefix_txToBlocks)
     in Inr (fst (DB_put R db3 latest_key (serializeBlock last_block) DBPrefix_blocks)))"

subsection \<open>The index of transactions\<close>

lemma index_txs_keeps: "m t = Some v \<Longrightarrow> index_txs C bh h i ts m t = Some v"
  by (induction ts arbitrary: i m) (simp_all add: insert_new_Some)

lemma index_txs_Some:
  "index_txs C bh h i ts m t = Some v \<Longrightarrow>
   m t = Some v \<or> (m t = None \<and> (\<exists>j<length ts. v = (bh, ucast (i + of_nat j), h) \<and> tx_hash C (ts ! j) = t))"
proof (induction ts arbitrary: i m)
  case (Cons x ts)
  show ?case
  proof (cases "m t = None \<and> tx_hash C x = t")
    case True
    then have "index_txs C bh h (i + 1) ts (insert_new m t (bh, ucast i, h)) t = Some (bh, ucast i, h)"
      by (intro index_txs_keeps) simp
    with True Cons.prems show ?thesis by (intro disjI2 conjI exI [of _ 0]) auto
  next
    case False
    then have "insert_new m (tx_hash C x) (bh, ucast i, h) t = m t" by (auto simp: insert_new_def)
    with Cons.IH Cons.prems show ?thesis by (fastforce simp: add.assoc)
  qed
qed simp

lemma index_txs_fresh:
  assumes "distinct (map (tx_hash C) ts)" and "\<forall>x\<in>set ts. m (tx_hash C x) = None" and "j < length ts"
  shows "index_txs C bh h i ts m (tx_hash C (ts ! j)) = Some (bh, ucast (i + of_nat j), h)"
  using assms
proof (induction ts arbitrary: i j m)
  case (Cons x ts)
  show ?case
  proof (cases j)
    case 0
    then show ?thesis using Cons.prems by (simp add: index_txs_keeps)
  next
    case (Suc j')
    have "\<forall>y\<in>set ts. insert_new m (tx_hash C x) (bh, ucast i, h) (tx_hash C y) = None"
      using Cons.prems by (auto simp: insert_new_def) (metis imageI)
    then have "index_txs C bh h (i + 1) ts (insert_new m (tx_hash C x) (bh, ucast i, h)) (tx_hash C (ts ! j'))
        = Some (bh, ucast (i + 1 + of_nat j'), h)"
      using Suc Cons.prems by (intro Cons.IH) simp_all
    then show ?thesis using Suc by (simp add: add.assoc del: insert_new_fresh)
  qed
qed simp

lemma unat_tx_index: "j < 2 ^ 32 \<Longrightarrow> unat (ucast (of_nat j :: uint32) :: uint64) = j"
  by (simp add: unat_ucast_mod unat_of_nat)

lemma erase_txs: "fold (\<lambda>tx m. m(tx_hash C tx := None)) ts m t = (if t \<in> tx_hash C ` set ts then None else m t)"
  by (induction ts arbitrary: m) auto

subsection \<open>Invariant of the chain\<close>

definition linked :: "crypto \<Rightarrow> Block \<Rightarrow> Block \<Rightarrow> bool" where
  "linked C a b \<longleftrightarrow> prevBlockHash b = Block_hash C a \<and> nHeight b = nHeight a + 1"

definition tx_entry_ok :: "crypto \<Rightarrow> Storage \<Rightarrow> bytes \<Rightarrow> tx_location \<Rightarrow> bool" where
  "tx_entry_ok C st t loc \<longleftrightarrow> (case loc of (bh, i, h) \<Rightarrow>
     (\<exists>b. blockByHash st bh = Some b \<and> nHeight b = h \<and> unat i < length (txs b) \<and> tx_hash C (txs b ! unat i) = t))"

definition storage_inv :: "crypto \<Rightarrow> Storage \<Rightarrow> bool" where
  "storage_inv C st \<longleftrightarrow>
     successively (linked C) (st_chain st)
     \<and> distinct (map (Block_hash C) (st_chain st))
     \<and> (\<forall>k b. blockByHash st k = Some b \<longleftrightarrow> b \<in> set (st_chain st) \<and> Block_hash C b = k)
     \<and> (\<forall>t loc. txByHash st t = Some loc \<longrightarrow> tx_entry_ok C st t loc)"

lemma storage_inv_empty: "storage_inv C Storage_empty"
  by (simp add: storage_inv_def Storage_empty_def)

lemma storage_inv_block:
  "storage_inv C st \<Longrightarrow> blockByHash st k = Some b \<longleftrightarrow> b \<in> set (st_chain st) \<and> Block_hash C b = k"
  by (simp add: storage_inv_def)

lemma storage_inv_fresh:
  "storage_inv C st \<Longrightarrow> k \<notin> Block_hash C ` set (st_chain st) \<Longrightarrow> blockByHash st k = None"
  by (cases "blockByHash st k") (auto simp: storage_inv_block)

lemma storage_inv_tx: "storage_inv C st \<Longrightarrow> txByHash st t = Some loc \<Longrightarrow> tx_entry_ok C st t loc"
  unfolding storage_inv_def by blast

lemma storage_invI:
  assumes "successively (linked C) (st_chain st)" "distinct (map (Block_hash C) (st_chain st))"
    and "\<And>k b. blockByHash st k = Some b \<longleftrightarrow> b \<in> set (st_chain st) \<and> Block_hash C b = k"
    and "\<And>t loc. txByHash st t = Some loc \<Longrightarrow> tx_entry_ok C st t loc"
  shows "storage_inv C st"
  unfolding storage_inv_def using assms by blast

lemma tx_entry_ok_mono:
  assumes "tx_entry_ok C st t loc" and "\<And>k b. blockByHash st k = Some b \<Longrightarrow> blockByHash st' k = Some b"
  shows "tx_entry_ok C st' t loc"
  using assms unfolding tx_entry_ok_def by (cases loc) auto

lemma index_block_inv:
  assumes inv: "storage_inv C st" and fresh: "Block_hash C b \<notin> Block_hash C ` set (st_chain st)"
    and small: "length (txs b) < 2 ^ 32"
    and ch: "successively (linked C) ch" "set ch = insert b (set (st_chain st))" "distinct (map (Block_hash C) ch)"
  shows "storage_inv C (index_block C b (st\<lparr>st_chain := ch\<rparr>))"
proof -
  let ?st = "index_block C b (st\<lparr>st_chain := ch\<rparr>)"
  have none: "blockByHash st (Block_hash C b) = None" by (rule storage_inv_fresh [OF inv fresh])
  have by_hash: "blockByHash ?st = (blockByHash st)(Block_hash C b \<mapsto> b)" by (simp add: index_block_def none)
  have chain: "st_chain ?st = ch" by (simp add: index_block_def)
  show ?thesis
  proof (rule storage_invI; (unfold chain)?)
    fix k x
    show "blockByHash ?st k = Some x \<longleftrightarrow> x \<in> set ch \<and> Block_hash C x = k"
      using fresh by (auto simp: by_hash ch(2) storage_inv_block [OF inv]) (metis imageI)
  next
    fix t loc
    assume "txByHash ?st t = Some loc"
    then have "index_txs C (Block_hash C b) (nHeight b) 0 (txs b) (txByHash st) t = Some loc"
      by (simp add: index_block_def)
    from index_txs_Some [OF this] show "tx_entry_ok C ?st t loc"
    proof (elim disjE conjE exE)
      assume "txByHash st t = Some loc"
      from storage_inv_tx [OF inv this] show ?thesis
        by (rule tx_entry_ok_mono) (use none in \<open>auto simp: by_hash\<close>)
    next
      fix j
      assume "j < length (txs b)" "loc = (Block_hash C b, ucast (0 + of_nat j :: uint32), nHeight b)" "tx_hash C (txs b ! j) = t"
      then show ?thesis using small unat_tx_index [of j] by (simp add: tx_entry_ok_def by_hash)
    qed
  qed (use ch in simp_all)
qed

lemma pushBack_inv:
  assumes "storage_inv C st" "Block_hash C b \<notin> Block_hash C ` set (st_chain st)" "length (txs b) < 2 ^ 32"
    and p: "pushBack C st b = Inr st'"
  shows "storage_inv C st'"
proof -
  from p have st': "st' = index_block C b (st\<lparr>st_chain := st_chain st @ [b]\<rparr>)"
    and l: "st_chain st \<noteq> [] \<Longrightarrow> linked C (last (st_chain st)) b"
    by (auto simp: pushBack_def linked_def split: if_splits)
  show ?thesis unfolding st'
    by (rule index_block_inv) (use assms l in \<open>auto simp: storage_inv_def successively_append_iff\<close>)
qed

lemma pushFront_inv:
  assumes "storage_inv C st" "Block_hash C b \<notin> Block_hash C ` set (st_chain st)" "length (txs b) < 2 ^ 32"
    and p: "pushFront C st b = Inr st'"
  shows "storage_inv C st'"
proof -
  from p have st': "st' = index_block C b (st\<lparr>st_chain := b # st_chain st\<rparr>)"
    and l: "st_chain st \<noteq> [] \<Longrightarrow> linked C b (hd (st_chain st))"
    by (auto simp: pushFront_def linked_def split: if_splits)
  show ?thesis unfolding st'
    by (rule index_block_inv) (use assms l in \<open>auto simp: storage_inv_def successively_Cons\<close>)
qed

text \<open>Removing the block at either end.\<close>

lemma unindex_block_inv:
  assumes inv: "storage_inv C st"
    and ch: "successively (linked C) ch" "distinct (map (Block_hash C) ch)" "b \<in> set (st_chain st)"
      "set ch = set (st_chain st) - {b}"
  shows "storage_inv C ((unindex_block C b st)\<lparr>st_chain := ch\<rparr>)"
proof -
  let ?st = "(unindex_block C b st)\<lparr>st_chain := ch\<rparr>"
  have inj: "inj_on (Block_hash C) (set (st_chain st))" using inv by (simp add: storage_inv_def distinct_map)
  have by_hash: "blockByHash ?st = (blockByHash st)(Block_hash C b := None)" by (simp add: unindex_block_def)
  have chain: "st_chain ?st = ch" by simp
  show ?thesis
  proof (rule storage_invI; (unfold chain)?)
    fix k x
    show "blockByHash ?st k = Some x \<longleftrightarrow> x \<in> set ch \<and> Block_hash C x = k"
      using inj_onD [OF inj _ _ ch(3)] by (auto simp: by_hash ch(4) storage_inv_block [OF inv])
  next
    fix t loc
    assume "txByHash ?st t = Some loc"
    then have t: "t \<notin> tx_hash C ` set (txs b)" and o: "txByHash st t = Some loc"
      by (auto simp: unindex_block_def erase_txs split: if_splits)
    obtain bh i h where loc: "loc = (bh, i, h)" by (cases loc)
    from storage_inv_tx [OF inv o] loc obtain x where x: "blockByHash st bh = Some x" "nHeight x = h"
      "unat i < length (txs x)" "tx_hash C (txs x ! unat i) = t" by (auto simp: tx_entry_ok_def)
    have "x \<noteq> b" using t x by auto
    then have "bh \<noteq> Block_hash C b" using x(1) inj_onD [OF inj _ _ ch(3)] by (auto simp: storage_inv_block [OF inv])
    with x loc show "tx_entry_ok C ?st t loc" by (simp add: tx_entry_ok_def by_hash)
  qed (use ch in simp_all)
qed

lemma popBack_inv:
  assumes inv: "storage_inv C st" and p: "popBack C st = Inr st'"
  shows "storage_inv C st'"
proof -
  from p obtain xs x where ch: "st_chain st = xs @ [x]" by (cases "st_chain st" rule: rev_cases) (auto simp: popBack_def)
  with p have st': "st' = (unindex_block C x st)\<lparr>st_chain := xs\<rparr>" by (simp add: popBack_def unindex_block_def Let_def)
  show ?thesis unfolding st'
    by (rule unindex_block_inv [OF inv]) (use inv ch in \<open>auto simp: storage_inv_def successively_append_iff\<close>)
qed

lemma popFront_inv:
  assumes inv: "storage_inv C st" and p: "popFront C st = Inr st'"
  shows "storage_inv C st'"
proof -
  from p obtain xs x where ch: "st_chain st = x # xs" by (cases "st_chain st") (auto simp: popFront_def)
  with p have st': "st' = (unindex_block C x st)\<lparr>st_chain := xs\<rparr>" by (simp add: popFront_def unindex_block_def Let_def)
  show ?thesis unfolding st'
    by (rule unindex_block_inv [OF inv]) (use inv ch in \<open>auto simp: storage_inv_def successively_Cons\<close>)
qed

subsection \<open>Sequences of chain operations\<close>

text \<open>Blocks are added with a hash the chain does not hold yet: two blocks of one chain have different
  heights, so this excludes a hash collision.\<close>

inductive storage_reach :: "crypto \<Rightarrow> Storage \<Rightarrow> bool" for C where
  empty: "storage_reach C Storage_empty"
| push_back: "storage_reach C st \<Longrightarrow> Block_hash C b \<notin> Block_hash C ` set (st_chain st) \<Longrightarrow> length (txs b) < 2 ^ 32
    \<Longrightarrow> pushBack C st b = Inr st' \<Longrightarrow> storage_reach C st'"
| push_front: "storage_reach C st \<Longrightarrow> Block_hash C b \<notin> Block_hash C ` set (st_chain st) \<Longrightarrow> length (txs b) < 2 ^ 32
    \<Longrightarrow> pushFront C st b = Inr st' \<Longrightarrow> storage_reach C st'"
| pop_back: "storage_reach C st \<Longrightarrow> popBack C st = Inr st' \<Longrightarrow> storage_reach C st'"
| pop_front: "storage_reach C st \<Longrightarrow> popFront C st = Inr st' \<Longrightarrow> storage_reach C st'"

lemma storage_reach_inv: "storage_reach C st \<Longrightarrow> storage_inv C st"
proof (induction rule: storage_reach.induct)
  case empty
  show ?case by (rule storage_inv_empty)
next
  case (push_back st b st')
  show ?case by (rule pushBack_inv [OF push_back.IH push_back.hyps(2-4)])
next
  case (push_front st b st')
  show ?case by (rule pushFront_inv [OF push_front.IH push_front.hyps(2-4)])
next
  case (pop_back st st')
  show ?case by (rule popBack_inv [OF pop_back.IH pop_back.hyps(2)])
next
  case (pop_front st st')
  show ?case by (rule popFront_inv [OF pop_front.IH pop_front.hyps(2)])
qed

lemma getTx_chain:
  assumes "storage_inv C st" and "txByHash st t = Some (bh, i, h)"
  obtains b where "b \<in> set (st_chain st)" "Block_hash C b = bh" "nHeight b = h" "unat i < length (txs b)"
    "tx_hash C (txs b ! unat i) = t" "getTx R db C cid st t = Inr (st, Some (txs b ! unat i), bh, i, h)"
proof -
  from storage_inv_tx [OF assms] obtain b where b: "blockByHash st bh = Some b" "nHeight b = h"
    "unat i < length (txs b)" "tx_hash C (txs b ! unat i) = t" by (auto simp: tx_entry_ok_def)
  then have "getTx R db C cid st t = Inr (st, Some (txs b ! unat i), bh, i, h)"
    using assms(2) by (simp add: getTx_def txExists_def deref_def tx_of_block_def view_at_def)
  with b that [of b] storage_inv_block [OF assms(1), of bh b] show ?thesis by simp
qed

text \<open>C18. However blocks were added and removed at both ends, each block of the chain in memory names its
  predecessor's hash and height, the hash index holds exactly the blocks of the chain, and every
  indexed transaction is found: \<^verbatim>\<open>getTx\<close> returns it with the hash, position and height of a block of
  the chain that has it there, and neither fails nor follows a dangling entry.\<close>

theorem Storage_chain_sound:
  assumes "storage_reach C st" and "txByHash st t = Some (bh, i, h)"
  shows "successively (linked C) (st_chain st)
    \<and> (\<forall>k b. blockByHash st k = Some b \<longleftrightarrow> b \<in> set (st_chain st) \<and> Block_hash C b = k)
    \<and> (\<exists>b\<in>set (st_chain st). Block_hash C b = bh \<and> nHeight b = h \<and> unat i < length (txs b)
         \<and> tx_hash C (txs b ! unat i) = t \<and> getTx R db C cid st t = Inr (st, Some (txs b ! unat i), bh, i, h))"
proof -
  note inv = storage_reach_inv [OF assms(1)]
  from getTx_chain [OF inv assms(2), of R db cid] show ?thesis using inv unfolding storage_inv_def by blast
qed

definition demo_storage :: Storage where
  "demo_storage = index_block demo_crypto demo_block (Storage_empty\<lparr>st_chain := [demo_block]\<rparr>)"

lemma demo_storage_push: "pushBack demo_crypto Storage_empty demo_block = Inr demo_storage"
  by (simp add: pushBack_def demo_storage_def Storage_empty_def)

lemma demo_storage_reach: "storage_reach demo_crypto demo_storage"
  by (rule storage_reach.push_back [OF storage_reach.empty _ _ demo_storage_push])
    (simp_all add: Storage_empty_def demo_block_members)

lemma demo_storage_tx:
  "txByHash demo_storage (tx_hash demo_crypto (demo_tx (replicate 60 9))) = Some (Block_hash demo_crypto demo_block, 0, 1)"
  by (simp add: demo_storage_def index_block_def demo_block_members Storage_empty_def)

theorem Storage_chain_sound_witness:
  "\<exists>b\<in>set (st_chain demo_storage). nHeight b = 1
     \<and> getTx alist_rocks [] demo_crypto 8080 demo_storage (tx_hash demo_crypto (demo_tx (replicate 60 9)))
       = Inr (demo_storage, Some (txs b ! 0), Block_hash demo_crypto demo_block, 0, 1)"
  using Storage_chain_sound [OF demo_storage_reach demo_storage_tx, of alist_rocks "[]" 8080] by auto

text \<open>\<^verbatim>\<open>pushBack\<close> accepts a block exactly when the chain is empty or the block names the hash and the height
  of the last block; then the block is the latest one, is found by its hash, and each of its
  transactions that was not indexed before is found with its position.\<close>

theorem Storage_pushBack_visible:
  assumes "storage_reach C st" and "Block_hash C b \<notin> Block_hash C ` set (st_chain st)"
    and "length (txs b) < 2 ^ 32" and "distinct (map (tx_hash C) (txs b))"
    and "\<forall>tx\<in>set (txs b). txByHash st (tx_hash C tx) = None"
    and "st_chain st = [] \<or> linked C (last (st_chain st)) b"
  shows "\<exists>st'. pushBack C st b = Inr st' \<and> st_chain st' = st_chain st @ [b] \<and> latest st' = Inr b
    \<and> getBlock R db C thrNum cid st' (Block_hash C b) = Inr (st', Some b)
    \<and> (\<forall>j<length (txs b). getTx R db C cid st' (tx_hash C (txs b ! j))
         = Inr (st', Some (txs b ! j), Block_hash C b, of_nat j, nHeight b))"
proof -
  let ?st = "index_block C b (st\<lparr>st_chain := st_chain st @ [b]\<rparr>)"
  have p: "pushBack C st b = Inr ?st" using assms(6) by (auto simp: pushBack_def linked_def)
  have inv: "storage_inv C ?st"
    by (rule storage_reach_inv [OF storage_reach.push_back [OF assms(1-3) p]])
  have b: "blockByHash ?st (Block_hash C b) = Some b"
    unfolding storage_inv_block [OF inv] by (simp add: index_block_def)
  have t: "txByHash ?st (tx_hash C (txs b ! j)) = Some (Block_hash C b, of_nat j, nHeight b)"
    if "j < length (txs b)" for j
  proof -
    have "(ucast (of_nat j :: uint32) :: uint64) = of_nat j"
      using that assms(3) unat_tx_index [of j] by (simp add: word_unat_eq_iff unat_of_nat)
    with index_txs_fresh [OF assms(4,5) that, of "Block_hash C b" "nHeight b" 0] show ?thesis
      by (simp add: index_block_def)
  qed
  have "getTx R db C cid ?st (tx_hash C (txs b ! j)) = Inr (?st, Some (txs b ! j), Block_hash C b, of_nat j, nHeight b)"
    if j: "j < length (txs b)" for j
  proof -
    have u: "unat (of_nat j :: uint64) = j" using j assms(3) by (simp add: unat_of_nat)
    show ?thesis
      using j by (simp add: getTx_def txExists_def t [OF j] b u deref_def tx_of_block_def view_at_def)
  qed
  moreover have "st_chain ?st = st_chain st @ [b]" by (simp add: index_block_def)
  moreover have "getBlock R db C thrNum cid ?st (Block_hash C b) = Inr (?st, Some b)"
    by (simp add: getBlock_def blockExists_def b)
  ultimately show ?thesis using p by (auto simp: latest_def)
qed

theorem Storage_pushBack_visible_witness:
  "\<exists>st'. pushBack demo_crypto Storage_empty demo_block = Inr st' \<and> latest st' = Inr demo_block
    \<and> getTx alist_rocks [] demo_crypto 8080 st' (tx_hash demo_crypto (txs demo_block ! 0))
      = Inr (st', Some (txs demo_block ! 0), Block_hash demo_crypto demo_block, of_nat 0, nHeight demo_block)"
  using Storage_pushBack_visible [OF storage_reach.empty, of demo_crypto demo_block alist_rocks "[]" 1 8080]
  by (auto simp: Storage_empty_def demo_block_members)

text \<open>Removing a block leaves its height in the index. When another block is pushed at that height, the
  lookup by height still answers with the removed block's hash: it does not report the new block,
  which is on the chain, and reports as stored in the database a block that need not be there.\<close>

theorem Storage_height_stale:
  assumes "storage_reach C st" and "st_chain st \<noteq> []" and "popBack C st = Inr st1"
    and "blockHashByHeight st (nHeight (last (st_chain st))) = Some (Block_hash C (last (st_chain st)))"
    and "cachedBlocks st (Block_hash C (last (st_chain st))) = None"
    and "pushBack C st1 b = Inr st2" and "nHeight b = nHeight (last (st_chain st))"
    and "Block_hash C b \<noteq> Block_hash C (last (st_chain st))"
  shows "last (st_chain st2) = b \<and> blockHashByHeight st2 (nHeight b) = Some (Block_hash C (last (st_chain st)))
    \<and> blockExists_height st2 (nHeight b) = OnDB"
proof -
  let ?p = "last (st_chain st)"
  from assms(2,3) have st1: "st1 = (unindex_block C ?p st)\<lparr>st_chain := butlast (st_chain st)\<rparr>"
    by (simp add: popBack_def Let_def unindex_block_def)
  from assms(6) have st2: "st2 = index_block C b (st1\<lparr>st_chain := st_chain st1 @ [b]\<rparr>)"
    by (auto simp: pushBack_def split: if_splits)
  have h: "blockHashByHeight st2 (nHeight b) = Some (Block_hash C ?p)"
    using assms(4,7) by (simp add: st2 st1 index_block_def unindex_block_def)
  have "blockByHash st2 (Block_hash C ?p) = None"
    using assms(8) by (auto simp: st2 st1 index_block_def unindex_block_def insert_new_def)
  moreover have "cachedBlocks st2 (Block_hash C ?p) = None"
    using assms(5) by (simp add: st2 st1 index_block_def unindex_block_def)
  ultimately show ?thesis using h by (simp add: blockExists_height_def) (simp add: st2 index_block_def)
qed

text \<open>A hash that tells apart the previous-block fields of two competing blocks.\<close>

definition fork_crypto :: crypto where
  "fork_crypto = demo_crypto\<lparr>keccak256 := (\<lambda>b. if take 32 b = replicate 32 7 then 1 else 2)\<rparr>"

definition fork_block :: Block where
  "fork_block = demo_block\<lparr>prevBlockHash := replicate 32 8\<rparr>"

lemma fork_hash:
  "Block_hash fork_crypto demo_block = uint256ToBytes 1" "Block_hash fork_crypto fork_block = uint256ToBytes 2"
  by (simp_all add: Block_hash_def sha3_def fork_crypto_def fork_block_def serializeHeader_def demo_block_members)

definition fork_storage :: Storage where
  "fork_storage = index_block fork_crypto demo_block (Storage_empty\<lparr>st_chain := [demo_block]\<rparr>)"

lemma fork_storage_push: "pushBack fork_crypto Storage_empty demo_block = Inr fork_storage"
  by (simp add: pushBack_def fork_storage_def Storage_empty_def)

lemma fork_storage_members:
  "st_chain fork_storage = [demo_block]" "cachedBlocks fork_storage = Map.empty"
  "blockHashByHeight fork_storage = [1 \<mapsto> uint256ToBytes 1]"
  by (simp_all add: fork_storage_def index_block_def Storage_empty_def demo_block_members fork_hash)

theorem Storage_height_stale_witness:
  "\<exists>st1 st2. popBack fork_crypto fork_storage = Inr st1 \<and> pushBack fork_crypto st1 fork_block = Inr st2
     \<and> last (st_chain st2) = fork_block \<and> blockExists_height st2 1 = OnDB"
proof -
  have r: "storage_reach fork_crypto fork_storage"
    by (rule storage_reach.push_back [OF storage_reach.empty _ _ fork_storage_push])
      (simp_all add: Storage_empty_def demo_block_members)
  obtain st1 where st1: "popBack fork_crypto fork_storage = Inr st1" "st_chain st1 = []"
    by (simp add: popBack_def fork_storage_members Let_def unindex_block_def)
  obtain st2 where st2: "pushBack fork_crypto st1 fork_block = Inr st2"
    using st1(2) by (simp add: pushBack_def)
  have "uint256ToBytes 2 \<noteq> uint256ToBytes 1" by (simp add: codec256.enc_inject)
  then have "last (st_chain st2) = fork_block \<and> blockExists_height st2 (nHeight fork_block) = OnDB"
    using Storage_height_stale [OF r _ st1(1) _ _ st2]
    by (simp add: fork_storage_members fork_hash) (simp add: fork_block_def demo_block_members)
  with st1(1) st2 show ?thesis by (simp add: fork_block_def demo_block_members)
qed

end
