(* ===== verification/Manager.thy ===== *)
theory Manager
  imports Tokens Rdpos Storages "HOL-Library.AList"
begin

text \<open>
  The contract manager (\<^verbatim>\<open>src/contract/contractmanager.cpp\<close>), the contract \<^verbatim>\<open>ERC20Wrapper\<close> (\<^verbatim>\<open>erc20wrapper.cpp\<close>) and the
  payable functions of \<^verbatim>\<open>NativeWrapper\<close>. Contracts call each other through the manager, which also reads and
  writes the accounts of the state, so all operations here act on the record \<open>State\<close> of the whole node
  (\<^verbatim>\<open>src/core/state.h\<close>). A hash map is an association list with distinct keys; its order stands for the
  order of iteration.

  Contracts may call contracts. The depth of the calls is a parameter of \<open>eth_call\<close>; at depth zero the
  result is \<open>UndefinedBehaviour\<close>, as for a stack that overflows.
\<close>

subsection \<open>The state of the node\<close>

record wrapper = DynamicContract +
  tokensAndBalances :: nested_map

datatype contract = C_ERC20 token | C_NativeWrapper token | C_ERC20Wrapper wrapper

record Account =
  acc_balance :: uint256
  acc_nonce :: uint64

record ContractManager = BaseContract +
  cm_balances :: "(bytes \<times> uint256) list"
  cm_contracts :: "(bytes \<times> contract) list"

record 's State =
  accounts :: "(bytes \<times> Account) list"
  mempool :: "(bytes \<times> TxBlock) list"
  processingPayable :: bool
  manager :: ContractManager
  rdpos :: rdPoS
  storage :: Storage
  database :: 's
  chainID :: uint64

definition rdPoS_address :: bytes where
  "rdPoS_address = [0xb2, 0x3a, 0xa5, 0x2d, 0xbe, 0xda, 0x59, 0x27, 0x7a, 0xb8, 0xa9, 0x62, 0xc6, 0x9f, 0x59, 0x71, 0xf2, 0x29, 0x04, 0xcf]"

definition manager_address :: bytes where
  "manager_address = [0x00, 0x01, 0xcb, 0x47, 0xea, 0x6d, 0x8b, 0x55, 0xfe, 0x44, 0xfd, 0xd6, 0xb1, 0xbd, 0xb5, 0x79, 0xef, 0xb4, 0x3e, 0x61]"

definition ProtocolContractAddresses :: "bytes list" where
  "ProtocolContractAddresses = [rdPoS_address, manager_address]"

definition dead_address :: bytes where
  "dead_address = [0x00, 0xde, 0xad, 0x00, 0x66, 0x57, 0x71, 0x85, 0x5a, 0x34, 0x15, 0x5f, 0x5e, 0x74, 0x05, 0x48, 0x9d, 0xf2, 0xc3, 0xc6]"

definition contract_at :: "bytes \<Rightarrow> 's State \<Rightarrow> contract option" where
  "contract_at a S = map_of (cm_contracts (manager S)) a"

definition put_contract :: "bytes \<Rightarrow> contract \<Rightarrow> 's State \<Rightarrow> 's State" where
  "put_contract a c S = S\<lparr>manager := (manager S)\<lparr>cm_contracts := AList.update a c (cm_contracts (manager S))\<rparr>\<rparr>"

definition set_balances :: "(bytes \<times> uint256) list \<Rightarrow> 's State \<Rightarrow> 's State" where
  "set_balances b S = S\<lparr>manager := (manager S)\<lparr>cm_balances := b\<rparr>\<rparr>"

definition set_manager_commit :: "bool \<Rightarrow> 's State \<Rightarrow> 's State" where
  "set_manager_commit b S = S\<lparr>manager := (manager S)\<lparr>loc_commit := b\<rparr>\<rparr>"

fun contract_base :: "contract \<Rightarrow> BaseContract" where
  "contract_base (C_ERC20 t) = BaseContract.truncate t"
| "contract_base (C_NativeWrapper t) = BaseContract.truncate t"
| "contract_base (C_ERC20Wrapper w) = BaseContract.truncate w"

fun contract_locals :: "bytes \<Rightarrow> bytes \<Rightarrow> uint256 \<Rightarrow> bool \<Rightarrow> contract \<Rightarrow> contract" where
  "contract_locals orig call v b (C_ERC20 t) = C_ERC20 (set_locals orig call v b t)"
| "contract_locals orig call v b (C_NativeWrapper t) = C_NativeWrapper (set_locals orig call v b t)"
| "contract_locals orig call v b (C_ERC20Wrapper w) = C_ERC20Wrapper (set_locals orig call v b w)"

definition contract_set_commit :: "bool \<Rightarrow> contract \<Rightarrow> contract" where
  "contract_set_commit b c =
     (let k = contract_base c in contract_locals (loc_origin k) (loc_caller k) (loc_value k) b c)"

definition at_contract :: "bytes \<Rightarrow> (contract \<Rightarrow> contract) \<Rightarrow> 's State \<Rightarrow> 's State" where
  "at_contract a f S = (case contract_at a S of None \<Rightarrow> S | Some c \<Rightarrow> put_contract a (f c) S)"

subsection \<open>Balances of a running call\<close>

text \<open>\<^verbatim>\<open>accounts[address]\<close> creates an account with balance and nonce zero.\<close>

definition account_or_new :: "(bytes \<times> Account) list \<Rightarrow> bytes \<Rightarrow> Account" where
  "account_or_new accs a = (case map_of accs a of None \<Rightarrow> \<lparr>acc_balance = 0, acc_nonce = 0\<rparr> | Some acc \<Rightarrow> acc)"

definition put_balance :: "bytes \<Rightarrow> uint256 \<Rightarrow> (bytes \<times> Account) list \<Rightarrow> (bytes \<times> Account) list" where
  "put_balance a amount accs = AList.update a ((account_or_new accs a)\<lparr>acc_balance := amount\<rparr>) accs"

definition populateBalance :: "bytes \<Rightarrow> 's State \<Rightarrow> 's State" where
  "populateBalance a S =
     (let b = cm_balances (manager S) in
      if map_of b a = None then set_balances (AList.update a (acc_balance (account_or_new (accounts S) a)) b) S else S)"

definition getBalanceFromAddress :: "bytes \<Rightarrow> ('s State, uint256) action" where
  "getBalanceFromAddress a S = (let S1 = populateBalance a S in (S1, Inr (inner_at (map_of (cm_balances (manager S1))) a)))"

definition balances_modify :: "bytes \<Rightarrow> (uint256 \<Rightarrow> uint256 result) \<Rightarrow> ('s State, unit) action" where
  "balances_modify a f S =
     (let b = cm_balances (manager S) in
      case f (inner_at (map_of b) a) of Inl e \<Rightarrow> (S, Inl e) | Inr x \<Rightarrow> (set_balances (AList.update a x b) S, Inr ()))"

definition sendTokens :: "bytes \<Rightarrow> bytes \<Rightarrow> uint256 \<Rightarrow> ('s State, unit) action" where
  "sendTokens from to amount S =
     (let S1 = populateBalance to (populateBalance from S) in
      if inner_at (map_of (cm_balances (manager S1))) to < amount then (S1, Inl (RuntimeError ''Not enough balance''))
      else bindS (balances_modify from (\<lambda>x. u256_sub x amount)) (\<lambda>_. balances_modify to (\<lambda>x. u256_add x amount)) S1)"

subsection \<open>Acting on one contract\<close>

definition on_token :: "bytes \<Rightarrow> (token, 'r) action \<Rightarrow> ('s State, 'r) action" where
  "on_token a f S = (case contract_at a S of
     Some (C_ERC20 t) \<Rightarrow> (let (t1, r) = f t in (put_contract a (C_ERC20 t1) S, r))
   | Some (C_NativeWrapper t) \<Rightarrow> (let (t1, r) = f t in (put_contract a (C_NativeWrapper t1) S, r))
   | _ \<Rightarrow> (S, Inl UndefinedBehaviour))"

definition on_wrapper :: "bytes \<Rightarrow> (wrapper, 'r) action \<Rightarrow> ('s State, 'r) action" where
  "on_wrapper a f S = (case contract_at a S of
     Some (C_ERC20Wrapper w) \<Rightarrow> (let (w1, r) = f w in (put_contract a (C_ERC20Wrapper w1) S, r))
   | _ \<Rightarrow> (S, Inl UndefinedBehaviour))"

definition on_tokens :: "(nested_map, 'r) action \<Rightarrow> (wrapper, 'r) action" where
  "on_tokens f w =
     (let (m, r) = f (tokensAndBalances w)
      in (note_use V_tokensAndBalances (sm_registers (tokensAndBalances w)) (w\<lparr>tokensAndBalances := m\<rparr>), r))"

text \<open>The non-constant \<^verbatim>\<open>find\<close> of the map variable, and a write through the iterator it returned.\<close>

definition sm_find_mut :: "'k \<Rightarrow> (('k, 'v) safe_map, 'v option) action" where
  "sm_find_mut key m = (let m1 = sm_markAsUsed (checkKeyAndCopy m key) in (m1, Inr (sm_pending m1 key)))"

definition write_found :: "'k \<Rightarrow> 'v \<Rightarrow> ('k, 'v) safe_map \<Rightarrow> ('k, 'v) safe_map" where
  "write_found key x m = m\<lparr>sm_ptr := Some ((sm_pending m)(key \<mapsto> x))\<rparr>"

definition wrapper_updateState :: "bool \<Rightarrow> wrapper \<Rightarrow> wrapper" where
  "wrapper_updateState commitToState w =
     (fold (\<lambda>_ w. w\<lparr>tokensAndBalances := (if commitToState then sm_commit else sm_revert) (tokensAndBalances w)\<rparr>) (dc_used w) w)
       \<lparr>dc_used := []\<rparr>"

fun contract_updateState :: "bool \<Rightarrow> contract \<Rightarrow> contract" where
  "contract_updateState c (C_ERC20 t) = C_ERC20 (token_updateState c t)"
| "contract_updateState c (C_NativeWrapper t) = C_NativeWrapper (token_updateState c t)"
| "contract_updateState c (C_ERC20Wrapper w) = C_ERC20Wrapper (wrapper_updateState c w)"

subsection \<open>Calls between contracts\<close>

text \<open>In the following \<open>ec a info\<close> is \<^verbatim>\<open>ethCall(info)\<close> of the contract at \<open>a\<close>.\<close>

definition iface_callContract ::
  "(bytes \<Rightarrow> ethCallInfo \<Rightarrow> ('s State, unit) action) \<Rightarrow> ethCallInfo \<Rightarrow> ('s State, unit) action" where
  "iface_callContract ec info =
     (let (from, to, gasLimit, gasPrice, v, data) = info in
      bindS (if v \<noteq> 0 then sendTokens from to v else liftS (Inr ())) (\<lambda>_ S.
      if contract_at to S = None then (S, Inl (RuntimeError ''Contract does not exist''))
      else
        let S1 = at_contract to (\<lambda>c. contract_locals (loc_origin (contract_base c)) from v (loc_commit (manager S)) c) S
        in case ec to info S1 of
             (S2, Inl e) \<Rightarrow> (at_contract to (contract_set_commit False) S2, rethrow '''' (Inl e))
           | (S2, Inr u) \<Rightarrow> (S2, Inr u)))"

definition dc_callContract ::
  "(bytes \<Rightarrow> ethCallInfo \<Rightarrow> ('s State, unit) action) \<Rightarrow> bytes \<Rightarrow> bytes \<Rightarrow> bytes \<Rightarrow> uint256 \<Rightarrow> ('s State, unit) action" where
  "dc_callContract ec self address raw callValue = iface_callContract ec (self, address, 0, 0, callValue, raw)"

subsection \<open>ERC20Wrapper\<close>

definition wrapper_of_base :: "BaseContract \<Rightarrow> wrapper" where
  "wrapper_of_base b = DynamicContract.extend (BaseContract.extend b (DynamicContract.fields []))
     (wrapper.fields (SafeMap_owned Map.empty))"

definition ERC20Wrapper_new :: "'s rocksdb \<Rightarrow> bytes \<Rightarrow> bytes \<Rightarrow> uint64 \<Rightarrow> ('s, wrapper) action" where
  "ERC20Wrapper_new R address creator chainId db =
     (let cname = bytes_of_string ''ERC20Wrapper'' in
      (BaseContract_put R db cname address creator chainId,
       Inr (wrapper_updateState True (wrapper_of_base (BaseContract_new cname address creator chainId)))))"

text \<open>The messages of \<^verbatim>\<open>getContract\<close> also name the address and the type; these parts are left out.\<close>

definition getContract_ERC20 :: "'s State \<Rightarrow> bytes \<Rightarrow> token result" where
  "getContract_ERC20 S a = (case contract_at a S of
     None \<Rightarrow> Inl (RuntimeError ''ContractManager::getContract: contract not found.'')
   | Some (C_ERC20 t) \<Rightarrow> Inr t
   | Some _ \<Rightarrow> Inl (RuntimeError ''ContractManager::getContract: Contract is not of the requested type''))"

definition getContractBalance :: "crypto \<Rightarrow> 's State \<Rightarrow> bytes \<Rightarrow> wrapper \<Rightarrow> bytes result" where
  "getContractBalance C S tok w = bindE (getContract_ERC20 S tok) (\<lambda>t. ERC20_balanceOf C (contractAddress w) t)"

definition getUserBalance :: "crypto \<Rightarrow> bytes \<Rightarrow> bytes \<Rightarrow> wrapper \<Rightarrow> bytes result" where
  "getUserBalance C tok user w =
     (case sm_find (tokensAndBalances w) tok of
        None \<Rightarrow> Encoder C [AUint256 0] ''''
      | Some m \<Rightarrow> (case m user of None \<Rightarrow> Encoder C [AUint256 0] '''' | Some x \<Rightarrow> Encoder C [AUint256 x] ''''))"

text \<open>The common part of \<^verbatim>\<open>withdraw\<close> and \<^verbatim>\<open>transferTo\<close>.\<close>

definition wrapper_debit :: "bytes \<Rightarrow> uint256 \<Rightarrow> (wrapper, unit) action" where
  "wrapper_debit tok v w =
     bindS (on_tokens (sm_find_mut tok)) (\<lambda>it w1.
     case it of
       None \<Rightarrow> (w1, Inl (RuntimeError ''Token not found''))
     | Some users \<Rightarrow> (case users (loc_caller w1) of
         None \<Rightarrow> (w1, Inl (RuntimeError ''User not found''))
       | Some b \<Rightarrow>
           if b \<le> v then (w1, Inl (RuntimeError ''Not enough balance''))
           else case u256_sub b v of
             Inl e \<Rightarrow> (w1, Inl e)
           | Inr b1 \<Rightarrow> (w1\<lparr>tokensAndBalances := write_found tok (users(loc_caller w1 \<mapsto> b1)) (tokensAndBalances w1)\<rparr>, Inr ()))) w"

definition self_base :: "bytes \<Rightarrow> 's State \<Rightarrow> BaseContract" where
  "self_base a S = (case contract_at a S of Some c \<Rightarrow> contract_base c | None \<Rightarrow> BaseContract_new [] [] [] 0)"

definition wrapper_transferTo ::
  "crypto \<Rightarrow> (bytes \<Rightarrow> ethCallInfo \<Rightarrow> ('s State, unit) action) \<Rightarrow> bytes \<Rightarrow> bytes \<Rightarrow> bytes \<Rightarrow> uint256 \<Rightarrow> ('s State, unit) action" where
  "wrapper_transferTo C ec a tok to v =
     bindS (on_wrapper a (wrapper_debit tok v)) (\<lambda>_ S.
     bindS (liftS (Encoder C [AAddress to, AUint256 v] ''transfer(address,uint256)'')) (\<lambda>raw.
     dc_callContract ec (contractAddress (self_base a S)) tok raw 0) S)"

definition wrapper_withdraw ::
  "crypto \<Rightarrow> (bytes \<Rightarrow> ethCallInfo \<Rightarrow> ('s State, unit) action) \<Rightarrow> bytes \<Rightarrow> bytes \<Rightarrow> uint256 \<Rightarrow> ('s State, unit) action" where
  "wrapper_withdraw C ec a tok v =
     bindS (on_wrapper a (wrapper_debit tok v)) (\<lambda>_ S.
     bindS (liftS (Encoder C [AAddress (loc_caller (self_base a S)), AUint256 v] ''transfer(address,uint256)'')) (\<lambda>raw.
     dc_callContract ec (contractAddress (self_base a S)) tok raw 0) S)"

definition wrapper_deposit ::
  "crypto \<Rightarrow> (bytes \<Rightarrow> ethCallInfo \<Rightarrow> ('s State, unit) action) \<Rightarrow> bytes \<Rightarrow> bytes \<Rightarrow> uint256 \<Rightarrow> ('s State, unit) action" where
  "wrapper_deposit C ec a tok v S =
     (let self = self_base a S in
      bindS (liftS (Encoder C [AAddress (loc_caller self), AAddress (contractAddress self), AUint256 v]
                      ''transferFrom(address,address,uint256)'')) (\<lambda>raw.
      bindS (dc_callContract ec (contractAddress self) tok raw 0) (\<lambda>_.
      on_wrapper a (\<lambda>w. on_tokens (sm_index_modify Map.empty tok (inner_modify (loc_caller w) (\<lambda>x. u256_add x v))) w))) S)"

subsection \<open>Dispatch\<close>

definition NativeWrapper_withdraw :: "bytes \<Rightarrow> uint256 \<Rightarrow> ('s State, unit) action" where
  "NativeWrapper_withdraw a v =
     bindS (on_token a (NativeWrapper_debit v)) (\<lambda>_ S.
     sendTokens (contractAddress (self_base a S)) (loc_caller (self_base a S)) v S)"

definition NativeWrapper_functions :: "bytes \<Rightarrow> (bytes \<Rightarrow> (token, unit) action) option" where
  "NativeWrapper_functions functor =
     (if functor = [0xa9, 0x05, 0x9c, 0xbb] then Some (\<lambda>data. args [T_address, T_uint256] data (\<lambda>d.
        arg_address d 0 (\<lambda>to. arg_uint256 d 1 (\<lambda>v. NativeWrapper_transfer to v))))
      else if functor = [0x09, 0x5e, 0xa7, 0xb3] then Some (\<lambda>data. args [T_address, T_uint256] data (\<lambda>d.
        arg_address d 0 (\<lambda>spender. arg_uint256 d 1 (\<lambda>v. NativeWrapper_approve spender v))))
      else if functor = [0x23, 0xb8, 0x72, 0xdd] then Some (\<lambda>data. args [T_address, T_address, T_uint256] data (\<lambda>d.
        arg_address d 0 (\<lambda>from. arg_address d 1 (\<lambda>to. arg_uint256 d 2 (\<lambda>v. NativeWrapper_transferFrom from to v)))))
      else None)"

definition NativeWrapper_payableFunctions :: "bytes \<Rightarrow> bytes \<Rightarrow> (bytes \<Rightarrow> ('s State, unit) action) option" where
  "NativeWrapper_payableFunctions a functor =
     (if functor = [0xd0, 0xe3, 0x0d, 0xb0] then Some (\<lambda>data. on_token a NativeWrapper_deposit)
      else if functor = [0x2e, 0x1a, 0x7d, 0x4d] then Some (\<lambda>data. args [T_uint256] data (\<lambda>d.
        arg_uint256 d 0 (\<lambda>v. NativeWrapper_withdraw a v)))
      else None)"

definition NativeWrapper_viewFunctions :: "crypto \<Rightarrow> bytes \<Rightarrow> (bytes \<Rightarrow> token \<Rightarrow> bytes result) option" where
  "NativeWrapper_viewFunctions C functor =
     (if functor = [0x06, 0xfd, 0xde, 0x03] then Some (\<lambda>data. NativeWrapper_name C)
      else if functor = [0x95, 0xd8, 0x9b, 0x41] then Some (\<lambda>data. NativeWrapper_symbol C)
      else if functor = [0x31, 0x3c, 0xe5, 0x67] then Some (\<lambda>data. NativeWrapper_decimals C)
      else if functor = [0x18, 0x16, 0x0d, 0xdd] then Some (\<lambda>data. NativeWrapper_totalSupply C)
      else if functor = [0x70, 0xa0, 0x82, 0x31] then Some (\<lambda>data t.
        bindE (Decoder [T_address] (drop 4 data)) (\<lambda>d. bindE (getData_address d 0) (\<lambda>owner. NativeWrapper_balanceOf C owner t)))
      else if functor = [0xdd, 0x62, 0xed, 0x3e] then Some (\<lambda>data t.
        bindE (Decoder [T_address, T_address] (drop 4 data)) (\<lambda>d. bindE (getData_address d 0) (\<lambda>owner.
        bindE (getData_address d 1) (\<lambda>spender. NativeWrapper_allowance C owner spender t))))
      else None)"

definition ERC20Wrapper_functions ::
  "crypto \<Rightarrow> (bytes \<Rightarrow> ethCallInfo \<Rightarrow> ('s State, unit) action) \<Rightarrow> bytes \<Rightarrow> bytes \<Rightarrow> (bytes \<Rightarrow> ('s State, unit) action) option" where
  "ERC20Wrapper_functions C ec a functor =
     (if functor = [0xf3, 0xfe, 0xf3, 0xa3] then Some (\<lambda>data. args [T_address, T_uint256] data (\<lambda>d.
        arg_address d 0 (\<lambda>tok. arg_uint256 d 1 (\<lambda>v. wrapper_withdraw C ec a tok v))))
      else if functor = [0xa5, 0xf2, 0xa1, 0x52] then Some (\<lambda>data. args [T_address, T_address, T_uint256] data (\<lambda>d.
        arg_address d 0 (\<lambda>tok. arg_address d 1 (\<lambda>to. arg_uint256 d 2 (\<lambda>v. wrapper_transferTo C ec a tok to v)))))
      else if functor = [0x47, 0xe7, 0xef, 0x24] then Some (\<lambda>data. args [T_address, T_uint256] data (\<lambda>d.
        arg_address d 0 (\<lambda>tok. arg_uint256 d 1 (\<lambda>v. wrapper_deposit C ec a tok v))))
      else None)"

definition ERC20Wrapper_viewFunctions :: "crypto \<Rightarrow> 's State \<Rightarrow> bytes \<Rightarrow> (bytes \<Rightarrow> wrapper \<Rightarrow> bytes result) option" where
  "ERC20Wrapper_viewFunctions C S functor =
     (if functor = [0x43, 0xab, 0x26, 0x5f] then Some (\<lambda>data w.
        bindE (Decoder [T_address] (drop 4 data)) (\<lambda>d. bindE (getData_address d 0) (\<lambda>tok. getContractBalance C S tok w)))
      else if functor = [0x68, 0x05, 0xd6, 0xad] then Some (\<lambda>data w.
        bindE (Decoder [T_address, T_address] (drop 4 data)) (\<lambda>d. bindE (getData_address d 0) (\<lambda>tok.
        bindE (getData_address d 1) (\<lambda>user. getUserBalance C tok user w))))
      else None)"

text \<open>\<^verbatim>\<open>DynamicContract\<close>: the maps of functions, \<^verbatim>\<open>isPayableFunction\<close>, \<^verbatim>\<open>ethCall\<close> and \<^verbatim>\<open>ethCallView\<close>.\<close>

definition payable_selectors :: "bytes list" where
  "payable_selectors = [[0xd0, 0xe3, 0x0d, 0xb0], [0x2e, 0x1a, 0x7d, 0x4d]]"

fun isPayableFunction :: "contract \<Rightarrow> bytes \<Rightarrow> bool" where
  "isPayableFunction (C_NativeWrapper t) functor \<longleftrightarrow> functor \<in> set payable_selectors"
| "isPayableFunction _ functor \<longleftrightarrow> False"

definition find_function ::
  "crypto \<Rightarrow> (bytes \<Rightarrow> ethCallInfo \<Rightarrow> ('s State, unit) action) \<Rightarrow> bytes \<Rightarrow> contract \<Rightarrow> bytes \<Rightarrow> (bytes \<Rightarrow> ('s State, unit) action) option" where
  "find_function C ec a c functor = (case c of
     C_ERC20 t \<Rightarrow> map_option (\<lambda>f data. on_token a (f data)) (ERC20_functions functor)
   | C_NativeWrapper t \<Rightarrow>
       if isPayableFunction c functor then NativeWrapper_payableFunctions a functor
       else map_option (\<lambda>f data. on_token a (f data)) (NativeWrapper_functions functor)
   | C_ERC20Wrapper w \<Rightarrow> ERC20Wrapper_functions C ec a functor)"

definition dynamic_ethCall ::
  "crypto \<Rightarrow> (bytes \<Rightarrow> ethCallInfo \<Rightarrow> ('s State, unit) action) \<Rightarrow> bytes \<Rightarrow> ethCallInfo \<Rightarrow> ('s State, unit) action" where
  "dynamic_ethCall C ec a info S =
     (let (from, to, gasLimit, gasPrice, v, data) = info in
      case contract_at a S of
        None \<Rightarrow> (S, Inl UndefinedBehaviour)
      | Some c \<Rightarrow>
         (case (case find_function C ec a c (take 4 data) of
                  None \<Rightarrow> (S, Inl (RuntimeError ''Functor not found''))
                | Some f \<Rightarrow> f data S) of
            (S1, Inl e) \<Rightarrow> (at_contract a (contract_updateState False) S1, rethrow '''' (Inl e))
          | (S1, Inr u) \<Rightarrow> (at_contract a (contract_updateState (loc_commit (self_base a S1))) S1, Inr u)))"

primrec eth_call :: "crypto \<Rightarrow> nat \<Rightarrow> bytes \<Rightarrow> ethCallInfo \<Rightarrow> ('s State, unit) action" where
  "eth_call C 0 = (\<lambda>a info. liftS (Inl UndefinedBehaviour))"
| "eth_call C (Suc n) = dynamic_ethCall C (eth_call C n)"

definition dynamic_ethCallView :: "crypto \<Rightarrow> 's State \<Rightarrow> contract \<Rightarrow> bytes \<Rightarrow> bytes result" where
  "dynamic_ethCallView C S c data = (case c of
     C_ERC20 t \<Rightarrow> token_ethCallView (ERC20_viewFunctions C) data t
   | C_NativeWrapper t \<Rightarrow> token_ethCallView (NativeWrapper_viewFunctions C) data t
   | C_ERC20Wrapper w \<Rightarrow> rethrow '''' (case ERC20Wrapper_viewFunctions C S (take 4 data) of
       None \<Rightarrow> Inl (RuntimeError ''Functor not found'') | Some f \<Rightarrow> f data w))"

subsection \<open>Creating contracts\<close>

text \<open>The size byte and the byte that stands for the number of contracts; the conditional expression in the
  code appends one character in both cases.\<close>

definition deriveContractAddress :: "crypto \<Rightarrow> ContractManager \<Rightarrow> bytes result" where
  "deriveContractAddress C m =
     (let n = length (cm_contracts m);
          rlpSize = 0xc0 + of_nat (length (loc_caller m)) + (if n < 0x80 then 1 else 1 + of_nat (bytesRequired n));
          count = (if n < 0x80 then of_nat n else 0x80 + of_nat (bytesRequired n))
      in Address_bytes (drop 12 (sha3 C (rlpSize # loc_caller m @ [count]))))"

text \<open>The checks that all creating functions begin with.\<close>

definition creation_checks :: "crypto \<Rightarrow> 's State \<Rightarrow> bytes result" where
  "creation_checks C S =
     (let m = manager S in
      if loc_caller m \<noteq> contractCreator m then Inl (RuntimeError ''Only contract creator can create new contracts'')
      else bindE (deriveContractAddress C m) (\<lambda>derived.
      if contract_at derived S \<noteq> None then Inl (RuntimeError ''Contract already exists'')
      else if derived \<in> set ProtocolContractAddresses then Inl (RuntimeError ''Contract already exists'')
      else Inr derived))"

definition insert_contract :: "bytes \<Rightarrow> contract \<Rightarrow> 's State \<Rightarrow> 's State" where
  "insert_contract a c S = (if contract_at a S = None then put_contract a c S else S)"

definition decimals_check :: "abi_value list \<Rightarrow> uint8 result" where
  "decimals_check d = bindE (getData_uint256 d 2) (\<lambda>n.
     if n > 255 then Inl (RuntimeError ''Decimals must be between 0 and 255'') else Inr (ucast n))"

definition createNewERC20Contract :: "'s rocksdb \<Rightarrow> crypto \<Rightarrow> ethCallInfo \<Rightarrow> ('s State, unit) action" where
  "createNewERC20Contract R C info S =
     (let (from, to, gasLimit, gasPrice, v, data) = info in
      case bindE (creation_checks C S) (\<lambda>derived.
           bindE (Decoder [T_string, T_string, T_uint256, T_uint256] (drop 4 data)) (\<lambda>d.
           bindE (decimals_check d) (\<lambda>decimals.
           bindE (getData_string d 0) (\<lambda>name. bindE (getData_string d 1) (\<lambda>symbol. bindE (getData_uint256 d 3) (\<lambda>mint.
           Inr (derived, name, symbol, decimals, mint))))))) of
        Inl e \<Rightarrow> (S, Inl e)
      | Inr (derived, name, symbol, decimals, mint) \<Rightarrow>
         (case ERC20_new R name symbol decimals mint derived (loc_caller (manager S)) (chainID S) (database S) of
            (db, Inl e) \<Rightarrow> (S\<lparr>database := db\<rparr>, Inl e)
          | (db, Inr t) \<Rightarrow> (insert_contract derived (C_ERC20 t) (S\<lparr>database := db\<rparr>), Inr ())))"

definition validateCreateNewERC20Contract :: "crypto \<Rightarrow> ethCallInfo \<Rightarrow> 's State \<Rightarrow> unit result" where
  "validateCreateNewERC20Contract C info S =
     (let (from, to, gasLimit, gasPrice, v, data) = info in
      bindE (creation_checks C S) (\<lambda>derived.
      bindE (Decoder [T_string, T_string, T_uint256, T_uint256] (drop 4 data)) (\<lambda>d.
      bindE (decimals_check d) (\<lambda>_. Inr ()))))"

definition createNewERC20WrapperContract :: "'s rocksdb \<Rightarrow> crypto \<Rightarrow> ethCallInfo \<Rightarrow> ('s State, unit) action" where
  "createNewERC20WrapperContract R C info S =
     (case creation_checks C S of
        Inl e \<Rightarrow> (S, Inl e)
      | Inr derived \<Rightarrow>
         (case ERC20Wrapper_new R derived (loc_caller (manager S)) (chainID S) (database S) of
            (db, Inl e) \<Rightarrow> (S\<lparr>database := db\<rparr>, Inl e)
          | (db, Inr w) \<Rightarrow> (insert_contract derived (C_ERC20Wrapper w) (S\<lparr>database := db\<rparr>), Inr ())))"

definition validateCreateNewERC20WrapperContract :: "crypto \<Rightarrow> ethCallInfo \<Rightarrow> 's State \<Rightarrow> unit result" where
  "validateCreateNewERC20WrapperContract C info S = bindE (creation_checks C S) (\<lambda>_. Inr ())"

definition createNewERC20NativeWrapperContract :: "'s rocksdb \<Rightarrow> crypto \<Rightarrow> ethCallInfo \<Rightarrow> ('s State, unit) action" where
  "createNewERC20NativeWrapperContract R C info S =
     (let (from, to, gasLimit, gasPrice, v, data) = info in
      case bindE (creation_checks C S) (\<lambda>derived.
           bindE (Decoder [T_string, T_string, T_uint256] (drop 4 data)) (\<lambda>d.
           bindE (decimals_check d) (\<lambda>decimals.
           bindE (getData_string d 0) (\<lambda>name. bindE (getData_string d 1) (\<lambda>symbol.
           Inr (derived, name, symbol, decimals)))))) of
        Inl e \<Rightarrow> (S, Inl e)
      | Inr (derived, name, symbol, decimals) \<Rightarrow>
         (case NativeWrapper_new R name symbol decimals derived (loc_caller (manager S)) (chainID S) (database S) of
            (db, Inl e) \<Rightarrow> (S\<lparr>database := db\<rparr>, Inl e)
          | (db, Inr t) \<Rightarrow> (insert_contract derived (C_NativeWrapper t) (S\<lparr>database := db\<rparr>), Inr ())))"

definition validateCreateNewERC20NativeWrapperContract :: "crypto \<Rightarrow> ethCallInfo \<Rightarrow> 's State \<Rightarrow> unit result" where
  "validateCreateNewERC20NativeWrapperContract C info S =
     (let (from, to, gasLimit, gasPrice, v, data) = info in
      bindE (creation_checks C S) (\<lambda>derived.
      bindE (Decoder [T_string, T_string, T_uint256] (drop 4 data)) (\<lambda>d.
      bindE (decimals_check d) (\<lambda>_. Inr ()))))"

definition manager_ethCall :: "'s rocksdb \<Rightarrow> crypto \<Rightarrow> ethCallInfo \<Rightarrow> ('s State, unit) action" where
  "manager_ethCall R C info S =
     (let (from, to, gasLimit, gasPrice, v, data) = info; functor = take 4 data in
      if loc_commit (manager S) then
        if functor = [0xb7, 0x4e, 0x5e, 0xd5] then createNewERC20Contract R C info S
        else if functor = [0x97, 0xaa, 0x51, 0xa3] then createNewERC20WrapperContract R C info S
        else if functor = [0x9f, 0x90, 0xf4, 0xc7] then createNewERC20NativeWrapperContract R C info S
        else (S, Inl (RuntimeError ''Invalid function call''))
      else
        if functor = [0xb7, 0x4e, 0x5e, 0xd5] then (S, validateCreateNewERC20Contract C info S)
        else if functor = [0x97, 0xaa, 0x51, 0xa3] then (S, validateCreateNewERC20WrapperContract C info S)
        else if functor = [0x9f, 0x90, 0xf4, 0xc7] then (S, validateCreateNewERC20NativeWrapperContract C info S)
        else (S, Inl (RuntimeError ''Invalid function call'')))"

definition getContracts :: "'s State \<Rightarrow> (bytes \<times> bytes) list" where
  "getContracts S = map (\<lambda>(a, c). (contractName (contract_base c), a)) (cm_contracts (manager S))"

definition getDeployedContracts :: "crypto \<Rightarrow> 's State \<Rightarrow> bytes result" where
  "getDeployedContracts C S =
     (let cs = cm_contracts (manager S)
      in Encoder C [ABytesArr (map (\<lambda>(a, c). contractName (contract_base c)) cs), AAddressArr (map fst cs)] '''')"

definition manager_ethCallView :: "crypto \<Rightarrow> 's State \<Rightarrow> bytes \<Rightarrow> bytes result" where
  "manager_ethCallView C S data =
     (if take 4 data = [0xaa, 0x9a, 0x06, 0x8f] then getDeployedContracts C S
      else Inl (RuntimeError ''Invalid function call''))"

subsection \<open>Calls from transactions\<close>

text \<open>\<^verbatim>\<open>rdPoS\<close> does not override the functions of \<^verbatim>\<open>BaseContract\<close>, which always throw.\<close>

definition rdPoS_ethCall :: "'a result" where
  "rdPoS_ethCall = Inl (RuntimeError ''Derived Class from Contract does not override ethCall()'')"

definition processContractPayable :: "(bytes \<times> uint256) list \<Rightarrow> ('s State, unit) action" where
  "processContractPayable payableMap S =
     (if \<not> processingPayable S
      then (S, Inl (RuntimeError ''Uh oh, contracts are going haywire! Cannot change State while not processing a payable contract.''))
      else (S\<lparr>accounts := fold (\<lambda>(a, amount). put_balance a amount) payableMap (accounts S)\<rparr>, Inr ()))"

text \<open>\<open>clear_balances\<close> is \<^verbatim>\<open>balances.clear()\<close>, and \<open>catching\<close> a handler that puts the state in order and throws again.\<close>

definition clear_balances :: "'s State \<Rightarrow> 's State" where
  "clear_balances = set_balances []"

definition catching :: "('s State, 'r) action \<Rightarrow> ('s State \<Rightarrow> 's State) \<Rightarrow> ('s State, 'r) action" where
  "catching m handler S = (case m S of (S1, Inl e) \<Rightarrow> (handler S1, rethrow '''' (Inl e)) | (S1, Inr x) \<Rightarrow> (S1, Inr x))"

definition manager_locals :: "bytes \<Rightarrow> uint256 \<Rightarrow> 's State \<Rightarrow> 's State" where
  "manager_locals from v S = S\<lparr>manager := set_locals from from v (loc_commit (manager S)) (manager S)\<rparr>"

definition callContract_tx :: "'s rocksdb \<Rightarrow> crypto \<Rightarrow> nat \<Rightarrow> TxBlock \<Rightarrow> ('s State, unit) action" where
  "callContract_tx R C depth tx S0 =
     (let S = set_manager_commit True S0; info = txToCallInfo tx in
      if tx_to tx = contractAddress (manager S) then
        (let done = clear_balances \<circ> set_manager_commit False in
         bindS (catching (manager_ethCall R C info) done) (\<lambda>_ S. (done S, Inr ())) (manager_locals (tx_from tx) (tx_value tx) S))
      else if tx_to tx = rdPoS_address then catching (liftS rdPoS_ethCall) clear_balances S
      else case contract_at (tx_to tx) S of
        None \<Rightarrow> (clear_balances S, Inl (RuntimeError ''Contract does not exist''))
      | Some _ \<Rightarrow>
         bindS (catching (eth_call C depth (tx_to tx) info) (clear_balances \<circ> at_contract (tx_to tx) (contract_set_commit False))) (\<lambda>_ S.
         bindS (if (case contract_at (tx_to tx) S of None \<Rightarrow> False | Some c \<Rightarrow> isPayableFunction c (take 4 (tx_data tx)))
                then processContractPayable (cm_balances (manager S)) else liftS (Inr ())) (\<lambda>_ S.
         (at_contract (tx_to tx) (contract_set_commit False) (clear_balances S), Inr ())) S)
          (at_contract (tx_to tx) (contract_locals (tx_from tx) (tx_from tx) (tx_value tx) True) S))"

definition isPayable :: "'s State \<Rightarrow> ethCallInfo \<Rightarrow> bool" where
  "isPayable S info =
     (let (from, to, gasLimit, gasPrice, v, data) = info in
      case contract_at to S of None \<Rightarrow> False | Some c \<Rightarrow> isPayableFunction c (take 4 data))"

definition validateCallContractWithTx :: "'s rocksdb \<Rightarrow> crypto \<Rightarrow> nat \<Rightarrow> ethCallInfo \<Rightarrow> ('s State, bool) action" where
  "validateCallContractWithTx R C depth info =
     (let (from, to, gasLimit, gasPrice, v, data) = info in
      catching
        (bindS (\<lambda>S. if loc_value (manager S) \<noteq> 0 then balances_modify to (\<lambda>x. u256_add x v) (populateBalance to S) else (S, Inr ())) (\<lambda>_ S.
         if to = contractAddress (manager S) then
           bindS (manager_ethCall R C info) (\<lambda>_ S. (clear_balances S, Inr True)) (manager_locals from v S)
         else if to = rdPoS_address then liftS rdPoS_ethCall S
         else if contract_at to S = None then (clear_balances S, Inr False)
         else bindS (eth_call C depth to info) (\<lambda>_ S. (S, Inr True)) (at_contract to (contract_locals from from v False) S)))
        clear_balances)"

definition callContract_view :: "crypto \<Rightarrow> 's State \<Rightarrow> ethCallInfo \<Rightarrow> bytes result" where
  "callContract_view C S info =
     (let (from, to, gasLimit, gasPrice, v, data) = info in
      if to = contractAddress (manager S) then manager_ethCallView C S data
      else if to = rdPoS_address then rdPoS_ethCall
      else case contract_at to S of
        None \<Rightarrow> Inl (RuntimeError ''Contract does not exist'')
      | Some c \<Rightarrow> dynamic_ethCallView C S c data)"

definition isContractCall :: "'s State \<Rightarrow> TxBlock \<Rightarrow> bool" where
  "isContractCall S tx \<longleftrightarrow>
     tx_to tx = contractAddress (manager S) \<or> tx_to tx \<in> set ProtocolContractAddresses \<or> contract_at (tx_to tx) S \<noteq> None"

definition isContractAddress :: "'s State \<Rightarrow> bytes \<Rightarrow> bool" where
  "isContractAddress S a \<longleftrightarrow> a \<in> set ProtocolContractAddresses \<or> contract_at a S \<noteq> None"

end
