(* ===== verification/Token_Spec.thy ===== *)
theory Token_Spec
  imports Tokens
begin

text \<open>
  An abstract token and the proof that the contract implements it. The abstract state has a supply, a
  balance per address and an allowance per pair of addresses, all natural numbers; a call either changes
  it or is refused. The contract's calls, from the call data to the committed variables, refine this, and
  they keep the sum of all balances equal to the supply.
\<close>

subsection \<open>The abstract token\<close>

record abs_token =
  ab_supply :: nat
  ab_balance :: "bytes \<Rightarrow> nat"
  ab_allowance :: "bytes \<Rightarrow> bytes \<Rightarrow> nat"

datatype token_call = Transfer bytes uint256 | Approve bytes uint256 | TransferFrom bytes bytes uint256

definition move :: "(bytes \<Rightarrow> nat) \<Rightarrow> bytes \<Rightarrow> bytes \<Rightarrow> nat \<Rightarrow> bytes \<Rightarrow> nat" where
  "move b from to n = (let b1 = b(from := b from - n) in b1(to := b1 to + n))"

fun spec_call :: "bytes \<Rightarrow> token_call \<Rightarrow> abs_token \<Rightarrow> abs_token option" where
  "spec_call caller (Transfer to v) s =
     (if unat v \<le> ab_balance s caller then Some (s\<lparr>ab_balance := move (ab_balance s) caller to (unat v)\<rparr>) else None)"
| "spec_call caller (Approve spender v) s =
     Some (s\<lparr>ab_allowance := (ab_allowance s)(caller := (ab_allowance s caller)(spender := unat v))\<rparr>)"
| "spec_call caller (TransferFrom from to v) s =
     (if unat v \<le> ab_allowance s from caller \<and> unat v \<le> ab_balance s from
      then Some (s\<lparr>ab_balance := move (ab_balance s) from to (unat v),
                   ab_allowance := (ab_allowance s)(from := (ab_allowance s from)(caller := ab_allowance s from caller - unat v))\<rparr>)
      else None)"

text \<open>The data of a call: the selector and the packed arguments.\<close>

fun call_args :: "token_call \<Rightarrow> abi_value list" where
  "call_args (Transfer to v) = [AAddress to, AUint256 v]"
| "call_args (Approve spender v) = [AAddress spender, AUint256 v]"
| "call_args (TransferFrom from to v) = [AAddress from, AAddress to, AUint256 v]"

fun call_selector :: "token_call \<Rightarrow> bytes" where
  "call_selector (Transfer to v) = [0xa9, 0x05, 0x9c, 0xbb]"
| "call_selector (Approve spender v) = [0x09, 0x5e, 0xa7, 0xb3]"
| "call_selector (TransferFrom from to v) = [0x23, 0xb8, 0x72, 0xdd]"

definition call_data :: "token_call \<Rightarrow> bytes" where
  "call_data call = call_selector call @ abi_packed (call_args call)"

fun call_action :: "token_call \<Rightarrow> (token, unit) action" where
  "call_action (Transfer to v) = ERC20_transfer to v"
| "call_action (Approve spender v) = ERC20_approve spender v"
| "call_action (TransferFrom from to v) = ERC20_transferFrom from to v"

subsection \<open>Holdings\<close>

definition holdings :: "(bytes \<rightharpoonup> uint256) \<Rightarrow> bytes \<Rightarrow> nat" where
  "holdings m a = unat (inner_at m a)"

definition total :: "(bytes \<rightharpoonup> uint256) \<Rightarrow> nat" where
  "total m = sum (holdings m) (dom m)"

lemma inner_at_upd [simp]: "inner_at (m(k \<mapsto> x)) a = (if a = k then x else inner_at m a)"
  by (simp add: inner_at_def index_default_def split: option.split)

lemma inner_at_None: "m a = None \<Longrightarrow> inner_at m a = 0"
  by (simp add: inner_at_def index_default_def)

lemma holdings_upd: "holdings (m(k \<mapsto> x)) = (holdings m)(k := unat x)"
  by (simp add: holdings_def fun_eq_iff)

lemma total_superset:
  assumes "finite A" and "dom m \<subseteq> A"
  shows "total m = sum (holdings m) A"
  unfolding total_def
  by (rule sum.mono_neutral_left) (use assms in \<open>auto simp: holdings_def inner_at_None domIff\<close>)

lemma total_upd:
  assumes "finite (dom m)"
  shows "total (m(k \<mapsto> x)) + holdings m k = total m + unat x"
proof -
  let ?A = "insert k (dom m)"
  have "total (m(k \<mapsto> x)) = sum (holdings (m(k \<mapsto> x))) ?A" "total m = sum (holdings m) ?A"
    using assms by (auto intro!: total_superset)
  moreover have "sum (holdings (m(k \<mapsto> x))) (?A - {k}) = sum (holdings m) (?A - {k})"
    by (rule sum.cong) (simp_all add: holdings_upd)
  ultimately show ?thesis
    using assms sum.remove [of ?A k "holdings m"] sum.remove [of ?A k "holdings (m(k \<mapsto> x))"] by (simp add: holdings_upd)
qed

lemma holdings_le_total: "finite (dom m) \<Longrightarrow> holdings m k \<le> total m"
  using total_upd [of m k 0] by simp

subsection \<open>Moving tokens\<close>

definition token_abs :: "token \<Rightarrow> abs_token" where
  "token_abs t =
     \<lparr>ab_supply = unat (sv_get (tok_totalSupply t)), ab_balance = holdings (sm_lookup (tok_balances t)),
      ab_allowance = (\<lambda>owner. case sm_lookup (tok_allowed t) owner of None \<Rightarrow> (\<lambda>_. 0) | Some m \<Rightarrow> holdings m)\<rparr>"

definition balanced :: "token \<Rightarrow> bool" where
  "balanced t \<longleftrightarrow> finite (dom (sm_lookup (tok_balances t)))
     \<and> total (sm_lookup (tok_balances t)) = unat (sv_get (tok_totalSupply t))"

definition token_ok :: "token \<Rightarrow> bool" where
  "token_ok t \<longleftrightarrow> token_settled t \<and> balanced t"

lemma u256_sub_eq: "u256_sub a b = (if unat b \<le> unat a then Inr (a - b) else Inl (RangeError ''Subtraction resulted in a negative value''))"
  by (simp add: u256_sub_def word_le_nat_alt)

lemma move_step:
  assumes "token_running t0 t" and "balanced t"
  defines "B \<equiv> holdings (sm_lookup (tok_balances t))"
  obtains t1 r where
    "bindS (on_balances (sm_index_modify 0 from (\<lambda>b. u256_sub b v))) (\<lambda>_.
       on_balances (sm_index_modify 0 to (\<lambda>b. u256_add b v))) t = (t1, r)"
    and "token_running t0 t1" and "tok_allowed t1 = tok_allowed t"
    and "if unat v \<le> B from then r = Inr () \<and> balanced t1 \<and> holdings (sm_lookup (tok_balances t1)) = move B from to (unat v)
         else isl r \<and> r \<noteq> Inl UndefinedBehaviour"
proof -
  let ?m = "sm_lookup (tok_balances t)"
  have fin: "finite (dom ?m)" and tot: "total ?m = unat (sv_get (tok_totalSupply t))" using assms(2) by (simp_all add: balanced_def)
  obtain t1 where t1: "on_balances (sm_index_modify 0 from (\<lambda>b. u256_sub b v)) t
       = (t1, map_sum id (\<lambda>_. ()) (u256_sub (inner_at ?m from) v))" "token_running t0 t1" "tok_allowed t1 = tok_allowed t"
    "\<And>y. u256_sub (inner_at ?m from) v = Inr y \<Longrightarrow> sm_lookup (tok_balances t1) = ?m(from \<mapsto> y)"
    using on_balances_step [OF assms(1)] by metis
  show thesis
  proof (cases "unat v \<le> B from")
    case False
    then show thesis using t1 by (intro that [of t1]) (auto simp: bindS_def B_def holdings_def u256_sub_eq)
  next
    case True
    let ?x = "inner_at ?m from - v"
    let ?m1 = "?m(from \<mapsto> ?x)"
    have x: "unat ?x = B from - unat v" using True by (simp add: unat_sub word_le_nat_alt B_def holdings_def)
    have sub: "u256_sub (inner_at ?m from) v = Inr ?x" using True by (simp add: u256_sub_eq B_def holdings_def)
    have m1: "sm_lookup (tok_balances t1) = ?m1" by (rule t1(4) [OF sub])
    have fin1: "finite (dom ?m1)" using fin by simp
    have tot1: "total ?m1 + unat v = total ?m" using total_upd [OF fin, of "from" ?x] x True by (simp add: B_def)
    have bound: "unat (inner_at ?m1 to) + unat v \<le> total ?m"
      using holdings_le_total [OF fin1, of to] tot1 by (simp add: holdings_def)
    let ?y = "inner_at ?m1 to + v"
    have lt: "unat (inner_at ?m1 to) + unat v < 2 ^ 256"
      using bound tot unsigned_less [of "sv_get (tok_totalSupply t)", where ?'a = nat] by simp
    have add: "u256_add (inner_at ?m1 to) v = Inr ?y" using lt by (simp add: u256_add_def)
    have y: "unat ?y = unat (inner_at ?m1 to) + unat v" by (rule u256_add_Inr [OF add])
    obtain t2 where t2: "on_balances (sm_index_modify 0 to (\<lambda>b. u256_add b v)) t1 = (t2, Inr ())"
      "token_running t0 t2" "tok_allowed t2 = tok_allowed t1" "sm_lookup (tok_balances t2) = ?m1(to \<mapsto> ?y)"
      using on_balances_step [OF t1(2), of to "\<lambda>b. u256_add b v"] add m1 by (metis (no_types, lifting) map_sum.simps(2))
    have sup: "tok_totalSupply t2 = tok_totalSupply t"
      using t2(2) assms(1) by (auto simp: token_running_def dest!: token_frame_eq)
    have "total (?m1(to \<mapsto> ?y)) = total ?m"
      using total_upd [OF fin1, of to ?y] tot1 y by (simp add: holdings_def)
    then have "balanced t2" using fin1 tot by (simp add: balanced_def t2(4) sup)
    moreover have "holdings (?m1(to \<mapsto> ?y)) = move B from to (unat v)"
      using x y by (auto simp: move_def Let_def holdings_upd B_def fun_eq_iff) (simp_all add: holdings_def)
    ultimately show thesis
      using True t1 sub t2 by (intro that [of t2 "Inr ()"]) (simp_all add: bindS_def)
  qed
qed

lemma running_frame:
  assumes "token_running t0 t"
  shows "loc_caller t = loc_caller t0" "loc_commit t = loc_commit t0" "tok_totalSupply t = tok_totalSupply t0"
  using assms by (auto simp: token_running_def dest: token_frame_eq)

lemma balanced_cong: "tok_balances t1 = tok_balances t \<Longrightarrow> tok_totalSupply t1 = tok_totalSupply t \<Longrightarrow> balanced t1 = balanced t"
  by (simp add: balanced_def)

lemma allowance_upd:
  assumes "sm_lookup (tok_allowed t1) = (sm_lookup (tok_allowed t))
             (owner \<mapsto> (case sm_lookup (tok_allowed t) owner of None \<Rightarrow> Map.empty | Some x \<Rightarrow> x)(spender \<mapsto> y))"
  shows "ab_allowance (token_abs t1) = (ab_allowance (token_abs t))(owner := (ab_allowance (token_abs t) owner)(spender := unat y))"
  using assms by (auto simp: token_abs_def holdings_upd fun_eq_iff holdings_def inner_at_None split: option.splits)

lemma allowance_at:
  "ab_allowance (token_abs t) owner spender =
     holdings (case sm_lookup (tok_allowed t) owner of None \<Rightarrow> Map.empty | Some x \<Rightarrow> x) spender"
  by (simp add: token_abs_def holdings_def inner_at_None split: option.split)

lemma abs_token_eqI:
  "ab_supply s = ab_supply s' \<Longrightarrow> ab_balance s = ab_balance s' \<Longrightarrow> ab_allowance s = ab_allowance s' \<Longrightarrow> s = (s' :: abs_token)"
  by simp

lemma approve_step:
  assumes "token_running t0 t" and "balanced t"
  obtains t1 where "ERC20_approve spender v t = (t1, Inr ())" and "token_running t0 t1" and "balanced t1"
    and "Some (token_abs t1) = spec_call (loc_caller t) (Approve spender v) (token_abs t)"
proof -
  let ?m = "case sm_lookup (tok_allowed t) (loc_caller t) of None \<Rightarrow> Map.empty | Some x \<Rightarrow> x"
  let ?f = "inner_modify spender (\<lambda>_. Inr v)"
  have f: "?f ?m = Inr (?m(spender \<mapsto> v))" by (simp add: inner_modify_def)
  obtain t1 where t1: "on_allowed (sm_index_modify Map.empty (loc_caller t) ?f) t = (t1, map_sum id (\<lambda>_. ()) (?f ?m))"
    "token_running t0 t1" "tok_balances t1 = tok_balances t"
    "\<And>y. ?f ?m = Inr y \<Longrightarrow> sm_lookup (tok_allowed t1) = (sm_lookup (tok_allowed t))(loc_caller t \<mapsto> y)"
    by (rule on_allowed_step [OF assms(1), of "loc_caller t" ?f]) blast
  have eq: "tok_totalSupply t1 = tok_totalSupply t" using running_frame [OF t1(2)] running_frame [OF assms(1)] by simp
  have "token_abs t1 = (token_abs t)\<lparr>ab_allowance := (ab_allowance (token_abs t))(loc_caller t := (ab_allowance (token_abs t) (loc_caller t))(spender := unat v))\<rparr>"
    using allowance_upd [OF t1(4) [OF f]] by (intro abs_token_eqI) (simp_all add: token_abs_def t1(3) eq)
  then show thesis using that [of t1] t1 f assms(2) balanced_cong [OF t1(3) eq] by (simp add: ERC20_approve_def)
qed

lemma transfer_step:
  assumes "token_running t0 t" and "balanced t"
  obtains t1 r where "ERC20_transfer to v t = (t1, r)" and "token_running t0 t1"
    and "case spec_call (loc_caller t) (Transfer to v) (token_abs t) of
           None \<Rightarrow> isl r \<and> r \<noteq> Inl UndefinedBehaviour | Some s \<Rightarrow> r = Inr () \<and> balanced t1 \<and> token_abs t1 = s"
proof -
  obtain t1 r where t1: "ERC20_transfer to v t = (t1, r)" "token_running t0 t1" "tok_allowed t1 = tok_allowed t"
    "if unat v \<le> holdings (sm_lookup (tok_balances t)) (loc_caller t) then r = Inr () \<and> balanced t1
         \<and> holdings (sm_lookup (tok_balances t1)) = move (holdings (sm_lookup (tok_balances t))) (loc_caller t) to (unat v)
       else isl r \<and> r \<noteq> Inl UndefinedBehaviour"
    unfolding ERC20_transfer_def by (rule move_step [OF assms, of "loc_caller t" v to]) blast
  have "tok_totalSupply t1 = tok_totalSupply t" using running_frame [OF t1(2)] running_frame [OF assms(1)] by simp
  with t1 show thesis by (intro that [of t1 r]) (auto simp: token_abs_def split: if_splits)
qed

lemma transferFrom_step:
  assumes "token_running t0 t" and "balanced t"
  obtains t1 r where "ERC20_transferFrom from to v t = (t1, r)" and "token_running t0 t1"
    and "case spec_call (loc_caller t) (TransferFrom from to v) (token_abs t) of
           None \<Rightarrow> isl r \<and> r \<noteq> Inl UndefinedBehaviour | Some s \<Rightarrow> r = Inr () \<and> balanced t1 \<and> token_abs t1 = s"
proof -
  let ?f = "inner_modify (loc_caller t) (\<lambda>a. u256_sub a v)"
  let ?m = "case sm_lookup (tok_allowed t) from of None \<Rightarrow> Map.empty | Some x \<Rightarrow> x"
  let ?A = "ab_allowance (token_abs t) from (loc_caller t)"
  obtain t1 where t1: "on_allowed (sm_index_modify Map.empty from ?f) t = (t1, map_sum id (\<lambda>_. ()) (?f ?m))"
    "token_running t0 t1" "tok_balances t1 = tok_balances t"
    "\<And>y. ?f ?m = Inr y \<Longrightarrow> sm_lookup (tok_allowed t1) = (sm_lookup (tok_allowed t))(from \<mapsto> y)"
    by (rule on_allowed_step [OF assms(1), of "from" ?f]) blast
  have A: "?A = unat (inner_at ?m (loc_caller t))" by (simp add: allowance_at holdings_def)
  show thesis
  proof (cases "unat v \<le> ?A")
    case False
    then have "?f ?m = Inl (RangeError ''Subtraction resulted in a negative value'')"
      by (simp add: inner_modify_def A u256_sub_eq)
    with t1 False show thesis by (intro that [of t1]) (auto simp: ERC20_transferFrom_def bindS_def)
  next
    case True
    let ?y = "inner_at ?m (loc_caller t) - v"
    have y: "unat ?y = ?A - unat v" using True by (simp add: unat_sub word_le_nat_alt A)
    have f: "?f ?m = Inr (?m(loc_caller t \<mapsto> ?y))" using True by (simp add: inner_modify_def A u256_sub_eq)
    have eq: "tok_totalSupply t1 = tok_totalSupply t" using running_frame [OF t1(2)] running_frame [OF assms(1)] by simp
    have b1: "balanced t1" using balanced_cong [OF t1(3) eq] assms(2) by simp
    obtain t2 r where t2: "bindS (on_balances (sm_index_modify 0 from (\<lambda>b. u256_sub b v)))
         (\<lambda>_. on_balances (sm_index_modify 0 to (\<lambda>b. u256_add b v))) t1 = (t2, r)"
      "token_running t0 t2" "tok_allowed t2 = tok_allowed t1"
      "if unat v \<le> holdings (sm_lookup (tok_balances t1)) from then r = Inr () \<and> balanced t2
         \<and> holdings (sm_lookup (tok_balances t2)) = move (holdings (sm_lookup (tok_balances t1))) from to (unat v)
       else isl r \<and> r \<noteq> Inl UndefinedBehaviour"
      by (rule move_step [OF t1(2) b1, of "from" v to]) blast
    have eq2: "tok_totalSupply t2 = tok_totalSupply t" using running_frame [OF t2(2)] running_frame [OF assms(1)] by simp
    have "sm_lookup (tok_allowed t2) = (sm_lookup (tok_allowed t))(from \<mapsto> ?m(loc_caller t \<mapsto> ?y))"
      using t1(4) [OF f] t2(3) by simp
    then have "ab_allowance (token_abs t2) = (ab_allowance (token_abs t))(from := (ab_allowance (token_abs t) from)(loc_caller t := ?A - unat v))"
      using allowance_upd [of t2 t "from" "loc_caller t" ?y] y by simp
    with t2(4) have "if unat v \<le> ab_balance (token_abs t) from then r = Inr () \<and> balanced t2
        \<and> Some (token_abs t2) = spec_call (loc_caller t) (TransferFrom from to v) (token_abs t) else isl r \<and> r \<noteq> Inl UndefinedBehaviour"
      using True by (auto simp: token_abs_def t1(3) eq2 intro!: abs_token_eqI)
    with t1(1) f t2(1,2) True show thesis
      by (intro that [of t2 r]) (auto simp: ERC20_transferFrom_def bindS_def split: if_splits)
  qed
qed

subsection \<open>Calls\<close>

lemma call_action_step:
  assumes "token_ok t"
  obtains t1 r where "call_action call t = (t1, r)" and "token_running t t1"
    and "case spec_call (loc_caller t) call (token_abs t) of
           None \<Rightarrow> isl r \<and> r \<noteq> Inl UndefinedBehaviour | Some s \<Rightarrow> r = Inr () \<and> balanced t1 \<and> token_abs t1 = s"
proof -
  have t: "token_running t t" "balanced t" using assms by (simp_all add: token_ok_def settled_token_running)
  show thesis
  proof (cases call)
    case (Transfer to v)
    show ?thesis by (rule transfer_step [OF t, of to v]) (rule that, simp_all add: Transfer)
  next
    case (Approve sp v)
    show ?thesis by (rule approve_step [OF t, of sp v], rule that) (auto simp: Approve)
  next
    case (TransferFrom f to v)
    show ?thesis by (rule transferFrom_step [OF t, of f to v]) (rule that, simp_all add: TransferFrom)
  qed
qed

lemma token_abs_cong:
  "token_frame t1 = token_frame t \<Longrightarrow> sm_lookup (tok_balances t1) = sm_lookup (tok_balances t2) \<Longrightarrow>
   sm_lookup (tok_allowed t1) = sm_lookup (tok_allowed t2) \<Longrightarrow> tok_totalSupply t = tok_totalSupply t2 \<Longrightarrow>
   token_abs t1 = token_abs t2 \<and> balanced t1 = balanced t2"
  by (auto simp: token_abs_def balanced_def dest!: token_frame_eq)

lemma update_abs:
  assumes "token_running t t1" and "token_settled t"
  shows "token_settled (token_updateState c t1)" and "token_frame (token_updateState c t1) = token_frame t"
    and "token_abs (token_updateState c t1) = token_abs (if c then t1 else t)"
    and "balanced (token_updateState c t1) = balanced (if c then t1 else t)"
proof -
  note u = token_updateState_end [OF assms(1), of c]
  show "token_settled (token_updateState c t1)" "token_frame (token_updateState c t1) = token_frame t" by (rule u)+
  show "token_abs (token_updateState c t1) = token_abs (if c then t1 else t)"
    "balanced (token_updateState c t1) = balanced (if c then t1 else t)"
    using token_abs_cong [OF u(2-4)] running_frame(3) [OF assms(1)] by simp_all
qed

text \<open>How a function of the contract behaves, whatever its body is: the state afterwards.\<close>

lemma token_finish:
  assumes "token_ok t" and "token_running t t1" and "functions (take 4 data) = Some f" and "f data t = (t1, r)"
    and "r = Inr () \<Longrightarrow> balanced t1"
  obtains t2 where "token_ethCall functions data t = (t2, rethrow '''' r)" and "token_ok t2" and "token_frame t2 = token_frame t"
    and "token_abs t2 = token_abs (if r = Inr () \<and> loc_commit t then t1 else t)"
proof -
  have s: "token_settled t" "balanced t" using assms(1) by (simp_all add: token_ok_def)
  note u = update_abs [OF assms(2) s(1)]
  let ?c = "r = Inr () \<and> loc_commit t"
  have "token_ethCall functions data t = (token_updateState ?c t1, rethrow '''' r)"
    using assms(3,4) running_frame(2) [OF assms(2)] by (cases r) (simp_all add: token_ethCall_def rethrow_def)
  moreover have "token_ok (token_updateState ?c t1)"
    unfolding token_ok_def using u(1) [of ?c] u(4) [of ?c] assms(5) s(2) by (simp split: if_splits)
  ultimately show thesis using that u(2) [of ?c] u(3) [of ?c] by blast
qed

lemma ERC20_dispatch:
  assumes "\<forall>v\<in>set (call_args call). abi_valid v"
  shows "\<exists>f. ERC20_functions (take 4 (call_data call)) = Some f \<and> f (call_data call) = call_action call"
proof (cases call)
  case (Transfer to v)
  have "Decoder [T_address, T_uint256] (abi_packed [AAddress to, AUint256 v]) = Inr [AAddress to, AUint256 v]"
    using Decoder_packed [of "[AAddress to, AUint256 v]"] assms Transfer by simp
  then show ?thesis
    by (simp add: Transfer ERC20_functions_def call_data_def args_def arg_address_def arg_uint256_def getData_address_def
        getData_uint256_def getData_def)
next
  case (Approve sp v)
  have "Decoder [T_address, T_uint256] (abi_packed [AAddress sp, AUint256 v]) = Inr [AAddress sp, AUint256 v]"
    using Decoder_packed [of "[AAddress sp, AUint256 v]"] assms Approve by simp
  then show ?thesis
    by (simp add: Approve ERC20_functions_def call_data_def args_def arg_address_def arg_uint256_def getData_address_def
        getData_uint256_def getData_def)
next
  case (TransferFrom f to v)
  have "Decoder [T_address, T_address, T_uint256] (abi_packed [AAddress f, AAddress to, AUint256 v]) = Inr [AAddress f, AAddress to, AUint256 v]"
    using Decoder_packed [of "[AAddress f, AAddress to, AUint256 v]"] assms TransferFrom by simp
  then show ?thesis
    by (simp add: TransferFrom ERC20_functions_def call_data_def args_def arg_address_def arg_uint256_def getData_address_def
        getData_uint256_def getData_def)
qed

lemma ERC20_call_spec:
  assumes "token_ok t" and "\<forall>v\<in>set (call_args call). abi_valid v"
  shows "\<exists>t' r. token_ethCall ERC20_functions (call_data call) t = (t', r) \<and> token_ok t' \<and> token_frame t' = token_frame t
      \<and> (case spec_call (loc_caller t) call (token_abs t) of
           None \<Rightarrow> (\<exists>m. r = Inl (RuntimeError m)) \<and> token_abs t' = token_abs t
         | Some s \<Rightarrow> r = Inr () \<and> token_abs t' = (if loc_commit t then s else token_abs t))"
proof -
  obtain t1 r where a: "call_action call t = (t1, r)" "token_running t t1"
    "case spec_call (loc_caller t) call (token_abs t) of
       None \<Rightarrow> isl r \<and> r \<noteq> Inl UndefinedBehaviour | Some s \<Rightarrow> r = Inr () \<and> balanced t1 \<and> token_abs t1 = s"
    by (rule call_action_step [OF assms(1)])
  obtain f where f: "ERC20_functions (take 4 (call_data call)) = Some f" "f (call_data call) = call_action call"
    using ERC20_dispatch [OF assms(2)] by blast
  have fd: "f (call_data call) t = (t1, r)" using a(1) f(2) by simp
  have b: "r = Inr () \<Longrightarrow> balanced t1" using a(3) by (auto split: option.splits)
  obtain t2 where t2: "token_ethCall ERC20_functions (call_data call) t = (t2, rethrow '''' r)" "token_ok t2"
    "token_frame t2 = token_frame t" "token_abs t2 = token_abs (if r = Inr () \<and> loc_commit t then t1 else t)"
    by (rule token_finish [of t t1 ERC20_functions "call_data call" f r, OF assms(1) a(2) f(1) fd b])
  show ?thesis using a(3) t2 by (auto simp: rethrow_def isl_def split: option.splits)
qed

text \<open>C3. The token contract implements the abstract token: a transaction with the data of one of the three
  calls succeeds exactly when the abstract call is possible, and then the committed state is the abstract
  result; when the call is refused, or is only simulated, the state is the old one. The sum of the
  balances stays the supply, so no addition overflows.\<close>

theorem ERC20_call_refines:
  assumes "token_ok t" and "\<forall>v\<in>set (call_args call). abi_valid v"
  shows "\<exists>t' r. token_ethCall ERC20_functions (call_data call) t = (t', r) \<and> token_ok t' \<and> token_frame t' = token_frame t
      \<and> (case spec_call (loc_caller t) call (token_abs t) of
           None \<Rightarrow> (\<exists>m. r = Inl (RuntimeError m)) \<and> token_abs t' = token_abs t
         | Some s \<Rightarrow> r = Inr () \<and> token_abs t' = (if loc_commit t then s else token_abs t))"
  by (rule ERC20_call_spec [OF assms])

subsection \<open>Deployment and reachable states\<close>

definition minted :: "bytes \<Rightarrow> uint256 \<Rightarrow> balance_map" where
  "minted creator v = (fst (sm_index_modify 0 creator (\<lambda>b. u256_add b v) (SafeMap_owned Map.empty)))"

lemma sm_lookup_owned [simp]: "sm_lookup (SafeMap_owned m) = m"
  by (simp add: sm_lookup_def SafeMap_owned_def sm_pending_def sm_erasedKeys_def fun_eq_iff)

lemma map_tracked_owned: "map_tracked False m (SafeMap_owned m)"
  using sm_lookup_owned [of m] by (simp add: map_tracked_def SafeMap_owned_def sm_erasedKeys_def)

lemma sm_registers_owned [simp]: "sm_registers (SafeMap_owned m)"
  by (simp add: sm_registers_def SafeMap_owned_def)

lemma minted_simps:
  "sm_index_modify 0 creator (\<lambda>b. u256_add b v) (SafeMap_owned Map.empty) = (minted creator v, Inr ())"
  "sm_lookup (sm_commit (minted creator v)) = [creator \<mapsto> v]" "map_settled (sm_commit (minted creator v))"
proof -
  let ?m = "SafeMap_owned Map.empty :: balance_map"
  have a: "u256_add 0 v = Inr v" using unsigned_less [of v, where ?'a = nat] by (simp add: u256_add_def)
  have t: "map_tracked True Map.empty (minted creator v)"
    using map_tracked_modify [OF map_tracked_owned [of Map.empty], of 0 creator "\<lambda>b. u256_add b v"] by (simp add: minted_def)
  have l: "sm_lookup (minted creator v) = [creator \<mapsto> v]"
    unfolding minted_def using sm_index_modify_simps(2) [where f = "\<lambda>b. u256_add b v" and m = ?m and k = creator and d = 0 and y = v] a by simp
  show "sm_index_modify 0 creator (\<lambda>b. u256_add b v) ?m = (minted creator v, Inr ())"
    using sm_index_modify_simps(1) [of 0 creator "\<lambda>b. u256_add b v" ?m] a by (simp add: minted_def prod_eq_iff)
  show "sm_lookup (sm_commit (minted creator v)) = [creator \<mapsto> v]" "map_settled (sm_commit (minted creator v))"
    using map_tracked_end [OF t, of True] l by auto
qed

lemma checked_add_0: "checked_add 0 (v :: uint256) = Inr v"
  by (simp add: checked_add_def numeric_max_def)

text \<open>What deployment commits.\<close>

definition deployed :: "bytes \<Rightarrow> bytes \<Rightarrow> uint8 \<Rightarrow> uint256 \<Rightarrow> bytes \<Rightarrow> bytes \<Rightarrow> uint64 \<Rightarrow> token" where
  "deployed name symbol decimals mint address creator chainId =
     (token_of_base (BaseContract_new (bytes_of_string ''ERC20'') address creator chainId))
        \<lparr>tok_name := \<lparr>sv_value = name, sv_ptr = Some name, sv_owner = True, sv_registered = False\<rparr>,
         tok_symbol := \<lparr>sv_value = symbol, sv_ptr = Some symbol, sv_owner = True, sv_registered = False\<rparr>,
         tok_decimals := \<lparr>sv_value = decimals, sv_ptr = None, sv_owner = True, sv_registered = False\<rparr>,
         tok_totalSupply := \<lparr>sv_value = mint, sv_ptr = None, sv_owner = True, sv_registered = False\<rparr>,
         tok_balances := sm_commit (minted creator mint)\<rparr>"

lemmas on_member_defs = on_name_def on_symbol_def on_decimals_def on_totalSupply_def on_balances_def note_use_def

lemma ERC20_new_eq:
  "ERC20_new R name symbol decimals mint address creator chainId db =
     (BaseContract_put R db (bytes_of_string ''ERC20'') address creator chainId,
      Inr (deployed name symbol decimals mint address creator chainId))"
proof -
  define b where "b = BaseContract_new (bytes_of_string ''ERC20'') address creator chainId"
  have "fst (ERC20_new R name symbol decimals mint address creator chainId db)
      = BaseContract_put R db (bytes_of_string ''ERC20'') address creator chainId"
    by (simp add: ERC20_new_def Let_def split: prod.split)
  moreover have "snd (ERC20_new R name symbol decimals mint address creator chainId db)
      = Inr (deployed name symbol decimals mint address creator chainId)"
    unfolding ERC20_new_def Let_def b_def [symmetric] mintValue_def SafeString_assign_def SafeUint_assign_def SafeUint_add_assign_def
    by (simp add: bindS_def on_member_defs token_of_base_def BaseContract.defs DynamicContract.defs token.defs
        sv_modify_def sv_markAsUsed_def sv_registers_def sv_check_def sv_get_def SafeString_owned_def SafeUint_owned_def
        minted_simps checked_add_0 token_updateState_def SafeString_commit_def sv_commit_def deployed_def b_def)
  ultimately show ?thesis by (simp add: prod_eq_iff)
qed

lemma deployed_ok:
  "token_ok (deployed name symbol decimals mint address creator chainId)"
  "token_abs (deployed name symbol decimals mint address creator chainId) =
     \<lparr>ab_supply = unat mint, ab_balance = (\<lambda>_. 0)(creator := unat mint), ab_allowance = (\<lambda>_ _. 0)\<rparr>"
proof -
  let ?t = "deployed name symbol decimals mint address creator chainId"
  have f: "tok_balances ?t = sm_commit (minted creator mint)" "tok_allowed ?t = SafeMap_owned Map.empty"
    "sv_get (tok_totalSupply ?t) = mint" "dc_used ?t = []"
    by (simp_all add: deployed_def token_of_base_def BaseContract_new_def BaseContract.defs DynamicContract.defs token.defs
        sv_get_def sv_check_def)
  have h: "holdings [creator \<mapsto> mint] = (\<lambda>_. 0)(creator := unat mint)"
    using holdings_upd [of Map.empty creator mint] by (simp add: fun_eq_iff holdings_def inner_at_None)
  then show "token_ok ?t"
    using map_tracked_owned [of Map.empty] minted_simps(3) [of creator mint, unfolded minted_simps(2)]
    by (auto simp: token_ok_def token_settled_def balanced_def f minted_simps total_def)
  show "token_abs ?t = \<lparr>ab_supply = unat mint, ab_balance = (\<lambda>_. 0)(creator := unat mint), ab_allowance = (\<lambda>_ _. 0)\<rparr>"
    by (simp add: token_abs_def f minted_simps h)
qed

lemma set_locals_simps [simp]:
  "token_ok (set_locals orig c v b t) = token_ok t" "token_abs (set_locals orig c v b t) = token_abs t"
  "loc_caller (set_locals orig c v b t) = c" "loc_commit (set_locals orig c v b t) = b"
  by (simp_all add: set_locals_def token_ok_def token_abs_def token_settled_def balanced_def)

text \<open>A function of the contract either fails while it decodes its arguments or is one of the three calls.\<close>

lemma ERC20_functions_cases:
  assumes "ERC20_functions functor = Some f"
  shows "(\<exists>e. f data = liftS (Inl e)) \<or> (\<exists>call. f data = call_action call)"
proof -
  define Q :: "(token, unit) action \<Rightarrow> bool" where "Q g \<longleftrightarrow> (\<exists>e. g = liftS (Inl e)) \<or> (\<exists>call. g = call_action call)" for g
  have fails: "Q (liftS (Inl e))" for e by (auto simp: Q_def)
  have calls: "Q (ERC20_transfer to v)" "Q (ERC20_approve to v)" "Q (ERC20_transferFrom a to v)" for a to v
    unfolding Q_def using call_action.simps by metis+
  have args: "(\<And>d. Q (k d)) \<Longrightarrow> Q (args types data k)" for types k
    by (cases "Decoder types (drop 4 data)") (simp_all add: args_def fails)
  have addr: "(\<And>a. Q (k a)) \<Longrightarrow> Q (arg_address d i k)" for d i k
    by (cases "getData_address d i") (simp_all add: arg_address_def fails)
  have num: "(\<And>a. Q (k a)) \<Longrightarrow> Q (arg_uint256 d i k)" for d i k
    by (cases "getData_uint256 d i") (simp_all add: arg_uint256_def fails)
  have "Q (f data)"
    using assms unfolding ERC20_functions_def by (auto split: if_splits intro!: args addr num calls)
  then show ?thesis by (simp add: Q_def)
qed

lemma ERC20_any_call:
  assumes "token_ok t" and "token_ethCall ERC20_functions data t = (t', r)"
  shows "token_ok t' \<and> ab_supply (token_abs t') = ab_supply (token_abs t)"
proof (cases "ERC20_functions (take 4 data)")
  case None
  have run: "token_running t t" "token_settled t" "balanced t"
    using assms(1) by (simp_all add: token_ok_def settled_token_running)
  have "t' = token_updateState False t" using assms(2) None by (simp add: token_ethCall_def)
  then show ?thesis using update_abs [OF run(1,2), of False] run(3) by (simp add: token_ok_def)
next
  case (Some f)
  have run: "token_running t t" using assms(1) by (simp add: token_ok_def settled_token_running)
  obtain t1 r1 where t1: "f data t = (t1, r1)" "token_running t t1" "r1 = Inr () \<Longrightarrow> balanced t1"
  proof (cases "\<exists>e. f data = liftS (Inl e)")
    case True
    then show thesis using that [OF _ run] by (auto simp: liftS_def)
  next
    case False
    then obtain call where "f data = call_action call" using ERC20_functions_cases [OF Some, of data] by blast
    then show thesis using call_action_step [OF assms(1), of call] that by (metis (no_types, lifting) isl_def option.case_eq_if sum.distinct(1))
  qed
  obtain t2 where "token_ethCall ERC20_functions data t = (t2, rethrow '''' r1)" "token_ok t2" "token_frame t2 = token_frame t"
    by (rule token_finish [of t t1 ERC20_functions data f r1, OF assms(1) t1(2) Some t1(1,3)])
  then show ?thesis using assms(2) by (auto simp: token_abs_def dest: token_frame_eq)
qed

inductive token_reach :: "'s rocksdb \<Rightarrow> uint256 \<Rightarrow> token \<Rightarrow> bool" for R where
  deploy: "ERC20_new R name symbol decimals mint address creator chainId db = (db', Inr t) \<Longrightarrow> token_reach R mint t"
| call: "token_reach R mint t \<Longrightarrow> token_ethCall ERC20_functions data (set_locals orig caller v b t) = (t', r) \<Longrightarrow> token_reach R mint t'"

lemma token_reach_ok: "token_reach R mint t \<Longrightarrow> token_ok t \<and> ab_supply (token_abs t) = unat mint"
proof (induction rule: token_reach.induct)
  case (deploy name symbol decimals mint address creator chainId db db' t)
  then have "t = deployed name symbol decimals mint address creator chainId" by (simp add: ERC20_new_eq)
  then show ?case using deployed_ok [of name symbol decimals mint address creator chainId] by simp
next
  case (call mint t data orig caller v b t' r)
  then show ?case using ERC20_any_call [of "set_locals orig caller v b t" data t' r] by simp
qed

text \<open>C17. No sequence of calls creates or destroys tokens: in every state that deployment and any calls with
  any data, by any callers, committed, simulated or failing, can lead to, the balances of all holders add
  up to the amount minted at deployment, and the total supply the contract reports is that amount.\<close>

theorem ERC20_supply_conserved:
  assumes "token_reach R mint t"
  shows "sum (\<lambda>a. unat (inner_at (sm_map (tok_balances t)) a)) (dom (sm_map (tok_balances t))) = unat mint
    \<and> ERC20_totalSupply C t = Encoder C [AUint256 mint] ''''"
proof -
  have t: "token_ok t" "ab_supply (token_abs t) = unat mint" using token_reach_ok [OF assms] by simp_all
  have m: "sm_map (tok_balances t) = sm_lookup (tok_balances t)"
    using t(1) by (simp add: token_ok_def token_settled_def map_tracked_def)
  have "unat (sv_get (tok_totalSupply t)) = unat mint" using t(2) by (simp add: token_abs_def)
  then have "sv_get (tok_totalSupply t) = mint" by (simp add: word_eq_iff_unsigned [where ?'a = nat])
  then show ?thesis
    using t(1) by (simp add: ERC20_totalSupply_def token_ok_def balanced_def total_def holdings_def m)
qed

definition demo_token :: token where
  "demo_token = set_locals (replicate 20 1) (replicate 20 1) 0 True
     (deployed [1] [2] 18 1000 (replicate 20 9) (replicate 20 1) 8080)"

theorem ERC20_call_refines_witness:
  "\<exists>t'. token_ethCall ERC20_functions (call_data (Transfer (replicate 20 2) 30)) demo_token = (t', Inr ())
     \<and> ab_balance (token_abs t') = (\<lambda>_. 0)(replicate 20 1 := 970, replicate 20 2 := 30)"
proof -
  let ?call = "Transfer (replicate 20 2) 30"
  have ok: "token_ok demo_token" and "token_abs demo_token =
      \<lparr>ab_supply = 1000, ab_balance = (\<lambda>_. 0)(replicate 20 1 := 1000), ab_allowance = (\<lambda>_ _. 0)\<rparr>"
    by (simp_all add: demo_token_def deployed_ok)
  then have "spec_call (loc_caller demo_token) ?call (token_abs demo_token) = Some
      \<lparr>ab_supply = 1000, ab_balance = (\<lambda>_. 0)(replicate 20 1 := 970, replicate 20 2 := 30), ab_allowance = (\<lambda>_ _. 0)\<rparr>"
    by (simp add: demo_token_def move_def Let_def replicate_eq_replicate fun_eq_iff)
  moreover have "loc_commit demo_token" by (simp add: demo_token_def)
  ultimately show ?thesis using ERC20_call_refines [OF ok, of ?call] by auto
qed

theorem ERC20_supply_conserved_witness:
  "let t = fst (token_ethCall ERC20_functions (call_data (Transfer (replicate 20 2) 30)) demo_token)
   in sum (\<lambda>a. unat (inner_at (sm_map (tok_balances t)) a)) (dom (sm_map (tok_balances t))) = 1000
     \<and> ERC20_totalSupply demo_crypto t = Encoder demo_crypto [AUint256 1000] ''''"
proof -
  let ?d = "call_data (Transfer (replicate 20 2) 30)"
  obtain t r where c: "token_ethCall ERC20_functions ?d demo_token = (t, r)" by fastforce
  have "token_reach alist_rocks 1000 (deployed [1] [2] 18 1000 (replicate 20 9) (replicate 20 1) 8080)"
    by (rule token_reach.deploy [OF ERC20_new_eq])
  then have "token_reach alist_rocks 1000 t" by (rule token_reach.call) (use c in \<open>simp add: demo_token_def\<close>)
  from ERC20_supply_conserved [OF this] show ?thesis by (simp add: c)
qed

end
