(* ===== verification/Chain_State.thy ===== *)
theory Chain_State
  imports Manager Token_Spec
begin

text \<open>
  The state of the blockchain (\<^verbatim>\<open>src/core/state.cpp\<close>): accounts, the mempool of block transactions, and what a
  new block does to them, to rdPoS, to the contracts and to the storage. The record \<open>State\<close> is declared in
  theory \<^verbatim>\<open>Manager\<close> because contracts change it.
\<close>

datatype TxInvalid = NotInvalid | InvalidNonce | InvalidBalance

subsection \<open>Loading and saving accounts\<close>

definition minimal_bytes :: "nat \<Rightarrow> bytes" where
  "minimal_bytes n = (if n = 0 then [0] else uintToBytes (bytesRequired n) @ uintToBytes n)"

definition serialize_account :: "Account \<Rightarrow> bytes" where
  "serialize_account acc = minimal_bytes (unat (acc_balance acc)) @ minimal_bytes (unat (acc_nonce acc))"

definition accounts_batch :: "(bytes \<times> Account) list \<Rightarrow> DBBatch" where
  "accounts_batch accs = \<lparr>bt_puts = map (\<lambda>(a, acc). \<lparr>de_key = a, de_value = serialize_account acc\<rparr>) accs, bt_dels = []\<rparr>"

definition State_close :: "'s rocksdb \<Rightarrow> 's State \<Rightarrow> 's" where
  "State_close R S = fst (DB_putBatch R (database S) (accounts_batch (accounts S)) DBPrefix_nativeAccounts)"

text \<open>The check \<^verbatim>\<open>data.size() + 1 < data.size()\<close> is never true and left out.\<close>

definition parse_account :: "bytes \<Rightarrow> Account result" where
  "parse_account data =
     bindE (substr data 0 1) (\<lambda>s0.
     let balanceSize = unat (fromBigEndian s0 :: uint8) in
     bindE (substr data 1 balanceSize) (\<lambda>s1.
     bindE (fromBigEndian256 s1) (\<lambda>balance.
     bindE (substr data (1 + balanceSize) 1) (\<lambda>s2.
     let nonceSize = unat (fromBigEndian s2 :: uint8) in
     if 2 + balanceSize + nonceSize \<noteq> length data
     then Inl (RuntimeError ''Error when loading State from DB, value from DB size mismatch on nonceSize'')
     else bindE (substr data (2 + balanceSize) nonceSize) (\<lambda>s3.
     Inr \<lparr>acc_balance = balance, acc_nonce = fromBigEndian s3\<rparr>)))))"

definition load_account :: "DBEntry \<Rightarrow> (bytes \<times> Account) list \<Rightarrow> (bytes \<times> Account) list result" where
  "load_account e accs =
     (if length (de_key e) \<noteq> 20 then Inl (RuntimeError ''Error when loading State from DB, address from DB size mismatch'')
      else bindE (parse_account (de_value e)) (\<lambda>acc.
      Inr (if map_of accs (de_key e) = None then accs @ [(de_key e, acc)] else accs)))"

definition genesis_balance :: uint256 where
  "genesis_balance = 1000000000000000000000"

definition load_accounts :: "'s rocksdb \<Rightarrow> 's \<Rightarrow> ('s \<times> (bytes \<times> Account) list) result" where
  "load_accounts R db0 =
     (let db = (if DB_getBatch R db0 DBPrefix_nativeAccounts [] = []
                then fst (DB_put R db0 dead_address
                       (uintToBytes (bytesRequired (unat genesis_balance)) @ uintToBytes (unat genesis_balance) @ [0]) DBPrefix_nativeAccounts)
                else db0)
      in bindE (foldE load_account (DB_getBatch R db DBPrefix_nativeAccounts []) []) (\<lambda>accs. Inr (db, accs)))"

subsection \<open>Transactions\<close>

definition tx_cost :: "TxBlock \<Rightarrow> uint256 result" where
  "tx_cost tx = bindE (u256_mul (tx_gasLimit tx) (tx_maxFeePerGas tx)) (\<lambda>fee. u256_add (tx_value tx) fee)"

definition validateTransactionInternal :: "crypto \<Rightarrow> 's State \<Rightarrow> TxBlock \<Rightarrow> TxInvalid result" where
  "validateTransactionInternal C S tx =
     (if map_of (mempool S) (tx_hash C tx) \<noteq> None then Inr NotInvalid
      else case map_of (accounts S) (tx_from tx) of
        None \<Rightarrow> Inr InvalidBalance
      | Some acc \<Rightarrow> bindE (tx_cost tx) (\<lambda>txWithFees.
          if txWithFees > acc_balance acc then Inr InvalidBalance
          else if ucast (acc_nonce acc) \<noteq> tx_nonce tx then Inr InvalidNonce
          else Inr NotInvalid))"

definition balance_modify :: "bytes \<Rightarrow> (uint256 \<Rightarrow> uint256 result) \<Rightarrow> ('s State, unit) action" where
  "balance_modify a f S =
     (let b = acc_balance (account_or_new (accounts S) a) in
      case f b of
        Inl e \<Rightarrow> (S\<lparr>accounts := put_balance a b (accounts S)\<rparr>, Inl e)
      | Inr x \<Rightarrow> (S\<lparr>accounts := put_balance a x (accounts S)\<rparr>, Inr ()))"

definition increase_nonce :: "bytes \<Rightarrow> 's State \<Rightarrow> 's State" where
  "increase_nonce a S =
     (let acc = account_or_new (accounts S) a
      in S\<lparr>accounts := AList.update a (acc\<lparr>acc_nonce := acc_nonce acc + 1\<rparr>) (accounts S)\<rparr>)"

text \<open>The body of the \<^verbatim>\<open>try\<close> block.\<close>

definition execute_transaction :: "'s rocksdb \<Rightarrow> crypto \<Rightarrow> nat \<Rightarrow> TxBlock \<Rightarrow> ('s State, unit) action" where
  "execute_transaction R C depth tx =
     bindS (liftS (tx_cost tx)) (\<lambda>txValueWithFees.
     bindS (balance_modify (tx_from tx) (\<lambda>b. u256_sub b txValueWithFees)) (\<lambda>_.
     bindS (balance_modify (tx_to tx) (\<lambda>b. u256_add b (tx_value tx))) (\<lambda>_ S.
     if isContractCall S tx then
       bindS (callContract_tx R C depth tx) (\<lambda>_ S. (S\<lparr>processingPayable := False\<rparr>, Inr ()))
         (if isPayable S (txToCallInfo tx) then S\<lparr>processingPayable := True\<rparr> else S)
     else (S, Inr ()))))"

definition processTransaction :: "'s rocksdb \<Rightarrow> crypto \<Rightarrow> nat \<Rightarrow> TxBlock \<Rightarrow> ('s State, unit) action" where
  "processTransaction R C depth tx S =
     (if map_of (accounts S) (tx_from tx) = None then (S, Inl UndefinedBehaviour)
      else bindS (\<lambda>S. case execute_transaction R C depth tx S of
               (S1, Inr u) \<Rightarrow> (S1, Inr u)
             | (S1, Inl e) \<Rightarrow> if e = UndefinedBehaviour then (S1, Inl e)
                            else balance_modify (tx_from tx) (\<lambda>b. u256_add b (tx_value tx)) S1)
             (\<lambda>_ S. (increase_nonce (tx_from tx) S, Inr ())) S)"

subsection \<open>The mempool\<close>

definition readmit :: "crypto \<Rightarrow> bytes \<times> TxBlock \<Rightarrow> ('s State, unit) action" where
  "readmit C e S =
     (case validateTransactionInternal C S (snd e) of
        Inl ex \<Rightarrow> (S, Inl ex)
      | Inr v \<Rightarrow> (if v = NotInvalid \<and> map_of (mempool S) (fst e) = None then S\<lparr>mempool := mempool S @ [e]\<rparr> else S, Inr ()))"

definition refreshMempool :: "crypto \<Rightarrow> Block \<Rightarrow> ('s State, unit) action" where
  "refreshMempool C block S =
     (let mempoolCopy = fold (\<lambda>tx mp. AList.delete (tx_hash C tx) mp) (txs block) (mempool S)
      in forS (readmit C) mempoolCopy (S\<lparr>mempool := []\<rparr>))"

definition addTx :: "crypto \<Rightarrow> 's State \<Rightarrow> TxBlock \<Rightarrow> ('s State \<times> TxInvalid) result" where
  "addTx C S tx =
     bindE (validateTransactionInternal C S tx) (\<lambda>v.
     if v \<noteq> NotInvalid then Inr (S, v)
     else Inr (if map_of (mempool S) (tx_hash C tx) = None then S\<lparr>mempool := mempool S @ [(tx_hash C tx, tx)]\<rparr> else S, v))"

definition isTxInMempool :: "'s State \<Rightarrow> bytes \<Rightarrow> bool" where
  "isTxInMempool S h \<longleftrightarrow> map_of (mempool S) h \<noteq> None"

definition getTxFromMempool :: "'s State \<Rightarrow> bytes \<Rightarrow> TxBlock option" where
  "getTxFromMempool S h = map_of (mempool S) h"

definition fillBlockWithTransactions :: "'s State \<Rightarrow> Block \<Rightarrow> Block" where
  "fillBlockWithTransactions S block = fold (\<lambda>(h, tx) b. fst (appendTx b tx)) (mempool S) block"

definition State_addValidatorTx :: "crypto \<Rightarrow> 's State \<Rightarrow> TxValidator \<Rightarrow> ('s State \<times> bool) result" where
  "State_addValidatorTx C S tx =
     bindE (latest (storage S)) (\<lambda>b.
     bindE (addValidatorTx C (nHeight b) (rdpos S) tx) (\<lambda>(rd, ok). Inr (S\<lparr>rdpos := rd\<rparr>, ok)))"

subsection \<open>Blocks\<close>

fun validate_txs :: "crypto \<Rightarrow> 's State \<Rightarrow> TxBlock list \<Rightarrow> bool result" where
  "validate_txs C S [] = Inr True"
| "validate_txs C S (tx # rest) =
     bindE (validateTransactionInternal C S tx) (\<lambda>v. if v \<noteq> NotInvalid then Inr False else validate_txs C S rest)"

definition validateNextBlock :: "crypto \<Rightarrow> 's State \<Rightarrow> Block \<Rightarrow> bool result" where
  "validateNextBlock C S block =
     bindE (latest (storage S)) (\<lambda>latestBlock.
     if nHeight block \<noteq> nHeight latestBlock + 1 then Inr False
     else if prevBlockHash block \<noteq> Block_hash C latestBlock then Inr False
     else if timestamp latestBlock > timestamp block then Inr False
     else bindE (validateBlock C (rdpos S) block) (\<lambda>ok.
     if \<not> ok then Inr False else validate_txs C S (txs block)))"

definition processNextBlock :: "'s rocksdb \<Rightarrow> crypto \<Rightarrow> nat \<Rightarrow> Block \<Rightarrow> ('s State, unit) action" where
  "processNextBlock R C depth block S =
     (case validateNextBlock C S block of
        Inl e \<Rightarrow> (S, Inl e)
      | Inr ok \<Rightarrow>
          if \<not> ok then (S, Inl (RuntimeError ''Invalid block detected during processNextBlock sanity check.''))
          else bindS (forS (processTransaction R C depth) (txs block)) (\<lambda>_.
               bindS (\<lambda>S. case processBlock C (rdpos S) block of
                        Inl e \<Rightarrow> (S, Inl e) | Inr (rd, _) \<Rightarrow> (S\<lparr>rdpos := rd\<rparr>, Inr ())) (\<lambda>_.
               bindS (refreshMempool C block) (\<lambda>_ S.
               case pushBack C (storage S) block of
                 Inl e \<Rightarrow> (S, Inl e) | Inr st \<Rightarrow> (S\<lparr>storage := st\<rparr>, Inr ())))) S)"

subsection \<open>Queries\<close>

definition getNativeBalance :: "'s State \<Rightarrow> bytes \<Rightarrow> uint256" where
  "getNativeBalance S a = (case map_of (accounts S) a of None \<Rightarrow> 0 | Some acc \<Rightarrow> acc_balance acc)"

definition getNativeNonce :: "'s State \<Rightarrow> bytes \<Rightarrow> uint64" where
  "getNativeNonce S a = (case map_of (accounts S) a of None \<Rightarrow> 0 | Some acc \<Rightarrow> acc_nonce acc)"

definition addBalance :: "bytes \<Rightarrow> ('s State, unit) action" where
  "addBalance a = balance_modify a (\<lambda>b. u256_add b 1000000000000000000000)"

definition State_ethCall :: "crypto \<Rightarrow> 's State \<Rightarrow> ethCallInfo \<Rightarrow> bytes result" where
  "State_ethCall C S info =
     (let (from, to, gasLimit, gasPrice, v, data) = info
      in if isContractAddress S to then callContract_view C S info else Inr [])"

definition estimateGas :: "'s rocksdb \<Rightarrow> crypto \<Rightarrow> nat \<Rightarrow> ethCallInfo \<Rightarrow> ('s State, bool) action" where
  "estimateGas R C depth info S =
     (let (from, to, gasLimit, gasPrice, v, data) = info in
      case (if nonzero_str from \<and> v \<noteq> 0 then
              bindE (if gasLimit \<noteq> 0 \<and> gasPrice \<noteq> 0 then u256_mul gasLimit gasPrice else Inr 0) (\<lambda>totalGas.
              case map_of (accounts S) from of
                None \<Rightarrow> Inr False
              | Some acc \<Rightarrow> bindE (u256_add v totalGas) (\<lambda>need. Inr (\<not> acc_balance acc < need)))
            else Inr True) of
        Inl e \<Rightarrow> (S, Inl e)
      | Inr False \<Rightarrow> (S, Inr False)
      | Inr True \<Rightarrow>
          if isContractAddress S to
          then bindS (validateCallContractWithTx R C depth info) (\<lambda>_ S. (S, Inr True)) S
          else (S, Inr True))"

end
