(* ===== verification/Ledger.thy ===== *)
theory Ledger
  imports Chain_State
begin

text \<open>
  Native balances: what a transaction does to the accounts, and the sum of all balances. A plain transfer
  that was validated moves its value and burns its fee; a transaction to a protocol contract always
  throws inside, and then the sender is refunded although the receiver keeps the value.
\<close>

subsection \<open>Balances in the account map\<close>

definition ledger :: "(bytes \<times> Account) list \<Rightarrow> bytes \<Rightarrow> nat" where
  "ledger accs a = unat (acc_balance (account_or_new accs a))"

definition ledger_total :: "(bytes \<times> Account) list \<Rightarrow> nat" where
  "ledger_total accs = (\<Sum>(a, acc)\<leftarrow>accs. unat (acc_balance acc))"

definition accounts_ok :: "(bytes \<times> Account) list \<Rightarrow> bool" where
  "accounts_ok accs \<longleftrightarrow> distinct (map fst accs)"

lemma account_or_new_update [simp]:
  "account_or_new (AList.update a acc accs) b = (if b = a then acc else account_or_new accs b)"
  by (simp add: account_or_new_def update_conv')

lemma account_or_new_put [simp]:
  "account_or_new (put_balance a x accs) b = (if b = a then (account_or_new accs a)\<lparr>acc_balance := x\<rparr> else account_or_new accs b)"
  by (simp add: put_balance_def)

lemma ledger_update: "ledger (AList.update a acc accs) = (ledger accs)(a := unat (acc_balance acc))"
  by (simp add: ledger_def fun_eq_iff)

lemma ledger_put [simp]: "ledger (put_balance a x accs) = (ledger accs)(a := unat x)"
  by (simp add: put_balance_def ledger_update)

lemma accounts_ok_update [simp]: "accounts_ok accs \<Longrightarrow> accounts_ok (AList.update a acc accs)"
  by (simp add: accounts_ok_def distinct_update)

lemma accounts_ok_put [simp]: "accounts_ok accs \<Longrightarrow> accounts_ok (put_balance a x accs)"
  by (simp add: put_balance_def)

lemma ledger_total_update:
  "accounts_ok accs \<Longrightarrow> ledger_total (AList.update a acc accs) + ledger accs a = ledger_total accs + unat (acc_balance acc)"
proof (induction accs)
  case (Cons p accs)
  obtain b x where p: "p = (b, x)" by fastforce
  show ?case
  proof (cases "b = a")
    case True
    then show ?thesis by (simp add: p ledger_total_def ledger_def account_or_new_def)
  next
    case False
    with Cons show ?thesis by (simp add: p ledger_total_def ledger_def account_or_new_def accounts_ok_def)
  qed
qed (simp add: ledger_total_def ledger_def account_or_new_def)

lemma ledger_total_put:
  "accounts_ok accs \<Longrightarrow> ledger_total (put_balance a x accs) + ledger accs a = ledger_total accs + unat x"
  by (simp add: put_balance_def ledger_total_update)

lemma ledger_le_total: "accounts_ok accs \<Longrightarrow> ledger accs a \<le> ledger_total accs"
  using ledger_total_put [of accs a 0] by simp

lemma balance_modify_Inr:
  "f (acc_balance (account_or_new (accounts S) a)) = Inr x \<Longrightarrow>
   balance_modify a f S = (S\<lparr>accounts := put_balance a x (accounts S)\<rparr>, Inr ())"
  by (simp add: balance_modify_def Let_def)

subsection \<open>Paying for a transaction\<close>

text \<open>The two updates of balances every transaction begins with, when the sender can pay.\<close>

definition pay :: "TxBlock \<Rightarrow> uint256 \<Rightarrow> 's State \<Rightarrow> 's State" where
  "pay tx cost S =
     (let accs = put_balance (tx_from tx) (acc_balance (account_or_new (accounts S) (tx_from tx)) - cost) (accounts S)
      in S\<lparr>accounts := put_balance (tx_to tx) (acc_balance (account_or_new accs (tx_to tx)) + tx_value tx) accs\<rparr>)"

lemma tx_cost_Inr:
  assumes "tx_cost tx = Inr cost"
  obtains fee where "u256_mul (tx_gasLimit tx) (tx_maxFeePerGas tx) = Inr fee" and "unat cost = unat (tx_value tx) + unat fee"
  using assms by (auto simp: tx_cost_def dest: u256_add_Inr)

lemma validated_can_pay:
  assumes "validateTransactionInternal C S tx = Inr NotInvalid" and "map_of (mempool S) (tx_hash C tx) = None"
  obtains acc cost where "map_of (accounts S) (tx_from tx) = Some acc" and "tx_cost tx = Inr cost"
    and "cost \<le> acc_balance acc" and "ucast (acc_nonce acc) = tx_nonce tx"
  using assms by (auto simp: validateTransactionInternal_def result_simps split: option.splits if_splits)

lemma pay_effect:
  assumes "accounts_ok (accounts S)" and "ledger_total (accounts S) < 2 ^ 256"
    and "map_of (accounts S) (tx_from tx) = Some acc" and "tx_cost tx = Inr cost" and "cost \<le> acc_balance acc"
    and "unat cost = unat (tx_value tx) + fee"
  defines "S1 \<equiv> pay tx cost S"
  shows "execute_transaction R C depth tx S =
      (if isContractCall S tx then
         bindS (callContract_tx R C depth tx) (\<lambda>_ S. (S\<lparr>processingPayable := False\<rparr>, Inr ()))
           (if isPayable S (txToCallInfo tx) then S1\<lparr>processingPayable := True\<rparr> else S1)
       else (S1, Inr ()))"
    and "ledger (accounts S1) = (let b = (ledger (accounts S))(tx_from tx := ledger (accounts S) (tx_from tx) - unat cost)
                                 in b(tx_to tx := b (tx_to tx) + unat (tx_value tx)))"
    and "ledger_total (accounts S1) + fee = ledger_total (accounts S)"
    and "accounts_ok (accounts S1)" and "S1 = S\<lparr>accounts := accounts S1\<rparr>"
    and "acc_nonce (account_or_new (accounts S1) a) = acc_nonce (account_or_new (accounts S) a)"
proof -
  let ?f = "tx_from tx" and ?t = "tx_to tx" and ?v = "tx_value tx"
  let ?b = "acc_balance (account_or_new (accounts S) ?f)"
  let ?accs = "put_balance ?f (?b - cost) (accounts S)"
  have b: "?b = acc_balance acc" using assms(3) by (simp add: account_or_new_def)
  have x: "unat (?b - cost) = unat ?b - unat cost" "unat cost \<le> unat ?b"
    using assms(5) b by (simp_all add: unat_sub word_le_nat_alt)
  have ok: "accounts_ok ?accs" using assms(1) by simp
  have t1: "ledger_total ?accs + unat cost = ledger_total (accounts S)"
    using ledger_total_put [OF assms(1), of ?f "?b - cost"] x by (simp add: ledger_def)
  have le: "ledger ?accs ?t + unat ?v \<le> ledger_total (accounts S)"
    using ledger_le_total [OF ok, of ?t] t1 assms(6) by simp
  then have "unat (acc_balance (account_or_new ?accs ?t)) + unat ?v < 2 ^ 256"
    using assms(2) unfolding ledger_def by (rule le_less_trans)
  then have add: "u256_add (acc_balance (account_or_new ?accs ?t)) ?v = Inr (acc_balance (account_or_new ?accs ?t) + ?v)"
    by (simp add: u256_add_def)
  have y: "unat (acc_balance (account_or_new ?accs ?t) + ?v) = ledger ?accs ?t + unat ?v"
    unfolding ledger_def by (rule u256_add_Inr [OF add])
  have S1: "S1 = S\<lparr>accounts := put_balance ?t (acc_balance (account_or_new ?accs ?t) + ?v) ?accs\<rparr>"
    by (simp only: S1_def pay_def Let_def)
  have "balance_modify ?f (\<lambda>b. u256_sub b cost) S = (S\<lparr>accounts := ?accs\<rparr>, Inr ())"
    by (rule balance_modify_Inr) (use assms(5) b in \<open>simp add: u256_sub_def\<close>)
  moreover have "balance_modify ?t (\<lambda>b. u256_add b ?v) (S\<lparr>accounts := ?accs\<rparr>) = (S1, Inr ())"
    unfolding S1 using balance_modify_Inr [of "\<lambda>b. u256_add b ?v" "S\<lparr>accounts := ?accs\<rparr>" ?t] add by simp
  moreover have "isContractCall S1 tx = isContractCall S tx" "isPayable S1 (txToCallInfo tx) = isPayable S (txToCallInfo tx)"
    unfolding S1 by (simp_all add: isContractCall_def isPayable_def contract_at_def)
  ultimately show "execute_transaction R C depth tx S =
      (if isContractCall S tx then
         bindS (callContract_tx R C depth tx) (\<lambda>_ S. (S\<lparr>processingPayable := False\<rparr>, Inr ()))
           (if isPayable S (txToCallInfo tx) then S1\<lparr>processingPayable := True\<rparr> else S1)
       else (S1, Inr ()))"
    by (simp add: execute_transaction_def assms(4) bindS_Inr)
  show "ledger (accounts S1) = (let b = (ledger (accounts S))(?f := ledger (accounts S) ?f - unat cost)
                                 in b(?t := b ?t + unat ?v))"
  proof -
    have a: "accounts S1 = put_balance ?t (acc_balance (account_or_new ?accs ?t) + ?v) ?accs" by (simp add: S1)
    have "ledger (accounts S1) = (ledger ?accs)(?t := ledger ?accs ?t + unat ?v)" unfolding a ledger_put [of ?t] y ..
    moreover have "ledger ?accs = (ledger (accounts S))(?f := ledger (accounts S) ?f - unat cost)"
      by (simp only: ledger_put x(1)) (simp add: ledger_def)
    ultimately show ?thesis by (simp only: Let_def)
  qed
  show "ledger_total (accounts S1) + fee = ledger_total (accounts S)"
    unfolding S1 using ledger_total_put [OF ok, of ?t "acc_balance (account_or_new ?accs ?t) + ?v"] y t1 assms(6) by simp
  show "accounts_ok (accounts S1)" "S1 = S\<lparr>accounts := accounts S1\<rparr>" unfolding S1 using ok by simp_all
  show "acc_nonce (account_or_new (accounts S1) a) = acc_nonce (account_or_new (accounts S) a)" unfolding S1 by simp
qed

lemma increase_nonce_effect:
  "ledger (accounts (increase_nonce a S)) = ledger (accounts S)"
  "accounts_ok (accounts S) \<Longrightarrow> ledger_total (accounts (increase_nonce a S)) = ledger_total (accounts S)"
  "accounts_ok (accounts S) \<Longrightarrow> accounts_ok (accounts (increase_nonce a S))"
  "acc_nonce (account_or_new (accounts (increase_nonce a S)) b) = acc_nonce (account_or_new (accounts S) b) + (if b = a then 1 else 0)"
proof -
  let ?acc = "account_or_new (accounts S) a"
  have e: "accounts (increase_nonce a S) = AList.update a (?acc\<lparr>acc_nonce := acc_nonce ?acc + 1\<rparr>) (accounts S)"
    by (simp add: increase_nonce_def Let_def)
  show "ledger (accounts (increase_nonce a S)) = ledger (accounts S)"
    unfolding e ledger_update by (simp add: ledger_def fun_eq_iff)
  show "accounts_ok (accounts S) \<Longrightarrow> ledger_total (accounts (increase_nonce a S)) = ledger_total (accounts S)"
    using ledger_total_update [of "accounts S" a "?acc\<lparr>acc_nonce := acc_nonce ?acc + 1\<rparr>"] unfolding e by (simp add: ledger_def)
  show "accounts_ok (accounts S) \<Longrightarrow> accounts_ok (accounts (increase_nonce a S))"
    "acc_nonce (account_or_new (accounts (increase_nonce a S)) b) = acc_nonce (account_or_new (accounts S) b) + (if b = a then 1 else 0)"
    unfolding e by simp_all
qed

lemma increase_nonce_frame: "S1 = S\<lparr>accounts := accounts S1\<rparr> \<Longrightarrow> increase_nonce a S1 = S\<lparr>accounts := accounts (increase_nonce a S1)\<rparr>"
  by (cases S, cases S1) (simp add: increase_nonce_def Let_def)

text \<open>Nothing is lost but what the sender pays: every other account is still there, with the same nonce and no
  smaller balance.\<close>

definition others_keep :: "bytes \<Rightarrow> (bytes \<times> Account) list \<Rightarrow> (bytes \<times> Account) list \<Rightarrow> bool" where
  "others_keep f accs accs' \<longleftrightarrow> (\<forall>a acc. a \<noteq> f \<longrightarrow> map_of accs a = Some acc \<longrightarrow>
     (\<exists>acc'. map_of accs' a = Some acc' \<and> acc_nonce acc' = acc_nonce acc \<and> acc_balance acc \<le> acc_balance acc'))"

lemma dom_put_balance: "dom (map_of (put_balance a x accs)) = insert a (dom (map_of accs))"
  by (simp add: put_balance_def update_conv')

lemma dom_pay: "dom (map_of (accounts S)) \<subseteq> dom (map_of (accounts (increase_nonce a (pay tx cost S))))"
  by (auto simp: increase_nonce_def pay_def Let_def update_conv' dom_put_balance)

lemma others_keepI:
  assumes "dom (map_of accs) \<subseteq> dom (map_of accs')" and "\<And>a. a \<noteq> f \<Longrightarrow> ledger accs a \<le> ledger accs' a"
    and "\<And>a. a \<noteq> f \<Longrightarrow> acc_nonce (account_or_new accs' a) = acc_nonce (account_or_new accs a)"
  shows "others_keep f accs accs'"
  unfolding others_keep_def
proof (intro allI impI)
  fix a acc
  assume a: "a \<noteq> f" "map_of accs a = Some acc"
  with assms(1) obtain acc' where acc': "map_of accs' a = Some acc'" by (metis domD domI subsetD)
  with a assms(2,3) [of a] show "\<exists>acc'. map_of accs' a = Some acc' \<and> acc_nonce acc' = acc_nonce acc \<and> acc_balance acc \<le> acc_balance acc'"
    by (simp add: ledger_def account_or_new_def word_le_nat_alt)
qed

lemma transfer_effect:
  assumes "accounts_ok (accounts S)" and "ledger_total (accounts S) < 2 ^ 256"
    and a: "map_of (accounts S) (tx_from tx) = Some acc" "tx_cost tx = Inr cost" "cost \<le> acc_balance acc"
    and "\<not> isContractCall S tx"
  shows "\<exists>fee accs. u256_mul (tx_gasLimit tx) (tx_maxFeePerGas tx) = Inr fee
    \<and> processTransaction R C depth tx S = (S\<lparr>accounts := accs\<rparr>, Inr ())
    \<and> ledger accs = (let b = (ledger (accounts S))(tx_from tx := ledger (accounts S) (tx_from tx) - (unat (tx_value tx) + unat fee))
                     in b(tx_to tx := b (tx_to tx) + unat (tx_value tx)))
    \<and> (\<forall>a. acc_nonce (account_or_new accs a) = acc_nonce (account_or_new (accounts S) a) + (if a = tx_from tx then 1 else 0))
    \<and> ledger_total accs + unat fee = ledger_total (accounts S) \<and> accounts_ok accs"
    and "others_keep (tx_from tx) (accounts S) (accounts (increase_nonce (tx_from tx) (pay tx cost S)))"
    and "processTransaction R C depth tx S = (increase_nonce (tx_from tx) (pay tx cost S), Inr ())"
proof -
  obtain fee where fee: "u256_mul (tx_gasLimit tx) (tx_maxFeePerGas tx) = Inr fee" "unat cost = unat (tx_value tx) + unat fee"
    using tx_cost_Inr [OF a(2)] by blast
  define S1 where "S1 = pay tx cost S"
  note p = pay_effect [OF assms(1,2) a fee(2), folded S1_def]
  let ?S2 = "increase_nonce (tx_from tx) S1"
  have e: "processTransaction R C depth tx S = (?S2, Inr ())"
    using a(1) p(1) assms(6) by (simp add: processTransaction_def bindS_def)
  then show "processTransaction R C depth tx S = (increase_nonce (tx_from tx) (pay tx cost S), Inr ())" by (simp add: S1_def)
  show "others_keep (tx_from tx) (accounts S) (accounts (increase_nonce (tx_from tx) (pay tx cost S)))"
    by (rule others_keepI [OF dom_pay]) (simp_all add: increase_nonce_effect p(2,6) Let_def flip: S1_def)
  have "?S2 = S\<lparr>accounts := accounts ?S2\<rparr>" by (rule increase_nonce_frame [OF p(5)])
  with e show "\<exists>fee accs. u256_mul (tx_gasLimit tx) (tx_maxFeePerGas tx) = Inr fee
    \<and> processTransaction R C depth tx S = (S\<lparr>accounts := accs\<rparr>, Inr ())
    \<and> ledger accs = (let b = (ledger (accounts S))(tx_from tx := ledger (accounts S) (tx_from tx) - (unat (tx_value tx) + unat fee))
                     in b(tx_to tx := b (tx_to tx) + unat (tx_value tx)))
    \<and> (\<forall>a. acc_nonce (account_or_new accs a) = acc_nonce (account_or_new (accounts S) a) + (if a = tx_from tx then 1 else 0))
    \<and> ledger_total accs + unat fee = ledger_total (accounts S) \<and> accounts_ok accs"
    using fee p(2,3,4,6) by (intro exI [of _ fee] exI [of _ "accounts ?S2"]) (simp add: increase_nonce_effect)
qed

text \<open>A validated transfer: the sender pays the value and the fee, the receiver gets the value, the
  sender's nonce goes up by one, no other balance or nonce changes, and nothing but the accounts does.
  The sum of all balances goes down by exactly the fee.\<close>

theorem processTransaction_transfer:
  assumes "accounts_ok (accounts S)" and "ledger_total (accounts S) < 2 ^ 256"
    and "validateTransactionInternal C S tx = Inr NotInvalid" and "map_of (mempool S) (tx_hash C tx) = None"
    and "\<not> isContractCall S tx"
  shows "\<exists>fee accs. u256_mul (tx_gasLimit tx) (tx_maxFeePerGas tx) = Inr fee
    \<and> processTransaction R C depth tx S = (S\<lparr>accounts := accs\<rparr>, Inr ())
    \<and> ledger accs = (let b = (ledger (accounts S))(tx_from tx := ledger (accounts S) (tx_from tx) - (unat (tx_value tx) + unat fee))
                     in b(tx_to tx := b (tx_to tx) + unat (tx_value tx)))
    \<and> (\<forall>a. acc_nonce (account_or_new accs a) = acc_nonce (account_or_new (accounts S) a) + (if a = tx_from tx then 1 else 0))
    \<and> ledger_total accs + unat fee = ledger_total (accounts S) \<and> accounts_ok accs"
  by (rule validated_can_pay [OF assms(3,4)]) (rule transfer_effect(1) [OF assms(1,2) _ _ _ assms(5)])

lemma callContract_rdPoS:
  assumes "tx_to tx = rdPoS_address" and "contractAddress (manager S) = manager_address"
  shows "callContract_tx R C depth tx S =
    (clear_balances (set_manager_commit True S), Inl (RuntimeError ''Derived Class from Contract does not override ethCall()''))"
proof -
  have "contractAddress (manager (set_manager_commit True S)) \<noteq> rdPoS_address"
    using assms(2) by (simp add: set_manager_commit_def rdPoS_address_def manager_address_def)
  then show ?thesis
    using assms(1) by (simp add: callContract_tx_def Let_def catching_def liftS_def rdPoS_ethCall_def rethrow_def)
qed

lemma accounts_clear [simp]: "accounts (clear_balances S) = accounts S" "accounts (set_manager_commit b S) = accounts S"
  by (simp_all add: clear_balances_def set_balances_def set_manager_commit_def)

text \<open>C38. A transaction to the address of rdPoS always fails inside, because rdPoS has no callable function.
  The sender is then refunded the value, but the credit of the receiver is not taken back: the sum of all
  balances changes by the value minus the fee, so it grows when the value exceeds the fee.\<close>

theorem failed_call_mints:
  assumes "accounts_ok (accounts S)" and "ledger_total (accounts S) < 2 ^ 256"
    and "validateTransactionInternal C S tx = Inr NotInvalid" and "map_of (mempool S) (tx_hash C tx) = None"
    and "tx_to tx = rdPoS_address" and "tx_from tx \<noteq> rdPoS_address" and "contractAddress (manager S) = manager_address"
  shows "\<exists>fee S'. u256_mul (tx_gasLimit tx) (tx_maxFeePerGas tx) = Inr fee
    \<and> processTransaction R C depth tx S = (S', Inr ())
    \<and> ledger (accounts S') (tx_from tx) = ledger (accounts S) (tx_from tx) - unat fee
    \<and> ledger (accounts S') rdPoS_address = ledger (accounts S) rdPoS_address + unat (tx_value tx)
    \<and> ledger_total (accounts S') + unat fee = ledger_total (accounts S) + unat (tx_value tx)"
proof -
  let ?f = "tx_from tx" and ?v = "tx_value tx"
  obtain acc cost where a: "map_of (accounts S) ?f = Some acc" "tx_cost tx = Inr cost" "cost \<le> acc_balance acc"
    using validated_can_pay [OF assms(3,4)] by blast
  obtain fee where fee: "u256_mul (tx_gasLimit tx) (tx_maxFeePerGas tx) = Inr fee" "unat cost = unat ?v + unat fee"
    using tx_cost_Inr [OF a(2)] by blast
  define S1 where "S1 = pay tx cost S"
  note p = pay_effect [OF assms(1,2) a fee(2), folded S1_def]
  have m: "manager S1 = manager S" using p(5) by (metis State.ext_inject State.surjective State.update_convs(1))
  define S1' where "S1' = (if isPayable S (txToCallInfo tx) then S1\<lparr>processingPayable := True\<rparr> else S1)"
  have S1': "accounts S1' = accounts S1" "contractAddress (manager S1') = manager_address"
    using m assms(7) by (simp_all add: S1'_def)
  have "isContractCall S tx" by (simp add: isContractCall_def ProtocolContractAddresses_def assms(5))
  then obtain S2 e where S2: "execute_transaction R C depth tx S = (S2, Inl e)" "e \<noteq> UndefinedBehaviour" "accounts S2 = accounts S1"
    using p(1) [of R C depth, folded S1'_def] callContract_rdPoS [OF assms(5) S1'(2), of R C depth] S1'(1)
    by (simp add: bindS_def)
  have cost: "unat cost \<le> ledger (accounts S) ?f"
    using a(1,3) by (simp add: ledger_def account_or_new_def word_le_nat_alt)
  have lf: "ledger (accounts S1) ?f = ledger (accounts S) ?f - unat cost" "ledger (accounts S1) rdPoS_address = ledger (accounts S) rdPoS_address + unat ?v"
    using p(2) assms(5,6) by (simp_all add: Let_def)
  have "ledger (accounts S1) ?f + unat ?v < 2 ^ 256"
    using lf(1) cost fee(2) ledger_le_total [OF assms(1), of ?f] assms(2) by simp
  then have add: "u256_add (acc_balance (account_or_new (accounts S1) ?f)) ?v = Inr (acc_balance (account_or_new (accounts S1) ?f) + ?v)"
    unfolding ledger_def by (simp add: u256_add_def)
  note x = u256_add_Inr [OF add, folded ledger_def]
  define S3 where "S3 = S2\<lparr>accounts := put_balance ?f (acc_balance (account_or_new (accounts S1) ?f) + ?v) (accounts S1)\<rparr>"
  have "balance_modify ?f (\<lambda>b. u256_add b ?v) S2 = (S3, Inr ())"
    unfolding S3_def using balance_modify_Inr [of "\<lambda>b. u256_add b ?v" S2 ?f] add S2(3) by simp
  then have P: "processTransaction R C depth tx S = (increase_nonce ?f S3, Inr ())"
    using a(1) S2(1,2) by (simp add: processTransaction_def bindS_def)
  have l3: "ledger (accounts S3) = (ledger (accounts S1))(?f := ledger (accounts S1) ?f + unat ?v)"
    by (simp add: S3_def x)
  have t3: "ledger_total (accounts S3) = ledger_total (accounts S1) + unat ?v"
    using ledger_total_put [OF p(4), of ?f "acc_balance (account_or_new (accounts S1) ?f) + ?v"] x by (simp add: S3_def)
  have ok: "accounts_ok (accounts S3)" using p(4) by (simp add: S3_def)
  show ?thesis
    using fee P l3 t3 p(3) lf cost assms(6)
    by (intro exI [of _ fee] exI [of _ "increase_nonce ?f S3"]) (simp add: increase_nonce_effect ok)
qed

subsection \<open>A small state\<close>

definition demo_manager :: ContractManager where
  "demo_manager = BaseContract.extend (BaseContract_new (bytes_of_string ''ContractManager'') manager_address dead_address 0)
     (ContractManager.fields [] [])"

definition demo_state :: "(bytes \<times> bytes) list State" where
  "demo_state = \<lparr>accounts = [(replicate 20 1, \<lparr>acc_balance = 1000, acc_nonce = 0\<rparr>)], mempool = [], processingPayable = False,
     manager = demo_manager, rdpos = round_rd, storage = Storage_empty, database = [], chainID = 8080\<rparr>"

definition demo_pay :: "bytes \<Rightarrow> TxBlock" where
  "demo_pay to = \<lparr>tx_to = to, tx_from = replicate 20 1, tx_data = [], tx_chainId = 8080, tx_nonce = 0, tx_value = 100,
     tx_maxPriorityFeePerGas = 5, tx_maxFeePerGas = 5, tx_gasLimit = 2, tx_v = 0, tx_r = 1, tx_s = 1\<rparr>"

lemma demo_manager_simps: "contractAddress demo_manager = manager_address" "cm_contracts demo_manager = []"
  by (simp_all add: demo_manager_def BaseContract_new_def BaseContract.defs ContractManager.defs)

lemma demo_pay_simps:
  "accounts_ok (accounts demo_state)" "ledger_total (accounts demo_state) = 1000"
  "validateTransactionInternal C demo_state (demo_pay to) = Inr NotInvalid"
  "map_of (mempool demo_state) h = None" "ledger (accounts demo_state) = (\<lambda>a. if a = replicate 20 1 then 1000 else 0)"
  "u256_mul (tx_gasLimit (demo_pay to)) (tx_maxFeePerGas (demo_pay to)) = Inr fee \<longleftrightarrow> fee = 10"
  by (auto simp: demo_state_def demo_pay_def accounts_ok_def ledger_total_def validateTransactionInternal_def tx_cost_def
      u256_mul_def u256_add_def ledger_def account_or_new_def fun_eq_iff)

theorem processTransaction_transfer_witness:
  "\<exists>accs. processTransaction alist_rocks demo_crypto 2 (demo_pay (replicate 20 2)) demo_state = (demo_state\<lparr>accounts := accs\<rparr>, Inr ())
     \<and> ledger accs (replicate 20 1) = 890 \<and> ledger accs (replicate 20 2) = 100 \<and> ledger_total accs = 990"
proof -
  let ?tx = "demo_pay (replicate 20 2)"
  have nc: "\<not> isContractCall demo_state ?tx"
    by (simp add: isContractCall_def demo_state_def demo_manager_simps contract_at_def demo_pay_def ProtocolContractAddresses_def
        manager_address_def rdPoS_address_def replicate_eq_replicate numeral_eq_Suc)
  have lt: "ledger_total (accounts demo_state) < 2 ^ 256" by (simp add: demo_pay_simps)
  obtain fee accs where
    "u256_mul (tx_gasLimit ?tx) (tx_maxFeePerGas ?tx) = Inr fee"
    "processTransaction alist_rocks demo_crypto 2 ?tx demo_state = (demo_state\<lparr>accounts := accs\<rparr>, Inr ())"
    "ledger accs = (let b = (ledger (accounts demo_state))(tx_from ?tx := ledger (accounts demo_state) (tx_from ?tx) - (unat (tx_value ?tx) + unat fee))
       in b(tx_to ?tx := b (tx_to ?tx) + unat (tx_value ?tx)))"
    "ledger_total accs + unat fee = ledger_total (accounts demo_state)"
    using processTransaction_transfer [OF demo_pay_simps(1) lt demo_pay_simps(3) demo_pay_simps(4) nc, of alist_rocks demo_crypto 2] by blast
  then show ?thesis
    by (intro exI [of _ accs]) (simp add: demo_pay_simps, simp add: demo_pay_def Let_def replicate_eq_replicate)
qed

theorem failed_call_mints_witness:
  "\<exists>S'. processTransaction alist_rocks demo_crypto 2 (demo_pay rdPoS_address) demo_state = (S', Inr ())
     \<and> ledger (accounts S') (replicate 20 1) = 990 \<and> ledger (accounts S') rdPoS_address = 100 \<and> ledger_total (accounts S') = 1090"
proof -
  let ?tx = "demo_pay rdPoS_address"
  have ne: "replicate 20 1 \<noteq> rdPoS_address" by (rule notI, drule arg_cong [where f = hd]) (simp add: rdPoS_address_def)
  then have h: "tx_to ?tx = rdPoS_address" "tx_from ?tx \<noteq> rdPoS_address" "contractAddress (manager demo_state) = manager_address"
    "tx_from ?tx = replicate 20 1" "tx_value ?tx = 100"
    by (simp_all add: demo_pay_def demo_state_def demo_manager_simps)
  have lt: "ledger_total (accounts demo_state) < 2 ^ 256" by (simp add: demo_pay_simps)
  obtain fee S' where
    "u256_mul (tx_gasLimit ?tx) (tx_maxFeePerGas ?tx) = Inr fee" "processTransaction alist_rocks demo_crypto 2 ?tx demo_state = (S', Inr ())"
    "ledger (accounts S') (tx_from ?tx) = ledger (accounts demo_state) (tx_from ?tx) - unat fee"
    "ledger (accounts S') rdPoS_address = ledger (accounts demo_state) rdPoS_address + unat (tx_value ?tx)"
    "ledger_total (accounts S') + unat fee = ledger_total (accounts demo_state) + unat (tx_value ?tx)"
    using failed_call_mints [OF demo_pay_simps(1) lt demo_pay_simps(3) demo_pay_simps(4) h(1-3), of alist_rocks demo_crypto 2] by blast
  then show ?thesis using ne by (intro exI [of _ S']) (simp add: demo_pay_simps h)
qed

end
