(* ===== verification/Storage_Persist.thy ===== *)
theory Storage_Persist
  imports Storages
begin

text \<open>
  Closing a storage writes its chain to the database and opening it again reads it back
  (\<^verbatim>\<open>Storage::~Storage\<close> and \<^verbatim>\<open>Storage::Storage\<close> of \<^verbatim>\<open>src/core/storage.cpp\<close>). The proof follows the two loops of the
  constructor: the height entries first, then the blocks from the newest down.
\<close>

subsection \<open>What the destructor leaves in the database\<close>

definition writes_succeed :: "'s rocksdb \<Rightarrow> bool" where
  "writes_succeed R \<longleftrightarrow> (\<forall>s k v. snd (rk_put R s k v)) \<and> (\<forall>s ws. snd (rk_write R s ws))"

lemma writes_succeedD:
  "writes_succeed R \<Longrightarrow> snd (DB_put R s key v pfx)" "writes_succeed R \<Longrightarrow> snd (DB_putBatch R s b pfx)"
  by (simp_all add: writes_succeed_def DB_put_def DB_putBatch_def)

definition height_entries :: "crypto \<Rightarrow> Block list \<Rightarrow> (bytes \<times> bytes) list" where
  "height_entries C ch = map (\<lambda>b. (uint64ToBytes (nHeight b), Block_hash C b)) ch"

lemma map_of_rev_Some: "distinct (map fst xs) \<Longrightarrow> (k, v) \<in> set xs \<Longrightarrow> map_of (rev xs) k = Some v"
  by (metis distinct_rev map_of_is_SomeI rev_map set_rev)

lemma Storage_close_store:
  assumes ok: "rocks_ok R A" and up: "writes_succeed R" and ne: "st_chain st \<noteq> []"
  obtains db' where "Storage_close R C st db = Inr db'"
    "A db' (DBPrefix_blocks @ latest_key) = Some (serializeBlock (last (st_chain st)))"
    "\<And>k. length k = 32 \<Longrightarrow> A db' (DBPrefix_blocks @ k)
       = (case map_of (rev (map (\<lambda>b. (Block_hash C b, serializeBlock b)) (st_chain st))) k of
            Some v \<Rightarrow> Some v | None \<Rightarrow> A db (DBPrefix_blocks @ k))"
    "\<And>k. A db' (DBPrefix_blockHeightMaps @ k) = (case map_of (rev (height_entries C (st_chain st))) k of
       Some v \<Rightarrow> Some v | None \<Rightarrow> A db (DBPrefix_blockHeightMaps @ k))"
proof -
  let ?b = "\<lparr>bt_puts = map (\<lambda>b. \<lparr>de_key = Block_hash C b, de_value = serializeBlock b\<rparr>) (st_chain st), bt_dels = []\<rparr>"
  let ?h = "\<lparr>bt_puts = map (\<lambda>b. \<lparr>de_key = uint64ToBytes (nHeight b), de_value = Block_hash C b\<rparr>) (st_chain st), bt_dels = []\<rparr>"
  let ?t = "\<lparr>bt_puts = concat (map (\<lambda>b. tx_entries C b 0 (txs b)) (st_chain st)), bt_dels = []\<rparr>"
  define db1 where "db1 = fst (DB_putBatch R db ?b DBPrefix_blocks)"
  define db2 where "db2 = fst (DB_putBatch R db1 ?h DBPrefix_blockHeightMaps)"
  define db3 where "db3 = fst (DB_putBatch R db2 ?t DBPrefix_txToBlocks)"
  define db' where "db' = fst (DB_put R db3 latest_key (serializeBlock (last (st_chain st))) DBPrefix_blocks)"
  have A1: "A db1 = batch_effect ?b DBPrefix_blocks (A db)"
    unfolding db1_def by (rule DB_putBatch_effect [OF ok]) (simp add: writes_succeedD [OF up])
  have A2: "A db2 = batch_effect ?h DBPrefix_blockHeightMaps (A db1)"
    unfolding db2_def by (rule DB_putBatch_effect [OF ok]) (simp add: writes_succeedD [OF up])
  have A3: "A db3 = batch_effect ?t DBPrefix_txToBlocks (A db2)"
    unfolding db3_def by (rule DB_putBatch_effect [OF ok]) (simp add: writes_succeedD [OF up])
  have A': "A db' = (A db3)(DBPrefix_blocks @ latest_key \<mapsto> serializeBlock (last (st_chain st)))"
    unfolding db'_def by (rule DB_put_abs [OF ok]) (simp add: writes_succeedD [OF up])
  have other: "length DBPrefix_blocks = 2" "length DBPrefix_blockHeightMaps = 2" "length DBPrefix_txToBlocks = 2"
    "DBPrefix_blocks \<noteq> DBPrefix_txToBlocks" "DBPrefix_blockHeightMaps \<noteq> DBPrefix_txToBlocks"
    "DBPrefix_blocks \<noteq> DBPrefix_blockHeightMaps" "DBPrefix_blockHeightMaps \<noteq> DBPrefix_blocks"
    by (simp_all add: DBPrefix_defs)
  show thesis
  proof (rule that)
    show "Storage_close R C st db = Inr db'"
      using ne by (simp add: Storage_close_def latest_def Let_def db'_def db3_def db2_def db1_def)
    show "A db' (DBPrefix_blocks @ latest_key) = Some (serializeBlock (last (st_chain st)))" by (simp add: A')
    fix k :: bytes
    assume "length k = 32"
    then have "k \<noteq> latest_key" by (auto simp: latest_key_def bytes_of_string_def)
    then show "A db' (DBPrefix_blocks @ k) = (case map_of (rev (map (\<lambda>b. (Block_hash C b, serializeBlock b)) (st_chain st))) k of
        Some v \<Rightarrow> Some v | None \<Rightarrow> A db (DBPrefix_blocks @ k))"
      by (simp add: A' A3 A2 A1 batch_effect_other_prefix batch_effect_key other comp_def split: option.split)
  next
    fix k
    show "A db' (DBPrefix_blockHeightMaps @ k) = (case map_of (rev (height_entries C (st_chain st))) k of
       Some v \<Rightarrow> Some v | None \<Rightarrow> A db (DBPrefix_blockHeightMaps @ k))"
      by (simp add: A' A3 A2 A1 batch_effect_other_prefix batch_effect_key other comp_def height_entries_def split: option.split)
  qed
qed

subsection \<open>Loading the height entries\<close>

text \<open>Only the two maps of heights change.\<close>

definition same_blocks :: "Storage \<Rightarrow> Storage \<Rightarrow> bool" where
  "same_blocks st st' \<longleftrightarrow> st_chain st' = st_chain st \<and> blockByHash st' = blockByHash st \<and> txByHash st' = txByHash st"

lemma load_maps:
  assumes "\<forall>e\<in>set es. length (de_key e) = 8 \<and> length (de_value e) = 32"
  shows "\<exists>st'. foldE load_map es st = Inr st' \<and> same_blocks st st'
    \<and> (\<forall>h. blockHashByHeight st' h = (case blockHashByHeight st h of
         Some v \<Rightarrow> Some v | None \<Rightarrow> map_of (map (\<lambda>e. (de_key e, de_value e)) es) (uint64ToBytes h)))"
  using assms
proof (induction es arbitrary: st)
  case Nil
  show ?case by (auto simp: same_blocks_def split: option.splits)
next
  case (Cons e es)
  obtain w where w: "bytesToUint64 (de_key e) = Inr w" "de_key e = uint64ToBytes w"
    using Cons.prems codec64.dec_total [of "de_key e"] codec64.enc_dec by fastforce
  define st1 where "st1 = st\<lparr>blockHashByHeight := insert_new (blockHashByHeight st) w (de_value e),
    blockHeightByHash := insert_new (blockHeightByHash st) (de_value e) w\<rparr>"
  have s: "load_map e st = Inr st1"
    using Cons.prems by (simp add: load_map_def w(1) Hash_view_32 st1_def)
  have h: "blockHashByHeight st1 h = (case blockHashByHeight st h of Some v \<Rightarrow> Some v | None \<Rightarrow> if h = w then Some (de_value e) else None)" for h
    by (auto simp: st1_def insert_new_def split: option.splits)
  from Cons.IH [of st1] Cons.prems obtain st' where st': "foldE load_map es st1 = Inr st'" "same_blocks st1 st'"
    "\<And>h. blockHashByHeight st' h = (case blockHashByHeight st1 h of
         Some v \<Rightarrow> Some v | None \<Rightarrow> map_of (map (\<lambda>e. (de_key e, de_value e)) es) (uint64ToBytes h))" by auto
  have "same_blocks st st'" using st'(2) by (simp add: same_blocks_def st1_def)
  moreover have "blockHashByHeight st' h = (case blockHashByHeight st h of
         Some v \<Rightarrow> Some v | None \<Rightarrow> map_of (map (\<lambda>e. (de_key e, de_value e)) (e # es)) (uint64ToBytes h))" for h
    unfolding st'(3) h by (simp add: w(2) codec64.enc_inject split: option.split)
  ultimately show ?case using s st'(1) by auto
qed

subsection \<open>Loading the blocks\<close>

lemma chain_heights:
  assumes "successively (linked C) ch" and "nHeight (hd ch) = 0" and "i < length ch"
  shows "nHeight (ch ! i) = of_nat i"
  using assms(3)
proof (induction i)
  case 0
  with assms(2) show ?case by (cases ch) simp_all
next
  case (Suc i)
  then have "linked C (ch ! i) (ch ! Suc i)" using assms(1) by (simp add: successively_conv_nth)
  with Suc show ?case by (simp add: linked_def)
qed

lemma load_block_step:
  assumes "blockHashByHeight st (depth - of_nat i) = Some (Block_hash C b)"
    and "DB_get R db (Block_hash C b) DBPrefix_blocks = serializeBlock b"
    and "Block_parse C thrNum (serializeBlock b) cid = Inr b"
    and "st_chain st = [] \<or> linked C b (hd (st_chain st))"
  shows "load_block R C thrNum cid db depth i st = Inr (index_block C b (st\<lparr>st_chain := b # st_chain st\<rparr>))"
proof -
  have "st\<lparr>blockHashByHeight := blockHashByHeight st\<rparr> = st" by simp
  with assms show ?thesis by (auto simp: load_block_def index_default_def pushFront_def linked_def)
qed

lemma index_block_heights:
  "blockHashByHeight st h = Some k \<Longrightarrow> blockHashByHeight (index_block C b (st\<lparr>st_chain := ch\<rparr>)) h = Some k"
  by (simp add: index_block_def insert_new_Some)

text \<open>A chain whose blocks can be read back from the database.\<close>

definition chain_stored :: "'s rocksdb \<Rightarrow> crypto \<Rightarrow> nat \<Rightarrow> uint64 \<Rightarrow> 's \<Rightarrow> Block list \<Rightarrow> bool" where
  "chain_stored R C thrNum cid db ch \<longleftrightarrow>
     successively (linked C) ch \<and> distinct (map (Block_hash C) ch) \<and> nHeight (hd ch) = 0 \<and> length ch \<le> 2 ^ 64
     \<and> (\<forall>b\<in>set ch. DB_get R db (Block_hash C b) DBPrefix_blocks = serializeBlock b
          \<and> Block_parse C thrNum (serializeBlock b) cid = Inr b \<and> length (txs b) < 2 ^ 32)"

lemma load_blocks:
  assumes "chain_stored R C thrNum cid db ch" and "same_blocks Storage_empty st0"
    and heights: "\<forall>b\<in>set ch. blockHashByHeight st0 (nHeight b) = Some (Block_hash C b)"
    and depth: "depth = of_nat (length ch - 1)" and "n \<le> length ch"
  shows "\<exists>st. foldE (load_block R C thrNum cid db depth) [0..<n] st0 = Inr st \<and> st_chain st = drop (length ch - n) ch
    \<and> storage_inv C st \<and> (\<forall>b\<in>set ch. blockHashByHeight st (nHeight b) = Some (Block_hash C b))"
  using assms(5)
proof (induction n)
  case 0
  have "storage_inv C st0" using assms(2) by (simp add: storage_inv_def same_blocks_def Storage_empty_def)
  with 0 assms(2) heights show ?case by (simp add: same_blocks_def Storage_empty_def)
next
  case (Suc n)
  then obtain st where st: "foldE (load_block R C thrNum cid db depth) [0..<n] st0 = Inr st"
    "st_chain st = drop (length ch - n) ch" "storage_inv C st"
    "\<forall>b\<in>set ch. blockHashByHeight st (nHeight b) = Some (Block_hash C b)" by auto
  define j where "j = length ch - Suc n"
  have j: "j < length ch" "length ch - n = Suc j" using Suc.prems by (simp_all add: j_def)
  have in_ch: "ch ! j \<in> set ch" using j by simp
  note ch = assms(1) [unfolded chain_stored_def]
  have d: "depth - of_nat n = nHeight (ch ! j)"
    using chain_heights [of C ch j] ch j(1) Suc.prems by (simp add: depth j_def of_nat_diff)
  have h: "blockHashByHeight st (depth - of_nat n) = Some (Block_hash C (ch ! j))"
    unfolding d using st(4) in_ch by blast
  have l: "st_chain st = [] \<or> linked C (ch ! j) (hd (st_chain st))"
    using ch by (cases "Suc j < length ch") (simp_all add: st(2) j(2) hd_drop_conv_nth successively_conv_nth)
  define st' where "st' = index_block C (ch ! j) (st\<lparr>st_chain := ch ! j # st_chain st\<rparr>)"
  have step: "load_block R C thrNum cid db depth n st = Inr st'"
    unfolding st'_def by (rule load_block_step [OF h _ _ l]) (use ch in_ch in auto)
  have chain: "st_chain st' = drop (length ch - Suc n) ch"
    using Cons_nth_drop_Suc [OF j(1)] by (simp add: st'_def index_block_def st(2) j(2)) (simp add: j_def)
  have dist: "distinct (map (Block_hash C) (drop j ch))" using ch by (simp add: drop_map [symmetric] del: drop_map)
  then have "Block_hash C (ch ! j) \<notin> Block_hash C ` set (st_chain st)"
    unfolding st(2) j(2) Cons_nth_drop_Suc [OF j(1), symmetric] by simp
  moreover have "pushFront C st (ch ! j) = Inr st'" using l by (auto simp: pushFront_def linked_def st'_def)
  ultimately have "storage_inv C st'" using ch in_ch by (intro pushFront_inv [OF st(3)]) auto
  moreover have "\<forall>b\<in>set ch. blockHashByHeight st' (nHeight b) = Some (Block_hash C b)"
    using st(4) by (simp add: st'_def index_block_heights)
  ultimately show ?case using st(1) step chain by (auto simp: foldE_append)
qed

lemma chain_heights_distinct:
  assumes "successively (linked C) ch" "nHeight (hd ch) = 0" "length ch \<le> 2 ^ 64"
  shows "distinct (map nHeight ch)"
proof -
  have "nHeight (ch ! i) = nHeight (ch ! j) \<Longrightarrow> i < length ch \<Longrightarrow> j < length ch \<Longrightarrow> i = j" for i j
    using chain_heights [OF assms(1,2)] assms(3) by (simp add: word_of_nat_eq_iff take_bit_eq_mod)
  then show ?thesis by (auto simp: distinct_conv_nth)
qed

text \<open>Entries of heights that the constructor can read.\<close>

definition heights_readable :: "store \<Rightarrow> bool" where
  "heights_readable m \<longleftrightarrow> (\<forall>k v. m (DBPrefix_blockHeightMaps @ k) = Some v \<longrightarrow> length k = 8 \<and> length v = 32)"

text \<open>Reading the stored map of heights gives back the hash of every block that has an entry.\<close>

lemma heights_reloaded:
  assumes rocks: "rocks_ok R A" and "heights_readable (A db)"
    and stored: "\<forall>b\<in>set ch. A db (DBPrefix_blockHeightMaps @ uint64ToBytes (nHeight b)) = Some (Block_hash C b)"
  shows "\<exists>st0. foldE load_map (DB_getBatch R db DBPrefix_blockHeightMaps []) Storage_empty = Inr st0
    \<and> same_blocks Storage_empty st0 \<and> (\<forall>b\<in>set ch. blockHashByHeight st0 (nHeight b) = Some (Block_hash C b))"
proof -
  define es where "es = DB_getBatch R db DBPrefix_blockHeightMaps []"
  have es: "e \<in> set es \<longleftrightarrow> A db (DBPrefix_blockHeightMaps @ de_key e) = Some (de_value e)" "distinct (map de_key es)" for e
    unfolding es_def by (rule DB_getBatch_all [OF rocks])+
  have "\<forall>e\<in>set es. length (de_key e) = 8 \<and> length (de_value e) = 32"
    using assms(2) by (auto simp: es(1) heights_readable_def)
  from load_maps [OF this, of Storage_empty] obtain st0 where st0: "foldE load_map es Storage_empty = Inr st0"
    "same_blocks Storage_empty st0"
    "\<And>h. blockHashByHeight st0 h = map_of (map (\<lambda>e. (de_key e, de_value e)) es) (uint64ToBytes h)"
    by (auto simp: Storage_empty_def)
  have "blockHashByHeight st0 (nHeight b) = Some (Block_hash C b)" if b: "b \<in> set ch" for b
  proof -
    have "\<lparr>de_key = uint64ToBytes (nHeight b), de_value = Block_hash C b\<rparr> \<in> set es" using stored b by (simp add: es(1))
    then show ?thesis unfolding st0(3) using es(2) by (intro map_of_is_SomeI) (force simp: comp_def)+
  qed
  with st0(1,2) show ?thesis unfolding es_def by blast
qed

text \<open>The whole chain from the genesis block on: the blocks \<open>pre\<close> that are only in the database, then the blocks in memory.\<close>

definition whole_chain :: "crypto \<Rightarrow> Block list \<Rightarrow> bool" where
  "whole_chain C ch \<longleftrightarrow> successively (linked C) ch \<and> distinct (map (Block_hash C) ch) \<and> nHeight (hd ch) = 0 \<and> length ch \<le> 2 ^ 64
     \<and> (\<forall>b\<in>set ch. Block_complete C b \<and> length (txs b) < 2 ^ 32)"

definition block_stored :: "crypto \<Rightarrow> store \<Rightarrow> Block \<Rightarrow> bool" where
  "block_stored C m b \<longleftrightarrow> m (DBPrefix_blocks @ Block_hash C b) = Some (serializeBlock b)
     \<and> m (DBPrefix_blockHeightMaps @ uint64ToBytes (nHeight b)) = Some (Block_hash C b)"

definition archived :: "crypto \<Rightarrow> store \<Rightarrow> Block list \<Rightarrow> Storage \<Rightarrow> bool" where
  "archived C m pre st \<longleftrightarrow> storage_inv C st \<and> st_chain st \<noteq> [] \<and> whole_chain C (pre @ st_chain st)
     \<and> (\<forall>b\<in>set pre. block_stored C m b) \<and> heights_readable m"

text \<open>Storing further blocks between two restarts keeps this.\<close>

lemma archived_pushBack:
  assumes "archived C m pre st" and "pushBack C st b = Inr st'"
    and "Block_hash C b \<notin> Block_hash C ` set (pre @ st_chain st)" and "length (pre @ st_chain st) < 2 ^ 64"
    and "Block_complete C b" and "length (txs b) < 2 ^ 32"
  shows "archived C m pre st'"
proof -
  have inv: "storage_inv C st" "st_chain st \<noteq> []" using assms(1) by (simp_all add: archived_def)
  have l: "linked C (last (st_chain st)) b" and ch: "st_chain st' = st_chain st @ [b]"
    using assms(2) inv(2) by (auto simp: pushBack_def linked_def index_block_def split: if_splits)
  have "storage_inv C st'" using assms(3,6) by (intro pushBack_inv [OF inv(1) _ _ assms(2)]) auto
  moreover have "whole_chain C ((pre @ st_chain st) @ [b])"
    using assms(1,3-6) l inv(2) unfolding archived_def whole_chain_def
    by (auto simp: successively_append_iff hd_append)
  ultimately show ?thesis using assms(1) by (simp add: archived_def ch)
qed

text \<open>After the destructor the whole chain is in the database.\<close>

lemma Storage_close_archives:
  assumes "rocks_ok R A" and "writes_succeed R" and arch: "archived C (A db) pre st"
  obtains db' where "Storage_close R C st db = Inr db'" "A db' (DBPrefix_blocks @ latest_key) = Some (serializeBlock (last (st_chain st)))"
    "\<forall>b\<in>set (pre @ st_chain st). block_stored C (A db') b" "heights_readable (A db')"
proof -
  let ?ch = "pre @ st_chain st" and ?h = "\<lambda>b. uint64ToBytes (nHeight b)"
  have ne: "st_chain st \<noteq> []" and w: "successively (linked C) ?ch" "distinct (map (Block_hash C) ?ch)" "nHeight (hd ?ch) = 0" "length ?ch \<le> 2 ^ 64"
    and old: "\<forall>b\<in>set pre. block_stored C (A db) b" "heights_readable (A db)"
    using arch by (simp_all add: archived_def whole_chain_def)
  obtain db' where db': "Storage_close R C st db = Inr db'" "A db' (DBPrefix_blocks @ latest_key) = Some (serializeBlock (last (st_chain st)))"
    and blocks: "\<And>k. length k = 32 \<Longrightarrow> A db' (DBPrefix_blocks @ k)
       = (case map_of (rev (map (\<lambda>b. (Block_hash C b, serializeBlock b)) (st_chain st))) k of
            Some v \<Rightarrow> Some v | None \<Rightarrow> A db (DBPrefix_blocks @ k))"
    and heights: "\<And>k. A db' (DBPrefix_blockHeightMaps @ k) = (case map_of (rev (height_entries C (st_chain st))) k of
       Some v \<Rightarrow> Some v | None \<Rightarrow> A db (DBPrefix_blockHeightMaps @ k))"
    using Storage_close_store [OF assms(1,2) ne] by blast
  have hs: "distinct (map ?h ?ch)"
    using chain_heights_distinct [OF w(1,3,4)] unfolding distinct_map inj_on_def codec64.enc_inject by blast
  have "block_stored C (A db') b" if b: "b \<in> set ?ch" for b
  proof (cases "b \<in> set (st_chain st)")
    case True
    then have "map_of (rev (map (\<lambda>b. (Block_hash C b, serializeBlock b)) (st_chain st))) (Block_hash C b) = Some (serializeBlock b)"
      "map_of (rev (height_entries C (st_chain st))) (?h b) = Some (Block_hash C b)"
      using w(2) hs by (auto simp: height_entries_def comp_def intro!: map_of_rev_Some)
    then show ?thesis by (simp add: block_stored_def blocks heights Block_hash_def)
  next
    case False
    with b have p: "b \<in> set pre" by simp
    then have "Block_hash C b \<notin> Block_hash C ` set (st_chain st)" "?h b \<notin> ?h ` set (st_chain st)"
      using w(2) hs by auto
    then have "map_of (rev (map (\<lambda>b. (Block_hash C b, serializeBlock b)) (st_chain st))) (Block_hash C b) = None"
      "map_of (rev (height_entries C (st_chain st))) (?h b) = None"
      by (auto simp: map_of_eq_None_iff height_entries_def)
    with old(1) p show ?thesis by (simp add: block_stored_def blocks heights Block_hash_def)
  qed
  moreover have "heights_readable (A db')"
    using old(2) by (auto simp: heights_readable_def heights height_entries_def Block_hash_def split: option.splits dest!: map_of_SomeD)
  ultimately show thesis using that db' by blast
qed

lemma u64_height: "n < 2 ^ 64 \<Longrightarrow> unat (of_nat n :: uint64) = n"
  by (simp add: unat_of_nat)

text \<open>C16. Closing a storage and opening it again on the same database gives back the last 501 blocks of the whole chain, those in memory
  and those of earlier runs, with consistent indices; the remaining blocks are in the database, so that the storage can be closed and opened
  again any number of times, with blocks added between. The whole chain starts at height zero and consists of linked, finalized and consistent blocks, the blocks that are not in memory
  are already in the database, the height entries there have keys of eight and values of 32 bytes, and the database accepts the writes.\<close>

theorem Storage_close_open:
  assumes "rocks_ok R A" and "writes_succeed R" and arch: "archived C (A db) pre st"
  shows "\<exists>db' st'. Storage_close R C st db = Inr db' \<and> Storage_open R C thrNum cid db' = Inr (st', db')
    \<and> st_chain st' = drop (length (pre @ st_chain st) - 501) (pre @ st_chain st)
    \<and> archived C (A db') (take (length (pre @ st_chain st) - 501) (pre @ st_chain st)) st'"
proof -
  define ch where "ch = pre @ st_chain st"
  let ?n = "Suc (min 500 (length ch - 1))"
  have ne: "ch \<noteq> []" "last (st_chain st) = last ch" and w: "whole_chain C ch" using arch by (simp_all add: archived_def ch_def)
  note wc = w [unfolded whole_chain_def]
  obtain db' where db': "Storage_close R C st db = Inr db'" "A db' (DBPrefix_blocks @ latest_key) = Some (serializeBlock (last ch))"
    "\<forall>b\<in>set ch. block_stored C (A db') b" "heights_readable (A db')"
    using Storage_close_archives [OF assms] unfolding ne(2) ch_def by metis
  have stored: "chain_stored R C thrNum cid db' ch"
    using wc db'(3) by (auto simp: chain_stored_def DB_get_eq [OF assms(1)] block_stored_def Block_complete_parse)
  obtain st0 where st0: "foldE load_map (DB_getBatch R db' DBPrefix_blockHeightMaps []) Storage_empty = Inr st0"
    "same_blocks Storage_empty st0" "\<forall>b\<in>set ch. blockHashByHeight st0 (nHeight b) = Some (Block_hash C b)"
    using heights_reloaded [OF assms(1) db'(4), of ch C] db'(3) by (auto simp: block_stored_def)
  have last: "last ch \<in> set ch" using ne(1) by (rule last_in_set)
  have top: "nHeight (last ch) = of_nat (length ch - 1)"
    unfolding last_conv_nth [OF ne(1)] using wc ne(1) by (intro chain_heights [of C]) (blast, blast, simp)
  have depth: "unat (nHeight (last ch)) = length ch - 1"
    unfolding top using ne(1) wc by (intro u64_height) (auto simp: Suc_le_eq)
  have n: "?n \<le> length ch" using ne(1) by (cases ch) auto
  from load_blocks [OF stored st0(2,3) top n] obtain st' where
    st': "foldE (load_block R C thrNum cid db' (nHeight (last ch))) [0..<?n] st0 = Inr st'"
      "st_chain st' = drop (length ch - ?n) ch" "storage_inv C st'" by auto
  have "initializeBlockchain R C db' = Inr db'" by (simp add: initializeBlockchain_def DB_has_iff [OF assms(1)] db'(2))
  moreover have "Block_parse C thrNum (DB_get R db' latest_key DBPrefix_blocks) cid = Inr (last ch)"
    using wc last by (simp add: DB_get_eq [OF assms(1)] db'(2) Block_complete_parse)
  ultimately have "Storage_open R C thrNum cid db' = Inr (st', db')"
    using st0(1) st'(1) unfolding Storage_open_def by (simp add: Let_def depth del: upt_Suc)
  moreover have e: "st_chain st' = drop (length ch - 501) ch"
    unfolding st'(2) using ne(1) by (intro arg_cong [where f = "\<lambda>n. drop n ch"]) (cases ch, auto)
  moreover have "st_chain st' \<noteq> []" unfolding e using ne(1) by (cases ch) auto
  then have "archived C (A db') (take (length ch - 501) ch) st'"
    using st'(3) w db'(3,4) unfolding archived_def e append_take_drop_id by (blast dest: in_set_takeD)
  ultimately show ?thesis using db'(1) unfolding ch_def by blast
qed

definition first_block :: Block where
  "first_block = (Block_new (replicate 32 0) 3 0)
     \<lparr>timestamp := 5, txMerkleRoot := txs_root demo_crypto [], validatorMerkleRoot := txValidators_root demo_crypto [],
      blockRandomness := parseTxSeedList demo_crypto [], validatorSig := makeSig 5 7 0,
      validatorPubKey := replicate 65 4, finalized := True\<rparr>"

lemma first_block_members:
  "nHeight first_block = 0" "txs first_block = []" "txValidators first_block = []" "validatorSig first_block = makeSig 5 7 0"
  by (simp_all add: first_block_def Block_new_def)

lemma first_block_finalize: "Block_finalize demo_crypto (Block_new (replicate 32 0) 3 0) [] 5 = Inr (first_block, True)"
  by (simp add: Block_finalize_def first_block_def demo_sign demo_recover Let_def) (simp add: Block_new_def)

lemma first_block_complete: "Block_complete demo_crypto first_block"
proof (rule Block_finalize_complete [OF first_block_finalize _ _ demo_library_signs])
  have "Block_sizes first_block"
    using Block_finalize_spec [OF first_block_finalize] by (simp add: Block_sizes_def Block_roots_ok_def Block_new_def)
  then show "Block_members_ok demo_crypto first_block"
    by (simp add: Block_members_ok_def first_block_members serializeBlock_eq Block_sizes_def)
qed (simp add: Block_new_def)

definition first_storage :: Storage where
  "first_storage = index_block demo_crypto first_block (Storage_empty\<lparr>st_chain := [first_block]\<rparr>)"

lemma first_storage_chain: "st_chain first_storage = [first_block]"
  by (simp add: first_storage_def index_block_def)

lemma first_storage_reach: "storage_reach demo_crypto first_storage"
proof (rule storage_reach.push_back [OF storage_reach.empty])
  show "pushBack demo_crypto Storage_empty first_block = Inr first_storage"
    by (simp add: pushBack_def first_storage_def Storage_empty_def)
qed (simp_all add: Storage_empty_def first_block_members)

theorem Storage_close_open_witness:
  "\<exists>db' st'. Storage_close alist_rocks demo_crypto first_storage [] = Inr db'
     \<and> Storage_open alist_rocks demo_crypto 8 8080 db' = Inr (st', db') \<and> st_chain st' = [first_block]"
proof -
  have w: "writes_succeed alist_rocks" by (simp add: writes_succeed_def alist_rocks_def)
  have "archived demo_crypto (map_of []) [] first_storage"
    using storage_reach_inv [OF first_storage_reach]
    by (simp add: archived_def whole_chain_def heights_readable_def first_storage_chain first_block_complete first_block_members)
  from Storage_close_open [OF alist_rocks_ok w this, where thrNum = 8 and cid = 8080] show ?thesis by (auto simp: first_storage_chain)
qed

subsection \<open>Reading one transaction of a stored block\<close>

lemma uint32_plus_4: "n < 2 ^ 32 - 4 \<Longrightarrow> unat (of_nat n + 4 :: uint32) = n + 4"
  by (simp add: unat_word_ariths unat_of_nat)

lemma skip_txs_sized:
  assumes "drop i bs = sized_items ts @ rest" and "\<forall>t\<in>set ts. length t < 2 ^ 32 - 4" and "n \<le> length ts"
  shows "\<exists>k. skip_txs bs i n = Inr k \<and> drop k bs = sized_items (drop n ts) @ rest"
  using assms
proof (induction n arbitrary: i ts)
  case (Suc n)
  then obtain t ts' where ts: "ts = t # ts'" by (cases ts) auto
  with Suc.prems have len: "length t < 2 ^ 32" "unat (of_nat (length t) + 4 :: uint32) = 4 + length t"
    using uint32_plus_4 [of "length t"] by auto
  note st = sized_items_step [OF Suc.prems(1) [unfolded ts] len(1)]
  then have "bindE (substr bs i 4) bytesToUint32 = Inr (of_nat (length t))"
    using len(1) by (auto simp: item_size_def unat_of_nat word_unat_eq_iff)
  moreover from Suc.IH [OF st(3)] Suc.prems ts obtain k where
    "skip_txs bs (i + 4 + length t) n = Inr k" "drop k bs = sized_items (drop n ts') @ rest" by auto
  ultimately show ?case by (simp add: ts len(2) add.assoc del: bindE_eq_Inr)
qed simp

lemma getTxFromBlockWithIndex_serialized:
  assumes "Block_sizes b" and "Block_txs_ok C cid b" and "j < length (txs b)" and "j < 2 ^ 64"
    and small: "\<forall>tx\<in>set (txs b). length (TxBlock_rlpSerialize tx True) < 2 ^ 32 - 4"
  shows "getTxFromBlockWithIndex C cid (serializeBlock b) (of_nat j) = Inr (txs b ! j)"
proof -
  let ?ser = "\<lambda>tx. TxBlock_rlpSerialize tx True"
  let ?v = "sized_items (map (\<lambda>tx. TxValidator_rlpSerialize tx True) (txValidators b))"
  have d: "drop 217 (serializeBlock b) = sized_items (map ?ser (txs b)) @ ?v"
    using assms(1) by (simp add: serializeBlock_eq Block_sizes_def)
  from skip_txs_sized [OF d, of j] small assms(3) obtain k where k: "skip_txs (serializeBlock b) 217 j = Inr k"
    "drop k (serializeBlock b) = sized_items (drop j (map ?ser (txs b))) @ ?v" by auto
  have "drop j (map ?ser (txs b)) = ?ser (txs b ! j) # map ?ser (drop (Suc j) (txs b))"
    using assms(3) by (simp add: drop_map Cons_nth_drop_Suc [symmetric])
  moreover have len: "length (?ser (txs b ! j)) < 2 ^ 32" using assms(2,3) by (simp add: Block_txs_ok_def)
  ultimately have st: "item_size (serializeBlock b) k = Inr (length (?ser (txs b ! j)))"
    "substr (serializeBlock b) (k + 4) (length (?ser (txs b ! j))) = Inr (?ser (txs b ! j))"
    using sized_items_step [of k "serializeBlock b"] k(2) by metis+
  have "bindE (substr (serializeBlock b) k 4) bytesToUint32 = Inr (of_nat (length (?ser (txs b ! j))))"
    using st(1) len by (auto simp: item_size_def unat_of_nat word_unat_eq_iff)
  moreover have "TxBlock_parse C (?ser (txs b ! j)) cid = Inr (txs b ! j)"
    using assms(2,3) by (simp add: Block_txs_ok_def)
  ultimately show ?thesis
    using st(2) k(1) assms(4) len by (simp add: getTxFromBlockWithIndex_def unat_of_nat del: bindE_eq_Inr)
qed

text \<open>A transaction that is neither on the chain in memory nor cached, but whose location and block are
  in the database, is read out of the serialised block without parsing the rest of it: \<^verbatim>\<open>getTx\<close> returns the
  transaction with its location and enters it into the cache.\<close>

theorem getTx_from_database:
  assumes "rocks_ok R A" and "txByHash st t = None" and "cachedTxs st t = None"
    and "A db (DBPrefix_txToBlocks @ t) = Some (Block_hash C b @ uint32ToBytes (of_nat j) @ uint64ToBytes (nHeight b))"
    and "A db (DBPrefix_blocks @ Block_hash C b) = Some (serializeBlock b)"
    and "Block_sizes b" and "Block_txs_ok C cid b" and "j < length (txs b)" and "j < 2 ^ 32"
    and "\<forall>tx\<in>set (txs b). length (TxBlock_rlpSerialize tx True) < 2 ^ 32 - 4"
  shows "getTx R db C cid st t
    = Inr (st\<lparr>cachedTxs := (cachedTxs st)(t \<mapsto> (Some (txs b ! j), Block_hash C b, of_nat j, nHeight b))\<rparr>,
           Some (txs b ! j), Block_hash C b, of_nat j, nHeight b)"
proof -
  let ?d = "Block_hash C b @ uint32ToBytes (of_nat j) @ uint64ToBytes (nHeight b)"
  have len: "length (Block_hash C b) = 32" by (simp add: Block_hash_def)
  have i: "ucast (of_nat j :: uint32) = (of_nat j :: uint64)"
    using assms(9) unat_tx_index [of j] by (simp add: word_unat_eq_iff unat_of_nat)
  have "getTxFromBlockWithIndex C cid (serializeBlock b) (of_nat j) = Inr (txs b ! j)"
    using assms(9) by (intro getTxFromBlockWithIndex_serialized assms) simp
  moreover have "substr ?d 0 32 = Inr (Block_hash C b)" "substr ?d 32 4 = Inr (uint32ToBytes (of_nat j))"
    "substr ?d 36 8 = Inr (uint64ToBytes (nHeight b))" using len by (simp_all add: substr_def)
  ultimately show ?thesis
    using len by (simp add: getTx_def txExists_def assms(2-5) DB_has_iff [OF assms(1)] DB_get_eq [OF assms(1)]
        Let_def Hash_view_32 i cache_tx_def)
qed

theorem getTx_from_database_witness:
  "\<exists>st'. getTx alist_rocks
       [(DBPrefix_txToBlocks @ [1], Block_hash demo_crypto demo_block @ uint32ToBytes 0 @ uint64ToBytes 1),
        (DBPrefix_blocks @ Block_hash demo_crypto demo_block, serializeBlock demo_block)]
       demo_crypto 8080 Storage_empty [1]
     = Inr (st', Some (demo_tx (replicate 60 9)), Block_hash demo_crypto demo_block, 0, 1)"
proof -
  let ?db = "[(DBPrefix_txToBlocks @ [1], Block_hash demo_crypto demo_block @ uint32ToBytes 0 @ uint64ToBytes 1),
        (DBPrefix_blocks @ Block_hash demo_crypto demo_block, serializeBlock demo_block)]"
  have "getTx alist_rocks ?db demo_crypto 8080 Storage_empty [1]
    = Inr (Storage_empty\<lparr>cachedTxs := (cachedTxs Storage_empty)([1] \<mapsto>
        (Some (txs demo_block ! 0), Block_hash demo_crypto demo_block, of_nat 0, nHeight demo_block))\<rparr>,
        Some (txs demo_block ! 0), Block_hash demo_crypto demo_block, of_nat 0, nHeight demo_block)"
    using demo_tx_length
    by (intro getTx_from_database [OF alist_rocks_ok] demo_block_sizes demo_block_txs_ok)
      (simp_all add: Storage_empty_def demo_block_members DBPrefix_defs)
  then show ?thesis by (simp add: demo_block_members)
qed

end
