(* ===== verification/Node.thy ===== *)
theory Node
  imports Ledger Storage_Persist
begin

text \<open>
  What a new block does to the whole node. Contract calls change the accounts, the contracts and the
  database only, so a block that is processed extends the chain by itself, hands its randomness to rdPoS
  and leaves in the mempool transactions that are valid in the new state.
\<close>

subsection \<open>What a contract call cannot change\<close>

definition preserves :: "('s \<Rightarrow> 'a) \<Rightarrow> ('s, 'r) action \<Rightarrow> bool" where
  "preserves f m \<longleftrightarrow> (\<forall>s. f (fst (m s)) = f s)"

named_theorems preserve_rules

lemma preserves_liftS [preserve_rules]: "preserves f (liftS r)"
  by (simp add: preserves_def liftS_def)

lemma preserves_bindS [preserve_rules]: "preserves f m \<Longrightarrow> (\<And>x. preserves f (k x)) \<Longrightarrow> preserves f (bindS m k)"
  unfolding preserves_def
proof
  fix s
  assume a: "\<forall>s. f (fst (m s)) = f s" "\<And>x. \<forall>s. f (fst (k x s)) = f s"
  obtain s1 r where m: "m s = (s1, r)" by fastforce
  then have "f s1 = f s" using a(1) by (metis fst_conv)
  then show "f (fst (bindS m k s)) = f s" using a(2) by (cases r) (simp_all add: bindS_def m)
qed

lemma preserves_if [preserve_rules]: "preserves f m \<Longrightarrow> preserves f m' \<Longrightarrow> preserves f (if c then m else m')"
  by simp

lemma preserves_args [preserve_rules]:
  "(\<And>d. preserves f (k d)) \<Longrightarrow> preserves f (args types data k)"
  "(\<And>a. preserves f (k1 a)) \<Longrightarrow> preserves f (arg_address d i k1)"
  "(\<And>v. preserves f (k2 v)) \<Longrightarrow> preserves f (arg_uint256 d i k2)"
  by (simp_all add: args_def arg_address_def arg_uint256_def preserves_bindS preserves_liftS)

text \<open>All parts of the state but the contract manager.\<close>

definition outside :: "'s State \<Rightarrow> 's State" where
  "outside S = S\<lparr>manager := demo_manager\<rparr>"

lemma outside_simps [simp]:
  "outside (put_contract a c S) = outside S" "outside (at_contract a f S) = outside S"
  "outside (set_balances b S) = outside S" "outside (populateBalance a S) = outside S"
  by (simp_all add: outside_def put_contract_def at_contract_def set_balances_def populateBalance_def Let_def split: option.split)

lemma outside_balances_modify [preserve_rules]: "preserves outside (balances_modify a f)"
  by (simp add: preserves_def balances_modify_def Let_def split: sum.split)

lemma outside_sendTokens [preserve_rules]: "preserves outside (sendTokens a b n :: ('s State, unit) action)"
proof -
  have "preserves outside (bindS (balances_modify a (\<lambda>x. u256_sub x n)) (\<lambda>_. balances_modify b (\<lambda>x. u256_add x n)) :: ('s State, unit) action)"
    by (intro preserve_rules)
  then show ?thesis by (auto simp: preserves_def sendTokens_def Let_def)
qed

lemma outside_on_contract [preserve_rules]:
  "preserves outside (on_token a f)" "preserves outside (on_wrapper a g)"
  by (auto simp: preserves_def on_token_def on_wrapper_def split: option.split contract.split prod.split)

lemma preservesI: "(\<And>s t r. m s = (t, r) \<Longrightarrow> f t = f s) \<Longrightarrow> preserves f m"
  unfolding preserves_def by (metis prod.collapse)

lemma preservesD: "preserves f m \<Longrightarrow> m s = (t, r) \<Longrightarrow> f t = f s"
  unfolding preserves_def by (metis fst_conv)

lemma preserves_read: "(\<And>x. preserves f (m x)) \<Longrightarrow> preserves f (\<lambda>S. m (h S) S)"
  by (simp add: preserves_def)

lemma outside_iface [preserve_rules]:
  fixes ec :: "bytes \<Rightarrow> ethCallInfo \<Rightarrow> ('s State, unit) action"
  assumes "\<And>a info. preserves outside (ec a info)"
  shows "preserves outside (iface_callContract ec info)"
proof -
  obtain f t gl gp v d where i: "info = (f, t, gl, gp, v, d)" by (metis prod_cases6)
  let ?body = "\<lambda>S. if contract_at t S = None then (S, Inl (RuntimeError ''Contract does not exist''))
      else let S1 = at_contract t (\<lambda>c. contract_locals (loc_origin (contract_base c)) f v (loc_commit (manager S)) c) S
        in case ec t info S1 of
             (S2, Inl e) \<Rightarrow> (at_contract t (contract_set_commit False) S2, rethrow '''' (Inl e))
           | (S2, Inr u) \<Rightarrow> (S2, Inr u)"
  have "preserves outside ?body"
  proof (rule preservesI)
    fix S S' :: "'s State" and r
    let ?S1 = "at_contract t (\<lambda>c. contract_locals (loc_origin (contract_base c)) f v (loc_commit (manager S)) c) S"
    assume b: "?body S = (S', r)"
    obtain S2 r2 where e: "ec t info ?S1 = (S2, r2)" by fastforce
    have "outside S2 = outside S" using preservesD [OF assms e] by simp
    then show "outside S' = outside S" using b e by (cases r2) (auto simp: Let_def split: if_splits)
  qed
  then show ?thesis unfolding iface_callContract_def i by (auto intro!: preserve_rules)
qed

lemma outside_functions:
  fixes ec :: "bytes \<Rightarrow> ethCallInfo \<Rightarrow> ('s State, unit) action"
  assumes "\<And>a info. preserves outside (ec a info)" and "find_function C ec a c fn = Some g"
  shows "preserves outside (g data)"
proof -
  have e: "preserves outside (dc_callContract ec self tok raw n)" for self tok raw n
    unfolding dc_callContract_def by (rule outside_iface [OF assms(1)])
  have call: "preserves outside (\<lambda>S. bindS (liftS (enc (self_base a S))) (\<lambda>raw. dc_callContract ec (contractAddress (self_base a S)) tok raw n) S)"
    for enc tok n
    by (rule preserves_read [where m = "\<lambda>self. bindS (liftS (enc self)) (\<lambda>raw. dc_callContract ec (contractAddress self) tok raw n)"])
      (intro preserve_rules e)
  have w: "preserves outside (wrapper_withdraw C ec a tok n)" "preserves outside (wrapper_transferTo C ec a tok to n)" for tok to n
    unfolding wrapper_withdraw_def wrapper_transferTo_def
    using call [of "\<lambda>self. Encoder C [AAddress (loc_caller self), AUint256 n] ''transfer(address,uint256)''" tok 0]
      call [of "\<lambda>self. Encoder C [AAddress to, AUint256 n] ''transfer(address,uint256)''" tok 0]
    by (auto intro!: preserves_bindS outside_on_contract)
  have wd: "preserves outside (wrapper_deposit C ec a tok n)" for tok n
    unfolding wrapper_deposit_def Let_def
    by (rule preserves_read [where m = "\<lambda>self. bindS (liftS (Encoder C [AAddress (loc_caller self), AAddress (contractAddress self), AUint256 n]
          ''transferFrom(address,address,uint256)'')) (\<lambda>raw. bindS (dc_callContract ec (contractAddress self) tok raw 0) (\<lambda>_.
          on_wrapper a (\<lambda>w. on_tokens (sm_index_modify Map.empty tok (inner_modify (loc_caller w) (\<lambda>x. u256_add x n))) w)))"])
      (intro preserve_rules e)
  have nw: "preserves outside (NativeWrapper_withdraw a n)" for n
    unfolding NativeWrapper_withdraw_def
    by (rule preserves_bindS [OF outside_on_contract(1)],
        rule preserves_read [where m = "\<lambda>self. sendTokens (contractAddress self) (loc_caller self) n"]) (rule outside_sendTokens)
  show ?thesis
    using assms(2)
    by (auto simp: find_function_def NativeWrapper_payableFunctions_def ERC20Wrapper_functions_def
        intro!: preserve_rules w wd nw split: contract.splits if_splits)
qed

lemma outside_dynamic [preserve_rules]:
  fixes ec :: "bytes \<Rightarrow> ethCallInfo \<Rightarrow> ('s State, unit) action"
  assumes "\<And>a info. preserves outside (ec a info)"
  shows "preserves outside (dynamic_ethCall C ec a info)"
proof (rule preservesI)
  fix S S' :: "'s State" and r
  obtain f t gl gp v d where i: "info = (f, t, gl, gp, v, d)" by (metis prod_cases6)
  assume call: "dynamic_ethCall C ec a info S = (S', r)"
  show "outside S' = outside S"
  proof (cases "contract_at a S")
    case None
    with call show ?thesis by (simp add: dynamic_ethCall_def i)
  next
    case (Some c)
    let ?body = "case find_function C ec a c (take 4 d) of None \<Rightarrow> (S, Inl (RuntimeError ''Functor not found'')) | Some f \<Rightarrow> f d S"
    obtain S1 r1 where b: "?body = (S1, r1)" by fastforce
    then have "outside S1 = outside S"
    proof (cases "find_function C ec a c (take 4 d)")
      case (Some g)
      then show ?thesis using preservesD [OF outside_functions [OF assms Some]] b by simp
    qed simp
    then show ?thesis using call b Some by (cases r1) (auto simp: dynamic_ethCall_def i)
  qed
qed

lemma outside_eth_call [preserve_rules]: "preserves outside (eth_call C n a info)"
  by (induction n arbitrary: a info) (auto intro: preserve_rules)

subsection \<open>What a transaction cannot change\<close>

definition core :: "'s State \<Rightarrow> (bytes \<times> TxBlock) list \<times> rdPoS \<times> Storage \<times> uint64" where
  "core S = (mempool S, rdpos S, storage S, chainID S)"

lemma core_outside: "core (outside S) = core S"
  by (simp add: core_def outside_def)

lemma core_of_outside: "preserves outside m \<Longrightarrow> preserves core m"
  unfolding preserves_def by (metis core_outside)

lemma core_simps [simp]:
  "core (S\<lparr>accounts := accs\<rparr>) = core S" "core (S\<lparr>database := db\<rparr>) = core S" "core (S\<lparr>processingPayable := b\<rparr>) = core S"
  "core (S\<lparr>manager := m\<rparr>) = core S"
  by (simp_all add: core_def)

lemma core_manager_simps [simp]:
  "core (put_contract a c S) = core S" "core (at_contract a f S) = core S" "core (set_balances b S) = core S"
  "core (clear_balances S) = core S" "core (set_manager_commit cm S) = core S" "core (manager_locals from v S) = core S"
  "core (insert_contract a ct S) = core S" "core (increase_nonce a S) = core S"
  by (simp_all add: put_contract_def at_contract_def set_balances_def clear_balances_def set_manager_commit_def manager_locals_def
      insert_contract_def increase_nonce_def Let_def split: option.split)

lemma preserves_catching [preserve_rules]:
  assumes "preserves f m" and "\<And>S. f (h S) = f S"
  shows "preserves f (catching m h)"
proof (rule preservesI)
  fix S S' r
  assume c: "catching m h S = (S', r)"
  obtain S1 r1 where m: "m S = (S1, r1)" by fastforce
  show "f S' = f S" using preservesD [OF assms(1) m] c assms(2) by (cases r1) (auto simp: catching_def m)
qed

lemma core_manager_ethCall [preserve_rules]: "preserves core (manager_ethCall R C info)"
  by (auto simp: preserves_def manager_ethCall_def createNewERC20Contract_def createNewERC20WrapperContract_def
      createNewERC20NativeWrapperContract_def Let_def split: prod.split sum.split)

lemma core_payable [preserve_rules]: "preserves core (processContractPayable m)"
  by (simp add: preserves_def processContractPayable_def)

lemma preserves_from:
  assumes "preserves f m" and "\<And>S. f (g S) = f S"
  shows "preserves f (\<lambda>S. m (g S))"
  using assms by (simp add: preserves_def)

lemma core_callContract [preserve_rules]: "preserves core (callContract_tx R C depth tx :: ('s State, unit) action)"
proof (rule preservesI)
  fix S S' :: "'s State" and r
  let ?S = "set_manager_commit True S"
  let ?undo = "at_contract (tx_to tx) (contract_set_commit False)"
  assume c: "callContract_tx R C depth tx S = (S', r)"
  have m: "preserves core (bindS (catching (manager_ethCall R C (txToCallInfo tx)) (clear_balances \<circ> set_manager_commit False))
      (\<lambda>_ S. ((clear_balances \<circ> set_manager_commit False) S, Inr ())))"
    by (intro preserve_rules) (simp_all add: preserves_def)
  let ?pay = "\<lambda>S. case contract_at (tx_to tx) S of None \<Rightarrow> False | Some c \<Rightarrow> isPayableFunction c (take 4 (tx_data tx))"
  let ?fin = "\<lambda>_ S. (?undo (clear_balances S), Inr ())"
  have "preserves core (\<lambda>S. bindS (if ?pay S then processContractPayable (cm_balances (manager S)) else liftS (Inr ())) ?fin S)"
    by (rule preserves_read [where h = "\<lambda>S. (?pay S, cm_balances (manager S))" and
          m = "\<lambda>x. bindS (if fst x then processContractPayable (snd x) else liftS (Inr ())) ?fin", unfolded fst_conv snd_conv])
      (intro preserve_rules, simp add: preserves_def)
  then have e: "preserves core (bindS (catching (eth_call C depth (tx_to tx) (txToCallInfo tx)) (clear_balances \<circ> ?undo)) (\<lambda>_ S.
         bindS (if ?pay S then processContractPayable (cm_balances (manager S)) else liftS (Inr ())) ?fin S))"
    using preserves_catching [OF core_of_outside [OF outside_eth_call], of "clear_balances \<circ> ?undo" C depth "tx_to tx" "txToCallInfo tx"]
    by (intro preserves_bindS) simp_all
  show "core S' = core S"
  proof (cases "tx_to tx = contractAddress (manager ?S)")
    case True
    with c have "bindS (catching (manager_ethCall R C (txToCallInfo tx)) (clear_balances \<circ> set_manager_commit False))
      (\<lambda>_ S. ((clear_balances \<circ> set_manager_commit False) S, Inr ())) (manager_locals (tx_from tx) (tx_value tx) ?S) = (S', r)"
      by (simp add: callContract_tx_def Let_def)
    from preservesD [OF m this] show ?thesis by simp
  next
    case False
    have r: "preserves core (catching (liftS (rdPoS_ethCall :: unit result)) clear_balances)" by (intro preserve_rules) simp
    have "core S' = core ?S" if "tx_to tx = rdPoS_address"
      using c False that preservesD [OF r, of ?S S' r] by (simp add: callContract_tx_def Let_def)
    moreover have "core S' = core ?S" if "tx_to tx \<noteq> rdPoS_address" "contract_at (tx_to tx) ?S = None"
      using c False that by (auto simp: callContract_tx_def Let_def)
    moreover have "core S' = core ?S" if "tx_to tx \<noteq> rdPoS_address" "contract_at (tx_to tx) ?S = Some x" for x
      using c False that preservesD [OF e, of "at_contract (tx_to tx) (contract_locals (tx_from tx) (tx_from tx) (tx_value tx) True) ?S" S' r]
      by (simp add: callContract_tx_def Let_def)
    ultimately show ?thesis by (cases "contract_at (tx_to tx) ?S") auto
  qed
qed

end
