(* ===== verification/Chain_Node.thy ===== *)
theory Chain_Node
  imports Node
begin

text \<open>
  The node as a whole: transactions and validator transactions arrive, gas is estimated and blocks are
  processed. A block that is processed extends the chain by itself, hands its randomness to rdPoS and
  leaves exactly the mempool transactions that the new state still admits.
\<close>

subsection \<open>Transactions keep the chain, rdPoS and the mempool\<close>

lemma core_balance_modify [preserve_rules]: "preserves core (balance_modify a f)"
  by (simp add: preserves_def balance_modify_def Let_def split: sum.split)

lemma core_execute [preserve_rules]: "preserves core (execute_transaction R C depth tx :: ('s State, unit) action)"
proof -
  let ?call = "bindS (callContract_tx R C depth tx) (\<lambda>_ S. (S\<lparr>processingPayable := False\<rparr>, Inr ())) :: ('s State, unit) action"
  have c: "preserves core ?call"
    by (rule preserves_bindS [OF core_callContract]) (simp add: preserves_def)
  have "preserves core (\<lambda>S. if isContractCall S tx then
       ?call (if isPayable S (txToCallInfo tx) then S\<lparr>processingPayable := True\<rparr> else S) else (S, Inr ()))"
    (is "preserves core ?body")
  proof (rule preservesI)
    fix S S' :: "'s State" and r
    assume b: "?body S = (S', r)"
    have "core S' = core (if isPayable S (txToCallInfo tx) then S\<lparr>processingPayable := True\<rparr> else S)" if "isContractCall S tx"
      using b that preservesD [OF c] by simp
    then show "core S' = core S" using b by (cases "isContractCall S tx") auto
  qed
  then show ?thesis unfolding execute_transaction_def by (intro preserves_bindS preserves_liftS core_balance_modify)
qed

lemma core_processTransaction [preserve_rules]: "preserves core (processTransaction R C depth tx :: ('s State, unit) action)"
proof -
  let ?body = "(\<lambda>S. case execute_transaction R C depth tx S of
               (S1, Inr u) \<Rightarrow> (S1, Inr u)
             | (S1, Inl e) \<Rightarrow> if e = UndefinedBehaviour then (S1, Inl e)
                            else balance_modify (tx_from tx) (\<lambda>b. u256_add b (tx_value tx)) S1) :: ('s State, unit) action"
  have t: "preserves core ?body"
  proof (rule preservesI)
    fix S S' :: "'s State" and r
    assume a: "?body S = (S', r)"
    obtain S1 r1 where e: "execute_transaction R C depth tx S = (S1, r1)" by fastforce
    have "core S' = core S1"
      using a e preservesD [OF core_balance_modify] by (cases r1) (auto split: if_splits)
    with preservesD [OF core_execute e] show "core S' = core S" by simp
  qed
  have "preserves core (bindS ?body (\<lambda>_ S. (increase_nonce (tx_from tx) S, Inr ())))"
    by (rule preserves_bindS [OF t]) (simp add: preserves_def)
  then show ?thesis by (auto simp: preserves_def processTransaction_def)
qed

lemma preserves_forS [preserve_rules]: "(\<And>x. preserves f (m x)) \<Longrightarrow> preserves f (forS m xs)"
  by (induction xs) (auto intro: preserve_rules)

subsection \<open>The mempool\<close>

text \<open>What the accounts say about a transaction: the sender exists, can pay and the nonce is the next one.\<close>

definition admissible :: "(bytes \<times> Account) list \<Rightarrow> TxBlock \<Rightarrow> bool" where
  "admissible accs tx \<longleftrightarrow> (case (map_of accs (tx_from tx), tx_cost tx) of
     (Some acc, Inr cost) \<Rightarrow> cost \<le> acc_balance acc \<and> ucast (acc_nonce acc) = tx_nonce tx | _ \<Rightarrow> False)"

definition pool_ok :: "crypto \<Rightarrow> 's State \<Rightarrow> bool" where
  "pool_ok C S \<longleftrightarrow> distinct (map fst (mempool S))
     \<and> (\<forall>(h, tx)\<in>set (mempool S). h = tx_hash C tx \<and> admissible (accounts S) tx)"

lemma validate_admissible:
  assumes "map_of (mempool S) (tx_hash C tx) = None" and "tx_cost tx = Inr cost"
  shows "\<exists>v. validateTransactionInternal C S tx = Inr v \<and> (v = NotInvalid \<longleftrightarrow> admissible (accounts S) tx)"
  using assms by (cases "map_of (accounts S) (tx_from tx)") (simp_all add: validateTransactionInternal_def admissible_def linorder_not_less [symmetric])

lemma validated_admissible:
  assumes "map_of (mempool S) (tx_hash C tx) = None" and "validateTransactionInternal C S tx = Inr NotInvalid"
  shows "admissible (accounts S) tx"
  by (rule validated_can_pay [OF assms(2,1)]) (simp add: admissible_def)

lemma admissible_cost: "admissible accs tx \<Longrightarrow> \<exists>cost. tx_cost tx = Inr cost"
  by (auto simp: admissible_def split: option.splits sum.splits)

text \<open>What refreshing the mempool needs of it.\<close>

definition pool_keyed :: "crypto \<Rightarrow> 's State \<Rightarrow> bool" where
  "pool_keyed C S \<longleftrightarrow> distinct (map fst (mempool S))
     \<and> (\<forall>(h, tx)\<in>set (mempool S). h = tx_hash C tx \<and> (\<exists>cost. tx_cost tx = Inr cost))"

lemma pool_ok_keyed: "pool_ok C S \<Longrightarrow> pool_keyed C S"
  unfolding pool_ok_def pool_keyed_def by (auto dest: admissible_cost)

lemma deletes_filter: "fold (\<lambda>tx mp. AList.delete (f tx) mp) ts mp = filter (\<lambda>(h, _). h \<notin> f ` set ts) mp"
  by (induction ts arbitrary: mp) (auto simp: AList.delete_eq filter_filter intro!: filter_cong)

lemma readmit_all:
  assumes "distinct (map fst (acc @ es))" and "\<forall>(h, tx)\<in>set es. h = tx_hash C tx \<and> (\<exists>cost. tx_cost tx = Inr cost)"
  shows "forS (readmit C) es (S\<lparr>mempool := acc\<rparr>) =
    (S\<lparr>mempool := acc @ filter (\<lambda>(h, tx). admissible (accounts S) tx) es\<rparr>, Inr ())"
  using assms
proof (induction es arbitrary: acc)
  case (Cons e es)
  obtain h tx where e: "e = (h, tx)" by fastforce
  let ?S = "S\<lparr>mempool := acc\<rparr>"
  have n: "map_of acc h = None" using Cons.prems(1) by (auto simp: e map_of_eq_None_iff)
  from Cons.prems(2) obtain cost where c: "h = tx_hash C tx" "tx_cost tx = Inr cost" by (auto simp: e)
  then obtain v where v: "validateTransactionInternal C ?S tx = Inr v" "v = NotInvalid \<longleftrightarrow> admissible (accounts S) tx"
    using validate_admissible [of ?S C tx cost] n by auto
  let ?acc = "acc @ (if admissible (accounts S) tx then [e] else [])"
  have "readmit C e ?S = (S\<lparr>mempool := ?acc\<rparr>, Inr ())" using v n by (simp add: readmit_def e)
  moreover have "forS (readmit C) es (S\<lparr>mempool := ?acc\<rparr>) =
      (S\<lparr>mempool := ?acc @ filter (\<lambda>(h, tx). admissible (accounts S) tx) es\<rparr>, Inr ())"
    using Cons.prems by (intro Cons.IH) (auto simp: e)
  ultimately show ?case by (simp add: bindS_Inr e)
qed (simp add: liftS_def)

lemma refreshMempool_eq:
  assumes "pool_keyed C S"
  shows "refreshMempool C b S =
    (S\<lparr>mempool := filter (\<lambda>(h, tx). h \<notin> tx_hash C ` set (txs b) \<and> admissible (accounts S) tx) (mempool S)\<rparr>, Inr ())"
proof -
  let ?es = "filter (\<lambda>(h, _). h \<notin> tx_hash C ` set (txs b)) (mempool S)"
  have "forS (readmit C) ?es (S\<lparr>mempool := []\<rparr>) =
      (S\<lparr>mempool := [] @ filter (\<lambda>(h, tx). admissible (accounts S) tx) ?es\<rparr>, Inr ())"
    using assms by (intro readmit_all) (auto simp: distinct_map_filter pool_keyed_def)
  then show ?thesis
    by (simp add: refreshMempool_def deletes_filter case_prod_unfold conj_commute)
qed

subsection \<open>A new block\<close>

lemma processNextBlock_steps:
  assumes "processNextBlock R C depth b S = (S', Inr ())"
  obtains S1 rd seed S2 st where "validateNextBlock C S b = Inr True"
    and "forS (processTransaction R C depth) (txs b) S = (S1, Inr ())" and "processBlock C (rdpos S1) b = Inr (rd, seed)"
    and "refreshMempool C b (S1\<lparr>rdpos := rd\<rparr>) = (S2, Inr ())" and "pushBack C (storage S2) b = Inr st" and "S' = S2\<lparr>storage := st\<rparr>"
proof -
  let ?round = "\<lambda>S. case processBlock C (rdpos S) b of Inl e \<Rightarrow> (S, Inl e) | Inr (rd, _) \<Rightarrow> (S\<lparr>rdpos := rd\<rparr>, Inr ())"
  let ?push = "\<lambda>S. case pushBack C (storage S) b of Inl e \<Rightarrow> (S, Inl e) | Inr st \<Rightarrow> (S\<lparr>storage := st\<rparr>, Inr ())"
  have v: "validateNextBlock C S b = Inr True"
    and p: "bindS (forS (processTransaction R C depth) (txs b)) (\<lambda>_. bindS ?round (\<lambda>_. bindS (refreshMempool C b) (\<lambda>_. ?push))) S = (S', Inr ())"
    using assms by (auto simp: processNextBlock_def split: sum.splits if_splits)
  from p obtain S1 where 1: "forS (processTransaction R C depth) (txs b) S = (S1, Inr ())"
    and p: "bindS ?round (\<lambda>_. bindS (refreshMempool C b) (\<lambda>_. ?push)) S1 = (S', Inr ())"
    by (cases rule: bindS_cases) auto
  from p obtain S1' where r: "?round S1 = (S1', Inr ())" and p: "bindS (refreshMempool C b) (\<lambda>_. ?push) S1' = (S', Inr ())"
    by (cases rule: bindS_cases) auto
  from r obtain rd seed where 2: "processBlock C (rdpos S1) b = Inr (rd, seed)" "S1' = S1\<lparr>rdpos := rd\<rparr>"
    by (auto split: sum.splits prod.splits)
  from p obtain S2 where 3: "refreshMempool C b S1' = (S2, Inr ())" and p: "?push S2 = (S', Inr ())"
    by (cases rule: bindS_cases) auto
  from p obtain st where 4: "pushBack C (storage S2) b = Inr st" "S' = S2\<lparr>storage := st\<rparr>" by (auto split: sum.splits)
  show ?thesis using that v 1 2 3 4 by simp
qed

lemma validateNextBlock_True:
  assumes "validateNextBlock C S b = Inr True"
  shows "st_chain (storage S) \<noteq> []" and "linked C (last (st_chain (storage S))) b" and "validateBlock C (rdpos S) b = Inr True"
    and "validate_txs C S (txs b) = Inr True"
  using assms by (auto simp: validateNextBlock_def latest_def linked_def result_simps split: if_splits)

lemma pushBack_chain: "pushBack C st b = Inr st' \<Longrightarrow> st_chain st' = st_chain st @ [b]"
  by (auto simp: pushBack_def index_block_def split: if_splits)

lemma pushBack_linked: "st_chain st \<noteq> [] \<Longrightarrow> linked C (last (st_chain st)) b \<Longrightarrow> \<exists>st'. pushBack C st b = Inr st'"
  by (simp add: pushBack_def linked_def)

lemma processBlock_Inr: "processBlock C rd b = Inr (rd', seed) \<Longrightarrow> finalized b \<and> validatorMempool rd' = []"
  by (auto simp: processBlock_def Let_def result_simps split: if_splits)

lemma processNextBlock_effect:
  assumes "pool_keyed C S" and "processNextBlock R C depth b S = (S', Inr ())"
  shows "validateNextBlock C S b = Inr True"
    and "pushBack C (storage S) b = Inr (storage S')"
    and "\<exists>seed. processBlock C (rdpos S) b = Inr (rdpos S', seed)"
    and "mempool S' = filter (\<lambda>(h, tx). h \<notin> tx_hash C ` set (txs b) \<and> admissible (accounts S') tx) (mempool S)"
    and "chainID S' = chainID S"
proof -
  obtain S1 rd seed S2 st where 0: "validateNextBlock C S b = Inr True"
    and 1: "forS (processTransaction R C depth) (txs b) S = (S1, Inr ())" and 2: "processBlock C (rdpos S1) b = Inr (rd, seed)"
    and 3: "refreshMempool C b (S1\<lparr>rdpos := rd\<rparr>) = (S2, Inr ())" and 4: "pushBack C (storage S2) b = Inr st" "S' = S2\<lparr>storage := st\<rparr>"
    by (rule processNextBlock_steps [OF assms(2)])
  have "preserves core (forS (processTransaction R C depth) (txs b))" by (intro preserve_rules)
  from preservesD [OF this 1] have c: "mempool S1 = mempool S" "rdpos S1 = rdpos S" "storage S1 = storage S" "chainID S1 = chainID S"
    by (simp_all add: core_def)
  have "refreshMempool C b (S1\<lparr>rdpos := rd\<rparr>) = (S1\<lparr>rdpos := rd, mempool := filter (\<lambda>(h, tx). h \<notin> tx_hash C ` set (txs b)
      \<and> admissible (accounts S1) tx) (mempool S)\<rparr>, Inr ())"
    using refreshMempool_eq [of C "S1\<lparr>rdpos := rd\<rparr>" b] assms(1) c(1) by (simp add: pool_keyed_def)
  with 3 have S2: "S2 = S1\<lparr>rdpos := rd, mempool := filter (\<lambda>(h, tx). h \<notin> tx_hash C ` set (txs b)
      \<and> admissible (accounts S1) tx) (mempool S)\<rparr>" by simp
  show "validateNextBlock C S b = Inr True" by (rule 0)
  show "pushBack C (storage S) b = Inr (storage S')" "chainID S' = chainID S"
    "mempool S' = filter (\<lambda>(h, tx). h \<notin> tx_hash C ` set (txs b) \<and> admissible (accounts S') tx) (mempool S)"
    "\<exists>seed. processBlock C (rdpos S) b = Inr (rdpos S', seed)"
    using 2 4 c by (simp_all add: S2)
qed

text \<open>C4. A block that \<^verbatim>\<open>processNextBlock\<close> accepts was validated, and afterwards it is the last block of a chain
  that is otherwise the old one; its randomness is the seed of the next round, whose list is a permutation
  of the validators, and the validator transactions of the old round are gone; the mempool holds exactly
  the old transactions that are not in the block and that the new accounts still admit.\<close>

theorem processNextBlock_extends:
  assumes "pool_ok C S" and "processNextBlock R C depth b S = (S', Inr ())"
  shows "validateNextBlock C S b = Inr True
    \<and> (st_chain (storage S') = st_chain (storage S) @ [b] \<and> linked C (last (st_chain (storage S))) b \<and> latest (storage S') = Inr b)
    \<and> (bestRandomSeed (rdpos S') = blockRandomness b \<and> mset (randomList (rdpos S')) = mset (validators (rdpos S))
      \<and> validators (rdpos S') = validators (rdpos S) \<and> validatorMempool (rdpos S') = [])
    \<and> mempool S' = filter (\<lambda>(h, tx). h \<notin> tx_hash C ` set (txs b) \<and> admissible (accounts S') tx) (mempool S)"
proof -
  note e = processNextBlock_effect [OF pool_ok_keyed [OF assms(1)] assms(2)]
  from e(3) obtain seed where p: "processBlock C (rdpos S) b = Inr (rdpos S', seed)" ..
  have "st_chain (storage S') = st_chain (storage S) @ [b] \<and> linked C (last (st_chain (storage S))) b \<and> latest (storage S') = Inr b"
    using pushBack_chain [OF e(2)] validateNextBlock_True(2) [OF e(1)] by (simp add: latest_def)
  moreover have "bestRandomSeed (rdpos S') = blockRandomness b \<and> mset (randomList (rdpos S')) = mset (validators (rdpos S))
      \<and> validators (rdpos S') = validators (rdpos S) \<and> validatorMempool (rdpos S') = []"
    using p processBlock_Inr [OF p] processBlock_finalized [of b C "rdpos S"] by auto
  ultimately show ?thesis using e(1,4) by blast
qed

subsection \<open>The node invariant\<close>

text \<open>What holds even after a block whose processing threw halfway; \<open>node_inv\<close> adds that every mempool transaction
  could be executed at once.\<close>

definition node_safe :: "crypto \<Rightarrow> 's State \<Rightarrow> bool" where
  "node_safe C S \<longleftrightarrow> storage_inv C (storage S) \<and> st_chain (storage S) \<noteq> [] \<and> pool_keyed C S
     \<and> mempool_ok C (nHeight (last (st_chain (storage S)))) (rdpos S)
     \<and> mset (randomList (rdpos S)) = mset (validators (rdpos S)) \<and> 5 \<le> length (validators (rdpos S))"

definition node_inv :: "crypto \<Rightarrow> 's State \<Rightarrow> bool" where
  "node_inv C S \<longleftrightarrow> storage_inv C (storage S) \<and> st_chain (storage S) \<noteq> [] \<and> pool_ok C S
     \<and> mempool_ok C (nHeight (last (st_chain (storage S)))) (rdpos S)
     \<and> mset (randomList (rdpos S)) = mset (validators (rdpos S)) \<and> 5 \<le> length (validators (rdpos S))"

lemma node_inv_iff: "node_inv C S \<longleftrightarrow> node_safe C S \<and> pool_ok C S"
  using pool_ok_keyed by (auto simp: node_inv_def node_safe_def)

lemma node_safe_random: "node_safe C S \<Longrightarrow> 5 \<le> length (randomList (rdpos S))"
  unfolding node_safe_def by (metis size_mset)

lemma node_safe_block:
  assumes "node_safe C S" and p: "processNextBlock R C depth b S = (S', Inr ())"
    and "Block_hash C b \<notin> Block_hash C ` set (st_chain (storage S))" and "length (txs b) < 2 ^ 32"
  shows "node_safe C S'"
proof -
  have pool: "pool_keyed C S" and st: "storage_inv C (storage S)" using assms(1) by (auto simp: node_safe_def)
  note e = processNextBlock_effect [OF pool p]
  have "storage_inv C (storage S')" by (rule pushBack_inv [OF st assms(3,4) e(2)])
  moreover have "st_chain (storage S') \<noteq> []" using pushBack_chain [OF e(2)] by simp
  moreover have "pool_keyed C S'" using pool unfolding pool_keyed_def e(4) by (auto simp: distinct_map_filter)
  moreover obtain seed where pb: "processBlock C (rdpos S) b = Inr (rdpos S', seed)" using e(3) ..
  moreover have "mempool_ok C h (rdpos S') \<and> mset (randomList (rdpos S')) = mset (validators (rdpos S))
      \<and> validators (rdpos S') = validators (rdpos S)" for h
    using pb processBlock_Inr [OF pb] processBlock_finalized [of b C "rdpos S"] by auto
  ultimately show ?thesis using assms(1) by (simp add: node_safe_def)
qed

text \<open>A processed block leaves only transactions that the new accounts admit, whatever the mempool held before.\<close>

lemma pool_ok_block:
  assumes "pool_keyed C S" and "processNextBlock R C depth b S = (S', Inr ())"
  shows "pool_ok C S'"
  using assms(1) unfolding pool_ok_def pool_keyed_def processNextBlock_effect(4) [OF assms] by (auto simp: distinct_map_filter)

lemma addTx_cases:
  assumes "addTx C S tx = Inr (S', v)"
  obtains "S' = S" | "map_of (mempool S) (tx_hash C tx) = None" "admissible (accounts S) tx" "S' = S\<lparr>mempool := mempool S @ [(tx_hash C tx, tx)]\<rparr>"
  using assms validated_admissible [of S C tx] by (auto simp: addTx_def result_simps split: if_splits)

lemma node_safe_tx:
  assumes "node_safe C S" and "addTx C S tx = Inr (S', v)"
  shows "node_safe C S'"
  using assms(2)
proof (cases rule: addTx_cases)
  case 2
  then show ?thesis
    using assms(1) admissible_cost [OF 2(2)] by (auto simp: node_safe_def pool_keyed_def map_of_eq_None_iff)
qed (use assms in simp)

lemma node_inv_tx:
  assumes "node_inv C S" and "addTx C S tx = Inr (S', v)"
  shows "node_inv C S'"
  using assms(2)
proof (cases rule: addTx_cases)
  case 2
  then have "pool_ok C S'" using assms(1) by (auto simp: node_inv_def pool_ok_def map_of_eq_None_iff)
  with node_safe_tx assms show ?thesis by (auto simp: node_inv_iff)
qed (use assms in simp)

lemma node_safe_validator_tx:
  assumes "node_safe C S" and "State_addValidatorTx C S vtx = Inr (S', ok)"
  shows "node_safe C S' \<and> (\<exists>rd. S' = S\<lparr>rdpos := rd\<rparr>)"
proof -
  let ?h = "nHeight (last (st_chain (storage S)))"
  have l: "latest (storage S) = Inr (last (st_chain (storage S)))" using assms(1) by (simp add: node_safe_def latest_def)
  obtain rd' r where a: "addValidatorTx C ?h (rdpos S) vtx = Inr (rd', r)" "mempool_ok C ?h rd'"
    using addValidatorTx_keeps [of C ?h "rdpos S" vtx] assms(1) node_safe_random [OF assms(1)] by (auto simp: node_safe_def)
  moreover have "randomList rd' = randomList (rdpos S)" "validators rd' = validators (rdpos S)"
    using a(1) by (auto simp: addValidatorTx_def Let_def result_simps split: if_splits)
  moreover have "S' = S\<lparr>rdpos := rd'\<rparr>" using assms(2) l a(1) by (simp add: State_addValidatorTx_def)
  ultimately show ?thesis using assms(1) by (auto simp: node_safe_def pool_keyed_def)
qed

text \<open>A block either is processed completely or leaves chain, rdPoS and mempool alone.\<close>

lemma processNextBlock_all_or_core:
  assumes "pool_keyed C S" and "processNextBlock R C depth b S = (S', r)"
  shows "r = Inr () \<or> core S' = core S"
proof (cases "validateNextBlock C S b = Inr True")
  case v: True
  note n = validateNextBlock_True [OF v]
  obtain S1 r1 where run: "forS (processTransaction R C depth) (txs b) S = (S1, r1)" by fastforce
  have "preserves core (forS (processTransaction R C depth) (txs b))" by (intro preserve_rules)
  from preservesD [OF this run] have core: "core S1 = core S" .
  show ?thesis
  proof (cases r1)
    case (Inl e)
    then show ?thesis using assms(2) v run core by (simp add: processNextBlock_def bindS_Inl)
  next
    case (Inr u)
    have c: "mempool S1 = mempool S" "rdpos S1 = rdpos S" "storage S1 = storage S" using core by (simp_all add: core_def)
    have "finalized b" using n(3) by (auto simp: validateBlock_def split: if_splits)
    from processBlock_finalized [OF this, of C "rdpos S"] obtain rd seed where rd: "processBlock C (rdpos S) b = Inr (rd, seed)" by blast
    obtain S2 where refresh: "refreshMempool C b (S1\<lparr>rdpos := rd\<rparr>) = (S2, Inr ())" "storage S2 = storage S"
      using refreshMempool_eq [of C "S1\<lparr>rdpos := rd\<rparr>" b] assms(1) c by (simp add: pool_keyed_def)
    obtain st where "pushBack C (storage S) b = Inr st" using pushBack_linked [OF n(1,2)] by blast
    then have "processNextBlock R C depth b S = (S2\<lparr>storage := st\<rparr>, Inr ())"
      using v run rd refresh Inr c by (simp add: processNextBlock_def bindS_Inr)
    then show ?thesis using assms(2) by simp
  qed
next
  case False
  then show ?thesis using assms(2) by (auto simp: processNextBlock_def split: sum.splits if_splits)
qed

text \<open>Estimating the gas of a call can create contracts and change the database, but neither the accounts nor
  the chain, rdPoS or the mempool.\<close>

definition books :: "'s State \<Rightarrow> (bytes \<times> Account) list \<times> (bytes \<times> TxBlock) list \<times> rdPoS \<times> Storage \<times> uint64" where
  "books S = (accounts S, core S)"

lemma books_simps [simp]:
  "books (S\<lparr>database := db\<rparr>) = books S" "books (S\<lparr>manager := m\<rparr>) = books S" "books (put_contract a c S) = books S"
  "books (at_contract a f S) = books S" "books (set_balances bs S) = books S" "books (clear_balances S) = books S"
  "books (manager_locals from v S) = books S" "books (insert_contract a c S) = books S" "books (populateBalance a S) = books S"
  by (simp_all add: books_def put_contract_def at_contract_def set_balances_def clear_balances_def manager_locals_def
      insert_contract_def populateBalance_def Let_def split: option.split)

lemma books_of_outside: "preserves outside m \<Longrightarrow> preserves books m"
proof -
  have "books S = books (outside S)" for S by (simp add: outside_def)
  then show "preserves outside m \<Longrightarrow> preserves books m" unfolding preserves_def by metis
qed

lemma books_manager_ethCall: "preserves books (manager_ethCall R C info)"
  by (auto simp: preserves_def manager_ethCall_def createNewERC20Contract_def createNewERC20WrapperContract_def
      createNewERC20NativeWrapperContract_def Let_def split: prod.split sum.split)

lemma books_validateCall: "preserves books (validateCallContractWithTx R C depth info :: ('s State, bool) action)"
proof -
  obtain f t gl gp v d where i: "info = (f, t, gl, gp, v, d)" by (metis prod_cases6)
  let ?credit = "(\<lambda>S. if loc_value (manager S) \<noteq> 0 then balances_modify t (\<lambda>x. u256_add x v) (populateBalance t S) else (S, Inr ())) :: ('s State, unit) action"
  let ?manager = "bindS (manager_ethCall R C info) (\<lambda>_ S. (clear_balances S, Inr True)) :: ('s State, bool) action"
  let ?dynamic = "bindS (eth_call C depth t info) (\<lambda>_ S. (S, Inr True)) :: ('s State, bool) action"
  have "preserves books ?credit"
  proof (rule preservesI)
    fix S S' :: "'s State" and r
    assume "?credit S = (S', r)"
    then show "books S' = books S"
      using preservesD [OF books_of_outside [OF outside_balances_modify [of t "\<lambda>x. u256_add x v"]], of "populateBalance t S" S' r]
      by (cases "loc_value (manager S) = 0") auto
  qed
  moreover have "preserves books ?manager" by (rule preserves_bindS [OF books_manager_ethCall]) (simp add: preserves_def)
  moreover have "preserves books ?dynamic" by (rule preserves_bindS [OF books_of_outside [OF outside_eth_call]]) (simp add: preserves_def)
  ultimately have "books (fst (?manager S)) = books S" "books (fst (?dynamic S)) = books S" "preserves books ?credit" for S
    by (simp_all add: preserves_def)
  moreover from this have "preserves books (\<lambda>S. if t = contractAddress (manager S) then ?manager (manager_locals f v S)
         else if t = rdPoS_address then liftS rdPoS_ethCall S
         else if contract_at t S = None then (clear_balances S, Inr False)
         else ?dynamic (at_contract t (contract_locals f f v False) S))"
    by (auto simp: preserves_def liftS_def)
  ultimately show ?thesis
    unfolding validateCallContractWithTx_def i by (auto intro!: preserves_catching preserves_bindS)
qed

lemma books_estimateGas: "preserves books (estimateGas R C depth info)"
  using preserves_bindS [OF books_validateCall [of R C depth info], of "\<lambda>_ S. (S, Inr True)"]
  by (auto simp: preserves_def estimateGas_def Let_def split: prod.split sum.split bool.split)

text \<open>The faucet \<^verbatim>\<open>addBalance\<close> can only make a transaction payable, even when the addition overflows.\<close>

lemma addBalance_accounts:
  assumes "addBalance a S = (S', r)"
  shows "core S' = core S" and "admissible (accounts S) tx \<Longrightarrow> admissible (accounts S') tx"
proof -
  let ?b = "acc_balance (account_or_new (accounts S) a)"
  obtain x where x: "S' = S\<lparr>accounts := put_balance a x (accounts S)\<rparr>" "?b \<le> x"
  proof (cases "u256_add ?b 1000000000000000000000")
    case (Inl e)
    then show thesis using assms that [of ?b] by (simp add: addBalance_def balance_modify_def)
  next
    case (Inr y)
    then have "?b \<le> y" using u256_add_Inr [OF Inr] by (simp add: word_le_nat_alt)
    with Inr show thesis using assms that [of y] by (simp add: addBalance_def balance_modify_def)
  qed
  then show "core S' = core S" by (simp add: core_def)
  show "admissible (accounts S') tx" if "admissible (accounts S) tx"
    using that x by (auto simp: admissible_def put_balance_def update_conv' account_or_new_def split: option.splits sum.splits)
qed

text \<open>The runs of a node. The flag says whether no block has thrown since the start or since the last block that was processed: such a block leaves the effects of
  the transactions before the one that threw, so that the mempool may hold transactions that the accounts no longer admit until the next block.\<close>

inductive node_reach :: "'s rocksdb \<Rightarrow> crypto \<Rightarrow> nat \<Rightarrow> 's State \<Rightarrow> 's State \<Rightarrow> bool \<Rightarrow> bool" for R C depth S0 where
  start: "node_reach R C depth S0 S0 True"
| transaction: "node_reach R C depth S0 S clean \<Longrightarrow> addTx C S tx = Inr (S', v) \<Longrightarrow> node_reach R C depth S0 S' clean"
| validator_transaction:
    "node_reach R C depth S0 S clean \<Longrightarrow> State_addValidatorTx C S vtx = Inr (S', ok) \<Longrightarrow> node_reach R C depth S0 S' clean"
| estimate: "node_reach R C depth S0 S clean \<Longrightarrow> estimateGas R C depth info S = (S', r) \<Longrightarrow> node_reach R C depth S0 S' clean"
| faucet: "node_reach R C depth S0 S clean \<Longrightarrow> addBalance a S = (S', r) \<Longrightarrow> node_reach R C depth S0 S' clean"
| block: "node_reach R C depth S0 S clean \<Longrightarrow> processNextBlock R C depth b S = (S', Inr ()) \<Longrightarrow>
    Block_hash C b \<notin> Block_hash C ` set (st_chain (storage S)) \<Longrightarrow> length (txs b) < 2 ^ 32 \<Longrightarrow> node_reach R C depth S0 S' True"
| thrown_block: "node_reach R C depth S0 S clean \<Longrightarrow> processNextBlock R C depth b S = (S', Inl e) \<Longrightarrow> node_reach R C depth S0 S' False"

lemma node_inv_books: "books S' = books S \<Longrightarrow> node_safe C S' = node_safe C S \<and> pool_ok C S' = pool_ok C S"
  by (simp add: books_def core_def node_safe_def pool_keyed_def pool_ok_def)

lemma node_safe_core: "core S' = core S \<Longrightarrow> node_safe C S' = node_safe C S"
  by (simp add: core_def node_safe_def pool_keyed_def)

text \<open>One step of a run.\<close>

lemma node_reach_step:
  "node_reach R C depth S0 S clean \<Longrightarrow> node_inv C S0 \<Longrightarrow>
   node_safe C S \<and> (clean \<longrightarrow> pool_ok C S) \<and> (\<exists>new. st_chain (storage S) = st_chain (storage S0) @ new)"
proof (induction rule: node_reach.induct)
  case start
  then show ?case by (simp add: node_inv_iff)
next
  case (transaction S clean tx S' v)
  moreover have "storage S' = storage S" using transaction.hyps(2) by (auto simp: addTx_def result_simps split: if_splits)
  ultimately show ?case using node_safe_tx node_inv_tx by (metis node_inv_iff)
next
  case (validator_transaction S clean vtx S' ok)
  then show ?case using node_safe_validator_tx [of C S vtx S' ok] by (auto simp: pool_ok_def)
next
  case (estimate S clean info S' r)
  have b: "books S' = books S" by (rule preservesD [OF books_estimateGas estimate.hyps(2)])
  with estimate node_inv_books [OF b] show ?case by (simp add: books_def core_def)
next
  case (faucet S clean a S' r)
  note a = addBalance_accounts [OF faucet.hyps(2)]
  have c: "storage S' = storage S" "mempool S' = mempool S" using a(1) by (simp_all add: core_def)
  with faucet a(2) node_safe_core [OF a(1)] show ?case by (fastforce simp: pool_ok_def)
next
  case (block S clean b S')
  then have safe: "node_safe C S" "pool_keyed C S" by (auto simp: node_safe_def)
  have "st_chain (storage S') = st_chain (storage S) @ [b]" using pushBack_chain [OF processNextBlock_effect(2) [OF safe(2) block.hyps(2)]] .
  with block node_safe_block [OF safe(1) block.hyps(2-4)] pool_ok_block [OF safe(2) block.hyps(2)] show ?case by auto
next
  case (thrown_block S clean b S' e)
  then have "pool_keyed C S" by (auto simp: node_safe_def)
  from processNextBlock_all_or_core [OF this thrown_block.hyps(2)] have c: "core S' = core S" by simp
  with thrown_block node_safe_core [OF c] show ?case by (simp add: core_def)
qed

subsection \<open>A block of transfers\<close>

definition tx_fee :: "TxBlock \<Rightarrow> nat" where
  "tx_fee tx = unat (tx_gasLimit tx) * unat (tx_maxFeePerGas tx)"

definition spent :: "bytes \<Rightarrow> TxBlock list \<Rightarrow> nat" where
  "spent a ts = (\<Sum>tx\<leftarrow>ts. if tx_from tx = a then unat (tx_value tx) + tx_fee tx else 0)"

definition received :: "bytes \<Rightarrow> TxBlock list \<Rightarrow> nat" where
  "received a ts = (\<Sum>tx\<leftarrow>ts. if tx_to tx = a then unat (tx_value tx) else 0)"

lemma plain_transfer_step:
  assumes "accounts_ok (accounts S)" and "ledger_total (accounts S) < 2 ^ 256" and "admissible (accounts S) tx" and "\<not> isContractCall S tx"
  shows "\<exists>accs. processTransaction R C depth tx S = (S\<lparr>accounts := accs\<rparr>, Inr ()) \<and> accounts_ok accs
    \<and> ledger_total accs + tx_fee tx = ledger_total (accounts S)
    \<and> (\<forall>a. ledger accs a + spent a [tx] = ledger (accounts S) a + received a [tx])
    \<and> (\<forall>a. acc_nonce (account_or_new accs a) = acc_nonce (account_or_new (accounts S) a) + (if a = tx_from tx then 1 else 0))
    \<and> others_keep (tx_from tx) (accounts S) accs"
proof -
  obtain acc cost where a: "map_of (accounts S) (tx_from tx) = Some acc" "tx_cost tx = Inr cost" "cost \<le> acc_balance acc"
    using assms(3) by (auto simp: admissible_def split: option.splits sum.splits)
  note t = transfer_effect [OF assms(1,2) a assms(4)]
  from t(1) [of R C depth] obtain fee accs where f: "u256_mul (tx_gasLimit tx) (tx_maxFeePerGas tx) = Inr fee"
    and p: "processTransaction R C depth tx S = (S\<lparr>accounts := accs\<rparr>, Inr ())"
    and l: "ledger accs = (let b = (ledger (accounts S))(tx_from tx := ledger (accounts S) (tx_from tx) - (unat (tx_value tx) + unat fee))
                     in b(tx_to tx := b (tx_to tx) + unat (tx_value tx)))"
    and r: "\<forall>a. acc_nonce (account_or_new accs a) = acc_nonce (account_or_new (accounts S) a) + (if a = tx_from tx then 1 else 0)"
      "ledger_total accs + unat fee = ledger_total (accounts S)" "accounts_ok accs" by blast
  have fee: "unat fee = tx_fee tx" using u256_mul_Inr [OF f] by (simp add: tx_fee_def)
  have "unat cost = unat (tx_value tx) + tx_fee tx"
    using tx_cost_Inr [OF a(2)] f fee by (metis sum.inject(2))
  with a(1,3) have "unat (tx_value tx) + tx_fee tx \<le> ledger (accounts S) (tx_from tx)"
    by (simp add: ledger_def account_or_new_def word_le_nat_alt)
  then have "ledger accs a + spent a [tx] = ledger (accounts S) a + received a [tx]" for a
    by (auto simp: l fee Let_def spent_def received_def)
  moreover have "accounts (increase_nonce (tx_from tx) (pay tx cost S)) = accs"
    using t(3) [of R C depth] p by (metis Pair_inject State.select_convs(1) State.surjective State.update_convs(1))
  then have "others_keep (tx_from tx) (accounts S) accs" using t(2) by simp
  ultimately show ?thesis using p r fee by (intro exI [of _ accs]) simp
qed

lemma admissible_others:
  assumes "others_keep f accs accs'" and "tx_from tx \<noteq> f" and "admissible accs tx"
  shows "admissible accs' tx"
proof -
  obtain acc cost where a: "map_of accs (tx_from tx) = Some acc" "tx_cost tx = Inr cost" "cost \<le> acc_balance acc" "ucast (acc_nonce acc) = tx_nonce tx"
    using assms(3) by (auto simp: admissible_def split: option.splits sum.splits)
  from assms(1,2) a(1) obtain acc' where "map_of accs' (tx_from tx) = Some acc'" "acc_nonce acc' = acc_nonce acc" "acc_balance acc \<le> acc_balance acc'"
    unfolding others_keep_def by blast
  with a show ?thesis by (simp add: admissible_def)
qed

lemma transfers_run:
  fixes S :: "'s State"
  assumes "accounts_ok (accounts S)" and "ledger_total (accounts S) < 2 ^ 256" and "distinct (map tx_from ts)"
    and "\<forall>tx\<in>set ts. admissible (accounts S) tx \<and> \<not> isContractCall S tx"
  shows "\<exists>accs. forS (processTransaction R C depth) ts S = (S\<lparr>accounts := accs\<rparr>, Inr ()) \<and> accounts_ok accs
    \<and> ledger_total accs + (\<Sum>tx\<leftarrow>ts. tx_fee tx) = ledger_total (accounts S)
    \<and> (\<forall>a. ledger accs a + spent a ts = ledger (accounts S) a + received a ts)
    \<and> (\<forall>a. acc_nonce (account_or_new accs a) = acc_nonce (account_or_new (accounts S) a) + (if a \<in> tx_from ` set ts then 1 else 0))"
  using assms
proof (induction ts arbitrary: S)
  case (Nil S)
  then show ?case by (intro exI [of _ "accounts S"]) (simp add: liftS_def spent_def received_def)
next
  case (Cons tx ts)
  obtain accs1 where p: "processTransaction R C depth tx S = (S\<lparr>accounts := accs1\<rparr>, Inr ())" "accounts_ok accs1"
      "ledger_total accs1 + tx_fee tx = ledger_total (accounts S)"
      "\<forall>a. ledger accs1 a + spent a [tx] = ledger (accounts S) a + received a [tx]"
      "\<forall>a. acc_nonce (account_or_new accs1 a) = acc_nonce (account_or_new (accounts S) a) + (if a = tx_from tx then 1 else 0)"
      "others_keep (tx_from tx) (accounts S) accs1"
    using plain_transfer_step [OF Cons.prems(1,2), of tx R C depth] Cons.prems(4) by auto
  let ?S = "S\<lparr>accounts := accs1\<rparr>"
  have c: "isContractCall ?S t = isContractCall S t" for t by (simp add: isContractCall_def contract_at_def)
  have "admissible accs1 t" "\<not> isContractCall ?S t" if "t \<in> set ts" for t
  proof -
    have "tx_from t \<noteq> tx_from tx" using Cons.prems(3) that by (auto simp: image_iff)
    with admissible_others [OF p(6)] Cons.prems(4) that show "admissible accs1 t" "\<not> isContractCall ?S t" unfolding c by simp_all
  qed
  then have "\<forall>t\<in>set ts. admissible (accounts ?S) t \<and> \<not> isContractCall ?S t" by simp
  moreover have "ledger_total (accounts ?S) < 2 ^ 256" using p(3) Cons.prems(2) by simp
  ultimately obtain accs where q: "forS (processTransaction R C depth) ts ?S = (?S\<lparr>accounts := accs\<rparr>, Inr ())" "accounts_ok accs"
      "ledger_total accs + (\<Sum>tx\<leftarrow>ts. tx_fee tx) = ledger_total accs1"
      "\<forall>a. ledger accs a + spent a ts = ledger accs1 a + received a ts"
      "\<forall>a. acc_nonce (account_or_new accs a) = acc_nonce (account_or_new accs1 a) + (if a \<in> tx_from ` set ts then 1 else 0)"
    using Cons.IH [of ?S] p(2) Cons.prems(3) by auto
  have "ledger accs a + spent a (tx # ts) = ledger (accounts S) a + received a (tx # ts)" for a
    using p(4) [rule_format, of a] q(4) [rule_format, of a] by (simp add: spent_def received_def)
  moreover have "acc_nonce (account_or_new accs a) = acc_nonce (account_or_new (accounts S) a) + (if a \<in> tx_from ` set (tx # ts) then 1 else 0)" for a
    using p(5) [rule_format, of a] q(5) [rule_format, of a] Cons.prems(3) by auto
  ultimately show ?case
    using p(1,3) q(1,2,3) by (intro exI [of _ accs]) (simp add: bindS_Inr)
qed

lemma validate_txs_True: "validate_txs C S ts = Inr True \<Longrightarrow> tx \<in> set ts \<Longrightarrow> validateTransactionInternal C S tx = Inr NotInvalid"
  by (induction ts) (auto simp: result_simps split: if_splits)

lemma validated_block_admissible:
  assumes "pool_ok C S" and "validate_txs C S ts = Inr True" and "tx \<in> set ts"
    and "\<forall>tx'. (tx_hash C tx, tx') \<in> set (mempool S) \<longrightarrow> tx' = tx"
  shows "admissible (accounts S) tx"
proof (cases "map_of (mempool S) (tx_hash C tx)")
  case None
  then show ?thesis by (rule validated_admissible [OF _ validate_txs_True [OF assms(2,3)]])
next
  case (Some tx')
  then have "(tx_hash C tx, tx') \<in> set (mempool S)" by (rule map_of_SomeD)
  with assms(1,4) show ?thesis by (auto simp: pool_ok_def)
qed

lemma transfer_block_runs:
  fixes S :: "'s State"
  assumes pool: "pool_ok C S" and v: "validateNextBlock C S b = Inr True"
    and "accounts_ok (accounts S)" and "ledger_total (accounts S) < 2 ^ 256"
    and "distinct (map tx_from (txs b))" and "\<forall>tx\<in>set (txs b). \<not> isContractCall S tx"
    and "\<forall>tx\<in>set (txs b). \<forall>tx'. (tx_hash C tx, tx') \<in> set (mempool S) \<longrightarrow> tx' = tx"
  shows "\<exists>S'. processNextBlock R C depth b S = (S', Inr ()) \<and> accounts_ok (accounts S')
    \<and> ledger_total (accounts S') + (\<Sum>tx\<leftarrow>txs b. tx_fee tx) = ledger_total (accounts S)
    \<and> (\<forall>a. ledger (accounts S') a + spent a (txs b) = ledger (accounts S) a + received a (txs b))
    \<and> (\<forall>a. acc_nonce (account_or_new (accounts S') a) = acc_nonce (account_or_new (accounts S) a) + (if a \<in> tx_from ` set (txs b) then 1 else 0))"
proof -
  note n = validateNextBlock_True [OF v]
  have "\<forall>tx\<in>set (txs b). admissible (accounts S) tx \<and> \<not> isContractCall S tx"
    using validated_block_admissible [OF pool n(4)] assms(6,7) by blast
  from transfers_run [OF assms(3-5) this, of R C depth] obtain accs where
    run: "forS (processTransaction R C depth) (txs b) S = (S\<lparr>accounts := accs\<rparr>, Inr ())"
    and l: "accounts_ok accs" "ledger_total accs + (\<Sum>tx\<leftarrow>txs b. tx_fee tx) = ledger_total (accounts S)"
      "\<forall>a. ledger accs a + spent a (txs b) = ledger (accounts S) a + received a (txs b)"
      "\<forall>a. acc_nonce (account_or_new accs a) = acc_nonce (account_or_new (accounts S) a) + (if a \<in> tx_from ` set (txs b) then 1 else 0)"
    by blast
  have "finalized b" using n(3) by (auto simp: validateBlock_def split: if_splits)
  from processBlock_finalized [OF this, of C "rdpos S"] obtain rd seed where rd: "processBlock C (rdpos S) b = Inr (rd, seed)" by blast
  define S2 where "S2 = S\<lparr>accounts := accs, rdpos := rd, mempool := filter (\<lambda>(h, tx). h \<notin> tx_hash C ` set (txs b)
      \<and> admissible accs tx) (mempool S)\<rparr>"
  have refresh: "refreshMempool C b (S\<lparr>accounts := accs, rdpos := rd\<rparr>) = (S2, Inr ())"
    using refreshMempool_eq [of C "S\<lparr>accounts := accs, rdpos := rd\<rparr>" b] pool_ok_keyed [OF pool]
    by (simp add: S2_def pool_keyed_def)
  obtain st where "pushBack C (storage S) b = Inr st" using pushBack_linked [OF n(1,2)] by blast
  then have "processNextBlock R C depth b S = (S2\<lparr>storage := st\<rparr>, Inr ())"
    using v run rd refresh by (simp add: processNextBlock_def bindS_Inr S2_def)
  with l show ?thesis by (intro exI [of _ "S2\<lparr>storage := st\<rparr>"]) (simp add: S2_def)
qed

text \<open>C9. A valid block of plain transfers by different senders is always processed, whatever its order: every
  balance changes by exactly what its owner spends and receives in the block, the nonce of every sender
  goes up by one and no other, and the sum of all balances goes down by exactly the fees.\<close>

theorem transfer_block_processed:
  assumes "pool_ok C S" and "validateNextBlock C S b = Inr True"
    and "accounts_ok (accounts S)" and "ledger_total (accounts S) < 2 ^ 256"
    and "distinct (map tx_from (txs b))" and "\<forall>tx\<in>set (txs b). \<not> isContractCall S tx"
    and "\<forall>tx\<in>set (txs b). \<forall>tx'. (tx_hash C tx, tx') \<in> set (mempool S) \<longrightarrow> tx' = tx"
  shows "\<exists>S'. processNextBlock R C depth b S = (S', Inr ()) \<and> accounts_ok (accounts S')
    \<and> ledger_total (accounts S') + (\<Sum>tx\<leftarrow>txs b. tx_fee tx) = ledger_total (accounts S)
    \<and> (\<forall>a. ledger (accounts S') a + spent a (txs b) = ledger (accounts S) a + received a (txs b))
    \<and> (\<forall>a. acc_nonce (account_or_new (accounts S') a) = acc_nonce (account_or_new (accounts S) a) + (if a \<in> tx_from ` set (txs b) then 1 else 0))"
  using assms by (rule transfer_block_runs)

text \<open>C8. The node invariant survives transactions and validator transactions that arrive, gas estimates, the faucet and blocks, processed or thrown halfway, in any order:
  the chain is linked and only grows at its end, the indices agree with it, every mempool transaction is stored under its hash, the random list is a permutation of the
  validators, and the at most eight validator transactions are for the next height and from the validators of the round. Every mempool transaction could
  be executed at once, unless a block threw and none has been processed since.\<close>

theorem node_invariant:
  assumes "node_reach R C depth S0 S clean" and "node_inv C S0"
  shows "node_safe C S \<and> (clean \<longrightarrow> node_inv C S) \<and> (\<exists>new. st_chain (storage S) = st_chain (storage S0) @ new)
    \<and> length (validatorMempool (rdpos S)) \<le> 8"
proof -
  have i: "node_safe C S" "clean \<longrightarrow> pool_ok C S" "\<exists>new. st_chain (storage S) = st_chain (storage S0) @ new"
    using node_reach_step [OF assms] by blast+
  then have "length (validatorMempool (rdpos S)) \<le> 8" using mempool_size unfolding node_safe_def by blast
  with i show ?thesis by (simp add: node_inv_iff)
qed

subsection \<open>A node with one block\<close>

definition node_rd :: rdPoS where
  "node_rd = round_rd\<lparr>validators := randomList round_rd\<rparr>"

definition node_block :: Block where
  "node_block = round_block\<lparr>prevBlockHash := Block_hash echo_crypto first_block, txs := [demo_pay (replicate 20 2)]\<rparr>"

definition node_state :: "(bytes \<times> bytes) list State" where
  "node_state = demo_state\<lparr>rdpos := node_rd, storage := index_block echo_crypto first_block (Storage_empty\<lparr>st_chain := [first_block]\<rparr>)\<rparr>"

lemma node_state_simps:
  "mempool node_state = []" "accounts node_state = accounts demo_state" "st_chain (storage node_state) = [first_block]"
  "rdpos node_state = node_rd" "manager node_state = demo_manager" "txs node_block = [demo_pay (replicate 20 2)]"
  by (simp_all add: node_state_def demo_state_def index_block_def node_block_def)

lemma node_state_inv: "node_inv echo_crypto node_state"
proof -
  have "storage_inv echo_crypto (storage node_state)"
    by (rule pushBack_inv [OF storage_inv_empty, of _ first_block])
      (simp_all add: pushBack_def node_state_def Storage_empty_def first_block_members)
  moreover have "mempool_ok echo_crypto h node_rd" for h by (simp add: mempool_ok_def from_sender_def node_rd_def round_rd_def)
  ultimately show ?thesis
    by (simp add: node_inv_def node_state_simps pool_ok_def) (simp add: node_rd_def round_rd_def)
qed

lemma node_block_valid: "validateNextBlock echo_crypto node_state node_block = Inr True"
proof -
  have "block_valid echo_crypto node_rd node_block"
    using round_valid by (simp add: block_valid_def node_rd_def node_block_def)
  moreover have "5 \<le> length (randomList node_rd)" by (simp add: node_rd_def round_rd_def)
  ultimately have b: "validateBlock echo_crypto node_rd node_block = Inr True" using validateBlock_eq [of node_rd echo_crypto node_block] by simp
  have "validateTransactionInternal echo_crypto node_state (demo_pay (replicate 20 2)) = Inr NotInvalid"
    using demo_pay_simps(3) [of echo_crypto "replicate 20 2"]
    by (simp add: validateTransactionInternal_def node_state_simps demo_pay_simps(4) [unfolded demo_state_def] demo_state_def)
  moreover have "nHeight node_block = nHeight first_block + 1" "prevBlockHash node_block = Block_hash echo_crypto first_block"
    "\<not> timestamp first_block > timestamp node_block"
    by (simp_all add: node_block_def round_members first_block_members) (simp add: round_block_def demo_block_def first_block_def)
  ultimately show ?thesis using b by (simp add: validateNextBlock_def latest_def node_state_simps)
qed

lemma echo_header_height:
  assumes "Block_hash echo_crypto a = Block_hash echo_crypto b"
  shows "nHeight a = nHeight b"
proof -
  have m: "unat (of_nat (be_nat (serializeHeader c)) :: uint256) mod 2 ^ 64 = unat (nHeight c)" for c
  proof -
    obtain pre where "serializeHeader c = pre @ uint64ToBytes (nHeight c)" by (simp add: serializeHeader_def flip: append_assoc)
    then have "be_nat (serializeHeader c) = be_nat pre * 2 ^ 64 + unat (nHeight c)"
      using uint64_lt [of "nHeight c"] by (simp add: be_nat_append uint64ToBytes_def rev_mem_of be_nat_be_bytes)
    then have "be_nat (serializeHeader c) mod 2 ^ 64 = unat (nHeight c)" using uint64_lt [of "nHeight c"] by simp
    then show ?thesis by (simp add: unat_of_nat mod_mod_cancel)
  qed
  from assms have "(of_nat (be_nat (serializeHeader a)) :: uint256) = of_nat (be_nat (serializeHeader b))"
    by (simp add: Block_hash_def sha3_def echo_crypto_def codec256.enc_inject)
  with m [of a] m [of b] show ?thesis by (simp add: word_eq_iff_unsigned [where ?'a = nat])
qed

lemma node_transfers:
  "\<forall>tx\<in>set (txs node_block). \<not> isContractCall node_state tx"
  "\<forall>tx\<in>set (txs node_block). \<forall>tx'. (tx_hash C tx, tx') \<in> set (mempool node_state) \<longrightarrow> tx' = tx"
  "accounts_ok (accounts node_state)" "ledger_total (accounts node_state) < 2 ^ 256" "distinct (map tx_from (txs node_block))"
  "pool_ok echo_crypto node_state"
  by (simp_all add: node_state_simps isContractCall_def contract_at_def demo_manager_simps demo_pay_simps pool_ok_def)
    (simp add: demo_pay_def ProtocolContractAddresses_def manager_address_def rdPoS_address_def replicate_eq_replicate numeral_eq_Suc)

theorem transfer_block_processed_witness:
  "\<exists>S'. processNextBlock alist_rocks echo_crypto 2 node_block node_state = (S', Inr ())
     \<and> ledger_total (accounts S') = 990 \<and> ledger (accounts S') (replicate 20 2) = 100"
proof -
  obtain S' where p: "processNextBlock alist_rocks echo_crypto 2 node_block node_state = (S', Inr ())"
    and t: "ledger_total (accounts S') + (\<Sum>tx\<leftarrow>txs node_block. tx_fee tx) = ledger_total (accounts node_state)"
    and l: "\<forall>a. ledger (accounts S') a + spent a (txs node_block) = ledger (accounts node_state) a + received a (txs node_block)"
    using transfer_block_processed [OF node_transfers(6) node_block_valid node_transfers(3-5) node_transfers(1,2), of alist_rocks 2] by blast
  have "ledger_total (accounts S') = 990"
    using t by (simp add: node_state_simps demo_pay_simps) (simp add: demo_pay_def tx_fee_def)
  moreover have "ledger (accounts S') (replicate 20 2) = 100"
    using l [rule_format, of "replicate 20 2"]
    by (simp add: node_state_simps demo_pay_simps) (simp add: demo_pay_def spent_def received_def replicate_eq_replicate)
  ultimately show ?thesis using p by blast
qed

theorem processNextBlock_extends_witness:
  "\<exists>S'. processNextBlock alist_rocks echo_crypto 2 node_block node_state = (S', Inr ())
     \<and> st_chain (storage S') = [first_block, node_block] \<and> mempool S' = []"
proof -
  obtain S' where p: "processNextBlock alist_rocks echo_crypto 2 node_block node_state = (S', Inr ())"
    using transfer_block_runs [OF node_transfers(6) node_block_valid node_transfers(3-5) node_transfers(1,2), of alist_rocks 2] by blast
  with processNextBlock_extends [OF node_transfers(6) p] show ?thesis by (simp add: node_state_simps)
qed

theorem node_invariant_witness:
  "\<exists>S S'. node_reach alist_rocks echo_crypto 2 node_state S True \<and> node_inv echo_crypto S \<and> length (validatorMempool (rdpos S)) \<le> 8
     \<and> st_chain (storage S) \<noteq> st_chain (storage node_state)
     \<and> node_reach alist_rocks echo_crypto 2 node_state S' False \<and> node_safe echo_crypto S'"
proof -
  obtain S where p: "processNextBlock alist_rocks echo_crypto 2 node_block node_state = (S, Inr ())"
    using transfer_block_runs [OF node_transfers(6) node_block_valid node_transfers(3-5) node_transfers(1,2), of alist_rocks 2] by blast
  have "nHeight node_block \<noteq> nHeight first_block" by (simp add: node_block_def round_members first_block_members)
  then have "Block_hash echo_crypto node_block \<noteq> Block_hash echo_crypto first_block" using echo_header_height by blast
  then have r: "node_reach alist_rocks echo_crypto 2 node_state S True"
    by (intro node_reach.block [OF node_reach.start p]) (simp_all add: node_state_simps)
  have ch: "st_chain (storage S) = [first_block, node_block]"
    using pushBack_chain [OF processNextBlock_effect(2) [OF pool_ok_keyed [OF node_transfers(6)] p]] by (simp add: node_state_simps)
  have "validateNextBlock echo_crypto S node_block = Inr False" by (simp add: validateNextBlock_def latest_def ch)
  then have "node_reach alist_rocks echo_crypto 2 node_state S False"
    by (intro node_reach.thrown_block [OF r, of node_block]) (simp add: processNextBlock_def)
  with r ch node_invariant [OF r node_state_inv] node_invariant [OF this node_state_inv] show ?thesis by (auto simp: node_state_simps)
qed

end
