(* ===== verification/P2p_Encoding.thy ===== *)
theory P2p_Encoding
  imports Blocks
begin

text \<open>
  The messages nodes exchange: \<^verbatim>\<open>src/net/p2p/p2pencoding.h\<close> and \<^verbatim>\<open>p2pencoding.cpp\<close>, with the hash of
  \<^verbatim>\<open>src/utils/safehash.h\<close> that identifies a broadcast. What the code takes from outside enters as an
  argument: the eight random bytes of a request, the clock, the version of the node, and
  \<^verbatim>\<open>boost::asio::ip::address::from_string\<close>. An \<^verbatim>\<open>unordered_map\<close> that an encoder goes through is the list of its
  entries in the order of the iteration.
\<close>

subsection \<open>Types and commands\<close>

datatype ConnectionType = SERVER | CLIENT

datatype NodeType = NORMAL_NODE | DISCOVERY_NODE

text \<open>The range of an enumeration is that of the smallest bit field that holds its enumerators, so one value
  beyond them is a value of the type: three for \<^verbatim>\<open>RequestType\<close>, seven for \<^verbatim>\<open>CommandType\<close>.\<close>

datatype RequestType = Requesting | Answering | Broadcasting | RequestType3

datatype CommandType = Ping | Info | RequestNodes | RequestValidatorTxs | BroadcastValidatorTx | BroadcastTx
  | BroadcastBlock | CommandType7

definition requestTypes :: "RequestType list" where
  "requestTypes = [Requesting, Answering, Broadcasting, RequestType3]"

definition commandTypes :: "CommandType list" where
  "commandTypes = [Ping, Info, RequestNodes, RequestValidatorTxs, BroadcastValidatorTx, BroadcastTx, BroadcastBlock, CommandType7]"

fun request_index :: "RequestType \<Rightarrow> nat" where
  "request_index Requesting = 0"
| "request_index Answering = 1"
| "request_index Broadcasting = 2"
| "request_index RequestType3 = 3"

fun command_index :: "CommandType \<Rightarrow> nat" where
  "command_index Ping = 0"
| "command_index Info = 1"
| "command_index RequestNodes = 2"
| "command_index RequestValidatorTxs = 3"
| "command_index BroadcastValidatorTx = 4"
| "command_index BroadcastTx = 5"
| "command_index BroadcastBlock = 6"
| "command_index CommandType7 = 7"

definition typePrefixes :: "bytes list" where
  "typePrefixes = [[0], [1], [2]]"

definition commandPrefixes :: "bytes list" where
  "commandPrefixes = [[0, 0], [0, 1], [0, 2], [0, 3], [0, 4], [0, 5], [0, 6]]"

definition getCommandType :: "bytes \<Rightarrow> CommandType result" where
  "getCommandType message =
     (if length message \<noteq> 2 then Inl (RuntimeError (''Invalid Command Type size.'' @ dec_string (length message)))
      else bindE (bytesToUint16 message) (\<lambda>commandType.
      if unat commandType > length commandPrefixes then Inl (RuntimeError ''Invalid command type.'')
      else Inr (commandTypes ! unat commandType)))"

definition getCommandPrefix :: "CommandType \<Rightarrow> bytes result" where
  "getCommandPrefix c = view_at commandPrefixes (command_index c)"

definition getRequestType :: "bytes \<Rightarrow> RequestType result" where
  "getRequestType message =
     (if length message \<noteq> 1 then Inl (RuntimeError (''Invalid Request Type size. '' @ dec_string (length message)))
      else bindE (bytesToUint8 message) (\<lambda>requestType.
      if unat requestType > length typePrefixes then Inl (RuntimeError ''Invalid request type.'')
      else Inr (requestTypes ! unat requestType)))"

definition getRequestTypePrefix :: "RequestType \<Rightarrow> bytes result" where
  "getRequestTypePrefix t = view_at typePrefixes (request_index t)"

subsection \<open>Request identifiers and the broadcast hash\<close>

definition RequestID_uint64 :: "uint64 \<Rightarrow> bytes" where
  "RequestID_uint64 n = uint64ToBytes n"

definition RequestID_toUint64 :: "bytes \<Rightarrow> uint64 result" where
  "RequestID_toUint64 i = bytesToUint64 i"

definition FNVHash :: "bytes \<Rightarrow> uint64" where
  "FNVHash s = foldl (\<lambda>res b. (16777619 * res) XOR ucast b) 2166136261 s"

definition splitmix :: "uint64 \<Rightarrow> uint64" where
  "splitmix i0 =
     (let i = i0 + 0x9e3779b97f4a7c15;
          i = (i XOR drop_bit 30 i) * 0xbf58476d1ce4e5b9;
          i = (i XOR drop_bit 27 i) * 0x94d049bb133111eb
      in i XOR drop_bit 31 i)"

subsection \<open>Messages\<close>

record Message =
  rawMessage :: bytes

definition Message_new :: "bytes \<Rightarrow> Message result" where
  "Message_new s = (if length s < 11 then Inl (RuntimeError ''Invalid message size.'') else Inr \<lparr>rawMessage = s\<rparr>)"

definition Message_type :: "Message \<Rightarrow> RequestType result" where
  "Message_type m = bindE (substr (rawMessage m) 0 1) getRequestType"

definition Message_id :: "Message \<Rightarrow> bytes result" where
  "Message_id m = bindE (substr (rawMessage m) 1 8) (\<lambda>s. Inr (FixedStr 8 s))"

definition Message_command :: "Message \<Rightarrow> CommandType result" where
  "Message_command m = bindE (substr (rawMessage m) 9 2) getCommandType"

definition Message_message :: "Message \<Rightarrow> bytes result" where
  "Message_message m = substr (rawMessage m) 11 (length (rawMessage m))"

definition Message_size :: "Message \<Rightarrow> nat" where
  "Message_size m = length (rawMessage m)"

record NodeInfo =
  nodeVersion :: uint64
  currentTimestamp :: uint64
  latestBlockHeight :: uint64
  latestBlockHash :: bytes

definition NodeInfo_default :: NodeInfo where
  "NodeInfo_default = \<lparr>nodeVersion = 0, currentTimestamp = 0, latestBlockHeight = 0, latestBlockHash = FixedStr 32 []\<rparr>"

text \<open>The concatenation all encoders build: type, identifier, command, data.\<close>

definition encode_message :: "RequestType \<Rightarrow> bytes \<Rightarrow> CommandType \<Rightarrow> bytes \<Rightarrow> Message result" where
  "encode_message t i c dat =
     bindE (getRequestTypePrefix t) (\<lambda>tp. bindE (getCommandPrefix c) (\<lambda>cp. Message_new (tp @ i @ cp @ dat)))"

definition info_data :: "Block \<Rightarrow> crypto \<Rightarrow> uint64 \<Rightarrow> uint64 \<Rightarrow> bytes" where
  "info_data b C version currentEpoch =
     uint64ToBytes version @ uint64ToBytes currentEpoch @ uint64ToBytes (nHeight b) @ Block_hash C b"

subsection \<open>Requests\<close>

definition RequestEncoder_ping :: "bytes \<Rightarrow> Message result" where
  "RequestEncoder_ping rnd = encode_message Requesting rnd Ping []"

definition RequestEncoder_info :: "crypto \<Rightarrow> bytes \<Rightarrow> Block \<Rightarrow> uint64 \<Rightarrow> uint64 \<Rightarrow> Message result" where
  "RequestEncoder_info C rnd latestBlock version currentEpoch =
     encode_message Requesting rnd Info (info_data latestBlock C version currentEpoch)"

definition RequestEncoder_requestNodes :: "bytes \<Rightarrow> Message result" where
  "RequestEncoder_requestNodes rnd = encode_message Requesting rnd RequestNodes []"

definition RequestEncoder_requestValidatorTxs :: "bytes \<Rightarrow> Message result" where
  "RequestEncoder_requestValidatorTxs rnd = encode_message Requesting rnd RequestValidatorTxs []"

text \<open>The three requests without data are checked alike.\<close>

definition is_bare_request :: "CommandType \<Rightarrow> Message \<Rightarrow> bool result" where
  "is_bare_request c m =
     (if Message_size m \<noteq> 11 then Inr False
      else bindE (Message_command m) (\<lambda>command. Inr (command = c)))"

definition RequestDecoder_ping :: "Message \<Rightarrow> bool result" where
  "RequestDecoder_ping m = is_bare_request Ping m"

definition read_info :: "bytes \<Rightarrow> NodeInfo result" where
  "read_info dat =
     bindE (bindE (substr dat 0 8) bytesToUint64) (\<lambda>version.
     bindE (bindE (substr dat 8 8) bytesToUint64) (\<lambda>epoch.
     bindE (bindE (substr dat 16 8) bytesToUint64) (\<lambda>height.
     bindE (bindE (substr dat 24 32) Hash_view) (\<lambda>hash.
     Inr \<lparr>nodeVersion = version, currentTimestamp = epoch, latestBlockHeight = height, latestBlockHash = hash\<rparr>))))"

definition RequestDecoder_info :: "Message \<Rightarrow> NodeInfo result" where
  "RequestDecoder_info m =
     (if Message_size m \<noteq> 67 then Inl (RuntimeError ''Invalid Info message size.'')
      else bindE (Message_command m) (\<lambda>command.
      if command \<noteq> Info then Inl (RuntimeError ''Invalid Info message command.'')
      else bindE (Message_message m) read_info))"

definition RequestDecoder_requestNodes :: "Message \<Rightarrow> bool result" where
  "RequestDecoder_requestNodes m = is_bare_request RequestNodes m"

definition RequestDecoder_requestValidatorTxs :: "Message \<Rightarrow> bool result" where
  "RequestDecoder_requestValidatorTxs m = is_bare_request RequestValidatorTxs m"

subsection \<open>Answers\<close>

datatype address = V4 bytes | V6 bytes

type_synonym node_entry = "NodeType \<times> address \<times> uint16"

definition AnswerEncoder_ping :: "Message \<Rightarrow> Message result" where
  "AnswerEncoder_ping request = bindE (Message_id request) (\<lambda>i. encode_message Answering i Ping [])"

definition AnswerEncoder_info :: "crypto \<Rightarrow> Message \<Rightarrow> Block \<Rightarrow> uint64 \<Rightarrow> uint64 \<Rightarrow> Message result" where
  "AnswerEncoder_info C request latestBlock version currentEpoch =
     bindE (Message_id request) (\<lambda>i. encode_message Answering i Info (info_data latestBlock C version currentEpoch))"

fun node_type_byte :: "NodeType \<Rightarrow> uint8" where
  "node_type_byte NORMAL_NODE = 0"
| "node_type_byte DISCOVERY_NODE = 1"

fun node_bytes :: "bytes \<times> node_entry \<Rightarrow> bytes" where
  "node_bytes (nodeId, nodeType, addr, port) =
     uint8ToBytes (node_type_byte nodeType) @ nodeId
     @ (case addr of V4 a \<Rightarrow> uint8ToBytes 0 @ a | V6 a \<Rightarrow> uint8ToBytes 1 @ a) @ uint16ToBytes port"

definition AnswerEncoder_requestNodes :: "Message \<Rightarrow> (bytes \<times> node_entry) list \<Rightarrow> Message result" where
  "AnswerEncoder_requestNodes request nodes =
     bindE (Message_id request) (\<lambda>i. encode_message Answering i RequestNodes (concat (map node_bytes nodes)))"

definition AnswerEncoder_requestValidatorTxs :: "Message \<Rightarrow> (bytes \<times> TxValidator) list \<Rightarrow> Message result" where
  "AnswerEncoder_requestValidatorTxs request pool =
     bindE (Message_id request) (\<lambda>i. encode_message Answering i RequestValidatorTxs
       (sized_items (map (\<lambda>(_, tx). TxValidator_rlpSerialize tx True) pool)))"

definition AnswerDecoder_ping :: "Message \<Rightarrow> bool result" where
  "AnswerDecoder_ping m =
     (if Message_size m \<noteq> 11 then Inr False
      else bindE (Message_type m) (\<lambda>t. if t \<noteq> Answering then Inr False
      else bindE (Message_command m) (\<lambda>c. Inr (c = Ping))))"

text \<open>The two checks every other decoder of an answer begins with.\<close>

definition expect_answer :: "CommandType \<Rightarrow> Message \<Rightarrow> bytes result" where
  "expect_answer c m =
     bindE (Message_type m) (\<lambda>t. if t \<noteq> Answering then Inl (RuntimeError ''Invalid message type.'')
     else bindE (Message_command m) (\<lambda>command. if command \<noteq> c then Inl (RuntimeError ''Invalid command.'')
     else Message_message m))"

definition AnswerDecoder_info :: "Message \<Rightarrow> NodeInfo result" where
  "AnswerDecoder_info m = bindE (expect_answer Info m) read_info"

text \<open>\<^verbatim>\<open>static_cast\<close> of a number outside the range of \<^verbatim>\<open>NodeType\<close> is undefined.\<close>

definition cast_NodeType :: "uint8 \<Rightarrow> NodeType result" where
  "cast_NodeType b = (if b = 0 then Inr NORMAL_NODE else if b = 1 then Inr DISCOVERY_NODE else Inl UndefinedBehaviour)"

text \<open>The decimal values of the bytes, each followed by the separator, without the last separator. Removing
  the last character of an empty string is undefined.\<close>

definition pop_back :: "string \<Rightarrow> string result" where
  "pop_back s = (if s = [] then Inl UndefinedBehaviour else Inr (butlast s))"

definition print_address :: "char \<Rightarrow> bytes \<Rightarrow> string result" where
  "print_address separator ipBytes = pop_back (concat (map (\<lambda>b. dec_string (unat b) @ [separator]) ipBytes))"

definition decode_node :: "(string \<Rightarrow> address result) \<Rightarrow> bytes \<Rightarrow> nat \<Rightarrow> ((bytes \<times> node_entry) \<times> nat) result" where
  "decode_node from_string dat index =
     (if length dat < 40 then Inl (RuntimeError ''Invalid data size.'')
      else bindE (bindE (bindE (substr dat index 1) bytesToUint8) cast_NodeType) (\<lambda>nodeType.
      bindE (substr dat (index + 1) 32) (\<lambda>nodeId.
      bindE (bindE (substr dat (index + 33) 1) bytesToUint8) (\<lambda>ipVersion.
      if ipVersion \<noteq> 0 \<and> ipVersion \<noteq> 1 then Inl (RuntimeError ''Invalid ip version.'')
      else let size = (if ipVersion = 0 then 4 else 16); separator = (if ipVersion = 0 then CHR ''.'' else CHR '':'') in
      bindE (bindE (bindE (substr dat (index + 34) size) (print_address separator)) from_string) (\<lambda>addr.
      bindE (bindE (substr dat (index + 34 + size) 2) bytesToUint16) (\<lambda>port.
      Inr ((FixedStr 32 nodeId, nodeType, addr, port), index + 36 + size)))))))"

lemma bindE_fundef_cong [fundef_cong]:
  "r = r' \<Longrightarrow> (\<And>x. r' = Inr x \<Longrightarrow> f x = g x) \<Longrightarrow> bindE r f = bindE r' g"
  by (cases r') auto

lemma decode_node_advances: "decode_node from_string dat index = Inr (e, i) \<Longrightarrow> index < i"
  by (auto simp: decode_node_def Let_def split: if_splits)

function decode_nodes ::
  "(string \<Rightarrow> address result) \<Rightarrow> bytes \<Rightarrow> nat \<Rightarrow> (bytes \<rightharpoonup> node_entry) \<Rightarrow> (bytes \<rightharpoonup> node_entry) result" where
  "decode_nodes from_string dat index nodes =
     (if index < length dat
      then bindE (decode_node from_string dat index) (\<lambda>(e, i). decode_nodes from_string dat i (nodes(fst e \<mapsto> snd e)))
      else Inr nodes)"
  by auto
termination
  by (relation "measure (\<lambda>(f, dat, index, nodes). length dat - index)") (auto dest!: decode_node_advances)

declare decode_nodes.simps [simp del]

definition AnswerDecoder_requestNodes :: "(string \<Rightarrow> address result) \<Rightarrow> Message \<Rightarrow> (bytes \<rightharpoonup> node_entry) result" where
  "AnswerDecoder_requestNodes from_string m =
     bindE (expect_answer RequestNodes m) (\<lambda>dat. decode_nodes from_string dat 0 Map.empty)"

function decode_txs :: "(bytes \<Rightarrow> TxValidator result) \<Rightarrow> bytes \<Rightarrow> nat \<Rightarrow> TxValidator list result" where
  "decode_txs parse dat index =
     (if index < length dat
      then if length dat < 4 then Inl (RuntimeError ''Invalid data size.'')
      else bindE (item_size dat index) (\<lambda>txSize.
      if length dat < txSize then Inl (RuntimeError ''Invalid data size.'')
      else bindE (substr dat (index + 4) txSize) (\<lambda>txData.
      bindE (parse txData) (\<lambda>tx.
      bindE (decode_txs parse dat (index + 4 + txSize)) (\<lambda>rest. Inr (tx # rest)))))
      else Inr [])"
  by auto
termination by (relation "measure (\<lambda>(p, dat, index). length dat - index)") auto

declare decode_txs.simps [simp del]

definition AnswerDecoder_requestValidatorTxs :: "crypto \<Rightarrow> Message \<Rightarrow> uint64 \<Rightarrow> TxValidator list result" where
  "AnswerDecoder_requestValidatorTxs C m requiredChainId =
     bindE (expect_answer RequestValidatorTxs m) (\<lambda>dat. decode_txs (\<lambda>b. TxValidator_parse C b requiredChainId) dat 0)"

subsection \<open>Broadcasts\<close>

text \<open>A broadcast is identified by the hash of its data.\<close>

definition encode_broadcast :: "CommandType \<Rightarrow> bytes \<Rightarrow> Message result" where
  "encode_broadcast c dat = encode_message Broadcasting (uint64ToBytes (FNVHash dat)) c dat"

definition BroadcastEncoder_broadcastValidatorTx :: "TxValidator \<Rightarrow> Message result" where
  "BroadcastEncoder_broadcastValidatorTx tx = encode_broadcast BroadcastValidatorTx (TxValidator_rlpSerialize tx True)"

definition BroadcastEncoder_broadcastTx :: "TxBlock \<Rightarrow> Message result" where
  "BroadcastEncoder_broadcastTx tx = encode_broadcast BroadcastTx (TxBlock_rlpSerialize tx True)"

definition BroadcastEncoder_broadcastBlock :: "Block \<Rightarrow> Message result" where
  "BroadcastEncoder_broadcastBlock b = encode_broadcast BroadcastBlock (serializeBlock b)"

definition expect_broadcast :: "CommandType \<Rightarrow> Message \<Rightarrow> bytes result" where
  "expect_broadcast c m =
     bindE (Message_type m) (\<lambda>t. if t \<noteq> Broadcasting then Inl (RuntimeError ''Invalid message type.'')
     else bindE (bindE (Message_id m) RequestID_toUint64) (\<lambda>i.
     bindE (Message_message m) (\<lambda>dat.
     if i \<noteq> FNVHash dat then Inl (RuntimeError (if c = BroadcastBlock then ''Invalid message id. '' else ''Invalid message id.''))
     else bindE (Message_command m) (\<lambda>command. if command \<noteq> c then Inl (RuntimeError ''Invalid command.'')
     else Inr dat))))"

definition BroadcastDecoder_broadcastValidatorTx :: "crypto \<Rightarrow> Message \<Rightarrow> uint64 \<Rightarrow> TxValidator result" where
  "BroadcastDecoder_broadcastValidatorTx C m requiredChainId =
     bindE (expect_broadcast BroadcastValidatorTx m) (\<lambda>dat. TxValidator_parse C dat requiredChainId)"

definition BroadcastDecoder_broadcastTx :: "crypto \<Rightarrow> Message \<Rightarrow> uint64 \<Rightarrow> TxBlock result" where
  "BroadcastDecoder_broadcastTx C m requiredChainId =
     bindE (expect_broadcast BroadcastTx m) (\<lambda>dat. TxBlock_parse C dat requiredChainId)"

definition BroadcastDecoder_broadcastBlock :: "crypto \<Rightarrow> nat \<Rightarrow> Message \<Rightarrow> uint64 \<Rightarrow> Block result" where
  "BroadcastDecoder_broadcastBlock C thrNum m requiredChainId =
     bindE (expect_broadcast BroadcastBlock m) (\<lambda>dat. Block_parse C thrNum dat requiredChainId)"

subsection \<open>What an encoded message says\<close>

text \<open>A message that was built from its four parts.\<close>

definition message_of :: "Message \<Rightarrow> RequestType \<Rightarrow> bytes \<Rightarrow> CommandType \<Rightarrow> bytes \<Rightarrow> bool" where
  "message_of m t i c dat \<longleftrightarrow> Message_type m = Inr t \<and> Message_id m = Inr i \<and> Message_command m = Inr c
     \<and> Message_message m = Inr dat \<and> Message_size m = 11 + length dat"

lemma request_prefix:
  "t \<noteq> RequestType3 \<Longrightarrow> \<exists>p. getRequestTypePrefix t = Inr p \<and> length p = 1 \<and> getRequestType p = Inr t"
  by (cases t) (simp_all add: getRequestTypePrefix_def getRequestType_def typePrefixes_def requestTypes_def view_at_def bytesToUint8_def)

lemma bytesToUint16_low: "bytesToUint16 [0, w] = Inr (ucast w)"
proof -
  have lt: "unat w div 256 = 0" "unat w mod 65536 = unat w" using byte_unat_lt [of w] by (auto simp del: byte_unat_lt)
  then have "unat (ucast w :: uint16) = unat w" by (simp add: unat_ucast_mod)
  then have "uint16ToBytes (ucast w) = [0, w]" using lt(1) by (simp add: uint16ToBytes_def mem_of_def numeral_2_eq_2)
  then show ?thesis using codec16.dec_Inr_iff by metis
qed

lemma command_prefix:
  "c \<noteq> CommandType7 \<Longrightarrow> \<exists>p. getCommandPrefix c = Inr p \<and> length p = 2 \<and> getCommandType p = Inr c"
  by (cases c) (simp_all add: getCommandPrefix_def getCommandType_def commandPrefixes_def commandTypes_def view_at_def bytesToUint16_low)

lemma encode_message_ok:
  assumes "length i = 8" and "t \<noteq> RequestType3" and "c \<noteq> CommandType7"
  obtains m where "encode_message t i c dat = Inr m" and "message_of m t i c dat"
proof -
  obtain tp where t: "getRequestTypePrefix t = Inr tp" "length tp = 1" "getRequestType tp = Inr t" using request_prefix [OF assms(2)] by blast
  obtain cp where c: "getCommandPrefix c = Inr cp" "length cp = 2" "getCommandType cp = Inr c" using command_prefix [OF assms(3)] by blast
  define m where "m = \<lparr>rawMessage = tp @ i @ cp @ dat\<rparr>"
  have "substr (rawMessage m) 0 1 = Inr tp" "substr (rawMessage m) 1 8 = Inr i" "substr (rawMessage m) 9 2 = Inr cp"
    "substr (rawMessage m) 11 (length (rawMessage m)) = Inr dat" "length (rawMessage m) = 11 + length dat"
    using t(2) c(2) assms(1) by (simp_all add: substr_def m_def)
  then have "message_of m t i c dat"
    using t(3) c(3) assms(1)
    by (simp add: message_of_def Message_type_def Message_id_def Message_command_def Message_message_def Message_size_def FixedStr_id
        del: One_nat_def)
  moreover have "length (tp @ i @ cp @ dat) = 11 + length dat" using t(2) c(2) assms(1) by simp
  then have "encode_message t i c dat = Inr m" using t c by (simp add: encode_message_def Message_new_def m_def del: length_append)
  ultimately show thesis using that by blast
qed

lemma expect_answer_ok: "message_of m Answering i c dat \<Longrightarrow> expect_answer c m = Inr dat"
  by (simp add: expect_answer_def message_of_def)

lemma encode_broadcast_ok:
  assumes "c \<noteq> CommandType7"
  obtains m where "encode_broadcast c dat = Inr m" and "message_of m Broadcasting (uint64ToBytes (FNVHash dat)) c dat"
    and "expect_broadcast c m = Inr dat"
proof -
  obtain m where m: "encode_broadcast c dat = Inr m" "message_of m Broadcasting (uint64ToBytes (FNVHash dat)) c dat"
    using encode_message_ok [of "uint64ToBytes (FNVHash dat)" Broadcasting c dat] assms by (auto simp: encode_broadcast_def)
  then have "expect_broadcast c m = Inr dat" by (simp add: expect_broadcast_def message_of_def RequestID_toUint64_def)
  with m show thesis using that by blast
qed

lemma read_info_data: "read_info (info_data b C version currentEpoch) =
    Inr \<lparr>nodeVersion = version, currentTimestamp = currentEpoch, latestBlockHeight = nHeight b, latestBlockHash = Block_hash C b\<rparr>"
proof -
  let ?d = "info_data b C version currentEpoch"
  have "substr ?d 0 8 = Inr (uint64ToBytes version)" "substr ?d 8 8 = Inr (uint64ToBytes currentEpoch)"
    "substr ?d 16 8 = Inr (uint64ToBytes (nHeight b))" "substr ?d 24 32 = Inr (Block_hash C b)"
    by (simp_all add: info_data_def substr_def Block_hash_def)
  then show ?thesis by (simp add: read_info_def Hash_view_def Block_hash_def)
qed

subsection \<open>Lists of nodes\<close>

text \<open>The text of an address as the decoder prints it, and what \<^verbatim>\<open>from_string\<close> is documented to do with dotted
  decimals.\<close>

definition dotted :: "bytes \<Rightarrow> string" where
  "dotted a = butlast (concat (map (\<lambda>b. dec_string (unat b) @ ''.'') a))"

definition reads_dotted :: "(string \<Rightarrow> address result) \<Rightarrow> bool" where
  "reads_dotted from_string \<longleftrightarrow> (\<forall>a. length a = 4 \<longrightarrow> from_string (dotted a) = Inr (V4 a))"

definition v4_entry :: "bytes \<times> node_entry \<Rightarrow> bool" where
  "v4_entry e \<longleftrightarrow> length (fst e) = 32 \<and> (\<exists>a. fst (snd (snd e)) = V4 a \<and> length a = 4)"

lemma cast_node_type: "cast_NodeType (node_type_byte t) = Inr t"
  by (cases t) (simp_all add: cast_NodeType_def)

lemma decode_node_v4:
  assumes "reads_dotted from_string" and "v4_entry e" and "drop index dat = node_bytes e @ rest"
  shows "decode_node from_string dat index = Inr (e, index + 40)"
proof -
  obtain i t a p where e: "e = (i, t, V4 a, p)" and l: "length i = 32" "length a = 4"
    using assms(2) by (cases e) (auto simp: v4_entry_def)
  have d: "drop index dat = uint8ToBytes (node_type_byte t) @ i @ uint8ToBytes 0 @ a @ uint16ToBytes p @ rest"
    using assms(3) by (simp add: e)
  have "index \<le> length dat" using arg_cong [OF d, of length] l by simp
  have len: "length dat = index + 40 + length rest" using arg_cong [OF d, of length] l \<open>index \<le> length dat\<close> by simp
  have s: "substr dat (index + k) n = Inr (take n (drop k (drop index dat)))" if "k \<le> 40" for k n
    using that len by (simp add: substr_def add.commute)
  have "substr dat index 1 = Inr (uint8ToBytes (node_type_byte t))" "substr dat (index + 1) 32 = Inr i"
    "substr dat (index + 33) 1 = Inr (uint8ToBytes 0)" "substr dat (index + 34) 4 = Inr a" "substr dat (38 + index) 2 = Inr (uint16ToBytes p)"
    using s [of 0 1] s [of 1 32] s [of 33 1] s [of 34 4] s [of 38 2, unfolded add.commute [of index 38]] l unfolding d by simp_all
  moreover have "print_address CHR ''.'' a = Inr (dotted a)"
    using l by (cases a) (simp_all add: print_address_def pop_back_def dotted_def)
  moreover have "from_string (dotted a) = Inr (V4 a)" using assms(1) l by (simp add: reads_dotted_def)
  ultimately show ?thesis
    using l len by (simp add: decode_node_def Let_def cast_node_type e FixedStr_id)
qed

lemma length_v4_entry: "v4_entry e \<Longrightarrow> length (node_bytes e) = 40"
  by (cases e) (auto simp: v4_entry_def)

lemma decode_nodes_v4:
  assumes "reads_dotted from_string" and "\<forall>e\<in>set es. v4_entry e" and "drop index dat = concat (map node_bytes es)"
    and "index \<le> length dat"
  shows "decode_nodes from_string dat index nodes = Inr (nodes ++ map_of (rev es))"
  using assms(2-)
proof (induction es arbitrary: index nodes)
  case Nil
  then show ?case by (simp add: decode_nodes.simps [of _ dat index])
next
  case (Cons e es)
  have d: "drop index dat = node_bytes e @ concat (map node_bytes es)" using Cons.prems by simp
  have n: "decode_node from_string dat index = Inr (e, index + 40)"
    using Cons.prems by (intro decode_node_v4 [OF assms(1) _ d]) simp
  have l: "length (node_bytes e) = 40" using Cons.prems by (simp add: length_v4_entry)
  have lt: "index + 40 \<le> length dat" using arg_cong [OF d, of length] l Cons.prems(3) by simp
  have "drop (index + 40) dat = concat (map node_bytes es)"
    using arg_cong [OF d, of "drop 40"] l by (simp add: add.commute)
  then have "decode_nodes from_string dat (index + 40) (nodes(fst e \<mapsto> snd e)) = Inr (nodes(fst e \<mapsto> snd e) ++ map_of (rev es))"
    using Cons lt by simp
  then show ?case using lt n
    by (simp add: decode_nodes.simps [of _ dat index])
qed

subsection \<open>Lists of validator transactions\<close>

lemma decode_txs_sized:
  assumes "drop index dat = sized_items (map ser vs)" and "index \<le> length dat"
    and "\<forall>tx\<in>set vs. parse (ser tx) = Inr tx \<and> length (ser tx) < 2 ^ 32"
  shows "decode_txs parse dat index = Inr vs"
  using assms
proof (induction vs arbitrary: index)
  case Nil
  then show ?case by (simp add: decode_txs.simps [of _ dat index])
next
  case (Cons tx vs)
  let ?n = "length (ser tx)"
  have d: "drop index dat = uint32ToBytes (of_nat ?n) @ ser tx @ sized_items (map ser vs)" using Cons.prems(1) by simp
  have lt: "index + 4 + ?n \<le> length dat" using arg_cong [OF d, of length] Cons.prems(2) by simp
  have u: "unat (of_nat ?n :: uint32) = ?n" using Cons.prems(3) by (simp add: unat_of_nat)
  have i: "item_size dat index = Inr ?n" using d lt u by (simp add: item_size_def substr_def)
  have d4: "drop (index + 4) dat = ser tx @ sized_items (map ser vs)" using arg_cong [OF d, of "drop 4"] by (simp add: add.commute)
  then have s: "substr dat (index + 4) ?n = Inr (ser tx)" using lt by (simp add: substr_def)
  have "drop (index + 4 + ?n) dat = sized_items (map ser vs)" using arg_cong [OF d4, of "drop ?n"] by (simp add: add.commute)
  then have "decode_txs parse dat (index + 4 + ?n) = Inr vs" using Cons lt by simp
  then show ?case using lt i s Cons.prems(3) by (simp add: decode_txs.simps [of _ dat index])
qed

subsection \<open>Broadcasts arrive as they were sent\<close>

definition Block_transmissible :: "crypto \<Rightarrow> uint64 \<Rightarrow> Block \<Rightarrow> bool" where
  "Block_transmissible C cid b \<longleftrightarrow> Block_sizes b \<and> Block_txs_ok C cid b \<and> Block_roots_ok C b \<and> Block_sig_valid b \<and> finalized b
     \<and> validatorPubKey b = recover C (validatorSig b) (Block_hash C b)"

lemma Block_transmitted: "Block_transmissible C cid b \<Longrightarrow> Block_parse C thrNum (serializeBlock b) cid = Inr b"
  using Block_parse_serialized [of b C cid thrNum] Block_checks_ok [of C b]
  by (simp add: Block_transmissible_def rethrow_def)

lemma broadcast_tx_ok:
  assumes "TxBlock_serialisable tx" and "TxBlock_sender_ok C tx"
  shows "\<exists>m. BroadcastEncoder_broadcastTx tx = Inr m \<and> Message_type m = Inr Broadcasting
    \<and> BroadcastDecoder_broadcastTx C m cid = Inr tx"
proof -
  obtain m where "BroadcastEncoder_broadcastTx tx = Inr m" "message_of m Broadcasting (uint64ToBytes (FNVHash (TxBlock_rlpSerialize tx True))) BroadcastTx (TxBlock_rlpSerialize tx True)"
    "expect_broadcast BroadcastTx m = Inr (TxBlock_rlpSerialize tx True)"
    unfolding BroadcastEncoder_broadcastTx_def by (rule encode_broadcast_ok [of BroadcastTx]) simp
  then show ?thesis using TxBlock_roundtrip [OF assms] by (simp add: BroadcastDecoder_broadcastTx_def message_of_def)
qed

lemma broadcast_validator_ok:
  assumes "TxValidator_serialisable tx" and "TxValidator_sender_ok C tx"
  shows "\<exists>m. BroadcastEncoder_broadcastValidatorTx tx = Inr m \<and> Message_type m = Inr Broadcasting
    \<and> BroadcastDecoder_broadcastValidatorTx C m cid = Inr tx"
proof -
  let ?d = "TxValidator_rlpSerialize tx True"
  obtain m where "BroadcastEncoder_broadcastValidatorTx tx = Inr m" "message_of m Broadcasting (uint64ToBytes (FNVHash ?d)) BroadcastValidatorTx ?d"
    "expect_broadcast BroadcastValidatorTx m = Inr ?d"
    unfolding BroadcastEncoder_broadcastValidatorTx_def by (rule encode_broadcast_ok [of BroadcastValidatorTx]) simp
  then show ?thesis using TxValidator_roundtrip [OF assms] by (simp add: BroadcastDecoder_broadcastValidatorTx_def message_of_def)
qed

lemma broadcast_block_ok:
  assumes "Block_transmissible C cid b"
  obtains m where "BroadcastEncoder_broadcastBlock b = Inr m"
    and "message_of m Broadcasting (uint64ToBytes (FNVHash (serializeBlock b))) BroadcastBlock (serializeBlock b)"
    and "BroadcastDecoder_broadcastBlock C thrNum m cid = Inr b"
proof -
  obtain m where m: "BroadcastEncoder_broadcastBlock b = Inr m" "message_of m Broadcasting (uint64ToBytes (FNVHash (serializeBlock b))) BroadcastBlock (serializeBlock b)"
    "expect_broadcast BroadcastBlock m = Inr (serializeBlock b)"
    unfolding BroadcastEncoder_broadcastBlock_def by (rule encode_broadcast_ok [of BroadcastBlock]) simp
  then have "BroadcastDecoder_broadcastBlock C thrNum m cid = Inr b"
    using Block_transmitted [OF assms] by (simp add: BroadcastDecoder_broadcastBlock_def)
  with m show thesis using that by blast
qed

lemma Block_complete_transmissible: "Block_complete C b \<Longrightarrow> Block_transmissible C cid b"
  by (simp add: Block_complete_def Block_transmissible_def Block_members_txs_ok)

text \<open>C15. The broadcast messages of a transaction and of a validator transaction that can be serialised and carry their sender's signature, and of a finalized
  block with consistent header and such members, can be built, and the receiver's decoder returns exactly the transaction, validator transaction or block that was sent,
  whatever the number of threads it parses with.\<close>

theorem broadcasts_delivered:
  assumes "TxBlock_serialisable tx" and "TxBlock_sender_ok C tx"
    and "TxValidator_serialisable vtx" and "TxValidator_sender_ok C vtx" and "Block_complete C b"
  shows "(\<exists>m. BroadcastEncoder_broadcastTx tx = Inr m \<and> Message_type m = Inr Broadcasting
      \<and> BroadcastDecoder_broadcastTx C m cid = Inr tx)
    \<and> (\<exists>m. BroadcastEncoder_broadcastValidatorTx vtx = Inr m \<and> Message_type m = Inr Broadcasting
      \<and> BroadcastDecoder_broadcastValidatorTx C m cid = Inr vtx)
    \<and> (\<exists>m. BroadcastEncoder_broadcastBlock b = Inr m \<and> Message_type m = Inr Broadcasting
      \<and> BroadcastDecoder_broadcastBlock C thrNum m cid = Inr b)"
proof -
  obtain m where "BroadcastEncoder_broadcastBlock b = Inr m" "message_of m Broadcasting (uint64ToBytes (FNVHash (serializeBlock b))) BroadcastBlock (serializeBlock b)"
    "BroadcastDecoder_broadcastBlock C thrNum m cid = Inr b"
    by (rule broadcast_block_ok [OF Block_complete_transmissible [OF assms(5)]])
  then show ?thesis using broadcast_tx_ok [OF assms(1,2)] broadcast_validator_ok [OF assms(3,4)] by (simp add: message_of_def)
qed

theorem broadcasts_delivered_witness:
  "\<exists>m. BroadcastEncoder_broadcastBlock demo_block = Inr m \<and> BroadcastDecoder_broadcastBlock demo_crypto 8 m 8080 = Inr demo_block"
  using broadcasts_delivered [OF demo_tx_serialisable demo_sender_ok(1) demo_vtx_serialisable demo_sender_ok(2)
      demo_block_complete, of 8080 8] by blast

subsection \<open>Answers arrive as they were sent\<close>

lemma answer_id: "11 \<le> Message_size request \<Longrightarrow> \<exists>i. Message_id request = Inr i \<and> length i = 8"
  by (simp add: Message_id_def Message_size_def substr_def)

lemma answer_ok:
  assumes "length i = 8" and "c \<noteq> CommandType7"
  obtains m where "encode_message Answering i c dat = Inr m" and "message_of m Answering i c dat" and "expect_answer c m = Inr dat"
  by (rule encode_message_ok [OF assms(1) _ assms(2), of Answering dat]) (auto intro: that expect_answer_ok)

text \<open>C33. Every answer carries the identifier of the request, and the decoder of the asking node returns what
  the answering node put in: the node's version, clock, height and latest hash; the list of its
  IPv4 sessions; all transactions of its validator mempool.\<close>

theorem answers_delivered:
  assumes "11 \<le> Message_size request" and "Message_id request = Inr i"
    and "reads_dotted from_string" and "\<forall>e\<in>set nodes. v4_entry e" and "distinct (map fst nodes)"
    and "\<forall>(h, tx)\<in>set pool. TxValidator_serialisable tx \<and> TxValidator_sender_ok C tx \<and> length (TxValidator_rlpSerialize tx True) < 2 ^ 32"
  shows "(\<exists>m. AnswerEncoder_ping request = Inr m \<and> Message_id m = Inr i \<and> AnswerDecoder_ping m = Inr True)
    \<and> (\<exists>m. AnswerEncoder_info C request b version epoch = Inr m \<and> Message_id m = Inr i
      \<and> AnswerDecoder_info m = Inr \<lparr>nodeVersion = version, currentTimestamp = epoch, latestBlockHeight = nHeight b, latestBlockHash = Block_hash C b\<rparr>)
    \<and> (\<exists>m. AnswerEncoder_requestNodes request nodes = Inr m \<and> Message_id m = Inr i
      \<and> AnswerDecoder_requestNodes from_string m = Inr (map_of nodes))
    \<and> (\<exists>m. AnswerEncoder_requestValidatorTxs request pool = Inr m \<and> Message_id m = Inr i
      \<and> AnswerDecoder_requestValidatorTxs C m cid = Inr (map snd pool))"
proof (intro conjI)
  have i: "length i = 8" using answer_id [OF assms(1)] assms(2) by simp
  note ok = answer_ok [OF i]
  show "\<exists>m. AnswerEncoder_ping request = Inr m \<and> Message_id m = Inr i \<and> AnswerDecoder_ping m = Inr True"
    by (rule ok [of Ping "[]"]) (simp_all add: AnswerEncoder_ping_def AnswerDecoder_ping_def assms(2) message_of_def)
  show "\<exists>m. AnswerEncoder_info C request b version epoch = Inr m \<and> Message_id m = Inr i
      \<and> AnswerDecoder_info m = Inr \<lparr>nodeVersion = version, currentTimestamp = epoch, latestBlockHeight = nHeight b, latestBlockHash = Block_hash C b\<rparr>"
    by (rule ok [of Info "info_data b C version epoch"])
      (simp_all add: AnswerEncoder_info_def AnswerDecoder_info_def assms(2) message_of_def read_info_data)
  have n: "decode_nodes from_string (concat (map node_bytes nodes)) 0 Map.empty = Inr (map_of nodes)"
    using decode_nodes_v4 [OF assms(3,4), of 0] map_of_rev_distinct [OF assms(5)] by simp
  show "\<exists>m. AnswerEncoder_requestNodes request nodes = Inr m \<and> Message_id m = Inr i
      \<and> AnswerDecoder_requestNodes from_string m = Inr (map_of nodes)"
    by (rule ok [of RequestNodes "concat (map node_bytes nodes)"])
      (simp_all add: AnswerEncoder_requestNodes_def AnswerDecoder_requestNodes_def assms(2) message_of_def n)
  let ?ser = "\<lambda>tx. TxValidator_rlpSerialize tx True"
  have "\<forall>tx\<in>set (map snd pool). TxValidator_parse C (?ser tx) cid = Inr tx \<and> length (?ser tx) < 2 ^ 32"
    using assms(6) TxValidator_roundtrip by fastforce
  moreover define dat where "dat = sized_items (map ?ser (map snd pool))"
  ultimately have t: "decode_txs (\<lambda>b. TxValidator_parse C b cid) dat 0 = Inr (map snd pool)"
    unfolding dat_def by (intro decode_txs_sized) simp_all
  have p: "sized_items (map (\<lambda>(_, tx). ?ser tx) pool) = dat" by (simp add: dat_def case_prod_unfold comp_def)
  show "\<exists>m. AnswerEncoder_requestValidatorTxs request pool = Inr m \<and> Message_id m = Inr i
      \<and> AnswerDecoder_requestValidatorTxs C m cid = Inr (map snd pool)"
    by (rule ok [of RequestValidatorTxs dat])
      (simp_all add: AnswerEncoder_requestValidatorTxs_def AnswerDecoder_requestValidatorTxs_def assms(2) message_of_def p t)
qed

subsection \<open>A reader of dotted decimals\<close>

fun split_dots :: "string \<Rightarrow> string list" where
  "split_dots [] = [[]]"
| "split_dots (c # s) = (if c = CHR ''.'' then [] # split_dots s
     else (case split_dots s of [] \<Rightarrow> [[c]] | w # ws \<Rightarrow> (c # w) # ws))"

definition read_dec :: "string \<Rightarrow> nat" where
  "read_dec s = foldl (\<lambda>n c. n * 10 + (of_char c - 48)) 0 s"

definition read_v4 :: "string \<Rightarrow> address result" where
  "read_v4 s = (let ws = split_dots s in
     if length ws = 4 \<and> CHR '':'' \<notin> set s then Inr (V4 (map (\<lambda>w. of_nat (read_dec w)) ws)) else Inl (RuntimeError ''invalid address''))"

lemma dec_string_digits: "c \<in> set (dec_string n) \<Longrightarrow> \<exists>d<10. c = char_of (48 + d :: nat)"
proof (induction n rule: dec_string.induct)
  case (1 n)
  show ?case
  proof (cases "n < 10")
    case True
    then show ?thesis using "1.prems" by (auto simp: dec_string.simps [of n])
  next
    case False
    then have "c \<in> set (dec_string (n div 10)) \<or> c = char_of (48 + n mod 10)" using "1.prems" by (auto simp: dec_string.simps [of n])
    moreover have "n mod 10 < 10" by simp
    ultimately show ?thesis using "1.IH" [OF False] by blast
  qed
qed

lemma digit_char:
  assumes "d < 10"
  shows "char_of (48 + d :: nat) \<noteq> CHR ''.'' \<and> char_of (48 + d :: nat) \<noteq> CHR '':''"
proof -
  have "of_char (char_of (48 + d) :: char) = 48 + d" using assms by simp
  moreover have "of_char CHR ''.'' = (46 :: nat)" "of_char CHR '':'' = (58 :: nat)" by simp_all
  ultimately show ?thesis using assms by fastforce
qed

lemma dec_string_separators: "CHR ''.'' \<notin> set (dec_string n)" "CHR '':'' \<notin> set (dec_string n)"
  using dec_string_digits digit_char by metis+

lemma read_dec_string: "read_dec (dec_string n) = n"
proof (induction n rule: dec_string.induct)
  case (1 n)
  have "of_char (char_of (48 + d) :: char) = (48 + d :: nat)" if "d < 10" for d using that by simp
  then show ?case using "1.IH" by (cases "n < 10") (simp_all add: dec_string.simps [of n] read_dec_def)
qed

lemma split_dots_word: "CHR ''.'' \<notin> set w \<Longrightarrow> split_dots w = [w]"
  by (induction w) auto

lemma split_dots_app: "CHR ''.'' \<notin> set w \<Longrightarrow> split_dots (w @ CHR ''.'' # s) = w # split_dots s"
  by (induction w) auto

lemma read_v4_dotted: "reads_dotted read_v4"
  unfolding reads_dotted_def
proof (intro allI impI)
  fix a :: bytes
  assume "length a = 4"
  then obtain p q r s where a: "a = [p, q, r, s]" by (auto simp: numeral_eq_Suc length_Suc_conv)
  let ?d = "\<lambda>b :: byte. dec_string (unat b)"
  have d: "dotted a = ?d p @ CHR ''.'' # ?d q @ CHR ''.'' # ?d r @ CHR ''.'' # ?d s"
    by (simp add: dotted_def a butlast_append)
  show "read_v4 (dotted a) = Inr (V4 a)"
    unfolding d by (simp add: read_v4_def split_dots_app split_dots_word dec_string_separators read_dec_string a)
qed

definition demo_nodes :: "(bytes \<times> node_entry) list" where
  "demo_nodes = [(replicate 32 1, NORMAL_NODE, V4 [127, 0, 0, 1], 8080), (replicate 32 2, DISCOVERY_NODE, V4 [10, 0, 0, 7], 8081)]"

lemma demo_nodes_ok: "\<forall>e\<in>set demo_nodes. v4_entry e" "distinct (map fst demo_nodes)"
  by (simp_all add: demo_nodes_def v4_entry_def replicate_eq_replicate)

theorem answers_delivered_witness:
  "(\<exists>m. AnswerEncoder_requestNodes \<lparr>rawMessage = replicate 11 0\<rparr> demo_nodes = Inr m
     \<and> AnswerDecoder_requestNodes read_v4 m = Inr (map_of demo_nodes))
   \<and> (\<exists>m. AnswerEncoder_requestValidatorTxs \<lparr>rawMessage = replicate 11 0\<rparr> [([], demo_vtx (replicate 60 9) 1)] = Inr m
     \<and> AnswerDecoder_requestValidatorTxs demo_crypto m 8080 = Inr [demo_vtx (replicate 60 9) 1])"
proof -
  let ?r = "\<lparr>rawMessage = replicate 11 0\<rparr>" and ?pool = "[([] :: bytes, demo_vtx (replicate 60 9) 1)]"
  have "11 \<le> Message_size ?r" "Message_id ?r = Inr (replicate 8 0)"
    by (simp_all add: Message_size_def Message_id_def substr_def FixedStr_def)
  moreover have "\<forall>(h, tx)\<in>set ?pool. TxValidator_serialisable tx \<and> TxValidator_sender_ok demo_crypto tx
      \<and> length (TxValidator_rlpSerialize tx True) < 2 ^ 32"
    using demo_vtx_length demo_vtx_serialisable demo_sender_ok(2) by simp
  ultimately show ?thesis
    using answers_delivered [of ?r _ read_v4 demo_nodes ?pool demo_crypto demo_block 1 2 8080] read_v4_dotted demo_nodes_ok by auto
qed

subsection \<open>Addresses of version six\<close>

text \<open>A text address of either version has at most eight colons; \<^verbatim>\<open>from_string\<close> throws for anything longer.\<close>

definition rejects_long :: "(string \<Rightarrow> address result) \<Rightarrow> bool" where
  "rejects_long from_string \<longleftrightarrow> (\<forall>s. 8 < count_list s CHR '':'' \<longrightarrow> (\<exists>e. from_string s = Inl e))"

definition entry_ok :: "bytes \<times> node_entry \<Rightarrow> bool" where
  "entry_ok e \<longleftrightarrow> length (fst e) = 32 \<and> (case fst (snd (snd e)) of V4 a \<Rightarrow> length a = 4 | V6 a \<Rightarrow> length a = 16)"

definition is_v6 :: "bytes \<times> node_entry \<Rightarrow> bool" where
  "is_v6 e \<longleftrightarrow> (case fst (snd (snd e)) of V4 a \<Rightarrow> False | V6 a \<Rightarrow> True)"

lemma entry_cases: "entry_ok e \<Longrightarrow> \<not> is_v6 e \<Longrightarrow> v4_entry e"
  by (auto simp: entry_ok_def is_v6_def v4_entry_def split: address.splits)

lemma count_colons: "count_list (concat (map (\<lambda>b. dec_string (unat b) @ '':'') a)) CHR '':'' = length a"
  using dec_string_separators(2) by (induction a) (simp_all add: count_notin)

lemma colons_butlast: "count_list s CHR '':'' \<le> Suc (count_list (butlast s) CHR '':'')"
  by (cases s rule: rev_cases) simp_all

lemma print_v6:
  assumes "length a = 16"
  shows "\<exists>s. print_address CHR '':'' a = Inr s \<and> 8 < count_list s CHR '':''"
proof -
  let ?s = "concat (map (\<lambda>b. dec_string (unat b) @ '':'') a)"
  have c: "count_list ?s CHR '':'' = 16" using count_colons [of a] assms by simp
  then have "?s \<noteq> []" by auto
  then have "print_address CHR '':'' a = Inr (butlast ?s)" by (simp add: print_address_def pop_back_def)
  with colons_butlast [of ?s] c show ?thesis by simp
qed

lemma decode_node_v6:
  assumes "rejects_long from_string" and "entry_ok e" and "is_v6 e" and "drop index dat = node_bytes e @ rest"
  shows "\<exists>x. decode_node from_string dat index = Inl x"
proof -
  obtain i t a p where e: "e = (i, t, V6 a, p)" and l: "length i = 32" "length a = 16"
    using assms(2,3) by (cases e) (auto simp: entry_ok_def is_v6_def split: address.splits)
  have d: "drop index dat = uint8ToBytes (node_type_byte t) @ i @ uint8ToBytes 1 @ a @ uint16ToBytes p @ rest"
    using assms(4) by (simp add: e)
  have len: "index + 52 \<le> length dat" using arg_cong [OF d, of length] l by simp
  have s: "substr dat (index + k) n = Inr (take n (drop k (drop index dat)))" if "k \<le> 40" for k n
    using that len by (simp add: substr_def add.commute)
  have "substr dat index 1 = Inr (uint8ToBytes (node_type_byte t))" "substr dat (index + 1) 32 = Inr i"
    "substr dat (index + 33) 1 = Inr (uint8ToBytes 1)" "substr dat (index + 34) 16 = Inr a"
    using s [of 0 1] s [of 1 32] s [of 33 1] s [of 34 16] l unfolding d by simp_all
  moreover obtain str where "print_address CHR '':'' a = Inr str" "8 < count_list str CHR '':''" using print_v6 [OF l(2)] by blast
  moreover from this(2) obtain x where "from_string str = Inl x" using assms(1) unfolding rejects_long_def by blast
  ultimately show ?thesis using len by (simp add: decode_node_def Let_def cast_node_type)
qed

lemma decode_nodes_v6:
  assumes "reads_dotted from_string" and "rejects_long from_string"
    and "\<forall>e\<in>set es. entry_ok e" and "\<exists>e\<in>set es. is_v6 e" and "drop index dat = concat (map node_bytes es)"
  shows "\<exists>x. decode_nodes from_string dat index nodes = Inl x"
  using assms(3-)
proof (induction es arbitrary: index nodes)
  case (Cons e es)
  have d: "drop index dat = node_bytes e @ concat (map node_bytes es)" using Cons.prems by simp
  have "node_bytes e \<noteq> []" by (cases e) (simp add: length_greater_0_conv [symmetric] del: length_greater_0_conv)
  then have lt: "index < length dat" using d by (metis append_is_Nil_conv drop_all linorder_not_less)
  show ?case
  proof (cases "is_v6 e")
    case True
    then show ?thesis
      using decode_node_v6 [OF assms(2) _ True d] Cons.prems(1) lt by (auto simp: decode_nodes.simps [of _ dat index])
  next
    case False
    then have v: "v4_entry e" using Cons.prems(1) entry_cases by simp
    have "drop (index + 40) dat = concat (map node_bytes es)"
      using arg_cong [OF d, of "drop 40"] length_v4_entry [OF v] by (simp add: add.commute)
    then have "\<exists>x. decode_nodes from_string dat (index + 40) (nodes(fst e \<mapsto> snd e)) = Inl x"
      using Cons.IH Cons.prems False by auto
    then show ?thesis using decode_node_v4 [OF assms(1) v d] lt by (simp add: decode_nodes.simps [of _ dat index])
  qed
qed simp

text \<open>A node that knows one peer with an IPv6 address cannot tell its peers to anyone: the decoder prints
  the sixteen bytes of the address as sixteen decimal groups, which no parser of addresses accepts,
  so the whole answer is thrown away.\<close>

theorem requestNodes_v6_lost:
  assumes "11 \<le> Message_size request" and "reads_dotted from_string" and "rejects_long from_string"
    and "\<forall>e\<in>set nodes. entry_ok e" and "\<exists>e\<in>set nodes. is_v6 e"
  shows "\<exists>m x. AnswerEncoder_requestNodes request nodes = Inr m \<and> AnswerDecoder_requestNodes from_string m = Inl x"
proof -
  obtain i where i: "Message_id request = Inr i" "length i = 8" using answer_id [OF assms(1)] by blast
  let ?dat = "concat (map node_bytes nodes)"
  obtain x where x: "decode_nodes from_string ?dat 0 Map.empty = Inl x"
    using decode_nodes_v6 [OF assms(2-5), of 0 ?dat Map.empty] by auto
  show ?thesis
    by (rule answer_ok [OF i(2), of RequestNodes ?dat])
      (simp_all add: AnswerEncoder_requestNodes_def AnswerDecoder_requestNodes_def i x)
qed

lemma split_dots_colons: "count_list s CHR '':'' \<noteq> 0 \<Longrightarrow> \<exists>e. read_v4 s = Inl e"
  by (auto simp: read_v4_def Let_def count_list_0_iff)

theorem requestNodes_v6_lost_witness:
  "\<exists>m x. AnswerEncoder_requestNodes \<lparr>rawMessage = replicate 11 0\<rparr> ((replicate 32 3, NORMAL_NODE, V6 (replicate 16 1), 8080) # demo_nodes) = Inr m
     \<and> AnswerDecoder_requestNodes read_v4 m = Inl x"
proof (rule requestNodes_v6_lost [OF _ read_v4_dotted])
  show "rejects_long read_v4" unfolding rejects_long_def using split_dots_colons by fastforce
qed (simp_all add: Message_size_def entry_ok_def is_v6_def demo_nodes_def)

end
