(* ===== verification/P2p_Manager.thy ===== *)
theory P2p_Manager
  imports Chain_Node P2p_Encoding
begin

text \<open>
  The managers of the peer-to-peer network: \<^verbatim>\<open>ManagerBase\<close>, \<^verbatim>\<open>ManagerNormal\<close>, \<^verbatim>\<open>ManagerDiscovery\<close> and the
  \<^verbatim>\<open>DiscoveryWorker\<close> of \<^verbatim>\<open>src/net/p2p/\<close>. A manager hands messages to its sessions, closes them and asks for new
  connections; the model keeps the trace of these events, which the asynchronous sockets carry out.
  A handler is an action on the manager; an exception it does not catch is the result of the action.
  The locks are held for the whole of the accesses they guard, so the handlers are run one after the
  other. The map of sessions is the list of its entries in the order of the iteration.
\<close>

subsection \<open>State\<close>

record Session =
  s_hostNodeId :: bytes
  s_hostType :: NodeType
  s_address :: address
  s_hostServerPort :: uint16
  s_connectionType :: ConnectionType

record Request =
  rq_command :: CommandType
  rq_id :: bytes
  rq_nodeId :: bytes
  rq_answer :: "Message option"
  rq_isAnswered :: bool

datatype wire_event = Write bytes Message | Close bytes | Connect string uint16

record ManagerBase =
  mb_hostIp :: string
  mb_hostPort :: uint16
  mb_maxConnections :: uint32
  mb_closed :: bool
  mb_sessions :: "(bytes \<times> Session) list"
  mb_requests :: "bytes \<rightharpoonup> Request"
  mb_clientSessionsCount :: uint32
  mb_wire :: "wire_event list"

definition Request_new :: "CommandType \<Rightarrow> bytes \<Rightarrow> bytes \<Rightarrow> Request" where
  "Request_new c i n = \<lparr>rq_command = c, rq_id = i, rq_nodeId = n, rq_answer = None, rq_isAnswered = False\<rparr>"

text \<open>A promise takes one value; setting it again throws.\<close>

definition setAnswer :: "Request \<Rightarrow> Message \<Rightarrow> Request result" where
  "setAnswer rq answer = (case rq_answer rq of
     Some _ \<Rightarrow> Inl (FutureError ''Promise already satisfied'')
   | None \<Rightarrow> Inr (rq\<lparr>rq_answer := Some answer, rq_isAnswered := True\<rparr>))"

definition emit :: "wire_event list \<Rightarrow> ManagerBase \<Rightarrow> ManagerBase" where
  "emit es M = M\<lparr>mb_wire := mb_wire M @ es\<rparr>"

text \<open>\<^verbatim>\<open>try { ... } catch (std::exception &e) { handler }\<close>\<close>

definition try_catch :: "('s, 'a) action \<Rightarrow> ('s, 'a) action \<Rightarrow> ('s, 'a) action" where
  "try_catch m handler s = (case m s of
     (s1, Inl e) \<Rightarrow> if e = UndefinedBehaviour then (s1, Inl e) else handler s1
   | (s1, Inr x) \<Rightarrow> (s1, Inr x))"

definition skip :: "('s, unit) action" where
  "skip s = (s, Inr ())"

text \<open>\<^verbatim>\<open>message.id().toUint64()\<close>, the key of a broadcast.\<close>

definition Message_number :: "Message \<Rightarrow> uint64 result" where
  "Message_number m = bindE (Message_id m) RequestID_toUint64"

subsection \<open>Sessions\<close>

definition registerSession :: "Session \<Rightarrow> ManagerBase \<Rightarrow> ManagerBase \<times> bool" where
  "registerSession s M =
     (if mb_closed M then (M, False)
      else if map_of (mb_sessions M) (s_hostNodeId s) \<noteq> None then (M, False)
      else (let M1 = (if s_connectionType s = CLIENT then M\<lparr>mb_clientSessionsCount := mb_clientSessionsCount M + 1\<rparr> else M)
            in (M1\<lparr>mb_sessions := mb_sessions M1 @ [(s_hostNodeId s, s)]\<rparr>, True)))"

definition unregisterSession :: "Session \<Rightarrow> ManagerBase \<Rightarrow> ManagerBase \<times> bool" where
  "unregisterSession s M =
     (if map_of (mb_sessions M) (s_hostNodeId s) = None then (M, False)
      else (let M1 = (if s_connectionType s = CLIENT then M\<lparr>mb_clientSessionsCount := mb_clientSessionsCount M - 1\<rparr> else M)
            in (M1\<lparr>mb_sessions := AList.delete (s_hostNodeId s) (mb_sessions M1)\<rparr>, True)))"

definition disconnectSession :: "bytes \<Rightarrow> ManagerBase \<Rightarrow> ManagerBase \<times> bool" where
  "disconnectSession nodeId M =
     (if map_of (mb_sessions M) nodeId = None then (M, False)
      else ((emit [Close nodeId] M)\<lparr>mb_sessions := AList.delete nodeId (mb_sessions M)\<rparr>, True))"

definition getSessionsIDs :: "ManagerBase \<Rightarrow> bytes list" where
  "getSessionsIDs M = map fst (mb_sessions M)"

definition getPeerCount :: "ManagerBase \<Rightarrow> uint64" where
  "getPeerCount M = of_nat (length (mb_sessions M))"

definition startServer :: "ManagerBase \<Rightarrow> ManagerBase" where
  "startServer M = M\<lparr>mb_closed := False\<rparr>"

text \<open>A session taken out of the map is closed if a pending operation still owns it.\<close>

definition ManagerBase_stop :: "(bytes \<Rightarrow> bool) \<Rightarrow> ManagerBase \<Rightarrow> ManagerBase" where
  "ManagerBase_stop owned M =
     (emit (map (\<lambda>(n, _). Close n) (filter (\<lambda>(n, _). owned n) (mb_sessions M))) M)\<lparr>mb_closed := True, mb_sessions := []\<rparr>"

definition connectToServer :: "string \<Rightarrow> uint16 \<Rightarrow> ManagerBase \<Rightarrow> ManagerBase" where
  "connectToServer host port M =
     (if mb_closed M then M
      else if mb_hostIp M = host \<and> mb_hostPort M = port then M
      else if mb_clientSessionsCount M \<ge> mb_maxConnections M then M
      else emit [Connect host port] M)"

subsection \<open>Requests\<close>

text \<open>The result is the identifier under which the request is stored, or \<open>None\<close> for the null pointer.\<close>

definition sendMessageTo :: "bytes \<Rightarrow> Message \<Rightarrow> (ManagerBase, bytes option) action" where
  "sendMessageTo nodeId m M =
     (if mb_closed M then (M, Inr None)
      else case map_of (mb_sessions M) nodeId of
        None \<Rightarrow> (M, Inr None)
      | Some session \<Rightarrow>
          bindS (liftS (Message_command m)) (\<lambda>command.
          if s_hostType session = DISCOVERY_NODE \<and> (command = Info \<or> command = RequestValidatorTxs) then liftS (Inr None)
          else bindS (liftS (Message_id m)) (\<lambda>i M.
            (emit [Write nodeId m] (M\<lparr>mb_requests := (mb_requests M)(i \<mapsto> Request_new command i (s_hostNodeId session))\<rparr>),
             Inr (Some i)))) M)"

definition answerSession :: "Session \<Rightarrow> Message \<Rightarrow> (ManagerBase, unit) action" where
  "answerSession session m M = (if mb_closed M then (M, Inr ()) else (emit [Write (s_hostNodeId session) m] M, Inr ()))"

text \<open>The call returns once the answer is there.\<close>

definition ManagerBase_ping :: "bytes \<Rightarrow> bytes \<Rightarrow> (ManagerBase, unit) action" where
  "ManagerBase_ping rnd nodeId =
     bindS (liftS (RequestEncoder_ping rnd)) (\<lambda>request.
     bindS (sendMessageTo nodeId request) (\<lambda>p.
     liftS (if p = None
       then bindE (Hex_fromBytes nodeId False) (\<lambda>h. Inl (RuntimeError (''Failed to send ping to '' @ hx_hex h @ ''.)'')))
       else Inr ())))"

text \<open>What the three requests with a time limit make of the answer, which is \<open>None\<close> when the time is up.\<close>

definition answer_or :: "'a \<Rightarrow> (Message \<Rightarrow> 'a result) \<Rightarrow> Message option \<Rightarrow> bytes option \<Rightarrow> (ManagerBase, 'a) action" where
  "answer_or none decode answer p =
     (case (p, answer) of
        (Some _, Some m) \<Rightarrow> try_catch (liftS (decode m)) (liftS (Inr none))
      | _ \<Rightarrow> liftS (Inr none))"

definition requestNodes ::
  "(string \<Rightarrow> address result) \<Rightarrow> bytes \<Rightarrow> Message option \<Rightarrow> bytes \<Rightarrow> (ManagerBase, bytes \<rightharpoonup> node_entry) action" where
  "requestNodes from_string rnd answer nodeId =
     bindS (liftS (RequestEncoder_requestNodes rnd)) (\<lambda>request.
     bindS (sendMessageTo nodeId request) (answer_or Map.empty (AnswerDecoder_requestNodes from_string) answer))"

definition requestValidatorTxs :: "crypto \<Rightarrow> uint64 \<Rightarrow> bytes \<Rightarrow> Message option \<Rightarrow> bytes \<Rightarrow> (ManagerBase, TxValidator list) action" where
  "requestValidatorTxs C cid rnd answer nodeId =
     bindS (liftS (RequestEncoder_requestValidatorTxs rnd)) (\<lambda>request.
     bindS (sendMessageTo nodeId request) (answer_or [] (\<lambda>m. AnswerDecoder_requestValidatorTxs C m cid) answer))"

definition requestNodeInfo ::
  "crypto \<Rightarrow> Storage \<Rightarrow> uint64 \<Rightarrow> uint64 \<Rightarrow> bytes \<Rightarrow> Message option \<Rightarrow> bytes \<Rightarrow> (ManagerBase, NodeInfo) action" where
  "requestNodeInfo C st version epoch rnd answer nodeId =
     bindS (liftS (bindE (latest st) (\<lambda>b. RequestEncoder_info C rnd b version epoch))) (\<lambda>request.
     bindS (sendMessageTo nodeId request) (answer_or NodeInfo_default AnswerDecoder_info answer))"

subsection \<open>Handlers of both managers\<close>

definition close_session :: "Session \<Rightarrow> (ManagerBase, unit) action" where
  "close_session session M = (fst (disconnectSession (s_hostNodeId session) M), Inr ())"

definition if_valid :: "bool result \<Rightarrow> Session \<Rightarrow> (ManagerBase, unit) action \<Rightarrow> (ManagerBase, unit) action" where
  "if_valid r session m = bindS (liftS r) (\<lambda>ok. if ok then m else close_session session)"

definition handlePingRequest :: "Session \<Rightarrow> Message \<Rightarrow> (ManagerBase, unit) action" where
  "handlePingRequest session m =
     if_valid (RequestDecoder_ping m) session (bindS (liftS (AnswerEncoder_ping m)) (answerSession session))"

definition session_entry :: "bytes \<times> Session \<Rightarrow> bytes \<times> node_entry" where
  "session_entry e = (let s = snd e in (s_hostNodeId s, s_hostType s, s_address s, s_hostServerPort s))"

definition handleRequestNodesRequest :: "Session \<Rightarrow> Message \<Rightarrow> (ManagerBase, unit) action" where
  "handleRequestNodesRequest session m =
     if_valid (RequestDecoder_requestNodes m) session (\<lambda>M.
       bindS (liftS (AnswerEncoder_requestNodes m (map session_entry (mb_sessions M)))) (answerSession session) M)"

definition accept_answer :: "Session \<Rightarrow> Message \<Rightarrow> (ManagerBase, unit) action" where
  "accept_answer session m =
     bindS (liftS (Message_id m)) (\<lambda>i M. case mb_requests M i of
       None \<Rightarrow> close_session session M
     | Some rq \<Rightarrow> bindS (liftS (setAnswer rq m)) (\<lambda>rq' M. (M\<lparr>mb_requests := (mb_requests M)(i \<mapsto> rq')\<rparr>, Inr ())) M)"

definition handlePingAnswer :: "Session \<Rightarrow> Message \<Rightarrow> (ManagerBase, unit) action" where
  "handlePingAnswer = accept_answer"

definition handleInfoAnswer :: "Session \<Rightarrow> Message \<Rightarrow> (ManagerBase, unit) action" where
  "handleInfoAnswer = accept_answer"

definition handleRequestNodesAnswer :: "Session \<Rightarrow> Message \<Rightarrow> (ManagerBase, unit) action" where
  "handleRequestNodesAnswer = accept_answer"

definition handleTxValidatorAnswer :: "Session \<Rightarrow> Message \<Rightarrow> (ManagerBase, unit) action" where
  "handleTxValidatorAnswer = accept_answer"

subsection \<open>The manager of a discovery node\<close>

definition Discovery_handlePingRequest :: "Session \<Rightarrow> Message \<Rightarrow> (ManagerBase, unit) action" where
  "Discovery_handlePingRequest session m =
     if_valid (RequestDecoder_ping m) session (bindS (liftS (AnswerEncoder_ping m)) (answerSession session))"

definition Discovery_handleRequestNodesRequest :: "Session \<Rightarrow> Message \<Rightarrow> (ManagerBase, unit) action" where
  "Discovery_handleRequestNodesRequest session m =
     if_valid (RequestDecoder_requestNodes m) session (\<lambda>M.
       bindS (liftS (AnswerEncoder_requestNodes m (map session_entry (mb_sessions M)))) (answerSession session) M)"

definition Discovery_handlePingAnswer :: "Session \<Rightarrow> Message \<Rightarrow> (ManagerBase, unit) action" where
  "Discovery_handlePingAnswer = accept_answer"

definition Discovery_handleRequestNodesAnswer :: "Session \<Rightarrow> Message \<Rightarrow> (ManagerBase, unit) action" where
  "Discovery_handleRequestNodesAnswer = accept_answer"

definition Discovery_handleRequest :: "Session \<Rightarrow> Message \<Rightarrow> (ManagerBase, unit) action" where
  "Discovery_handleRequest session m = bindS (liftS (Message_command m)) (\<lambda>c.
     if c = Ping then Discovery_handlePingRequest session m
     else if c = RequestNodes then Discovery_handleRequestNodesRequest session m
     else close_session session)"

definition Discovery_handleAnswer :: "Session \<Rightarrow> Message \<Rightarrow> (ManagerBase, unit) action" where
  "Discovery_handleAnswer session m = bindS (liftS (Message_command m)) (\<lambda>c.
     if c = Ping then Discovery_handlePingAnswer session m
     else if c = Info then skip
     else if c = RequestNodes then Discovery_handleRequestNodesAnswer session m
     else close_session session)"

definition Discovery_handleMessage :: "Session \<Rightarrow> Message \<Rightarrow> (ManagerBase, unit) action" where
  "Discovery_handleMessage session m M =
     (if mb_closed M then (M, Inr ())
      else bindS (liftS (Message_type m)) (\<lambda>t.
        if t = Requesting then Discovery_handleRequest session m
        else if t = Answering then Discovery_handleAnswer session m
        else close_session session) M)"

subsection \<open>Looking for peers\<close>

text \<open>The worker remembers when it asked a node for its peers, in seconds; a difference of unsigned numbers wraps.
  \<open>to_string\<close> prints an address.\<close>

definition refreshRequestedNodes :: "uint64 \<Rightarrow> (bytes \<rightharpoonup> uint64) \<Rightarrow> (bytes \<rightharpoonup> uint64)" where
  "refreshRequestedNodes now requested = (\<lambda>nodeId. case requested nodeId of
     Some t \<Rightarrow> if now - t > 60 then None else Some t
   | None \<Rightarrow> None)"

definition listConnectedNodes :: "(bytes \<rightharpoonup> uint64) \<Rightarrow> ManagerBase \<Rightarrow> bytes list \<times> bytes list" where
  "listConnectedNodes requested M =
     (let fresh = filter (\<lambda>(nodeId, _). requested nodeId = None) (mb_sessions M) in
      (map fst (filter (\<lambda>(_, s). s_hostType s = DISCOVERY_NODE) fresh), map fst (filter (\<lambda>(_, s). s_hostType s = NORMAL_NODE) fresh)))"

definition connectToNode :: "(address \<Rightarrow> string) \<Rightarrow> bytes \<times> node_entry \<Rightarrow> ManagerBase \<Rightarrow> ManagerBase" where
  "connectToNode to_string node M =
     (case node of (nodeId, nodeType, nodeIp, nodePort) \<Rightarrow>
        if nodeType = DISCOVERY_NODE then M
        else if map_of (mb_sessions M) nodeId \<noteq> None then M
        else connectToServer (to_string nodeIp) nodePort M)"

text \<open>One round of \<^verbatim>\<open>discoverLoop\<close> over the nodes it asks, each with the list of peers its answer holds; the
  requests themselves are \<^verbatim>\<open>requestNodes\<close> above. The first round asks the discovery nodes, every later one
  the normal nodes. The answers of a round are an argument here, and so is its time. A connection is started in a thread of its own and counted when its session
  registers, which is a later event; so the count of client sessions is the same for all connections of one round.\<close>

definition ask_nodes ::
  "(address \<Rightarrow> string) \<Rightarrow> uint64 \<Rightarrow> (bytes \<Rightarrow> (bytes \<times> node_entry) list) \<Rightarrow> bytes list \<Rightarrow> (bytes \<rightharpoonup> uint64) \<times> ManagerBase \<Rightarrow> (bytes \<rightharpoonup> uint64) \<times> ManagerBase" where
  "ask_nodes to_string now answers = fold (\<lambda>nodeId (requested, M).
     (requested(nodeId \<mapsto> now), fold (connectToNode to_string) (answers nodeId) M))"

definition discover_round ::
  "(address \<Rightarrow> string) \<Rightarrow> uint64 \<Rightarrow> (bytes \<Rightarrow> (bytes \<times> node_entry) list) \<Rightarrow> bool \<Rightarrow> (bytes \<rightharpoonup> uint64) \<times> ManagerBase \<Rightarrow> (bytes \<rightharpoonup> uint64) \<times> ManagerBase" where
  "discover_round to_string now answers discoveryPass w =
     (let requested = refreshRequestedNodes now (fst w); connectedNodes = listConnectedNodes requested (snd w) in
      ask_nodes to_string now answers (if \<not> discoveryPass then fst connectedNodes else snd connectedNodes) (requested, snd w))"

subsection \<open>The manager of a normal node\<close>

record 's NormalNode =
  nd_base :: ManagerBase
  nd_broadcasted :: "uint64 \<rightharpoonup> uint32"
  nd_state :: "'s State"

record p2p_env =
  env_version :: uint64
  env_epoch :: uint64
  env_threads :: nat

definition on_base :: "(ManagerBase, 'a) action \<Rightarrow> ('s NormalNode, 'a) action" where
  "on_base m N = (case m (nd_base N) of (M, r) \<Rightarrow> (N\<lparr>nd_base := M\<rparr>, r))"

definition on_state :: "('s State, 'a) action \<Rightarrow> ('s NormalNode, 'a) action" where
  "on_state m N = (case m (nd_state N) of (S, r) \<Rightarrow> (N\<lparr>nd_state := S\<rparr>, r))"

text \<open>An operation of \<^verbatim>\<open>State\<close> that changes nothing when it throws.\<close>

definition state_result :: "('s State \<Rightarrow> ('s State \<times> 'a) result) \<Rightarrow> ('s NormalNode, 'a) action" where
  "state_result f = on_state (\<lambda>S. case f S of Inl e \<Rightarrow> (S, Inl e) | Inr (S', x) \<Rightarrow> (S', Inr x))"

definition normal_sessions :: "ManagerBase \<Rightarrow> bytes list" where
  "normal_sessions M = map fst (filter (\<lambda>(_, s). s_hostType s = NORMAL_NODE) (mb_sessions M))"

definition broadcastMessage :: "Message \<Rightarrow> ('s NormalNode, unit) action" where
  "broadcastMessage m N =
     (if mb_closed (nd_base N) then (N, Inr ())
      else bindS (liftS (Message_number m)) (\<lambda>i N.
        let (counts, n) = index_default (nd_broadcasted N) i 0 in
        if n > 0 then (N\<lparr>nd_broadcasted := counts\<rparr>, Inr ())
        else (N\<lparr>nd_broadcasted := counts(i \<mapsto> n + 1),
                nd_base := emit (map (\<lambda>k. Write k m) (normal_sessions (nd_base N))) (nd_base N)\<rparr>, Inr ())) N)"

definition handleInfoRequest :: "crypto \<Rightarrow> p2p_env \<Rightarrow> Session \<Rightarrow> Message \<Rightarrow> ('s NormalNode, unit) action" where
  "handleInfoRequest C E session m =
     bindS (liftS (RequestDecoder_info m)) (\<lambda>_ N.
     bindS (liftS (bindE (latest (storage (nd_state N))) (\<lambda>b. AnswerEncoder_info C m b (env_version E) (env_epoch E))))
       (\<lambda>a. on_base (answerSession session a)) N)"

definition handleTxValidatorRequest :: "Session \<Rightarrow> Message \<Rightarrow> ('s NormalNode, unit) action" where
  "handleTxValidatorRequest session m N =
     on_base (if_valid (RequestDecoder_requestValidatorTxs m) session
       (bindS (liftS (AnswerEncoder_requestValidatorTxs m (validatorMempool (rdpos (nd_state N))))) (answerSession session))) N"

definition handleRequest :: "crypto \<Rightarrow> p2p_env \<Rightarrow> Session \<Rightarrow> Message \<Rightarrow> ('s NormalNode, unit) action" where
  "handleRequest C E session m = bindS (liftS (Message_command m)) (\<lambda>c.
     if c = Ping then on_base (handlePingRequest session m)
     else if c = Info then handleInfoRequest C E session m
     else if c = RequestNodes then on_base (handleRequestNodesRequest session m)
     else if c = RequestValidatorTxs then handleTxValidatorRequest session m
     else on_base (close_session session))"

definition handleAnswer :: "Session \<Rightarrow> Message \<Rightarrow> ('s NormalNode, unit) action" where
  "handleAnswer session m = bindS (liftS (Message_command m)) (\<lambda>c. on_base
     (if c = Ping then handlePingAnswer session m
      else if c = Info then handleInfoAnswer session m
      else if c = RequestNodes then handleRequestNodesAnswer session m
      else if c = RequestValidatorTxs then handleTxValidatorAnswer session m
      else close_session session))"

definition handleTxValidatorBroadcast :: "crypto \<Rightarrow> Session \<Rightarrow> Message \<Rightarrow> ('s NormalNode, unit) action" where
  "handleTxValidatorBroadcast C session m = try_catch
     (\<lambda>N. bindS (liftS (BroadcastDecoder_broadcastValidatorTx C m (chainID (nd_state N)))) (\<lambda>tx.
          bindS (state_result (\<lambda>S. State_addValidatorTx C S tx)) (\<lambda>ok.
          if ok then broadcastMessage m else skip)) N)
     (on_base (close_session session))"

definition handleTxBroadcast :: "crypto \<Rightarrow> Session \<Rightarrow> Message \<Rightarrow> ('s NormalNode, unit) action" where
  "handleTxBroadcast C session m = try_catch
     (\<lambda>N. bindS (liftS (BroadcastDecoder_broadcastTx C m (chainID (nd_state N)))) (\<lambda>tx.
          bindS (state_result (\<lambda>S. addTx C S tx)) (\<lambda>v.
          if v = NotInvalid then broadcastMessage m else skip)) N)
     (on_base (close_session session))"

text \<open>The body of the \<^verbatim>\<open>try\<close> block; \<open>None\<close> is the \<^verbatim>\<open>return\<close> inside it, otherwise the value is \<^verbatim>\<open>shouldRebroadcast\<close>.\<close>

definition receive_block ::
  "'s rocksdb \<Rightarrow> crypto \<Rightarrow> nat \<Rightarrow> p2p_env \<Rightarrow> Message \<Rightarrow> ('s NormalNode, bool option) action" where
  "receive_block R C depth E m N =
     bindS (liftS (BroadcastDecoder_broadcastBlock C (env_threads E) m (chainID (nd_state N)))) (\<lambda>block N.
     let S = nd_state N in
     if blockExists R (database S) (storage S) (Block_hash C block) \<noteq> NotFound
     then bindS (liftS (latest (storage S))) (\<lambda>_. liftS (Inr None)) N
     else bindS (liftS (validateNextBlock C S block)) (\<lambda>ok.
       if \<not> ok then liftS (Inr (Some False))
       else bindS (on_state (processNextBlock R C depth block)) (\<lambda>_.
            bindS (broadcastMessage m) (\<lambda>_. liftS (Inr (Some True))))) N) N"

definition handleBlockBroadcast ::
  "'s rocksdb \<Rightarrow> crypto \<Rightarrow> nat \<Rightarrow> p2p_env \<Rightarrow> Session \<Rightarrow> Message \<Rightarrow> ('s NormalNode, unit) action" where
  "handleBlockBroadcast R C depth E session m =
     bindS (try_catch (receive_block R C depth E m)
             (bindS (on_base (close_session session)) (\<lambda>_. liftS (Inr (Some False))))) (\<lambda>shouldRebroadcast.
     if shouldRebroadcast = Some True then broadcastMessage m else skip)"

definition handleBroadcast ::
  "'s rocksdb \<Rightarrow> crypto \<Rightarrow> nat \<Rightarrow> p2p_env \<Rightarrow> Session \<Rightarrow> Message \<Rightarrow> ('s NormalNode, unit) action" where
  "handleBroadcast R C depth E session m N =
     (if mb_closed (nd_base N) then (N, Inr ())
      else bindS (liftS (Message_number m)) (\<lambda>i N.
        if (case nd_broadcasted N i of Some n \<Rightarrow> n > 0 | None \<Rightarrow> False) then (N, Inr ())
        else bindS (liftS (Message_command m)) (\<lambda>c.
          if c = BroadcastValidatorTx then handleTxValidatorBroadcast C session m
          else if c = BroadcastTx then handleTxBroadcast C session m
          else if c = BroadcastBlock then handleBlockBroadcast R C depth E session m
          else on_base (close_session session)) N) N)"

definition handleMessage ::
  "'s rocksdb \<Rightarrow> crypto \<Rightarrow> nat \<Rightarrow> p2p_env \<Rightarrow> Session \<Rightarrow> Message \<Rightarrow> ('s NormalNode, unit) action" where
  "handleMessage R C depth E session m N =
     (if mb_closed (nd_base N) then (N, Inr ())
      else bindS (liftS (Message_type m)) (\<lambda>t.
        if t = Requesting then handleRequest C E session m
        else if t = Answering then handleAnswer session m
        else if t = Broadcasting then handleBroadcast R C depth E session m
        else on_base (close_session session)) N)"

definition broadcastTxValidator :: "TxValidator \<Rightarrow> ('s NormalNode, unit) action" where
  "broadcastTxValidator tx = bindS (liftS (BroadcastEncoder_broadcastValidatorTx tx)) broadcastMessage"

definition broadcastTxBlock :: "TxBlock \<Rightarrow> ('s NormalNode, unit) action" where
  "broadcastTxBlock tx = bindS (liftS (BroadcastEncoder_broadcastTx tx)) broadcastMessage"

definition broadcastBlock :: "Block \<Rightarrow> ('s NormalNode, unit) action" where
  "broadcastBlock b = bindS (liftS (BroadcastEncoder_broadcastBlock b)) broadcastMessage"

text \<open>What a session does with the bytes it has read. The task runs in the thread pool, which lets an exception
  of \<^verbatim>\<open>handleMessage\<close> pass and thereby ends the process; the result of the action is that exception.\<close>

definition on_read ::
  "'s rocksdb \<Rightarrow> crypto \<Rightarrow> nat \<Rightarrow> p2p_env \<Rightarrow> Session \<Rightarrow> bytes \<Rightarrow> ('s NormalNode, unit) action" where
  "on_read R C depth E session buf N =
     (if 11 \<le> length buf
      then if mb_closed (nd_base N) then (N, Inr ())
           else (case Message_new buf of Inl e \<Rightarrow> (N, Inr ()) | Inr m \<Rightarrow> handleMessage R C depth E session m N)
      else (N, Inr ()))"

end
