(* ===== verification/Sample_Round.thy ===== *)
theory Sample_Round
  imports Chain_Node P2p_Encoding
begin

text \<open>
  A concrete round: a node with one block, one transfer in its mempool and the eight validator transactions of
  the round, and the block the proposer makes of them. The signature scheme is a stand-in whose recovered
  address is the low 160 bits of \<^verbatim>\<open>s\<close>, so that the senders can be chosen. It shows that the hypotheses of the
  theorems on the network and the proposer hold together.
\<close>

subsection \<open>The scheme\<close>

definition seal_crypto :: crypto where
  "seal_crypto = echo_crypto\<lparr>ecdsa_recover := (\<lambda>sig _. Some (4 # take 64 sig))\<rparr>"

definition seal_address :: "uint256 \<Rightarrow> bytes" where
  "seal_address s = drop 12 (uint256ToBytes s)"

lemma seal_sha3: "sha3 seal_crypto = sha3 echo_crypto"
  by (simp add: fun_eq_iff sha3_def seal_crypto_def)

lemma seal_sign: "sign seal_crypto msg key = Inr (makeSig 5 7 0)"
  using demo_sign [of msg key] by (simp add: sign_def seal_crypto_def echo_crypto_def demo_crypto_def)

lemma seal_recover: "recover seal_crypto (makeSig r s 0) msg = 4 # uint256ToBytes r @ uint256ToBytes s"
  by (simp add: recover_def seal_crypto_def echo_crypto_def demo_crypto_def makeSig_eq nth_append Let_def FixedStr_def)

lemma be_nat_u256: "be_nat (uint256ToBytes s) = unat s"
  using uint256_lt [of s] by (simp add: uint256ToBytes_eq be_nat_be_bytes)

lemma seal_toAddress: "toAddress seal_crypto (4 # uint256ToBytes r @ uint256ToBytes s) = seal_address s"
proof -
  have "be_nat (uint256ToBytes r @ uint256ToBytes s) = unat r * 256 ^ 32 + unat s"
    by (simp add: be_nat_append be_nat_u256)
  then have "(of_nat (be_nat (uint256ToBytes r @ uint256ToBytes s)) :: uint256) = r * of_nat (256 ^ 32) + s" by simp
  also have "(of_nat (256 ^ 32) :: uint256) = 0" unfolding word_of_nat_eq_0_iff by simp
  finally show ?thesis by (simp add: toAddress_def seal_address_def seal_sha3 sha3_def echo_crypto_def)
qed

lemma seal_address_nat: "be_nat (seal_address s) = unat s mod 2 ^ 160" "length (seal_address s) = 20"
proof -
  show l: "length (seal_address s) = 20" by (simp add: seal_address_def)
  have "unat s = be_nat (take 12 (uint256ToBytes s) @ seal_address s)" by (simp add: seal_address_def be_nat_u256)
  also have "\<dots> = be_nat (take 12 (uint256ToBytes s)) * 256 ^ 20 + be_nat (seal_address s)" by (simp add: be_nat_append l)
  finally show "be_nat (seal_address s) = unat s mod 2 ^ 160"
    using be_nat_bound [of "seal_address s"] l by simp
qed

lemma seal_address_eq: "seal_address s = seal_address t \<longleftrightarrow> unat s mod 2 ^ 160 = unat t mod 2 ^ 160"
  using seal_address_nat [of s] seal_address_nat [of t] be_bytes_be_nat_eq [of "seal_address s" 20] be_bytes_be_nat_eq [of "seal_address t" 20]
  by metis

subsection \<open>The validator transactions\<close>

definition seal_s :: "bool \<Rightarrow> nat \<Rightarrow> uint256" where
  "seal_s seed i = 2 ^ 255 + (if seed then 2 ^ 200 else 0) + of_nat i"

definition seal_vtx :: "bool \<Rightarrow> nat \<Rightarrow> TxValidator" where
  "seal_vtx seed i = \<lparr>tv_from = seal_address (seal_s seed i),
     tv_data = (if seed then [0x6f, 0xc5, 0xa2, 0xd6] else [0xcf, 0xff, 0xe7, 0x46]) @ replicate 32 (of_nat i),
     tv_chainId = 8080, tv_nHeight = 1, tv_v = 16195, tv_r = 5, tv_s = seal_s seed i\<rparr>"

lemma seal_s_nat: "i < 4 \<Longrightarrow> unat (seal_s b i) = 2 ^ 255 + (if b then 2 ^ 200 else 0) + i"
proof -
  assume "i < 4"
  then have lt: "2 ^ 255 + (if b then 2 ^ 200 else 0) + i < 2 ^ LENGTH(256)" by simp
  have "seal_s b i = of_nat (2 ^ 255 + (if b then 2 ^ 200 else 0) + i)" by (simp add: seal_s_def)
  with lt show ?thesis by (simp only: unat_of_nat take_bit_nat_eq_self mod_less)
qed

lemma seal_s_inject: "i < 4 \<Longrightarrow> j < 4 \<Longrightarrow> seal_s a i = seal_s b j \<longleftrightarrow> a = b \<and> i = j"
proof
  assume ij: "i < 4" "j < 4" and "seal_s a i = seal_s b j"
  then have "unat (seal_s a i) = unat (seal_s b j)" by (simp only:)
  then show "a = b \<and> i = j" unfolding seal_s_nat [OF ij(1)] seal_s_nat [OF ij(2)] using ij by (cases a; cases b) simp_all
qed (simp only:)

lemma seal_vtx_inject: "i < 4 \<Longrightarrow> j < 4 \<Longrightarrow> seal_vtx a i = seal_vtx b j \<longleftrightarrow> a = b \<and> i = j"
proof
  assume ij: "i < 4" "j < 4" and "seal_vtx a i = seal_vtx b j"
  from arg_cong [OF this(3), of tv_s] show "a = b \<and> i = j" using seal_s_inject [OF ij] by (simp add: seal_vtx_def)
qed (simp only:)

lemma seal_s_mod: "i < 4 \<Longrightarrow> unat (seal_s b i) mod 1461501637330902918203684832716283019655932542976 = i"
proof -
  assume "i < 4"
  then have "unat (seal_s b i) = i + 1461501637330902918203684832716283019655932542976 * (2 ^ 95 + (if b then 2 ^ 40 else 0))"
    by (simp add: seal_s_nat)
  with \<open>i < 4\<close> show ?thesis by (simp only: mod_mult_self2) simp
qed

lemma seal_from_inject: "i < 4 \<Longrightarrow> j < 4 \<Longrightarrow> tv_from (seal_vtx a i) = tv_from (seal_vtx b j) \<longleftrightarrow> i = j"
  by (simp add: seal_vtx_def seal_address_eq seal_s_mod)

lemma seal_vtx_hash: "i < 4 \<Longrightarrow> TxValidator_hash seal_crypto (seal_vtx b i) True = uint256ToBytes (seal_s b i)"
  using echo_hash_tail [of "seal_vtx b i"] seal_s_nat [of i b]
  by (simp add: TxValidator_hash_def seal_sha3 sha3_def seal_vtx_def)

lemma seal_s_bytes: "i < 4 \<Longrightarrow> bytesRequired (unat (seal_s b i)) = 32"
proof -
  assume "i < 4"
  then have "(256::nat) ^ 31 \<le> unat (seal_s b i)" by (simp add: seal_s_nat)
  then show ?thesis using bytesRequired_ge [of 31 "unat (seal_s b i)"] bytesRequired_u256 [OF uint256_lt [of "seal_s b i"]] by simp
qed

lemma seal_vtx_serialisable: "i < 4 \<Longrightarrow> TxValidator_serialisable (seal_vtx b i)"
  by (simp add: TxValidator_serialisable_def TxValidator_total_size_def seal_vtx_def rlp_uint_size_def
      rlp_string_size_def bytesRequired_pos seal_s_bytes)

lemma seal_vtx_length: "i < 4 \<Longrightarrow> length (TxValidator_rlpSerialize (seal_vtx b i) True) < 1000"
  by (simp add: TxValidator_rlpSerialize_def TxValidator_total_size_def seal_vtx_def rlp_uint_size_def rlp_sig_half_def
      rlp_string_size_def rlp_string_def rlp_uint_def bytesRequired_pos rlp_list_head_def rlp_v_def seal_s_bytes byte_simps)

lemma seal_vtx_sender: "i < 4 \<Longrightarrow> TxValidator_sender_ok seal_crypto (seal_vtx b i)"
proof -
  assume i: "i < 4"
  have "0 < seal_s b i" "seal_s b i < ecConst"
    using seal_s_nat [OF i, of b] i by (simp_all add: word_less_nat_alt ecConst_def)
  moreover have "TxValidator_chain_of_v 16195 = Inr 8080" "TxValidator_recoveryId 16195 8080 = 0"
    by (simp_all add: TxValidator_chain_of_v_def TxValidator_recoveryId_def)
  ultimately show ?thesis
    by (simp add: TxValidator_sender_ok_def seal_vtx_def Let_def seal_recover seal_toAddress verifySig_def ecConst_def FixedStr_def Cons_replicate_eq)
qed

subsection \<open>The node and its block\<close>

definition seal_pay :: TxBlock where
  "seal_pay = (demo_pay (replicate 20 2))\<lparr>tx_from := seal_address 9, tx_data := replicate 60 9, tx_r := 5, tx_s := 9\<rparr>"

definition seal_rd :: rdPoS where
  "seal_rd = (let rl = seal_address 7 # map (\<lambda>i. tv_from (seal_vtx False i)) [0..<4] in
     round_rd\<lparr>validators := rl, randomList := rl,
       validatorMempool := map (\<lambda>(b, i). (uint256ToBytes (seal_s b i), seal_vtx b i)) (List.product [False, True] [0..<4])\<rparr>)"

definition seal_state :: "(bytes \<times> bytes) list State" where
  "seal_state = demo_state\<lparr>accounts := [(seal_address 9, \<lparr>acc_balance = 1000, acc_nonce = 0\<rparr>)], mempool := [(tx_hash seal_crypto seal_pay, seal_pay)],
     rdpos := seal_rd, storage := index_block seal_crypto first_block (Storage_empty\<lparr>st_chain := [first_block]\<rparr>)\<rparr>"

definition seal_block0 :: Block where
  "seal_block0 = (Block_new (Block_hash seal_crypto first_block) 5 1)
     \<lparr>txs := [seal_pay], txValidators := map (seal_vtx False) [0..<4] @ map (seal_vtx True) [0..<4]\<rparr>"

definition seal_block :: Block where
  "seal_block = fst (projr (Block_finalize seal_crypto seal_block0 [] 6))"

lemma seal_block_finalize: "Block_finalize seal_crypto seal_block0 [] 6 = Inr (seal_block, True)"
proof -
  have "\<exists>b. Block_finalize seal_crypto seal_block0 [] 6 = Inr (b, True)"
    by (simp add: Block_finalize_def seal_sign Let_def) (simp add: seal_block0_def Block_new_def)
  then show ?thesis by (auto simp: seal_block_def)
qed

lemma seal_members:
  "txs seal_block = [seal_pay]" "txValidators seal_block = map (seal_vtx False) [0..<4] @ map (seal_vtx True) [0..<4]"
  "nHeight seal_block = 1" "prevBlockHash seal_block = Block_hash seal_crypto first_block" "timestamp seal_block = 6"
  "validatorSig seal_block = makeSig 5 7 0" "finalized seal_block"
  using Block_finalize_spec [OF seal_block_finalize] by (simp_all add: seal_block0_def Block_new_def seal_sign)

lemma seal_proposer: "toAddress seal_crypto (validatorPubKey seal_block) = seal_address 7"
  unfolding Block_finalize_spec(3) [OF seal_block_finalize] seal_members(6) seal_recover by (rule seal_toAddress)

lemma seal_pay_sender: "TxBlock_sender_ok seal_crypto seal_pay"
  by (simp add: TxBlock_sender_ok_def seal_pay_def demo_pay_def Let_def seal_recover seal_toAddress verifySig_def ecConst_def nonzero_str_def)

lemma seal_pay_serialisable: "TxBlock_serialisable seal_pay"
  by (simp add: TxBlock_serialisable_def TxBlock_total_size_def seal_pay_def demo_pay_def rlp_uint_size_def rlp_string_size_def bytesRequired_pos)

lemma seal_pay_length: "length (TxBlock_rlpSerialize seal_pay True) < 1000"
  by (subst length_TxBlock_rlpSerialize)
    (simp_all add: seal_pay_def demo_pay_def TxBlock_total_size_def rlp_uint_size_def rlp_string_size_def bytesRequired_pos rlp_list_head_def)

lemma seal_vtxs: "tx \<in> set (txValidators seal_block) \<longleftrightarrow> (\<exists>b. \<exists>i<4. tx = seal_vtx b i)"
  unfolding seal_members(2) ex_bool_eq by auto

lemma sized_items_length: "\<forall>i\<in>set items. length i < n \<Longrightarrow> length (sized_items items) \<le> length items * (n + 4)"
  by (induction items) auto

lemma seal_block_sizes: "Block_sizes seal_block"
  using Block_finalize_spec [OF seal_block_finalize]
  by (simp add: Block_sizes_def Block_roots_ok_def seal_block0_def Block_new_def Block_hash_def)

lemma seal_block_vtxs:
  assumes "tx \<in> set (txValidators seal_block)"
  shows "length (TxValidator_rlpSerialize tx True) < 1000" "TxValidator_parse seal_crypto (TxValidator_rlpSerialize tx True) cid = Inr tx"
    "tv_nHeight tx = 1"
  using assms seal_vtx_length TxValidator_roundtrip [OF seal_vtx_serialisable seal_vtx_sender]
  by (auto simp: seal_vtxs) (simp add: seal_vtx_def)

lemma seal_block_length: "length (serializeBlock seal_block) < 20000"
proof -
  have "length (sized_items (map (\<lambda>tx. TxValidator_rlpSerialize tx True) (txValidators seal_block))) \<le> 8 * 1004"
    using sized_items_length [of "map (\<lambda>tx. TxValidator_rlpSerialize tx True) (txValidators seal_block)" 1000] seal_block_vtxs(1)
      arg_cong [OF seal_members(2), of length] by auto
  moreover have "length (sized_items (map (\<lambda>tx. TxBlock_rlpSerialize tx True) (txs seal_block))) \<le> 1004"
    using sized_items_length [of "map (\<lambda>tx. TxBlock_rlpSerialize tx True) (txs seal_block)" 1000] seal_pay_length
    by (simp add: seal_members)
  ultimately show ?thesis
    using seal_block_sizes [unfolded Block_sizes_def] by (simp add: serializeBlock_eq [OF seal_block_sizes])
qed

lemma seal_block_transmissible: "Block_transmissible seal_crypto cid seal_block"
proof -
  have "Block_txs_ok seal_crypto cid seal_block"
    using seal_block_vtxs(2,3) seal_pay_length seal_block_length TxBlock_roundtrip [OF seal_pay_serialisable seal_pay_sender]
    by (auto simp: Block_txs_ok_def seal_members(1,3) intro: less_trans [OF seal_block_vtxs(1)])
  moreover have "Block_sig_valid seal_block" by (simp add: Block_sig_valid_def seal_members verifySig_def ecConst_def)
  ultimately show ?thesis
    using Block_finalize_spec [OF seal_block_finalize] seal_block_sizes by (simp add: Block_transmissible_def)
qed

lemma seal_state_simps:
  "mempool seal_state = [(tx_hash seal_crypto seal_pay, seal_pay)]" "accounts seal_state = [(seal_address 9, \<lparr>acc_balance = 1000, acc_nonce = 0\<rparr>)]"
  "st_chain (storage seal_state) = [first_block]" "rdpos seal_state = seal_rd" "manager seal_state = demo_manager" "chainID seal_state = 8080"
  by (simp_all add: seal_state_def demo_state_def index_block_def)

lemma seal_rd_simps:
  "randomList seal_rd = seal_address 7 # map (\<lambda>i. tv_from (seal_vtx False i)) [0..<4]" "validators seal_rd = randomList seal_rd"
  "validatorMempool seal_rd = map (\<lambda>(b, i). (uint256ToBytes (seal_s b i), seal_vtx b i)) (List.product [False, True] [0..<4])"
  by (simp_all add: seal_rd_def Let_def)

lemma seal_mempool: "(k, t) \<in> set (validatorMempool seal_rd) \<longleftrightarrow> (\<exists>b. \<exists>i<4. t = seal_vtx b i \<and> k = uint256ToBytes (seal_s b i))"
  unfolding seal_rd_simps ex_bool_eq by auto

lemma seal_from: "i < 4 \<Longrightarrow> tv_from (seal_vtx b i) = randomList seal_rd ! (i + 1)"
  using seal_from_inject [of i i b False] by (simp add: seal_rd_simps)

lemma seal_from_sender:
  "length (from_sender seal_rd a) \<le> 2 \<and> distinct (map (\<lambda>t. take 4 (tv_data t)) (from_sender seal_rd a))"
proof -
  let ?l = "map snd (validatorMempool seal_rd)" and ?sel = "\<lambda>t. take 4 (tv_data t)"
  have l: "?l = map (\<lambda>(b, i). seal_vtx b i) (List.product [False, True] [0..<4])" by (simp add: seal_rd_simps comp_def case_prod_unfold)
  have sel: "?sel (seal_vtx b i) = (if b then [0x6f, 0xc5, 0xa2, 0xd6] else [0xcf, 0xff, 0xe7, 0x46])" for b i by (simp add: seal_vtx_def)
  have "distinct ?l" unfolding l by (auto simp: distinct_map inj_on_def seal_vtx_inject)
  moreover have "inj_on ?sel (set (from_sender seal_rd a))"
    by (auto simp: inj_on_def from_sender_def l sel seal_from_inject)
  ultimately have d: "distinct (map ?sel (from_sender seal_rd a))" by (simp add: distinct_map from_sender_def)
  have "set (map ?sel (from_sender seal_rd a)) \<subseteq> {[0x6f, 0xc5, 0xa2, 0xd6], [0xcf, 0xff, 0xe7, 0x46]}"
    by (auto simp: from_sender_def l sel)
  from card_mono [OF _ this] distinct_card [OF d] have "length (from_sender seal_rd a) \<le> 2" by simp
  with d show ?thesis by blast
qed

lemma seal_mempool_ok: "mempool_ok seal_crypto 0 seal_rd"
proof -
  have "distinct (map fst (validatorMempool seal_rd))"
    by (auto simp: seal_rd_simps distinct_map inj_on_def codec256.enc_inject seal_s_inject)
  moreover have "tv_from (seal_vtx b i) \<in> participants seal_rd" if "i < 4" for b i
    unfolding seal_from [OF that] participants_def using that by auto
  ultimately show ?thesis using seal_from_sender by (auto simp: mempool_ok_def seal_mempool seal_vtx_hash) (simp add: seal_vtx_def)
qed

lemma seal_state_inv: "node_inv seal_crypto seal_state"
proof -
  have "storage_inv seal_crypto (storage seal_state)"
    by (rule pushBack_inv [OF storage_inv_empty, of _ first_block])
      (simp_all add: pushBack_def seal_state_def Storage_empty_def first_block_members)
  moreover have "admissible (accounts seal_state) seal_pay"
    by (simp add: admissible_def seal_state_simps) (simp add: seal_pay_def demo_pay_def tx_cost_def u256_mul_def u256_add_def)
  ultimately show ?thesis
    using seal_mempool_ok by (simp add: node_inv_def seal_state_simps pool_ok_def first_block_members seal_rd_simps(2))
      (simp add: seal_rd_simps)
qed

lemma seal_functions:
  "getTxValidatorFunction (seal_vtx False i) = RANDOMHASH" "getTxValidatorFunction (seal_vtx True i) = RANDOMSEED"
  "sha3 seal_crypto (drop 4 (tv_data (seal_vtx True i))) = drop 4 (tv_data (seal_vtx False i))"
  by (simp_all add: getTxValidatorFunction_def seal_vtx_def seal_sha3 echo_sha3)

lemma seal_block_valid: "validateNextBlock seal_crypto seal_state seal_block = Inr True"
proof -
  have "inj_on (\<lambda>i. TxValidator_hash seal_crypto (txValidators seal_block ! i) True) {0..<4}"
    by (auto simp: inj_on_def seal_members nth_append seal_vtx_hash codec256.enc_inject seal_s_inject)
  then have "block_valid seal_crypto seal_rd seal_block"
    unfolding block_valid_def
    by (auto simp: seal_vtxs seal_proposer distinct_map seal_members nth_append seal_functions seal_from) (simp_all add: seal_rd_simps seal_vtx_def)
  moreover have "5 \<le> length (randomList seal_rd)" by (simp add: seal_rd_simps)
  ultimately have b: "validateBlock seal_crypto seal_rd seal_block = Inr True" using validateBlock_eq [of seal_rd seal_crypto seal_block] by simp
  have "validateTransactionInternal seal_crypto seal_state seal_pay = Inr NotInvalid"
    by (simp add: validateTransactionInternal_def seal_state_simps)
  moreover have "nHeight seal_block = nHeight first_block + 1" "\<not> timestamp first_block > timestamp seal_block"
    by (simp_all add: seal_members first_block_members) (simp add: first_block_def)
  ultimately show ?thesis using b by (simp add: validateNextBlock_def latest_def seal_state_simps seal_members)
qed

lemma seal_transfers:
  "\<forall>tx\<in>set (txs seal_block). \<not> isContractCall seal_state tx" "distinct (map tx_from (txs seal_block))"
  "accounts_ok (accounts seal_state)" "ledger_total (accounts seal_state) < 2 ^ 256"
  "\<forall>tx\<in>set (txs seal_block). \<forall>tx'. (tx_hash C tx, tx') \<in> set (mempool seal_state) \<longrightarrow> tx' = tx"
  by (simp_all add: seal_members seal_state_simps isContractCall_def contract_at_def demo_manager_simps accounts_ok_def ledger_total_def)
    (simp add: seal_pay_def demo_pay_def ProtocolContractAddresses_def manager_address_def rdPoS_address_def replicate_eq_replicate numeral_eq_Suc)

lemma seal_block_runs: "\<exists>S'. processNextBlock alist_rocks seal_crypto 2 seal_block seal_state = (S', Inr ())"
  using transfer_block_runs [OF _ seal_block_valid seal_transfers(3,4,2,1,5), of alist_rocks 2] seal_state_inv by (auto simp: node_inv_def)

lemma seal_block_new: "blockExists alist_rocks (database seal_state) (storage seal_state) (Block_hash seal_crypto seal_block) = NotFound"
proof -
  have "nHeight seal_block \<noteq> nHeight first_block" by (simp add: seal_members first_block_members)
  moreover have "Block_hash seal_crypto = Block_hash echo_crypto" by (rule ext) (simp add: Block_hash_def seal_sha3)
  ultimately have "Block_hash seal_crypto seal_block \<noteq> Block_hash seal_crypto first_block" using echo_header_height by metis
  moreover have "blockByHash (storage seal_state) h = (if h = Block_hash seal_crypto first_block then Some first_block else None)"
    "cachedBlocks (storage seal_state) h = None" "DB_has alist_rocks (database seal_state) h DBPrefix_blocks \<longleftrightarrow> False" for h
    by (simp_all add: seal_state_def index_block_def Storage_empty_def demo_state_def DB_has_def alist_rocks_def)
  ultimately show ?thesis by (simp only: blockExists_def if_False simp_thms)
qed

end
