(* ===== verification/Network.thy ===== *)
theory Network
  imports P2p_Manager Sample_Round
begin

text \<open>
  What the network can do to a node. Whatever bytes arrive on whatever sessions, the chain only grows by
  blocks that were validated, and the node sends every broadcast at most once to every peer. A new
  valid block is stored and passed on. The last part shows three defects of the managers.
\<close>

subsection \<open>Actions that stay within an order on states\<close>

definition steps_within :: "('n \<Rightarrow> 'n \<Rightarrow> bool) \<Rightarrow> ('n, 'a) action \<Rightarrow> bool" where
  "steps_within Q m \<longleftrightarrow> (\<forall>N N' r. m N = (N', r) \<longrightarrow> r \<noteq> Inl UndefinedBehaviour \<longrightarrow> Q N N')"

lemma steps_withinD: "steps_within Q m \<Longrightarrow> m N = (N', r) \<Longrightarrow> r \<noteq> Inl UndefinedBehaviour \<Longrightarrow> Q N N'"
  by (simp add: steps_within_def)

lemma steps_withinI: "(\<And>N N' r. m N = (N', r) \<Longrightarrow> r \<noteq> Inl UndefinedBehaviour \<Longrightarrow> Q N N') \<Longrightarrow> steps_within Q m"
  by (simp add: steps_within_def)

lemma steps_within_read: "(\<And>x. steps_within Q (m x)) \<Longrightarrow> steps_within Q (\<lambda>N. m (h N) N)"
  by (simp add: steps_within_def)

locale step_order =
  fixes Q :: "'n \<Rightarrow> 'n \<Rightarrow> bool"
  assumes refl: "Q N N" and trans: "Q N M \<Longrightarrow> Q M K \<Longrightarrow> Q N K"
begin

lemma lift: "steps_within Q (liftS r)"
  by (simp add: steps_within_def liftS_def refl)

lemma skips: "steps_within Q skip"
  by (simp add: steps_within_def skip_def refl)

lemma bind:
  assumes "steps_within Q m" and "\<And>x. steps_within Q (k x)"
  shows "steps_within Q (bindS m k)"
proof (rule steps_withinI)
  fix N N' r
  assume b: "bindS m k N = (N', r)" and r: "r \<noteq> Inl UndefinedBehaviour"
  from b show "Q N N'"
  proof (cases rule: bindS_cases)
    case (throws e)
    then show ?thesis using steps_withinD [OF assms(1)] r by simp
  next
    case (continues s1 x)
    then show ?thesis using steps_withinD [OF assms(1) continues(1)] steps_withinD [OF assms(2) continues(2) r] trans by blast
  qed
qed

lemma catch:
  assumes "steps_within Q m" and "steps_within Q h"
  shows "steps_within Q (try_catch m h)"
proof (rule steps_withinI)
  fix N N' r
  assume b: "try_catch m h N = (N', r)" and r: "r \<noteq> Inl UndefinedBehaviour"
  obtain s1 r1 where m: "m N = (s1, r1)" by fastforce
  show "Q N N'"
  proof (cases r1)
    case (Inl e)
    then have e: "e \<noteq> UndefinedBehaviour" "h s1 = (N', r)" using b r by (auto simp: try_catch_def m split: if_splits)
    then show ?thesis using steps_withinD [OF assms(1) m] steps_withinD [OF assms(2) e(2) r] trans Inl by blast
  next
    case (Inr x)
    then show ?thesis using b r steps_withinD [OF assms(1) m] by (auto simp: try_catch_def m)
  qed
qed

lemma choose: "steps_within Q m \<Longrightarrow> steps_within Q m' \<Longrightarrow> steps_within Q (if c then m else m')"
  by simp

lemma unless: "steps_within Q m \<Longrightarrow> steps_within Q (\<lambda>N. if c N then (N, Inr x) else m N)"
  by (auto simp: steps_within_def refl)

end

subsection \<open>What a base manager sends\<close>

text \<open>The broadcasts with identifier \<open>i\<close> that were written to peer \<open>k\<close>.\<close>

fun is_broadcast :: "wire_event \<Rightarrow> bool" where
  "is_broadcast (Write k m) \<longleftrightarrow> Message_type m = Inr Broadcasting"
| "is_broadcast (Close k) \<longleftrightarrow> False"
| "is_broadcast (Connect h p) \<longleftrightarrow> False"

fun carries :: "bytes \<Rightarrow> uint64 \<Rightarrow> wire_event \<Rightarrow> bool" where
  "carries k i (Write k' m) \<longleftrightarrow> k' = k \<and> Message_number m = Inr i"
| "carries k i (Close k') \<longleftrightarrow> False"
| "carries k i (Connect h p) \<longleftrightarrow> False"

definition sent :: "bytes \<Rightarrow> uint64 \<Rightarrow> wire_event list \<Rightarrow> nat" where
  "sent k i es = length (filter (\<lambda>e. is_broadcast e \<and> carries k i e) es)"

lemma sent_append: "sent k i (es @ es') = sent k i es + sent k i es'"
  by (simp add: sent_def)

lemma sent_quiet: "\<forall>e\<in>set es. \<not> is_broadcast e \<Longrightarrow> sent k i es = 0"
  by (auto simp: sent_def filter_empty_conv)

definition quiet :: "ManagerBase \<Rightarrow> ManagerBase \<Rightarrow> bool" where
  "quiet M M' \<longleftrightarrow> (distinct (map fst (mb_sessions M)) \<longrightarrow> distinct (map fst (mb_sessions M')))
     \<and> (\<exists>es. mb_wire M' = mb_wire M @ es \<and> (\<forall>e\<in>set es. \<not> is_broadcast e))"

interpretation base: step_order quiet
proof
  show "quiet M M" for M by (simp add: quiet_def)
next
  fix M M' M''
  assume "quiet M M'" "quiet M' M''"
  moreover from this obtain es es' where "mb_wire M' = mb_wire M @ es" "\<forall>e\<in>set es. \<not> is_broadcast e"
    "mb_wire M'' = mb_wire M' @ es'" "\<forall>e\<in>set es'. \<not> is_broadcast e" unfolding quiet_def by blast
  moreover from this have "mb_wire M'' = mb_wire M @ (es @ es')" "\<forall>e\<in>set (es @ es'). \<not> is_broadcast e" by auto
  ultimately show "quiet M M''" unfolding quiet_def by blast
qed

lemma quiet_emit: "\<forall>e\<in>set es. \<not> is_broadcast e \<Longrightarrow> quiet M (emit es M)"
  by (simp add: quiet_def emit_def)

lemma encode_message_type:
  assumes "encode_message t i c dat = Inr m" and "t \<noteq> RequestType3"
  shows "Message_type m = Inr t"
proof -
  obtain tp where t: "getRequestTypePrefix t = Inr tp" "length tp = 1" "getRequestType tp = Inr t" using request_prefix [OF assms(2)] by blast
  from assms(1) obtain cp where "rawMessage m = tp @ i @ cp @ dat"
    by (auto simp: encode_message_def t Message_new_def split: if_splits)
  then show ?thesis using t by (simp add: Message_type_def substr_def)
qed

lemma answer_not_broadcast:
  "AnswerEncoder_ping q = Inr m \<Longrightarrow> Message_type m \<noteq> Inr Broadcasting"
  "AnswerEncoder_info C q b v e = Inr m \<Longrightarrow> Message_type m \<noteq> Inr Broadcasting"
  "AnswerEncoder_requestNodes q nodes = Inr m \<Longrightarrow> Message_type m \<noteq> Inr Broadcasting"
  "AnswerEncoder_requestValidatorTxs q pool = Inr m \<Longrightarrow> Message_type m \<noteq> Inr Broadcasting"
  by (auto simp: AnswerEncoder_ping_def AnswerEncoder_info_def AnswerEncoder_requestNodes_def AnswerEncoder_requestValidatorTxs_def
      dest!: encode_message_type)

lemma delete_distinct: "distinct (map fst es) \<Longrightarrow> distinct (map fst (AList.delete k es))"
  by (simp add: AList.delete_eq distinct_map_filter)

lemma quiet_close: "steps_within quiet (close_session s)"
  by (rule steps_withinI) (auto simp: close_session_def disconnectSession_def quiet_def emit_def delete_distinct)

lemma quiet_answer: "(\<And>m. r = Inr m \<Longrightarrow> Message_type m \<noteq> Inr Broadcasting) \<Longrightarrow> steps_within quiet (bindS (liftS r) (answerSession s))"
  by (cases r) (auto simp: steps_within_def answerSession_def liftS_def base.refl intro!: quiet_emit split: if_splits)

lemma quiet_if_valid: "steps_within quiet m \<Longrightarrow> steps_within quiet (if_valid r s m)"
  unfolding if_valid_def by (intro base.bind base.lift base.choose quiet_close)

lemma quiet_accept: "steps_within quiet (accept_answer s m)"
proof -
  let ?set = "\<lambda>i rq. bindS (liftS (setAnswer rq m)) (\<lambda>rq' M. (M\<lparr>mb_requests := (mb_requests M)(i \<mapsto> rq')\<rparr>, Inr ()))"
  have u: "steps_within quiet (?set i rq)" for i rq
    by (intro base.bind base.lift) (simp add: steps_within_def quiet_def)
  have "steps_within quiet (\<lambda>M. case mb_requests M i of None \<Rightarrow> close_session s M | Some rq \<Rightarrow> ?set i rq M)" for i
  proof (rule steps_withinI)
    fix M M' r
    assume a: "(case mb_requests M i of None \<Rightarrow> close_session s M | Some rq \<Rightarrow> ?set i rq M) = (M', r)" and r: "r \<noteq> Inl UndefinedBehaviour"
    show "quiet M M'"
    proof (cases "mb_requests M i")
      case None
      then show ?thesis using steps_withinD [OF quiet_close _ r] a by simp
    next
      case (Some rq)
      then show ?thesis using steps_withinD [OF u _ r] a by simp
    qed
  qed
  then show ?thesis unfolding accept_answer_def by (intro base.bind base.lift)
qed

lemma quiet_ping: "steps_within quiet (handlePingRequest s m)"
  unfolding handlePingRequest_def by (rule quiet_if_valid, rule quiet_answer, erule answer_not_broadcast)

lemma quiet_nodes: "steps_within quiet (handleRequestNodesRequest s m)"
  unfolding handleRequestNodesRequest_def
  by (rule quiet_if_valid, rule steps_within_read [where h = "\<lambda>M. map session_entry (mb_sessions M)"
        and m = "\<lambda>nodes. bindS (liftS (AnswerEncoder_requestNodes m nodes)) (answerSession s)"])
    (rule quiet_answer, erule answer_not_broadcast)

lemma quiet_send:
  assumes "Message_type m \<noteq> Inr Broadcasting"
  shows "steps_within quiet (sendMessageTo k m)"
  by (rule steps_withinI)
    (use assms in \<open>auto simp: sendMessageTo_def bindS_def liftS_def base.refl quiet_def emit_def split: if_splits option.splits sum.splits\<close>)

lemmas quiet_handlers = quiet_close quiet_accept quiet_ping quiet_nodes

subsection \<open>Each broadcast once\<close>

definition seen :: "uint64 \<Rightarrow> 's NormalNode \<Rightarrow> bool" where
  "seen i N \<longleftrightarrow> (case nd_broadcasted N i of Some n \<Rightarrow> n > 0 | None \<Rightarrow> False)"

definition gossip_ok :: "'s NormalNode \<Rightarrow> bool" where
  "gossip_ok N \<longleftrightarrow> distinct (map fst (mb_sessions (nd_base N)))
     \<and> (\<forall>k i. sent k i (mb_wire (nd_base N)) \<le> (if seen i N then 1 else 0))"

definition gossip_step :: "'s NormalNode \<Rightarrow> 's NormalNode \<Rightarrow> bool" where
  "gossip_step N N' \<longleftrightarrow> (gossip_ok N \<longrightarrow> gossip_ok N')"

interpretation gossip: step_order gossip_step
  by unfold_locales (simp_all add: gossip_step_def)

lemma gossip_quiet:
  assumes "quiet (nd_base N) M"
  shows "gossip_step N (N\<lparr>nd_base := M\<rparr>)"
  using assms unfolding gossip_step_def gossip_ok_def quiet_def by (auto simp: seen_def sent_append sent_quiet)

lemma gossip_base: "steps_within quiet m \<Longrightarrow> steps_within gossip_step (on_base m)"
  by (rule steps_withinI) (auto simp: on_base_def intro!: gossip_quiet dest: steps_withinD split: prod.splits)

lemma gossip_state: "steps_within gossip_step (on_state m)"
  by (rule steps_withinI) (auto simp: on_state_def gossip_step_def gossip_ok_def seen_def split: prod.splits)

lemma gossip_state_result: "steps_within gossip_step (state_result f)"
  unfolding state_result_def by (rule gossip_state)

lemma sent_writes: "distinct ks \<Longrightarrow> sent k i (map (\<lambda>k. Write k m) ks) \<le> 1"
proof -
  assume d: "distinct ks"
  have "sent k i (map (\<lambda>k. Write k m) ks) \<le> length (filter (\<lambda>k'. k' = k) ks)"
    unfolding sent_def by (induction ks) auto
  also have "\<dots> \<le> 1" using d distinct_card [OF distinct_filter [OF d, of "\<lambda>k'. k' = k"]] card_mono [of "{k}" "set (filter (\<lambda>k'. k' = k) ks)"] by auto
  finally show ?thesis .
qed

lemma sent_other: "Message_number m = Inr j \<Longrightarrow> i \<noteq> j \<Longrightarrow> sent k i (map (\<lambda>k. Write k m) ks) = 0"
  by (auto simp: sent_def filter_empty_conv)

lemma distinct_normal: "distinct (map fst (mb_sessions M)) \<Longrightarrow> distinct (normal_sessions M)"
  by (simp add: normal_sessions_def distinct_map_filter)

text \<open>The two outcomes of \<^verbatim>\<open>broadcastMessage\<close> on an open manager.\<close>

definition marked :: "uint64 \<Rightarrow> Message \<Rightarrow> 's NormalNode \<Rightarrow> 's NormalNode" where
  "marked i m N = N\<lparr>nd_broadcasted := (nd_broadcasted N)(i \<mapsto> 1),
     nd_base := emit (map (\<lambda>k. Write k m) (normal_sessions (nd_base N))) (nd_base N)\<rparr>"

lemma broadcastMessage_eq:
  assumes "\<not> mb_closed (nd_base N)" and "Message_number m = Inr i"
  shows "broadcastMessage m N = (if seen i N then N else marked i m N, Inr ())"
proof -
  have z: "\<not> 0 < n \<Longrightarrow> n = 0" for n :: uint32 by (simp add: word_gt_0)
  have s: "liftS (Inr i) N = (N, Inr i)" by (simp add: liftS_def)
  show ?thesis
  proof (cases "nd_broadcasted N i")
    case None
    then show ?thesis using assms
      by (simp add: broadcastMessage_def seen_def index_default_def marked_def)
  next
    case (Some n)
    then have "nd_broadcasted N = (nd_broadcasted N)(i \<mapsto> n)" by auto
    with Some z [of n] show ?thesis using assms
      by (cases "0 < n") (simp_all add: broadcastMessage_def seen_def index_default_def marked_def)
  qed
qed

lemma broadcastMessage_closed: "mb_closed (nd_base N) \<Longrightarrow> broadcastMessage m N = (N, Inr ())"
  by (simp add: broadcastMessage_def)

lemma broadcastMessage_fails: "Message_number m = Inl e \<Longrightarrow> broadcastMessage m N = (N', r) \<Longrightarrow> N' = N"
  by (auto simp: broadcastMessage_def bindS_def liftS_def split: if_splits)

lemma gossip_broadcast: "steps_within gossip_step (broadcastMessage m)"
proof (rule steps_withinI)
  fix N N' r
  assume b: "broadcastMessage m N = (N', r)"
  show "gossip_step N N'"
  proof (cases "Message_number m")
    case (Inl e)
    with broadcastMessage_fails b show ?thesis using gossip.refl by metis
  next
    case (Inr i)
    consider "N' = N" | "N' = marked i m N" "\<not> seen i N"
      using b broadcastMessage_eq [OF _ Inr, of N] broadcastMessage_closed [of N m] by (cases "mb_closed (nd_base N)") (auto split: if_splits)
    then show ?thesis
    proof cases
      case 2
      have "gossip_ok (marked i m N)" if g: "gossip_ok N"
      proof -
        have d: "distinct (normal_sessions (nd_base N))" using g by (simp add: gossip_ok_def distinct_normal)
        have "sent k j (mb_wire (nd_base N) @ map (\<lambda>k. Write k m) (normal_sessions (nd_base N))) \<le> (if seen j (marked i m N) then 1 else 0)" for k j
        proof (cases "j = i")
          case True
          have "sent k i (mb_wire (nd_base N)) = 0" using g 2(2) unfolding gossip_ok_def by (metis le_zero_eq)
          with sent_writes [OF d, of k i m] True show ?thesis by (simp add: sent_append seen_def marked_def)
        next
          case False
          then have "seen j (marked i m N) = seen j N" by (simp add: seen_def marked_def)
          with g sent_other [OF Inr False] show ?thesis by (simp add: sent_append gossip_ok_def)
        qed
        then show ?thesis using g by (simp add: gossip_ok_def marked_def emit_def)
      qed
      with 2 show ?thesis by (simp add: gossip_step_def)
    qed (simp add: gossip.refl)
  qed
qed

text \<open>The handlers of a normal node are made of these pieces.\<close>

lemma gossip_info: "steps_within gossip_step (handleInfoRequest C E s m)"
proof -
  have q: "steps_within gossip_step (bindS (liftS r) (\<lambda>a. on_base (answerSession s a)))"
    if "\<And>a. r = Inr a \<Longrightarrow> Message_type a \<noteq> Inr Broadcasting" for r
  proof (cases r)
    case (Inr a)
    then have "steps_within quiet (answerSession s a)"
      using that by (auto simp: steps_within_def answerSession_def base.refl intro!: quiet_emit split: if_splits)
    then show ?thesis using Inr by (simp add: gossip_base)
  qed (simp add: gossip.lift)
  let ?answer = "\<lambda>st. bindE (latest st) (\<lambda>b. AnswerEncoder_info C m b (env_version E) (env_epoch E))"
  have "steps_within gossip_step (bindS (liftS (?answer st)) (\<lambda>a. on_base (answerSession s a)))" for st
    by (rule q) (auto dest: answer_not_broadcast(2))
  from steps_within_read [where h = "\<lambda>N. storage (nd_state N)", OF this]
  show ?thesis unfolding handleInfoRequest_def by (intro gossip.bind gossip.lift)
qed

lemma gossip_txs_request: "steps_within gossip_step (handleTxValidatorRequest s m)"
proof -
  have "steps_within gossip_step (on_base (if_valid (RequestDecoder_requestValidatorTxs m) s
       (bindS (liftS (AnswerEncoder_requestValidatorTxs m pool)) (answerSession s))))" for pool
    by (rule gossip_base, rule quiet_if_valid, rule quiet_answer, erule answer_not_broadcast)
  from steps_within_read [where h = "\<lambda>N. validatorMempool (rdpos (nd_state N))", OF this]
  show ?thesis unfolding handleTxValidatorRequest_def .
qed

lemma gossip_request: "steps_within gossip_step (handleRequest C E s m)"
  unfolding handleRequest_def
  by (intro gossip.bind gossip.lift gossip.choose gossip_info gossip_txs_request gossip_base quiet_handlers)

lemma gossip_answer: "steps_within gossip_step (handleAnswer s m)"
  unfolding handleAnswer_def handlePingAnswer_def handleInfoAnswer_def handleRequestNodesAnswer_def handleTxValidatorAnswer_def
  by (intro gossip.bind gossip.lift gossip_base base.choose quiet_handlers)

lemma gossip_validator_broadcast: "steps_within gossip_step (handleTxValidatorBroadcast C s m)"
proof -
  have "steps_within gossip_step (bindS (liftS (BroadcastDecoder_broadcastValidatorTx C m cid)) (\<lambda>tx.
      bindS (state_result (\<lambda>S. State_addValidatorTx C S tx)) (\<lambda>ok. if ok then broadcastMessage m else skip)))" for cid
    by (intro gossip.bind gossip.lift gossip_state_result gossip.choose gossip_broadcast gossip.skips)
  from steps_within_read [where h = "\<lambda>N. chainID (nd_state N)", OF this] show ?thesis
    unfolding handleTxValidatorBroadcast_def by (intro gossip.catch gossip_base quiet_close)
qed

lemma gossip_tx_broadcast: "steps_within gossip_step (handleTxBroadcast C s m)"
proof -
  have "steps_within gossip_step (bindS (liftS (BroadcastDecoder_broadcastTx C m cid)) (\<lambda>tx.
      bindS (state_result (\<lambda>S. addTx C S tx)) (\<lambda>v. if v = NotInvalid then broadcastMessage m else skip)))" for cid
    by (intro gossip.bind gossip.lift gossip_state_result gossip.choose gossip_broadcast gossip.skips)
  from steps_within_read [where h = "\<lambda>N. chainID (nd_state N)", OF this] show ?thesis
    unfolding handleTxBroadcast_def by (intro gossip.catch gossip_base quiet_close)
qed

text \<open>The body of the block handler as a function of the state it reads.\<close>

definition block_step ::
  "'s rocksdb \<Rightarrow> crypto \<Rightarrow> nat \<Rightarrow> Message \<Rightarrow> Block \<Rightarrow> 's State \<Rightarrow> ('s NormalNode, bool option) action" where
  "block_step R C depth m block S =
     (if blockExists R (database S) (storage S) (Block_hash C block) \<noteq> NotFound
      then bindS (liftS (latest (storage S))) (\<lambda>_. liftS (Inr None))
      else bindS (liftS (validateNextBlock C S block)) (\<lambda>ok.
        if \<not> ok then liftS (Inr (Some False))
        else bindS (on_state (processNextBlock R C depth block)) (\<lambda>_.
             bindS (broadcastMessage m) (\<lambda>_. liftS (Inr (Some True))))))"

lemma receive_block_eq:
  "receive_block R C depth E m N =
     bindS (liftS (BroadcastDecoder_broadcastBlock C (env_threads E) m (chainID (nd_state N))))
       (\<lambda>block N. block_step R C depth m block (nd_state N) N) N"
  by (simp only: receive_block_def block_step_def Let_def if_distribR)

lemma gossip_block_step: "steps_within gossip_step (block_step R C depth m block S)"
  unfolding block_step_def by (intro gossip.choose gossip.bind gossip.lift gossip_state gossip_broadcast)

lemma gossip_receive_block: "steps_within gossip_step (receive_block R C depth E m)"
proof -
  have "steps_within gossip_step (\<lambda>N. block_step R C depth m block (nd_state N) N)" for block
    by (rule steps_within_read) (rule gossip_block_step)
  then have "steps_within gossip_step (bindS (liftS (BroadcastDecoder_broadcastBlock C (env_threads E) m cid))
      (\<lambda>block N. block_step R C depth m block (nd_state N) N))" for cid
    by (intro gossip.bind gossip.lift)
  from steps_within_read [where h = "\<lambda>N. chainID (nd_state N)", OF this] show ?thesis
    unfolding steps_within_def receive_block_eq .
qed

lemma gossip_block_broadcast: "steps_within gossip_step (handleBlockBroadcast R C depth E s m)"
  unfolding handleBlockBroadcast_def
  by (intro gossip.bind gossip.catch gossip.lift gossip_receive_block gossip_base quiet_close gossip.choose gossip_broadcast gossip.skips)

lemma gossip_handle_broadcast: "steps_within gossip_step (handleBroadcast R C depth E s m)"
  unfolding handleBroadcast_def
  by (intro gossip.unless gossip.bind gossip.lift gossip.choose gossip_validator_broadcast gossip_tx_broadcast gossip_block_broadcast
      gossip_base quiet_close)

lemma gossip_message: "steps_within gossip_step (handleMessage R C depth E s m)"
  unfolding handleMessage_def
  by (intro gossip.unless gossip.bind gossip.lift gossip.choose gossip_request gossip_answer gossip_handle_broadcast gossip_base quiet_close)

lemma gossip_read: "steps_within gossip_step (on_read R C depth E s buf)"
  using gossip_message [of R C depth E s] gossip.refl
  by (auto simp: on_read_def steps_within_def Message_new_def)

subsection \<open>The chain only grows\<close>

definition chain_step :: "crypto \<Rightarrow> 's NormalNode \<Rightarrow> 's NormalNode \<Rightarrow> bool" where
  "chain_step C N N' \<longleftrightarrow> (node_safe C (nd_state N) \<longrightarrow> node_safe C (nd_state N')
     \<and> (\<exists>new. st_chain (storage (nd_state N')) = st_chain (storage (nd_state N)) @ new))"

interpretation chain: step_order "chain_step C" for C
proof
  show "chain_step C N N" for N by (simp add: chain_step_def)
  show "chain_step C N K" if "chain_step C N M" "chain_step C M K" for N M K
    using that unfolding chain_step_def by (metis append_assoc)
qed

lemma chain_same: "nd_state N' = nd_state N \<Longrightarrow> chain_step C N N'"
  by (simp add: chain_step_def)

lemma chain_base: "steps_within (chain_step C) (on_base m)"
  by (rule steps_withinI) (auto simp: on_base_def intro: chain_same split: prod.splits)

lemma broadcast_state: "broadcastMessage m N = (N', r) \<Longrightarrow> nd_state N' = nd_state N"
  by (auto simp: broadcastMessage_def bindS_def liftS_def Let_def split: if_splits sum.splits prod.splits)

lemma chain_broadcast: "steps_within (chain_step C) (broadcastMessage m)"
  by (rule steps_withinI) (auto intro: chain_same dest: broadcast_state)

lemma state_result_cases:
  assumes "state_result f N = (N', r)"
  obtains e where "f (nd_state N) = Inl e" "N' = N" | S' x where "f (nd_state N) = Inr (S', x)" "N' = N\<lparr>nd_state := S'\<rparr>"
  using assms by (auto simp: state_result_def on_state_def split: sum.splits prod.splits)

lemma chain_addTx: "steps_within (chain_step C) (state_result (\<lambda>S. addTx C S tx))"
proof (rule steps_withinI)
  fix N N' r
  assume "state_result (\<lambda>S. addTx C S tx) N = (N', r)"
  then show "chain_step C N N'"
  proof (cases rule: state_result_cases)
    case (2 S' v)
    moreover have "storage S' = storage (nd_state N)" using 2(1) by (cases rule: addTx_cases) auto
    ultimately show ?thesis using node_safe_tx [OF _ 2(1)] by (simp add: chain_step_def)
  qed (simp add: chain.refl)
qed

lemma chain_addValidatorTx: "steps_within (chain_step C) (state_result (\<lambda>S. State_addValidatorTx C S tx))"
proof (rule steps_withinI)
  fix N N' r
  assume "state_result (\<lambda>S. State_addValidatorTx C S tx) N = (N', r)"
  then show "chain_step C N N'"
  proof (cases rule: state_result_cases)
    case (2 S' v)
    then show ?thesis using node_safe_validator_tx [OF _ 2(1)] by (auto simp: chain_step_def)
  qed (simp add: chain.refl)
qed

text \<open>A parsed block has at most one transaction per four bytes.\<close>

lemma count_items_bound: "count_items bs i lim = Inr n \<Longrightarrow> n = 0 \<or> i + 4 * n \<le> length bs"
proof (induction bs i lim arbitrary: n rule: count_items.induct)
  case (1 bs i lim)
  show ?case
  proof (cases "i < lim")
    case True
    with "1.prems" obtain k n' where k: "item_size bs i = Inr k" and n: "count_items bs (i + k + 4) lim = Inr n'" "n = Suc n'"
      by (subst (asm) count_items.simps) auto
    from k have "i + 4 \<le> length bs" by (auto simp: item_size_def substr_def bytesToUint32_def split: if_splits)
    with "1.IH" [OF True n(1)] n(2) show ?thesis by auto
  qed (use "1.prems" in \<open>simp add: count_items.simps\<close>)
qed

lemma length_parse_items: "parse_items p bs i n = Inr (xs, j) \<Longrightarrow> length xs = n"
  by (induction n arbitrary: i xs) auto

lemma Block_parse_size:
  assumes "Block_parse C thrNum bs cid = Inr b"
  shows "length (txs b) \<le> length bs"
proof -
  from assms obtain lim n ts b1 where c: "count_items bs 217 lim = Inr n" and p: "Block_parse_txs C thrNum bs cid n = Inr ts"
    and b: "Block_checks C b1 = Inr b" "txs b1 = ts"
    by (auto simp: Block_parse_def rethrow_def split: sum.splits if_splits)
  have "length ts = n" using p length_parse_items unfolding Block_parse_txs_sequential [OF c] by fastforce
  moreover have "txs b = ts" using b by (auto simp: Block_checks_def if_Inl_eq_Inr)
  ultimately show ?thesis using count_items_bound [OF c] by auto
qed

lemma expect_broadcast_size: "expect_broadcast c m = Inr dat \<Longrightarrow> length dat \<le> Message_size m"
  by (auto simp: expect_broadcast_def Message_message_def Message_size_def substr_def split: if_splits)

lemma received_block_size: "BroadcastDecoder_broadcastBlock C thr m cid = Inr b \<Longrightarrow> length (txs b) \<le> Message_size m"
  by (auto simp: BroadcastDecoder_broadcastBlock_def dest!: expect_broadcast_size Block_parse_size)

lemma new_block_fresh:
  assumes "storage_inv C st" and "blockExists R db st (Block_hash C b) = NotFound"
  shows "Block_hash C b \<notin> Block_hash C ` set (st_chain st)"
proof
  assume "Block_hash C b \<in> Block_hash C ` set (st_chain st)"
  then have "blockByHash st (Block_hash C b) \<noteq> None" using storage_inv_block [OF assms(1)] by force
  with assms(2) show False by (simp add: blockExists_def split: if_splits)
qed

lemma chain_process:
  assumes "blockExists R (database (nd_state N)) (storage (nd_state N)) (Block_hash C b) = NotFound" and "length (txs b) < 2 ^ 32"
    and p: "on_state (processNextBlock R C depth b) N = (N', r)"
  shows "chain_step C N N'"
proof -
  obtain S' where q: "processNextBlock R C depth b (nd_state N) = (S', r)" and N': "N' = N\<lparr>nd_state := S'\<rparr>"
    using p by (auto simp: on_state_def split: prod.splits)
  have "node_safe C S' \<and> (\<exists>new. st_chain (storage S') = st_chain (storage (nd_state N)) @ new)" if safe: "node_safe C (nd_state N)"
  proof -
    have inv: "pool_keyed C (nd_state N)" "storage_inv C (storage (nd_state N))" using safe by (simp_all add: node_safe_def)
    from processNextBlock_all_or_core [OF inv(1) q] show ?thesis
    proof
      assume "r = Inr ()"
      with q have q: "processNextBlock R C depth b (nd_state N) = (S', Inr ())" by simp
      show ?thesis
        using node_safe_block [OF safe q new_block_fresh [OF inv(2) assms(1)] assms(2)] pushBack_chain [OF processNextBlock_effect(2) [OF inv(1) q]]
        by simp
    next
      assume "core S' = core (nd_state N)"
      with safe show ?thesis by (simp add: core_def node_safe_def pool_keyed_def)
    qed
  qed
  then show ?thesis by (simp add: chain_step_def N')
qed

lemma chain_receive:
  assumes "Message_size m < 2 ^ 32"
  shows "steps_within (chain_step C) (receive_block R C depth E m :: ('s NormalNode, bool option) action)"
proof (rule steps_withinI)
  fix N N' :: "'s NormalNode" and r
  let ?dec = "BroadcastDecoder_broadcastBlock C (env_threads E) m (chainID (nd_state N))"
  assume b: "receive_block R C depth E m N = (N', r)" and r: "r \<noteq> Inl UndefinedBehaviour"
  show "chain_step C N N'"
  proof (cases ?dec)
    case (Inl e)
    with b show ?thesis by (simp add: receive_block_eq liftS_def chain.refl)
  next
    case (Inr block)
    then have small: "length (txs block) < 2 ^ 32" using received_block_size assms by (metis le_less_trans)
    have step: "block_step R C depth m block (nd_state N) N = (N', r)" using b Inr by (simp add: receive_block_eq)
    let ?S = "nd_state N"
    let ?tail = "\<lambda>_. bindS (broadcastMessage m) (\<lambda>_. liftS (Inr (Some True)))"
    have tail: "steps_within (chain_step C) (?tail u)" for u by (intro chain.bind chain.lift chain_broadcast)
    show ?thesis
    proof (cases "blockExists R (database ?S) (storage ?S) (Block_hash C block) = NotFound \<and> validateNextBlock C ?S block = Inr True")
      case True
      then have "bindS (on_state (processNextBlock R C depth block)) ?tail N = (N', r)" using step by (simp add: block_step_def)
      then show ?thesis
      proof (cases rule: bindS_cases)
        case (throws e)
        then show ?thesis using chain_process [OF _ small] True by blast
      next
        case (continues N1 x)
        then show ?thesis using chain_process [OF _ small continues(1)] steps_withinD [OF tail continues(2) r] True chain.trans by blast
      qed
    next
      case False
      then have "N' = N" using step
        by (cases "latest (storage ?S)"; cases "validateNextBlock C ?S block") (auto simp: block_step_def liftS_def split: if_splits)
      then show ?thesis by (simp add: chain.refl)
    qed
  qed
qed

lemma chain_block_broadcast:
  "Message_size m < 2 ^ 32 \<Longrightarrow> steps_within (chain_step C) (handleBlockBroadcast R C depth E s m)"
  unfolding handleBlockBroadcast_def
  by (intro chain.bind chain.catch chain.lift chain_receive chain_base chain.choose chain_broadcast chain.skips)

lemma chain_validator_broadcast: "steps_within (chain_step C) (handleTxValidatorBroadcast C s m)"
proof -
  have "steps_within (chain_step C) (bindS (liftS (BroadcastDecoder_broadcastValidatorTx C m cid)) (\<lambda>tx.
      bindS (state_result (\<lambda>S. State_addValidatorTx C S tx)) (\<lambda>ok. if ok then broadcastMessage m else skip)))" for cid
    by (intro chain.bind chain.lift chain_addValidatorTx chain.choose chain_broadcast chain.skips)
  from steps_within_read [where h = "\<lambda>N. chainID (nd_state N)", OF this] show ?thesis
    unfolding handleTxValidatorBroadcast_def by (intro chain.catch chain_base)
qed

lemma chain_tx_broadcast: "steps_within (chain_step C) (handleTxBroadcast C s m)"
proof -
  have "steps_within (chain_step C) (bindS (liftS (BroadcastDecoder_broadcastTx C m cid)) (\<lambda>tx.
      bindS (state_result (\<lambda>S. addTx C S tx)) (\<lambda>v. if v = NotInvalid then broadcastMessage m else skip)))" for cid
    by (intro chain.bind chain.lift chain_addTx chain.choose chain_broadcast chain.skips)
  from steps_within_read [where h = "\<lambda>N. chainID (nd_state N)", OF this] show ?thesis
    unfolding handleTxBroadcast_def by (intro chain.catch chain_base)
qed

lemma chain_request: "steps_within (chain_step C) (handleRequest C E s m)"
proof -
  have "steps_within (chain_step C) (bindS (liftS r) (\<lambda>a. on_base (answerSession s a)))" for r
    by (intro chain.bind chain.lift chain_base)
  from steps_within_read [where h = "\<lambda>N. bindE (latest (storage (nd_state N))) (\<lambda>b. AnswerEncoder_info C m b (env_version E) (env_epoch E))", OF this]
  have "steps_within (chain_step C) (handleInfoRequest C E s m)" unfolding handleInfoRequest_def by (intro chain.bind chain.lift)
  moreover have "steps_within (chain_step C) (handleTxValidatorRequest s m)"
    unfolding handleTxValidatorRequest_def
    by (rule steps_within_read [where m = "\<lambda>pool. on_base (if_valid (RequestDecoder_requestValidatorTxs m) s
       (bindS (liftS (AnswerEncoder_requestValidatorTxs m pool)) (answerSession s)))"]) (rule chain_base)
  ultimately show ?thesis
    unfolding handleRequest_def by (intro chain.bind chain.lift chain.choose chain_base)
qed

lemma chain_message:
  assumes "Message_size m < 2 ^ 32"
  shows "steps_within (chain_step C) (handleMessage R C depth E s m)"
proof -
  have "steps_within (chain_step C) (handleBroadcast R C depth E s m)"
    unfolding handleBroadcast_def
    by (intro chain.unless chain.bind chain.lift chain.choose chain_validator_broadcast chain_tx_broadcast chain_block_broadcast [OF assms] chain_base)
  moreover have "steps_within (chain_step C) (handleAnswer s m)"
    unfolding handleAnswer_def by (intro chain.bind chain.lift chain_base)
  ultimately show ?thesis
    unfolding handleMessage_def by (intro chain.unless chain.bind chain.lift chain.choose chain_request chain_base)
qed

lemma chain_read:
  assumes "length buf < 2 ^ 32"
  shows "steps_within (chain_step C) (on_read R C depth E s buf)"
proof -
  have "Message_size \<lparr>rawMessage = buf\<rparr> < 2 ^ 32" using assms by (simp add: Message_size_def)
  from chain_message [OF this, of C R depth E s] chain.refl show ?thesis
    by (auto simp: on_read_def steps_within_def Message_new_def)
qed

subsection \<open>Runs\<close>

text \<open>Messages arrive, sessions come and go, requests go out, local transactions are added and announced.
  A step whose behaviour is undefined is not a step of the relation.\<close>

inductive net_reach :: "'s rocksdb \<Rightarrow> crypto \<Rightarrow> nat \<Rightarrow> 's NormalNode \<Rightarrow> 's NormalNode \<Rightarrow> bool" for R C depth N0 where
  start: "net_reach R C depth N0 N0"
| receive: "net_reach R C depth N0 N \<Longrightarrow> on_read R C depth E s buf N = (N', r) \<Longrightarrow> r \<noteq> Inl UndefinedBehaviour \<Longrightarrow>
    length buf < 2 ^ 32 \<Longrightarrow> net_reach R C depth N0 N'"
| register: "net_reach R C depth N0 N \<Longrightarrow> net_reach R C depth N0 (N\<lparr>nd_base := fst (registerSession s (nd_base N))\<rparr>)"
| unregister: "net_reach R C depth N0 N \<Longrightarrow> net_reach R C depth N0 (N\<lparr>nd_base := fst (unregisterSession s (nd_base N))\<rparr>)"
| connect: "net_reach R C depth N0 N \<Longrightarrow> net_reach R C depth N0 (N\<lparr>nd_base := connectToServer host port (nd_base N)\<rparr>)"
| request: "net_reach R C depth N0 N \<Longrightarrow> on_base (sendMessageTo k m) N = (N', r) \<Longrightarrow> Message_type m = Inr Requesting \<Longrightarrow>
    r \<noteq> Inl UndefinedBehaviour \<Longrightarrow> net_reach R C depth N0 N'"
| local_tx: "net_reach R C depth N0 N \<Longrightarrow> state_result (\<lambda>S. addTx C S tx) N = (N', r) \<Longrightarrow> r \<noteq> Inl UndefinedBehaviour \<Longrightarrow>
    net_reach R C depth N0 N'"
| local_validator_tx: "net_reach R C depth N0 N \<Longrightarrow> state_result (\<lambda>S. State_addValidatorTx C S vtx) N = (N', r) \<Longrightarrow>
    r \<noteq> Inl UndefinedBehaviour \<Longrightarrow> net_reach R C depth N0 N'"
| announce: "net_reach R C depth N0 N \<Longrightarrow> a \<in> {broadcastTxBlock tx, broadcastTxValidator vtx, broadcastBlock b} \<Longrightarrow> a N = (N', r) \<Longrightarrow>
    r \<noteq> Inl UndefinedBehaviour \<Longrightarrow> net_reach R C depth N0 N'"

lemma quiet_register: "quiet M (fst (registerSession s M))"
  by (auto simp: registerSession_def quiet_def Let_def map_of_eq_None_iff)

lemma quiet_unregister: "quiet M (fst (unregisterSession s M))"
  by (auto simp: unregisterSession_def quiet_def Let_def delete_distinct)

lemma quiet_connect: "quiet M (connectToServer h p M)"
  by (auto simp: connectToServer_def quiet_def emit_def)

lemma announce_within:
  assumes "step_order Q" and "\<And>m. steps_within Q (broadcastMessage m)" and "a \<in> {broadcastTxBlock tx, broadcastTxValidator vtx, broadcastBlock b}"
  shows "steps_within Q a"
  using assms(3) step_order.bind [OF assms(1) step_order.lift [OF assms(1)] assms(2)]
  by (auto simp: broadcastTxBlock_def broadcastTxValidator_def broadcastBlock_def)

lemma net_reach_gossip: "net_reach R C depth N0 N \<Longrightarrow> gossip_step N0 N"
proof (induction rule: net_reach.induct)
  case start
  show ?case by (rule gossip.refl)
next
  case (receive N E s buf N' r)
  then show ?case using steps_withinD [OF gossip_read] gossip.trans by blast
next
  case (register N s)
  then show ?case using gossip_quiet [OF quiet_register] gossip.trans by blast
next
  case (unregister N s)
  then show ?case using gossip_quiet [OF quiet_unregister] gossip.trans by blast
next
  case (connect N host port)
  then show ?case using gossip_quiet [OF quiet_connect] gossip.trans by blast
next
  case (request N k m N' r)
  then have "Message_type m \<noteq> Inr Broadcasting" by simp
  from steps_withinD [OF gossip_base [OF quiet_send [OF this]] request.hyps(2,4)] show ?case using request.IH gossip.trans by blast
next
  case (local_tx N tx N' r)
  then show ?case using steps_withinD [OF gossip_state_result] gossip.trans by blast
next
  case (local_validator_tx N vtx N' r)
  then show ?case using steps_withinD [OF gossip_state_result] gossip.trans by blast
next
  case (announce N a tx vtx b N' r)
  then show ?case
    using steps_withinD [OF announce_within [OF gossip.step_order_axioms gossip_broadcast]] gossip.trans by blast
qed

lemma net_reach_chain: "net_reach R C depth N0 N \<Longrightarrow> chain_step C N0 N"
proof (induction rule: net_reach.induct)
  case start
  show ?case by (rule chain.refl)
next
  case (receive N E s buf N' r)
  then show ?case using steps_withinD [OF chain_read] chain.trans by blast
next
  case (request N k m N' r)
  then show ?case using steps_withinD [OF chain_base] chain.trans by blast
next
  case (local_tx N tx N' r)
  then show ?case using steps_withinD [OF chain_addTx] chain.trans by blast
next
  case (local_validator_tx N vtx N' r)
  then show ?case using steps_withinD [OF chain_addValidatorTx] chain.trans by blast
next
  case (announce N a tx vtx b N' r)
  then show ?case
    using steps_withinD [OF announce_within [OF chain.step_order_axioms chain_broadcast]] chain.trans by blast
qed (simp_all add: chain_step_def)

text \<open>C5. Whatever bytes arrive on whatever sessions, in whatever order, mixed with local transactions and
  requests: the chain stays linked and consistent with its indices and only grows at its end; the
  mempool and the validator mempool stay well-formed, also when processing a block throws halfway.\<close>

theorem network_safe:
  assumes "net_reach R C depth N0 N" and "node_safe C (nd_state N0)"
  shows "node_safe C (nd_state N)
    \<and> (\<exists>new. st_chain (storage (nd_state N)) = st_chain (storage (nd_state N0)) @ new)
    \<and> successively (linked C) (st_chain (storage (nd_state N))) \<and> length (validatorMempool (rdpos (nd_state N))) \<le> 8"
proof -
  have s: "node_safe C (nd_state N)" "\<exists>new. st_chain (storage (nd_state N)) = st_chain (storage (nd_state N0)) @ new"
    using net_reach_chain [OF assms(1)] assms(2) by (simp_all add: chain_step_def)
  then show ?thesis using mempool_size unfolding node_safe_def storage_inv_def by blast
qed

text \<open>C12. In every run each broadcast is sent at most once to each peer, however often and from however many
  peers it is received, so a flooded message dies out.\<close>

theorem gossip_once:
  assumes "net_reach R C depth N0 N" and "mb_sessions (nd_base N0) = []" and "mb_wire (nd_base N0) = []"
  shows "sent k i (mb_wire (nd_base N)) \<le> 1 \<and> distinct (map fst (mb_sessions (nd_base N)))"
proof -
  have "gossip_ok N0" using assms(2,3) by (simp add: gossip_ok_def sent_def)
  with net_reach_gossip [OF assms(1)] have g: "gossip_ok N" by (simp add: gossip_step_def)
  have "(if seen i N then 1 else 0 :: nat) \<le> 1" by simp
  with g show ?thesis unfolding gossip_ok_def by (meson le_trans)
qed

subsection \<open>A new block is stored and passed on\<close>

lemma rawMessage_eta [simp]: "\<lparr>rawMessage = rawMessage m\<rparr> = m"
  by simp

lemma on_read_message:
  assumes "\<not> mb_closed (nd_base N)" and "11 \<le> length buf"
  shows "on_read R C depth E s buf N = handleMessage R C depth E s \<lparr>rawMessage = buf\<rparr> N"
  using assms by (simp add: on_read_def Message_new_def)

lemma block_read:
  assumes "BroadcastEncoder_broadcastBlock b = Inr m" and t: "Block_transmissible C (chainID (nd_state N)) b"
    and o: "\<not> mb_closed (nd_base N)" and new: "\<not> seen (FNVHash (serializeBlock b)) N"
    and x: "blockExists R (database (nd_state N)) (storage (nd_state N)) (Block_hash C b) = NotFound"
    and p: "processNextBlock R C depth b (nd_state N) = (S', Inr ())"
  shows "on_read R C depth E s (rawMessage m) N = (marked (FNVHash (serializeBlock b)) m (N\<lparr>nd_state := S'\<rparr>), Inr ())"
proof -
  let ?i = "FNVHash (serializeBlock b)" and ?N = "N\<lparr>nd_state := S'\<rparr>"
  have m: "message_of m Broadcasting (uint64ToBytes ?i) BroadcastBlock (serializeBlock b)"
    "BroadcastDecoder_broadcastBlock C (env_threads E) m (chainID (nd_state N)) = Inr b"
    using broadcast_block_ok [OF t, of "env_threads E"] assms(1) by auto
  then have n: "Message_number m = Inr ?i" and r: "11 \<le> length (rawMessage m)"
    by (simp_all add: Message_number_def message_of_def RequestID_toUint64_def Message_size_def)
  have v: "validateNextBlock C (nd_state N) b = Inr True" using processNextBlock_steps [OF p] by blast
  have st: "on_state (processNextBlock R C depth b) N = (?N, Inr ())" using p by (simp add: on_state_def)
  have b1: "broadcastMessage m ?N = (marked ?i m ?N, Inr ())"
    using broadcastMessage_eq [OF _ n, of ?N] o new by (simp add: seen_def)
  have b2: "broadcastMessage m (marked ?i m ?N) = (marked ?i m ?N, Inr ())"
    using broadcastMessage_eq [OF _ n, of "marked ?i m ?N"] o by (simp add: seen_def marked_def emit_def)
  have "receive_block R C depth E m N = (marked ?i m ?N, Inr (Some True))"
    using x v st b1 by (simp add: receive_block_eq m block_step_def bindS_Inr) (simp add: liftS_def)
  then have "handleBlockBroadcast R C depth E s m N = (marked ?i m ?N, Inr ())"
    using b2 by (simp add: handleBlockBroadcast_def try_catch_def bindS_Inr)
  then show ?thesis
    using m(1) o new n unfolding on_read_message [OF o r] rawMessage_eta
    by (simp add: handleMessage_def handleBroadcast_def message_of_def seen_def)
qed

text \<open>C11. The broadcast of a block that a node can process reaches it whole: the bytes one node sends are
  decoded to the same block on the other, which validates, executes and stores it, remembers the
  broadcast and sends the same bytes once to each of its normal peers.\<close>

theorem block_received:
  assumes "BroadcastEncoder_broadcastBlock b = Inr m" and "Block_transmissible C (chainID (nd_state N)) b"
    and "\<not> mb_closed (nd_base N)" and "\<not> seen (FNVHash (serializeBlock b)) N"
    and "blockExists R (database (nd_state N)) (storage (nd_state N)) (Block_hash C b) = NotFound"
    and "processNextBlock R C depth b (nd_state N) = (S', Inr ())"
  shows "on_read R C depth E s (rawMessage m) N =
    (N\<lparr>nd_state := S', nd_broadcasted := (nd_broadcasted N)(FNVHash (serializeBlock b) \<mapsto> 1),
       nd_base := emit (map (\<lambda>k. Write k m) (normal_sessions (nd_base N))) (nd_base N)\<rparr>, Inr ())"
  using block_read [OF assms] by (simp add: marked_def)

subsection \<open>Three defects\<close>

text \<open>C36. The handlers of requests and answers catch nothing, and neither does the thread pool they run in, so one
  message of a peer can end the process: a type byte above three (three itself is let through), an \<^verbatim>\<open>Info\<close> request of the wrong size,
  or an answer of any of the four commands to a request that was already answered.\<close>

theorem malformed_message_escapes:
  assumes "\<not> mb_closed (nd_base N)"
  shows "(3 < unat t \<and> 10 \<le> length rest \<longrightarrow>
      on_read R C depth E s (t # rest) N = (N, Inl (RuntimeError ''Invalid request type.'')))
    \<and> (message_of m Requesting i Info dat \<and> length dat \<noteq> 56 \<longrightarrow>
      on_read R C depth E s (rawMessage m) N = (N, Inl (RuntimeError ''Invalid Info message size.'')))
    \<and> (message_of m Answering i c dat \<and> c \<in> {Ping, Info, RequestNodes, RequestValidatorTxs} \<and> mb_requests (nd_base N) i = Some rq \<and> rq_answer rq \<noteq> None \<longrightarrow>
      on_read R C depth E s (rawMessage m) N = (N, Inl (FutureError ''Promise already satisfied'')))"
proof (intro conjI impI)
  assume t: "3 < unat t \<and> 10 \<le> length rest"
  then have "Message_type \<lparr>rawMessage = t # rest\<rparr> = Inl (RuntimeError ''Invalid request type.'')"
    by (simp add: Message_type_def substr_def getRequestType_def bytesToUint8_def typePrefixes_def view_at_def)
  with assms t show "on_read R C depth E s (t # rest) N = (N, Inl (RuntimeError ''Invalid request type.''))"
    by (simp add: on_read_message handleMessage_def liftS_def)
next
  assume m: "message_of m Requesting i Info dat \<and> length dat \<noteq> 56"
  then have "11 \<le> length (rawMessage m)" "RequestDecoder_info m = Inl (RuntimeError ''Invalid Info message size.'')"
    by (simp_all add: message_of_def RequestDecoder_info_def Message_size_def)
  with assms m show "on_read R C depth E s (rawMessage m) N = (N, Inl (RuntimeError ''Invalid Info message size.''))"
    by (simp add: on_read_message handleMessage_def handleRequest_def handleInfoRequest_def message_of_def liftS_def)
next
  assume m: "message_of m Answering i c dat \<and> c \<in> {Ping, Info, RequestNodes, RequestValidatorTxs} \<and> mb_requests (nd_base N) i = Some rq \<and> rq_answer rq \<noteq> None"
  then have "11 \<le> length (rawMessage m)" "setAnswer rq m = Inl (FutureError ''Promise already satisfied'')"
    by (auto simp: message_of_def Message_size_def setAnswer_def)
  moreover have "handleAnswer s m N = bindS (liftS (Message_command m)) (\<lambda>_. on_base (accept_answer s m)) N"
    using m by (auto simp: handleAnswer_def handlePingAnswer_def handleInfoAnswer_def handleRequestNodesAnswer_def handleTxValidatorAnswer_def message_of_def)
  ultimately show "on_read R C depth E s (rawMessage m) N = (N, Inl (FutureError ''Promise already satisfied''))"
    using assms m by (simp add: on_read_message handleMessage_def accept_answer_def message_of_def on_base_def liftS_def)
qed

text \<open>A session that the node opens, accepts and closes by \<^verbatim>\<open>disconnectSession\<close>.\<close>

definition open_and_drop :: "Session \<Rightarrow> ManagerBase \<Rightarrow> ManagerBase" where
  "open_and_drop s M = fst (disconnectSession (s_hostNodeId s) (fst (registerSession s M)))"

lemma dropped_sessions:
  assumes "\<not> mb_closed M" and "mb_sessions M = []" and "\<forall>s\<in>set ss. s_connectionType s = CLIENT"
  shows "mb_sessions (fold open_and_drop ss M) = [] \<and> mb_maxConnections (fold open_and_drop ss M) = mb_maxConnections M
    \<and> mb_clientSessionsCount (fold open_and_drop ss M) = mb_clientSessionsCount M + of_nat (length ss)"
  using assms
proof (induction ss arbitrary: M)
  case (Cons s ss)
  have "\<not> mb_closed (open_and_drop s M)" "mb_sessions (open_and_drop s M) = []" "mb_maxConnections (open_and_drop s M) = mb_maxConnections M"
    "mb_clientSessionsCount (open_and_drop s M) = mb_clientSessionsCount M + 1"
    using Cons.prems by (simp_all add: open_and_drop_def registerSession_def disconnectSession_def emit_def)
  with Cons.IH [of "open_and_drop s M"] Cons.prems show ?case by simp
qed simp

text \<open>\<^verbatim>\<open>disconnectSession\<close> takes a session out of the map without lowering the count of client sessions, and
  \<^verbatim>\<open>unregisterSession\<close> then no longer finds it: after as many dropped connections as the limit allows, a
  node without any peer refuses to connect to anyone.\<close>

theorem dropped_sessions_block_connects:
  assumes "\<not> mb_closed M" and "mb_sessions M = []" and "mb_clientSessionsCount M = 0"
    and "\<forall>s\<in>set ss. s_connectionType s = CLIENT" and "length ss = unat (mb_maxConnections M)"
  shows "mb_sessions (fold open_and_drop ss M) = []
    \<and> connectToServer host port (fold open_and_drop ss M) = fold open_and_drop ss M
    \<and> unregisterSession s (fold open_and_drop ss M) = (fold open_and_drop ss M, False)"
  using dropped_sessions [OF assms(1,2,4)] assms(3,5) by (simp add: connectToServer_def unregisterSession_def)

subsection \<open>Looking for peers\<close>

text \<open>The connections \<open>M'\<close> asks for beyond those of \<open>M\<close> go to listed nodes for which \<^verbatim>\<open>connectToNode\<close> has a reason.\<close>

definition seeks :: "(address \<Rightarrow> string) \<Rightarrow> (bytes \<times> node_entry) set \<Rightarrow> ManagerBase \<Rightarrow> ManagerBase \<Rightarrow> bool" where
  "seeks to_string listed M M' \<longleftrightarrow> (\<exists>es. M' = emit es M \<and> (\<forall>e\<in>set es. \<exists>nodeId ip port. e = Connect (to_string ip) port
     \<and> (nodeId, NORMAL_NODE, ip, port) \<in> listed \<and> map_of (mb_sessions M) nodeId = None
     \<and> \<not> mb_closed M \<and> \<not> (to_string ip = mb_hostIp M \<and> port = mb_hostPort M) \<and> mb_clientSessionsCount M < mb_maxConnections M))"

lemma seeks_refl: "seeks to_string listed M M"
  unfolding seeks_def by (rule exI [of _ "[]"]) (simp add: emit_def)

lemma seeks_trans: "seeks to_string l M M' \<Longrightarrow> seeks to_string l' M' M'' \<Longrightarrow> seeks to_string (l \<union> l') M M''"
proof -
  assume "seeks to_string l M M'" "seeks to_string l' M' M''"
  then obtain es es' where e: "M' = emit es M" "M'' = emit es' M'"
    "\<forall>e\<in>set es. \<exists>nodeId ip port. e = Connect (to_string ip) port \<and> (nodeId, NORMAL_NODE, ip, port) \<in> l \<and> map_of (mb_sessions M) nodeId = None
     \<and> \<not> mb_closed M \<and> \<not> (to_string ip = mb_hostIp M \<and> port = mb_hostPort M) \<and> mb_clientSessionsCount M < mb_maxConnections M"
    "\<forall>e\<in>set es'. \<exists>nodeId ip port. e = Connect (to_string ip) port \<and> (nodeId, NORMAL_NODE, ip, port) \<in> l' \<and> map_of (mb_sessions M') nodeId = None
     \<and> \<not> mb_closed M' \<and> \<not> (to_string ip = mb_hostIp M' \<and> port = mb_hostPort M') \<and> mb_clientSessionsCount M' < mb_maxConnections M'"
    unfolding seeks_def by blast
  then have "M'' = emit (es @ es') M" by (simp add: emit_def)
  then show ?thesis unfolding seeks_def using e(3,4) unfolding e(1) by (intro exI [of _ "es @ es'"]) (auto simp: emit_def, blast+)
qed

lemma connectToNode_seeks: "seeks to_string {node} M (connectToNode to_string node M)"
proof -
  obtain nodeId t ip port where n: "node = (nodeId, t, ip, port)" by (metis prod_cases4)
  show ?thesis
  proof (cases "connectToNode to_string node M = M")
    case False
    then have "connectToNode to_string node M = emit [Connect (to_string ip) port] M" and "t = NORMAL_NODE" and "map_of (mb_sessions M) nodeId = None"
      and "\<not> mb_closed M" "\<not> (to_string ip = mb_hostIp M \<and> port = mb_hostPort M)" "mb_clientSessionsCount M < mb_maxConnections M"
      unfolding n by (cases t; auto simp: connectToNode_def connectToServer_def not_le split: if_splits)+
    then show ?thesis unfolding seeks_def n by (intro exI [of _ "[Connect (to_string ip) port]"]) auto
  qed (simp add: seeks_refl)
qed

lemma connects_seek: "seeks to_string (set nodes) M (fold (connectToNode to_string) nodes M)"
proof (induction nodes arbitrary: M)
  case (Cons n nodes)
  from seeks_trans [OF connectToNode_seeks Cons.IH] show ?case by simp
qed (simp add: seeks_refl)

lemma ask_nodes_seek:
  "seeks to_string (\<Union>k\<in>set ks. set (answers k)) (snd w) (snd (ask_nodes to_string now answers ks w))
   \<and> fst (ask_nodes to_string now answers ks w) = (\<lambda>k. if k \<in> set ks then Some now else fst w k)"
proof (induction ks arbitrary: w)
  case Nil
  show ?case by (simp add: ask_nodes_def seeks_refl)
next
  case (Cons k ks)
  obtain rq M where w: "w = (rq, M)" by (cases w)
  let ?w = "(rq(k \<mapsto> now), fold (connectToNode to_string) (answers k) M)"
  have s: "ask_nodes to_string now answers (k # ks) w = ask_nodes to_string now answers ks ?w" by (simp add: ask_nodes_def w)
  have "seeks to_string (set (answers k) \<union> (\<Union>k\<in>set ks. set (answers k))) M (snd (ask_nodes to_string now answers ks ?w))"
    using seeks_trans [OF connects_seek] Cons.IH [of ?w] by fastforce
  then show ?case unfolding s using Cons.IH [of ?w] by (auto simp: w fun_eq_iff)
qed


subsection \<open>A run\<close>

text \<open>A node connects to a peer, which sends it the block of the sample round.\<close>

definition open_base :: ManagerBase where
  "open_base = \<lparr>mb_hostIp = ''127.0.0.1'', mb_hostPort = 8080, mb_maxConnections = 1, mb_closed = False, mb_sessions = [],
     mb_requests = Map.empty, mb_clientSessionsCount = 0, mb_wire = []\<rparr>"

definition peer :: Session where
  "peer = \<lparr>s_hostNodeId = replicate 32 1, s_hostType = NORMAL_NODE, s_address = V4 [10, 0, 0, 1], s_hostServerPort = 8081,
     s_connectionType = CLIENT\<rparr>"

definition seal_node :: "(bytes \<times> bytes) list NormalNode" where
  "seal_node = \<lparr>nd_base = open_base, nd_broadcasted = Map.empty, nd_state = seal_state\<rparr>"

definition any_env :: p2p_env where
  "any_env = \<lparr>env_version = 1, env_epoch = 2, env_threads = 8\<rparr>"

definition seal_peered :: "(bytes \<times> bytes) list NormalNode" where
  "seal_peered = seal_node\<lparr>nd_base := fst (registerSession peer open_base)\<rparr>"

lemma seal_peered_simps:
  "nd_state seal_peered = seal_state" "\<not> mb_closed (nd_base seal_peered)" "\<not> seen i seal_peered" "nd_base seal_node = open_base"
  "normal_sessions (nd_base seal_peered) = [replicate 32 1]" "mb_wire (nd_base seal_peered) = []" "nd_broadcasted seal_peered = Map.empty"
  "mb_sessions (nd_base seal_node) = []" "mb_wire (nd_base seal_node) = []" "nd_state seal_node = seal_state" "\<not> mb_closed (nd_base seal_node)"
  by (simp_all add: seal_peered_def seal_node_def registerSession_def open_base_def seen_def normal_sessions_def peer_def)

lemma seal_message: "\<exists>m. BroadcastEncoder_broadcastBlock seal_block = Inr m \<and> length (rawMessage m) < 2 ^ 32
    \<and> Message_type m = Inr Broadcasting \<and> Message_number m = Inr (FNVHash (serializeBlock seal_block))"
proof -
  obtain m where "BroadcastEncoder_broadcastBlock seal_block = Inr m"
    "message_of m Broadcasting (uint64ToBytes (FNVHash (serializeBlock seal_block))) BroadcastBlock (serializeBlock seal_block)"
    using broadcast_block_ok [OF seal_block_transmissible] by metis
  then show ?thesis using seal_block_length
    by (auto simp: message_of_def Message_size_def Message_number_def RequestID_toUint64_def)
qed

lemma seal_run: "\<exists>m N. net_reach alist_rocks seal_crypto 2 seal_node N \<and> st_chain (storage (nd_state N)) = [first_block, seal_block]
    \<and> Message_type m = Inr Broadcasting \<and> Message_number m = Inr (FNVHash (serializeBlock seal_block))
    \<and> mb_wire (nd_base N) = [Write (replicate 32 1) m]"
proof -
  obtain S' where p: "processNextBlock alist_rocks seal_crypto 2 seal_block seal_state = (S', Inr ())" using seal_block_runs ..
  obtain m where m: "BroadcastEncoder_broadcastBlock seal_block = Inr m" "length (rawMessage m) < 2 ^ 32"
    "Message_type m = Inr Broadcasting" "Message_number m = Inr (FNVHash (serializeBlock seal_block))" using seal_message by blast
  let ?N = "marked (FNVHash (serializeBlock seal_block)) m (seal_peered\<lparr>nd_state := S'\<rparr>)"
  have "on_read alist_rocks seal_crypto 2 any_env peer (rawMessage m) seal_peered = (?N, Inr ())"
    by (rule block_read [OF m(1)]) (simp_all only: seal_peered_simps seal_block_transmissible seal_block_new p not_False_eq_True)
  moreover have "net_reach alist_rocks seal_crypto 2 seal_node seal_peered"
    using net_reach.register [OF net_reach.start, of alist_rocks seal_crypto 2 seal_node peer]
    by (simp add: seal_peered_def seal_peered_simps)
  ultimately have "net_reach alist_rocks seal_crypto 2 seal_node ?N" using net_reach.receive [OF _ _ _ m(2)] by blast
  moreover have "st_chain (storage S') = [first_block, seal_block]"
    using pushBack_chain [OF processNextBlock_effect(2) [OF pool_ok_keyed p]] seal_state_inv by (simp add: node_inv_def seal_state_simps)
  moreover have "nd_state ?N = S'" "mb_wire (nd_base ?N) = [Write (replicate 32 1) m]"
    by (simp_all add: marked_def emit_def seal_peered_simps)
  ultimately show ?thesis using m(3,4) by metis
qed

theorem network_safe_witness:
  "\<exists>N. net_reach alist_rocks seal_crypto 2 seal_node N \<and> st_chain (storage (nd_state N)) = [first_block, seal_block]
     \<and> node_safe seal_crypto (nd_state N)"
proof -
  obtain N where r: "net_reach alist_rocks seal_crypto 2 seal_node N" "st_chain (storage (nd_state N)) = [first_block, seal_block]"
    using seal_run by blast
  have "node_safe seal_crypto (nd_state seal_node)" using seal_state_inv by (simp add: node_inv_iff seal_peered_simps)
  from network_safe [OF r(1) this] r show ?thesis by blast
qed

theorem gossip_once_witness:
  "\<exists>N. net_reach alist_rocks seal_crypto 2 seal_node N \<and> mb_wire (nd_base N) \<noteq> []
     \<and> sent (replicate 32 1) (FNVHash (serializeBlock seal_block)) (mb_wire (nd_base N)) = 1"
proof -
  obtain m N where r: "net_reach alist_rocks seal_crypto 2 seal_node N" "Message_type m = Inr Broadcasting"
    "Message_number m = Inr (FNVHash (serializeBlock seal_block))" "mb_wire (nd_base N) = [Write (replicate 32 1) m]" using seal_run by blast
  then have "sent (replicate 32 1) (FNVHash (serializeBlock seal_block)) (mb_wire (nd_base N)) \<ge> 1" by (simp add: sent_def)
  moreover have "sent (replicate 32 1) (FNVHash (serializeBlock seal_block)) (mb_wire (nd_base N)) \<le> 1"
    using gossip_once [OF r(1) seal_peered_simps(8,9)] by blast
  ultimately show ?thesis using r by (intro exI [of _ N]) simp
qed

theorem block_received_witness:
  "\<exists>m N. BroadcastEncoder_broadcastBlock seal_block = Inr m
     \<and> on_read alist_rocks seal_crypto 2 any_env peer (rawMessage m) seal_peered = (N, Inr ())
     \<and> mb_wire (nd_base N) = [Write (replicate 32 1) m]"
proof -
  obtain S' where p: "processNextBlock alist_rocks seal_crypto 2 seal_block seal_state = (S', Inr ())" using seal_block_runs ..
  obtain m where m: "BroadcastEncoder_broadcastBlock seal_block = Inr m" using seal_message by blast
  have "on_read alist_rocks seal_crypto 2 any_env peer (rawMessage m) seal_peered =
    (seal_peered\<lparr>nd_state := S', nd_broadcasted := (nd_broadcasted seal_peered)(FNVHash (serializeBlock seal_block) \<mapsto> 1),
       nd_base := emit (map (\<lambda>k. Write k m) (normal_sessions (nd_base seal_peered))) (nd_base seal_peered)\<rparr>, Inr ())"
    by (rule block_received [OF m]) (simp_all only: seal_peered_simps seal_block_transmissible seal_block_new p not_False_eq_True)
  with m show ?thesis by (simp add: seal_peered_simps emit_def)
qed

theorem malformed_message_escapes_witness:
  "on_read alist_rocks seal_crypto 2 any_env peer (255 # replicate 10 0) seal_node
   = (seal_node, Inl (RuntimeError ''Invalid request type.''))"
  using malformed_message_escapes [OF seal_peered_simps(11), of 255 "replicate 10 0" alist_rocks seal_crypto 2 any_env peer] by simp

theorem dropped_sessions_block_connects_witness:
  "connectToServer ''10.0.0.2'' 8082 (open_and_drop peer open_base) = open_and_drop peer open_base
   \<and> mb_sessions (open_and_drop peer open_base) = []"
  using dropped_sessions_block_connects [of open_base "[peer]" "''10.0.0.2''" 8082] by (simp add: open_base_def peer_def)


end
