(* ===== verification/Syncer.thy ===== *)
theory Syncer
  imports Network
begin

text \<open>
  The block proposer and the bookkeeping of peers: the class \<^verbatim>\<open>Syncer\<close> of \<^verbatim>\<open>src/core/blockchain.h\<close> and
  \<^verbatim>\<open>blockchain.cpp\<close>. A loop that waits for another thread is the condition it waits for; a loop that may run
  forever is a function into \<^typ>\<open>'a option\<close> that is \<open>None\<close> when it does. The flag \<^verbatim>\<open>stopSyncer\<close> only makes
  the functions return early and is not modelled.
\<close>

subsection \<open>Choosing the validator transactions of a block\<close>

text \<open>One pass of the \<^verbatim>\<open>for\<close> loop over the mempool, up to its \<^verbatim>\<open>break\<close>.\<close>

fun scan_mempool :: "bytes \<Rightarrow> bytes list \<Rightarrow> nat \<Rightarrow> TxValidator list \<Rightarrow> TxValidator option result" where
  "scan_mempool selector rl i [] = Inr None"
| "scan_mempool selector rl i (tx # rest) =
     bindE (view_at rl i) (\<lambda>v.
     if tv_from tx = v \<and> take 4 (tv_data tx) = selector then Inr (Some tx) else scan_mempool selector rl i rest)"

partial_function (option) select_txs ::
  "bytes \<Rightarrow> bytes list \<Rightarrow> TxValidator list \<Rightarrow> nat \<Rightarrow> TxValidator list \<Rightarrow> TxValidator list result option" where
  "select_txs selector rl mp i acc =
     (if length acc = minValidators then Some (Inr acc)
      else (case scan_mempool selector rl i mp of
              Inl e \<Rightarrow> Some (Inl e)
            | Inr None \<Rightarrow> select_txs selector rl mp i acc
            | Inr (Some tx) \<Rightarrow> select_txs selector rl mp (i + 1) (acc @ [tx])))"

definition selector_hash :: bytes where
  "selector_hash = [0xcf, 0xff, 0xe7, 0x46]"

definition selector_seed :: bytes where
  "selector_seed = [0x6f, 0xc5, 0xa2, 0xd6]"

subsection \<open>Creating a block\<close>

text \<open>The block before it is signed.\<close>

definition build_block :: "crypto \<Rightarrow> 's State \<Rightarrow> Block \<Rightarrow> TxValidator list \<Rightarrow> TxValidator list \<Rightarrow> Block" where
  "build_block C S latestBlock hashTxs seedTxs =
     (let block = Block_new (Block_hash C latestBlock) (timestamp latestBlock) (nHeight latestBlock + 1);
          block = fold (\<lambda>tx b. fst (appendTxValidator b tx)) hashTxs block;
          block = fold (\<lambda>tx b. fst (appendTxValidator b tx)) seedTxs block
      in fillBlockWithTransactions S block)"

definition publish_block :: "'s rocksdb \<Rightarrow> crypto \<Rightarrow> nat \<Rightarrow> uint64 \<Rightarrow> TxValidator list \<Rightarrow> TxValidator list \<Rightarrow> ('s NormalNode, unit) action" where
  "publish_block R C depth now hashTxs seedTxs N =
     (let S = nd_state N in
      bindS (liftS (latest (storage S))) (\<lambda>latestBlock.
      bindS (liftS (signBlock C (rdpos S) (build_block C S latestBlock hashTxs seedTxs) now)) (\<lambda>block.
      bindS (liftS (validateNextBlock C S block)) (\<lambda>ok.
      if \<not> ok then liftS (Inl (RuntimeError ''Block is not valid!''))
      else bindS (on_state (processNextBlock R C depth block)) (\<lambda>_ N.
           bindS (liftS (latest (storage (nd_state N)))) (\<lambda>b.
           if Block_hash C b \<noteq> Block_hash C block then liftS (Inl (RuntimeError ''Block is not valid!''))
           else broadcastBlock b) N)))) N)"

text \<open>\<open>None\<close>: it still waits, or a selection loop does not end.\<close>

definition doValidatorBlock :: "'s rocksdb \<Rightarrow> crypto \<Rightarrow> nat \<Rightarrow> uint64 \<Rightarrow> 's NormalNode \<Rightarrow> ('s NormalNode \<times> unit result) option" where
  "doValidatorBlock R C depth now N =
     (let S = nd_state N; mp = map snd (validatorMempool (rdpos S)); rl = randomList (rdpos S) in
      if length mp < minValidators * 2 \<or> length (mempool S) < 1 then None
      else (case select_txs selector_hash rl mp 1 [] of
              None \<Rightarrow> None
            | Some (Inl e) \<Rightarrow> Some (N, Inl e)
            | Some (Inr hashTxs) \<Rightarrow>
                (case select_txs selector_seed rl mp 1 [] of
                   None \<Rightarrow> None
                 | Some (Inl e) \<Rightarrow> Some (N, Inl e)
                 | Some (Inr seedTxs) \<Rightarrow> Some (publish_block R C depth now hashTxs seedTxs N))))"

text \<open>One round of \<^verbatim>\<open>validatorLoop\<close>; \<open>me\<close> is the address of the node's key.\<close>

definition validator_round :: "'s rocksdb \<Rightarrow> crypto \<Rightarrow> nat \<Rightarrow> uint64 \<Rightarrow> bytes \<Rightarrow> 's NormalNode \<Rightarrow> ('s NormalNode \<times> unit result) option" where
  "validator_round R C depth now me N =
     (case view_at (randomList (rdpos (nd_state N))) 0 of
        Inl e \<Rightarrow> Some (N, Inl e)
      | Inr v \<Rightarrow> if v = me then doValidatorBlock R C depth now N else Some (N, Inr ()))"

subsection \<open>Peers\<close>

text \<open>The loop over the known peers. Erasing the entry the range-based loop stands at invalidates its iterator,
  so the step to the next entry is undefined. \<open>info\<close> stands for what \<^verbatim>\<open>requestNodeInfo\<close> returns.\<close>

fun refresh_known :: "bytes list \<Rightarrow> (bytes \<Rightarrow> NodeInfo) \<Rightarrow> (bytes \<times> NodeInfo) list \<Rightarrow> (bytes \<times> NodeInfo) list result" where
  "refresh_known connected info [] = Inr []"
| "refresh_known connected info ((nodeId, old) # rest) =
     (if nodeId \<notin> set connected \<or> info nodeId = NodeInfo_default then Inl UndefinedBehaviour
      else bindE (refresh_known connected info rest) (\<lambda>ns. Inr ((nodeId, info nodeId) # ns)))"

fun add_connected :: "(bytes \<Rightarrow> NodeInfo) \<Rightarrow> bytes list \<Rightarrow> (bytes \<times> NodeInfo) list \<Rightarrow> (bytes \<times> NodeInfo) list" where
  "add_connected info [] nodes = nodes"
| "add_connected info (nodeId # rest) nodes = add_connected info rest
     (if map_of nodes nodeId = None \<and> info nodeId \<noteq> NodeInfo_default then nodes @ [(nodeId, info nodeId)] else nodes)"

definition updateCurrentlyConnectedNodes ::
  "bytes list \<Rightarrow> (bytes \<Rightarrow> NodeInfo) \<Rightarrow> (bytes \<times> NodeInfo) list \<Rightarrow> (bytes \<times> NodeInfo) list result" where
  "updateCurrentlyConnectedNodes connected info nodes =
     bindE (refresh_known connected info nodes) (\<lambda>ns. Inr (add_connected info connected ns))"

definition highest_node :: "(bytes \<times> NodeInfo) list \<Rightarrow> bytes \<times> uint64" where
  "highest_node nodes = foldl (\<lambda>best (nodeId, info).
     if latestBlockHeight info > snd best then (nodeId, latestBlockHeight info) else best) (FixedStr 32 [], 0) nodes"

text \<open>The branch of \<^verbatim>\<open>doSync\<close> for a higher peer is empty, so the highest node is computed and not used.\<close>

definition doSync :: "bytes list \<Rightarrow> (bytes \<Rightarrow> NodeInfo) \<Rightarrow> (bytes \<times> NodeInfo) list \<Rightarrow> Storage \<Rightarrow> ((bytes \<times> NodeInfo) list \<times> Block \<times> bool) result" where
  "doSync connected info nodes st =
     bindE (latest st) (\<lambda>_.
     bindE (updateCurrentlyConnectedNodes connected info nodes) (\<lambda>ns.
     bindE (latest st) (\<lambda>latestBlock. Inr (ns, latestBlock, True))))"

subsection \<open>The selection loops\<close>

lemma scan_found:
  assumes "i < length rl" and "tx \<in> set mp" and "tv_from tx = rl ! i" and "take 4 (tv_data tx) = selector"
  shows "\<exists>t\<in>set mp. scan_mempool selector rl i mp = Inr (Some t) \<and> tv_from t = rl ! i \<and> take 4 (tv_data t) = selector"
  using assms(2)
proof (induction mp)
  case (Cons t mp)
  show ?case
  proof (cases "tv_from t = rl ! i \<and> take 4 (tv_data t) = selector")
    case True
    then show ?thesis using assms(1) by (simp add: view_at_nth)
  next
    case False
    then have "tx \<in> set mp" using Cons.prems assms(3,4) by auto
    from Cons.IH [OF this] show ?thesis using False assms(1) by (auto simp: view_at_nth)
  qed
qed simp

lemma scan_missing:
  assumes "i < length rl" and "\<forall>tx\<in>set mp. tv_from tx = rl ! i \<longrightarrow> take 4 (tv_data tx) \<noteq> selector"
  shows "scan_mempool selector rl i mp = Inr None"
  using assms(2) by (induction mp) (auto simp: view_at_nth assms(1))

lemma select_txs_done: "length acc = 4 \<Longrightarrow> select_txs selector rl mp i acc = Some (Inr acc)"
  by (subst select_txs.simps) (simp add: minValidators_def)

lemma select_txs_step:
  "length acc < 4 \<Longrightarrow> scan_mempool selector rl i mp = Inr (Some t) \<Longrightarrow> select_txs selector rl mp i acc = select_txs selector rl mp (i + 1) (acc @ [t])"
  by (subst select_txs.simps) (simp add: minValidators_def)

text \<open>The loop goes from the \<open>i\<close>-th validator to the fourth and takes one transaction of each.\<close>

lemma select_txs_finds:
  assumes "5 \<le> length rl" and "i = length acc + 1" and "length acc \<le> 4"
    and "\<forall>j\<in>{i..4}. \<exists>tx\<in>set mp. tv_from tx = rl ! j \<and> take 4 (tv_data tx) = selector"
  shows "\<exists>ts. select_txs selector rl mp i acc = Some (Inr (acc @ ts)) \<and> length (acc @ ts) = 4
    \<and> (\<forall>k<length ts. ts ! k \<in> set mp \<and> tv_from (ts ! k) = rl ! (i + k) \<and> take 4 (tv_data (ts ! k)) = selector)"
  using assms(2-)
proof (induction "4 - length acc" arbitrary: i acc)
  case 0
  then show ?case by (intro exI [of _ "[]"]) (simp add: select_txs_done)
next
  case (Suc n)
  then have l: "length acc < 4" by simp
  then have i: "i < length rl" "i \<in> {i..4}" using Suc.prems(1) assms(1) by auto
  obtain tx where "tx \<in> set mp" "tv_from tx = rl ! i" "take 4 (tv_data tx) = selector" using Suc.prems(3) i(2) by blast
  from scan_found [OF i(1) this] obtain t where
    t: "t \<in> set mp" "scan_mempool selector rl i mp = Inr (Some t)" "tv_from t = rl ! i" "take 4 (tv_data t) = selector" by blast
  have pre: "n = 4 - length (acc @ [t])" "i + 1 = length (acc @ [t]) + 1" "length (acc @ [t]) \<le> 4"
    "\<forall>j\<in>{i + 1..4}. \<exists>tx\<in>set mp. tv_from tx = rl ! j \<and> take 4 (tv_data tx) = selector"
    using Suc.hyps(2) Suc.prems l by auto
  obtain ts where ts: "select_txs selector rl mp (i + 1) (acc @ [t]) = Some (Inr ((acc @ [t]) @ ts))" "length ((acc @ [t]) @ ts) = 4"
    "\<forall>k<length ts. ts ! k \<in> set mp \<and> tv_from (ts ! k) = rl ! (i + 1 + k) \<and> take 4 (tv_data (ts ! k)) = selector"
    using Suc.hyps(1) [OF pre] by blast
  have "select_txs selector rl mp i acc = Some (Inr (acc @ t # ts))"
    using ts(1) by (simp add: select_txs_step [OF l t(2)])
  moreover have "\<forall>k<length (t # ts). (t # ts) ! k \<in> set mp \<and> tv_from ((t # ts) ! k) = rl ! (i + k) \<and> take 4 (tv_data ((t # ts) ! k)) = selector"
    using ts(3) t by (auto simp: nth_Cons split: nat.split)
  ultimately show ?case using ts(2) by (intro exI [of _ "t # ts"]) simp
qed

text \<open>A validator whose transaction is missing stops the loop from ending.\<close>

lemma select_txs_returns:
  "select_txs selector rl mp i acc = Some y \<Longrightarrow> scan_mempool selector rl i mp = Inr None \<longrightarrow> length acc = minValidators"
  by (rule select_txs.raw_induct [where P = "\<lambda>selector rl mp i acc y. scan_mempool selector rl i mp = Inr None \<longrightarrow> length acc = minValidators"])
    (auto split: if_splits sum.splits option.splits)

lemma select_txs_diverges:
  assumes "scan_mempool selector rl i mp = Inr None" and "length acc \<noteq> minValidators"
  shows "select_txs selector rl mp i acc = None"
  using assms select_txs_returns by (cases "select_txs selector rl mp i acc") auto

lemma select_txs_missing:
  assumes "5 \<le> length rl" and "i = length acc + 1" and "i \<le> j" and "j \<le> 4"
    and "\<forall>tx\<in>set mp. tv_from tx = rl ! j \<longrightarrow> take 4 (tv_data tx) \<noteq> selector"
  shows "select_txs selector rl mp i acc = None"
  using assms(2-4)
proof (induction "j - i" arbitrary: i acc)
  case 0
  then have "scan_mempool selector rl i mp = Inr None" using scan_missing [of j rl] assms(1,5) by simp
  then show ?case by (rule select_txs_diverges) (use 0 in \<open>simp add: minValidators_def\<close>)
next
  case (Suc n)
  then have l: "i < length rl" "length acc < 4" using assms(1) by simp_all
  show ?case
  proof (cases "\<exists>tx\<in>set mp. tv_from tx = rl ! i \<and> take 4 (tv_data tx) = selector")
    case True
    then obtain t where t: "scan_mempool selector rl i mp = Inr (Some t)" using scan_found [OF l(1)] by blast
    have "select_txs selector rl mp (i + 1) (acc @ [t]) = None" by (rule Suc.hyps(1)) (use Suc in simp_all)
    then show ?thesis by (simp add: select_txs_step [OF l(2) t])
  next
    case False
    then have "scan_mempool selector rl i mp = Inr None" by (intro scan_missing l(1)) blast
    then show ?thesis by (rule select_txs_diverges) (use l in \<open>simp add: minValidators_def\<close>)
  qed
qed

subsection \<open>The block a proposer builds\<close>

lemma fold_appendTxValidator:
  "\<not> finalized b \<Longrightarrow> fold (\<lambda>tx b. fst (appendTxValidator b tx)) ts b = b\<lparr>txValidators := txValidators b @ ts\<rparr>"
  by (induction ts arbitrary: b) (simp_all add: appendTxValidator_def)

lemma fillBlock_eq: "\<not> finalized b \<Longrightarrow> fillBlockWithTransactions S b = b\<lparr>txs := txs b @ map snd (mempool S)\<rparr>"
proof -
  have "\<not> finalized b \<Longrightarrow> fold (\<lambda>(h, tx) b. fst (appendTx b tx)) es b = b\<lparr>txs := txs b @ map snd es\<rparr>" for es and b :: Block
    by (induction es arbitrary: b) (auto simp: appendTx_def)
  then show "\<not> finalized b \<Longrightarrow> ?thesis" by (simp add: fillBlockWithTransactions_def)
qed

lemma build_block_members:
  "prevBlockHash (build_block C S l hs ss) = Block_hash C l" "timestamp (build_block C S l hs ss) = timestamp l"
  "nHeight (build_block C S l hs ss) = nHeight l + 1" "txValidators (build_block C S l hs ss) = hs @ ss"
  "txs (build_block C S l hs ss) = map snd (mempool S)" "\<not> finalized (build_block C S l hs ss)"
  by (simp_all add: build_block_def Let_def Block_new_def fold_appendTxValidator fillBlock_eq)

text \<open>Signing and recovering: the key signs every hash, and the signature recovers to the address \<open>a\<close>.\<close>

definition signs_as :: "crypto \<Rightarrow> bytes \<Rightarrow> bytes \<Rightarrow> bool" where
  "signs_as C key a \<longleftrightarrow> (\<forall>h. \<exists>sig. sign C h key = Inr sig \<and> toAddress C (recover C sig h) = a)"

lemma signed_block:
  assumes "signs_as C (validatorKey rd) a" and "\<not> finalized b" and "timestamp b \<le> now"
  shows "\<exists>b'. signBlock C rd b now = Inr b' \<and> Block_finalize C b (validatorKey rd) now = Inr (b', True)
    \<and> toAddress C (validatorPubKey b') = a"
proof -
  have "\<exists>b'. Block_finalize C b (validatorKey rd) now = Inr (b', True)"
    using assms by (auto simp: Block_finalize_def Let_def signs_as_def not_less)
  then obtain b' where b': "Block_finalize C b (validatorKey rd) now = Inr (b', True)" ..
  note f = Block_finalize_spec [OF b']
  from assms(1) have "toAddress C (recover C (validatorSig b') (Block_hash C b')) = a"
    using f(12) unfolding signs_as_def by (metis sum.inject(2))
  with b' f(3) show ?thesis by (simp add: signBlock_def)
qed

text \<open>Every one of the four validators has sent a hash and the seed behind it.\<close>

definition round_ready :: "crypto \<Rightarrow> rdPoS \<Rightarrow> bool" where
  "round_ready C rd \<longleftrightarrow> distinct (take 5 (randomList rd)) \<and> (\<forall>i\<in>{1..4}. \<exists>h\<in>snd ` set (validatorMempool rd). \<exists>s\<in>snd ` set (validatorMempool rd).
     tv_from h = randomList rd ! i \<and> tv_from s = randomList rd ! i
     \<and> getTxValidatorFunction h = RANDOMHASH \<and> getTxValidatorFunction s = RANDOMSEED \<and> sha3 C (drop 4 (tv_data s)) = drop 4 (tv_data h))"

lemma validator_function:
  "getTxValidatorFunction t = RANDOMHASH \<Longrightarrow> take 4 (tv_data t) = selector_hash"
  "getTxValidatorFunction t = RANDOMSEED \<Longrightarrow> take 4 (tv_data t) = selector_seed"
  by (auto simp: getTxValidatorFunction_def selector_hash_def selector_seed_def Let_def split: if_splits)

lemma mempool_unique:
  assumes "mempool_ok C h rd" and "t \<in> snd ` set (validatorMempool rd)" and "t' \<in> snd ` set (validatorMempool rd)"
    and "tv_from t = tv_from t'" and "take 4 (tv_data t) = take 4 (tv_data t')"
  shows "t = t'"
proof -
  have m: "t \<in> set (from_sender rd (tv_from t))" "t' \<in> set (from_sender rd (tv_from t))" using assms(2-4) by (auto simp: from_sender_def)
  have "distinct (map (\<lambda>t. take 4 (tv_data t)) (from_sender rd (tv_from t)))" using assms(1) unfolding mempool_ok_def by blast
  then have "inj_on (\<lambda>t. take 4 (tv_data t)) (set (from_sender rd (tv_from t)))" by (simp add: distinct_map)
  from inj_onD [OF this assms(5) m] show ?thesis .
qed

lemma mempool_hash_unique:
  assumes "mempool_ok C h rd" and "t \<in> snd ` set (validatorMempool rd)" and "t' \<in> snd ` set (validatorMempool rd)"
    and "TxValidator_hash C t True = TxValidator_hash C t' True"
  shows "t = t'"
proof -
  have "(TxValidator_hash C t True, t) \<in> set (validatorMempool rd)" "(TxValidator_hash C t True, t') \<in> set (validatorMempool rd)"
    using assms by (auto simp: mempool_ok_def)
  with assms(1) show ?thesis unfolding mempool_ok_def by (metis eq_key_imp_eq_value)
qed

lemma take_distinct_nth: "distinct (take n xs) \<Longrightarrow> i < n \<Longrightarrow> j < n \<Longrightarrow> n \<le> length xs \<Longrightarrow> xs ! i = xs ! j \<longleftrightarrow> i = j"
  using nth_eq_iff_index_eq [of "take n xs" i j] by simp

lemma selected_valid:
  assumes ok: "mempool_ok C h rd" and ready: "round_ready C rd" and len: "5 \<le> length (randomList rd)"
    and hs: "length hs = 4" "\<forall>k<4. hs ! k \<in> snd ` set (validatorMempool rd) \<and> tv_from (hs ! k) = randomList rd ! (k + 1) \<and> take 4 (tv_data (hs ! k)) = selector_hash"
    and ss: "length ss = 4" "\<forall>k<4. ss ! k \<in> snd ` set (validatorMempool rd) \<and> tv_from (ss ! k) = randomList rd ! (k + 1) \<and> take 4 (tv_data (ss ! k)) = selector_seed"
    and b: "finalized b" "toAddress C (validatorPubKey b) = randomList rd ! 0" "txValidators b = hs @ ss" "nHeight b = h + 1"
  shows "block_valid C rd b"
proof -
  have heights: "\<forall>tx\<in>set (hs @ ss). tv_nHeight tx = h + 1"
  proof
    fix tx assume "tx \<in> set (hs @ ss)"
    then have "tx \<in> snd ` set (validatorMempool rd)" using hs ss by (auto simp: in_set_conv_nth)
    then show "tv_nHeight tx = h + 1" using ok by (auto simp: mempool_ok_def)
  qed
  have pairs: "getTxValidatorFunction (hs ! i) = RANDOMHASH \<and> getTxValidatorFunction (ss ! i) = RANDOMSEED
      \<and> sha3 C (drop 4 (tv_data (ss ! i))) = drop 4 (tv_data (hs ! i))" if "i < 4" for i
  proof -
    have "i + 1 \<in> {1..4}" using that by simp
    with ready obtain x y where x: "x \<in> snd ` set (validatorMempool rd)" "y \<in> snd ` set (validatorMempool rd)"
      "tv_from x = randomList rd ! (i + 1)" "tv_from y = randomList rd ! (i + 1)" "getTxValidatorFunction x = RANDOMHASH"
      "getTxValidatorFunction y = RANDOMSEED" "sha3 C (drop 4 (tv_data y)) = drop 4 (tv_data x)" unfolding round_ready_def by blast
    have "hs ! i = x" using mempool_unique [OF ok, of "hs ! i" x] hs(2) that x validator_function(1) [of x] by simp
    moreover have "ss ! i = y" using mempool_unique [OF ok, of "ss ! i" y] ss(2) that x validator_function(2) [of y] by simp
    ultimately show ?thesis using x by simp
  qed
  have "inj_on (\<lambda>i. TxValidator_hash C (hs ! i) True) {0..<4}"
  proof (rule inj_onI)
    fix i j assume ij: "i \<in> {0..<4 :: nat}" "j \<in> {0..<4 :: nat}" and "TxValidator_hash C (hs ! i) True = TxValidator_hash C (hs ! j) True"
    then have "hs ! i = hs ! j" using mempool_hash_unique [OF ok] hs(2) by simp
    then have "randomList rd ! (i + 1) = randomList rd ! (j + 1)" using hs(2) ij by (metis atLeastLessThan_iff)
    then show "i = j" using take_distinct_nth [of 5 "randomList rd" "i + 1" "j + 1"] ready len ij unfolding round_ready_def by simp
  qed
  then have "distinct (map (\<lambda>i. TxValidator_hash C ((hs @ ss) ! i) True) [0..<4])"
    using hs(1) by (simp add: distinct_map nth_append inj_on_def)
  then show ?thesis
    unfolding block_valid_def b(3,4) using b(1,2) hs ss heights pairs by (simp add: nth_append)
qed

lemma validate_txs_pool: "\<forall>tx\<in>set ts. map_of (mempool S) (tx_hash C tx) \<noteq> None \<Longrightarrow> validate_txs C S ts = Inr True"
  by (induction ts) (auto simp: validateTransactionInternal_def)

lemma round_selected:
  assumes "round_ready C rd" and "5 \<le> length (randomList rd)"
  obtains hs ss where "select_txs selector_hash (randomList rd) (map snd (validatorMempool rd)) 1 [] = Some (Inr hs)"
    and "select_txs selector_seed (randomList rd) (map snd (validatorMempool rd)) 1 [] = Some (Inr ss)"
    and "length hs = 4" and "\<forall>k<4. hs ! k \<in> snd ` set (validatorMempool rd) \<and> tv_from (hs ! k) = randomList rd ! (k + 1) \<and> take 4 (tv_data (hs ! k)) = selector_hash"
    and "length ss = 4" and "\<forall>k<4. ss ! k \<in> snd ` set (validatorMempool rd) \<and> tv_from (ss ! k) = randomList rd ! (k + 1) \<and> take 4 (tv_data (ss ! k)) = selector_seed"
proof -
  let ?rl = "randomList rd" and ?mp = "map snd (validatorMempool rd)"
  have "\<forall>j\<in>{1..4}. \<exists>tx\<in>set ?mp. tv_from tx = ?rl ! j \<and> take 4 (tv_data tx) = selector_hash"
    "\<forall>j\<in>{1..4}. \<exists>tx\<in>set ?mp. tv_from tx = ?rl ! j \<and> take 4 (tv_data tx) = selector_seed"
    using assms(1) validator_function unfolding round_ready_def set_map by meson+
  from select_txs_finds [OF assms(2) _ _ this(1), of "[]"] select_txs_finds [OF assms(2) _ _ this(2), of "[]"]
  show thesis using that by (auto simp: add.commute)
qed

lemma published:
  assumes "\<not> mb_closed (nd_base N)" and "latest (storage (nd_state N)) = Inr l"
    and "signBlock C (rdpos (nd_state N)) (build_block C (nd_state N) l hs ss) now = Inr b"
    and "processNextBlock R C depth b (nd_state N) = (S', Inr ())" and "validateNextBlock C (nd_state N) b = Inr True"
    and "latest (storage S') = Inr b"
  shows "\<exists>m. BroadcastEncoder_broadcastBlock b = Inr m \<and> Message_number m = Inr (FNVHash (serializeBlock b)) \<and>
    publish_block R C depth now hs ss N =
      (if seen (FNVHash (serializeBlock b)) N then N\<lparr>nd_state := S'\<rparr> else marked (FNVHash (serializeBlock b)) m (N\<lparr>nd_state := S'\<rparr>), Inr ())"
proof -
  let ?i = "FNVHash (serializeBlock b)" and ?N = "N\<lparr>nd_state := S'\<rparr>"
  obtain m where m: "BroadcastEncoder_broadcastBlock b = Inr m" "message_of m Broadcasting (uint64ToBytes ?i) BroadcastBlock (serializeBlock b)"
    unfolding BroadcastEncoder_broadcastBlock_def by (rule encode_broadcast_ok [of BroadcastBlock "serializeBlock b"]) simp_all
  then have n: "Message_number m = Inr ?i" by (simp add: Message_number_def message_of_def RequestID_toUint64_def)
  have "broadcastMessage m ?N = (if seen ?i ?N then ?N else marked ?i m ?N, Inr ())"
    by (rule broadcastMessage_eq [OF _ n]) (use assms(1) in simp)
  moreover have "seen ?i ?N = seen ?i N" by (simp add: seen_def)
  moreover have "on_state (processNextBlock R C depth b) N = (?N, Inr ())" using assms(4) by (simp add: on_state_def)
  ultimately show ?thesis
    using m(1) n assms(2,3,5,6) by (simp add: publish_block_def Let_def bindS_Inr broadcastBlock_def)
qed

lemma built_block_valid:
  assumes inv: "node_inv C S" and ready: "round_ready C (rdpos S)"
    and signer: "signs_as C (validatorKey (rdpos S)) (randomList (rdpos S) ! 0)" and clock: "timestamp (last (st_chain (storage S))) \<le> now"
  obtains hs ss b where "select_txs selector_hash (randomList (rdpos S)) (map snd (validatorMempool (rdpos S))) 1 [] = Some (Inr hs)"
    and "select_txs selector_seed (randomList (rdpos S)) (map snd (validatorMempool (rdpos S))) 1 [] = Some (Inr ss)"
    and "signBlock C (rdpos S) (build_block C S (last (st_chain (storage S))) hs ss) now = Inr b"
    and "validateNextBlock C S b = Inr True" and "txs b = map snd (mempool S)"
proof -
  let ?rd = "rdpos S" and ?l = "last (st_chain (storage S))"
  have pool: "pool_ok C S" and mp: "mempool_ok C (nHeight ?l) ?rd" and l: "latest (storage S) = Inr ?l"
    using inv by (simp_all add: node_inv_def latest_def)
  have len: "5 \<le> length (randomList ?rd)" using node_safe_random [of C S] inv by (simp add: node_inv_iff)
  obtain hs ss where sel: "select_txs selector_hash (randomList ?rd) (map snd (validatorMempool ?rd)) 1 [] = Some (Inr hs)"
      "select_txs selector_seed (randomList ?rd) (map snd (validatorMempool ?rd)) 1 [] = Some (Inr ss)"
    and hs: "length hs = 4" "\<forall>k<4. hs ! k \<in> snd ` set (validatorMempool ?rd) \<and> tv_from (hs ! k) = randomList ?rd ! (k + 1) \<and> take 4 (tv_data (hs ! k)) = selector_hash"
    and ss: "length ss = 4" "\<forall>k<4. ss ! k \<in> snd ` set (validatorMempool ?rd) \<and> tv_from (ss ! k) = randomList ?rd ! (k + 1) \<and> take 4 (tv_data (ss ! k)) = selector_seed"
    by (rule round_selected [OF ready len])
  let ?b0 = "build_block C S ?l hs ss"
  note m = build_block_members [of C S ?l hs ss]
  obtain b where b: "signBlock C ?rd ?b0 now = Inr b" "Block_finalize C ?b0 (validatorKey ?rd) now = Inr (b, True)"
    "toAddress C (validatorPubKey b) = randomList ?rd ! 0"
    using signed_block [OF signer m(6)] clock m(2) by metis
  note f = Block_finalize_spec [OF b(2)]
  have bv: "block_valid C ?rd b" by (rule selected_valid [OF mp ready len hs ss]) (use f m b(3) in simp_all)
  have txs: "txs b = map snd (mempool S)" using f(6) m(5) by simp
  have "map_of (mempool S) (tx_hash C tx) \<noteq> None" if "tx \<in> set (txs b)" for tx
    using that pool unfolding txs pool_ok_def map_of_eq_None_iff by force
  then have "validate_txs C S (txs b) = Inr True" by (intro validate_txs_pool) simp
  then have "validateNextBlock C S b = Inr True"
    using validateBlock_eq [OF len, of C b] bv l f m clock by (simp add: validateNextBlock_def not_less)
  then show thesis using that sel b(1) txs by blast
qed

text \<open>C6. A node of a consistent state whose turn it is creates a block, provided that every validator of the round has sent a hash and the seed behind it, at least eight validator
  transactions in all, that it holds the key of the proposer, that its clock is not behind the last block and its server is not closed, and that the mempool is not empty and
  consists of plain transfers, not to contracts, by different senders: both selection loops end, the block passes the node's own validation, is
  processed, holds every transaction of the mempool and empties it, and is handed to all normal peers unless a broadcast with the same identifier was seen before. Every node
  in the same state accepts it, since validation and processing are the same functions there.\<close>

theorem proposer_creates_block:
  assumes inv: "node_inv C (nd_state N)" and ready: "round_ready C (rdpos (nd_state N))"
    and signer: "signs_as C (validatorKey (rdpos (nd_state N))) (randomList (rdpos (nd_state N)) ! 0)"
    and clock: "timestamp (last (st_chain (storage (nd_state N)))) \<le> now"
    and full: "8 \<le> length (validatorMempool (rdpos (nd_state N)))" "mempool (nd_state N) \<noteq> []" and net: "\<not> mb_closed (nd_base N)"
    and acc: "accounts_ok (accounts (nd_state N))" "ledger_total (accounts (nd_state N)) < 2 ^ 256"
    and plain: "distinct (map (tx_from \<circ> snd) (mempool (nd_state N)))" "\<forall>(h, tx)\<in>set (mempool (nd_state N)). \<not> isContractCall (nd_state N) tx"
  shows "\<exists>b m S'. doValidatorBlock R C depth now N =
      Some (if seen (FNVHash (serializeBlock b)) N then N\<lparr>nd_state := S'\<rparr> else marked (FNVHash (serializeBlock b)) m (N\<lparr>nd_state := S'\<rparr>), Inr ())
    \<and> BroadcastEncoder_broadcastBlock b = Inr m
    \<and> validateNextBlock C (nd_state N) b = Inr True \<and> processNextBlock R C depth b (nd_state N) = (S', Inr ())
    \<and> txs b = map snd (mempool (nd_state N)) \<and> mempool S' = [] \<and> st_chain (storage S') = st_chain (storage (nd_state N)) @ [b]"
proof -
  let ?S = "nd_state N" and ?rd = "rdpos (nd_state N)" and ?l = "last (st_chain (storage (nd_state N)))"
  have pool: "pool_ok C ?S" and l: "latest (storage ?S) = Inr ?l" using inv by (simp_all add: node_inv_def latest_def)
  obtain hs ss b where sel: "select_txs selector_hash (randomList ?rd) (map snd (validatorMempool ?rd)) 1 [] = Some (Inr hs)"
      "select_txs selector_seed (randomList ?rd) (map snd (validatorMempool ?rd)) 1 [] = Some (Inr ss)"
    and b: "signBlock C ?rd (build_block C ?S ?l hs ss) now = Inr b" and v: "validateNextBlock C ?S b = Inr True"
    and txs: "txs b = map snd (mempool ?S)"
    by (rule built_block_valid [OF inv ready signer clock])
  have uniq: "\<forall>tx\<in>set (txs b). \<forall>tx'. (tx_hash C tx, tx') \<in> set (mempool ?S) \<longrightarrow> tx' = tx"
  proof (intro ballI allI impI)
    fix tx tx' assume "tx \<in> set (txs b)" and x: "(tx_hash C tx, tx') \<in> set (mempool ?S)"
    then have "(tx_hash C tx, tx) \<in> set (mempool ?S)" using pool unfolding txs pool_ok_def by auto
    with x pool show "tx' = tx" unfolding pool_ok_def by (meson eq_key_imp_eq_value)
  qed
  have "distinct (map tx_from (txs b))" "\<forall>tx\<in>set (txs b). \<not> isContractCall ?S tx" using plain unfolding txs by auto
  from transfer_block_runs [OF pool v acc this uniq, of R depth]
  obtain S' where p: "processNextBlock R C depth b ?S = (S', Inr ())" by blast
  note e = processNextBlock_effect [OF pool_ok_keyed [OF pool] p]
  have chain: "st_chain (storage S') = st_chain (storage ?S) @ [b]" using pushBack_chain [OF e(2)] .
  have empty: "mempool S' = []" unfolding e(4) txs using pool by (force simp: pool_ok_def filter_empty_conv)
  obtain msg where "BroadcastEncoder_broadcastBlock b = Inr msg" "publish_block R C depth now hs ss N =
      (if seen (FNVHash (serializeBlock b)) N then N\<lparr>nd_state := S'\<rparr> else marked (FNVHash (serializeBlock b)) msg (N\<lparr>nd_state := S'\<rparr>), Inr ())"
    using published [OF net l b p v] chain by (auto simp: latest_def)
  moreover have "doValidatorBlock R C depth now N = Some (publish_block R C depth now hs ss N)"
    using sel full by (simp add: doValidatorBlock_def Let_def minValidators_def)
  ultimately show ?thesis using v p txs empty chain by metis
qed

subsection \<open>A round that cannot end\<close>

text \<open>C35. The mempool takes any two validator transactions of a validator whose selectors differ, whatever they are,
  and then no third one. So one validator of the round that sends two transactions and no random hash makes the
  proposer's first loop run forever, however full the mempools are, and nothing the validator sends later can end it.\<close>

theorem withheld_hash_halts:
  assumes "5 \<le> length (randomList (rdpos (nd_state N)))" and "i \<in> {1..4}"
    and "2 \<le> length (from_sender (rdpos (nd_state N)) (randomList (rdpos (nd_state N)) ! i))"
    and "\<forall>t\<in>set (from_sender (rdpos (nd_state N)) (randomList (rdpos (nd_state N)) ! i)). take 4 (tv_data t) \<noteq> selector_hash"
  shows "select_txs selector_hash (randomList (rdpos (nd_state N))) (map snd (validatorMempool (rdpos (nd_state N)))) 1 [] = None
    \<and> doValidatorBlock R C depth now N = None
    \<and> (tv_from tx = randomList (rdpos (nd_state N)) ! i \<longrightarrow>
        (\<exists>r. addValidatorTx C h (rdpos (nd_state N)) tx = Inr (rdpos (nd_state N), r)))"
proof (intro conjI impI)
  let ?rd = "rdpos (nd_state N)"
  show n: "select_txs selector_hash (randomList ?rd) (map snd (validatorMempool ?rd)) 1 [] = None"
    by (rule select_txs_missing [OF assms(1), of _ _ i]) (use assms(2,4) in \<open>auto simp: from_sender_def\<close>)
  then show "doValidatorBlock R C depth now N = None" by (simp add: doValidatorBlock_def Let_def)
  assume "tv_from tx = randomList ?rd ! i"
  then show "\<exists>r. addValidatorTx C h ?rd tx = Inr (?rd, r)"
    using assms(3) participates_loop_eq [of "[1..<5]" "randomList ?rd" "tv_from tx"] assms(1)
    by (auto simp: addValidatorTx_def Let_def minValidators_def)
qed

subsection \<open>The sample round\<close>

lemma seal_ready: "round_ready seal_crypto seal_rd"
  unfolding round_ready_def
proof (intro conjI ballI)
  have "seal_address 7 = tv_from (seal_vtx False i) \<longleftrightarrow> False" if "i < 4" for i
    using that by (simp add: seal_vtx_def seal_address_eq seal_s_mod)
  note seven = this
  show "distinct (take 5 (randomList seal_rd))"
    by (auto simp: seal_rd_simps distinct_map inj_on_def seal_from_inject seven)
next
  fix i :: nat assume "i \<in> {1..4}"
  then have i: "i - 1 < 4" "i - 1 + 1 = i" by auto
  have "seal_vtx b (i - 1) \<in> snd ` set (validatorMempool seal_rd)" for b using seal_mempool i(1) by force
  then show "\<exists>h\<in>snd ` set (validatorMempool seal_rd). \<exists>s\<in>snd ` set (validatorMempool seal_rd).
     tv_from h = randomList seal_rd ! i \<and> tv_from s = randomList seal_rd ! i
     \<and> getTxValidatorFunction h = RANDOMHASH \<and> getTxValidatorFunction s = RANDOMSEED \<and> sha3 seal_crypto (drop 4 (tv_data s)) = drop 4 (tv_data h)"
    using seal_from [OF i(1)] i(2) seal_functions by metis
qed

theorem proposer_creates_block_witness:
  "\<exists>b N'. doValidatorBlock alist_rocks seal_crypto 2 6 seal_node = Some (N', Inr ())
     \<and> txs b = [seal_pay] \<and> st_chain (storage (nd_state N')) = [first_block, b]"
proof -
  have signer: "signs_as seal_crypto (validatorKey (rdpos (nd_state seal_node))) (randomList (rdpos (nd_state seal_node)) ! 0)"
    by (simp add: signs_as_def seal_peered_simps seal_state_simps seal_rd_simps seal_sign seal_recover seal_toAddress)
  have "\<exists>b m S'. doValidatorBlock alist_rocks seal_crypto 2 6 seal_node =
      Some (if seen (FNVHash (serializeBlock b)) seal_node then seal_node\<lparr>nd_state := S'\<rparr> else marked (FNVHash (serializeBlock b)) m (seal_node\<lparr>nd_state := S'\<rparr>), Inr ())
    \<and> BroadcastEncoder_broadcastBlock b = Inr m
    \<and> validateNextBlock seal_crypto (nd_state seal_node) b = Inr True \<and> processNextBlock alist_rocks seal_crypto 2 b (nd_state seal_node) = (S', Inr ())
    \<and> txs b = map snd (mempool (nd_state seal_node)) \<and> mempool S' = [] \<and> st_chain (storage S') = st_chain (storage (nd_state seal_node)) @ [b]"
    by (rule proposer_creates_block [OF _ _ signer])
      (use seal_state_inv seal_ready seal_transfers in
        \<open>simp_all add: seal_peered_simps seal_state_simps seal_rd_simps(3) seal_members first_block_def open_base_def\<close>)
  then show ?thesis by (auto simp: seal_peered_simps seal_state_simps marked_def split: if_splits)
qed

definition withheld_node :: "(bytes \<times> bytes) list NormalNode" where
  "withheld_node = seal_node\<lparr>nd_state := seal_state\<lparr>rdpos := seal_rd\<lparr>validatorMempool :=
     [([1], seal_vtx True 0), ([2], (seal_vtx True 0)\<lparr>tv_data := []\<rparr>)]\<rparr>\<rparr>\<rparr>"

theorem withheld_hash_halts_witness:
  "doValidatorBlock alist_rocks seal_crypto 2 6 withheld_node = None
   \<and> (\<exists>r. addValidatorTx seal_crypto 0 (rdpos (nd_state withheld_node)) (seal_vtx False 0) = Inr (rdpos (nd_state withheld_node), r))"
proof -
  have w: "rdpos (nd_state withheld_node) = seal_rd\<lparr>validatorMempool := [([1], seal_vtx True 0), ([2], (seal_vtx True 0)\<lparr>tv_data := []\<rparr>)]\<rparr>"
    by (simp add: withheld_node_def)
  have f: "tv_from (seal_vtx b 0) = randomList seal_rd ! 1" for b using seal_from [of 0 b] by simp
  have d: "take 4 (tv_data (seal_vtx True 0)) \<noteq> selector_hash" by (simp add: seal_vtx_def selector_hash_def)
  have "5 \<le> length (randomList (rdpos (nd_state withheld_node)))" by (simp add: w seal_rd_simps)
  from withheld_hash_halts [OF this, of 1 alist_rocks seal_crypto 2 6 "seal_vtx False 0" 0] show ?thesis
    by (simp add: w from_sender_def f d) (simp add: selector_hash_def)
qed

end
