(* ===== verification/Json_Rpc.thy ===== *)
theory Json_Rpc
  imports Network Complex_Main
begin

text \<open>
  The JSON-RPC interface of a node: \<^verbatim>\<open>src/net/http/jsonrpc/decoding.cpp\<close>, \<^verbatim>\<open>encoding.cpp\<close>, \<^verbatim>\<open>methods.h\<close> and the
  dispatcher \<^verbatim>\<open>parseJsonRpcRequest\<close> of \<^verbatim>\<open>src/net/http/httpparser.cpp\<close>. The first part models what these files
  use of the JSON library (\<^verbatim>\<open>src/utils/json.hpp\<close>): values, access to them and the exceptions of a wrong
  access. Reading a text as JSON, printing a value, reading hexadecimal digits into a \<^verbatim>\<open>uint256_t\<close> and narrowing
  one to 64 bits are parameters.
\<close>

subsection \<open>JSON values\<close>

text \<open>A number is unsigned, signed or floating; a finite floating-point number is a rational number. The entries
  of an object are listed in the order of their assignment; the library keeps them sorted by key.\<close>

datatype json_number = JUnsigned uint64 | JInteger int | JFloat rat

datatype json = JNull | JBool bool | JNum json_number | JStr string | JArr "json list" | JObj "(string \<times> json) list"

fun json_type_name :: "json \<Rightarrow> string" where
  "json_type_name JNull = ''null''"
| "json_type_name (JBool _) = ''boolean''"
| "json_type_name (JNum _) = ''number''"
| "json_type_name (JStr _) = ''string''"
| "json_type_name (JArr _) = ''array''"
| "json_type_name (JObj _) = ''object''"

definition json_type_error :: "nat \<Rightarrow> string \<Rightarrow> json \<Rightarrow> exn" where
  "json_type_error n text j = JsonException (''[json.exception.type_error.'' @ dec_string n @ ''] '' @ text @ json_type_name j)"

fun json_find :: "json \<Rightarrow> string \<Rightarrow> json option" where
  "json_find (JObj fs) key = map_of fs key"
| "json_find _ key = None"

definition json_contains :: "json \<Rightarrow> string \<Rightarrow> bool" where
  "json_contains j key \<longleftrightarrow> json_find j key \<noteq> None"

text \<open>\<^verbatim>\<open>operator[]\<close> on a constant object asserts that the key is there. A build with assertions ends the process on a missing key; without them the end
  iterator is dereferenced. Both are \<open>UndefinedBehaviour\<close> here: the request is not answered.\<close>

fun json_const_index :: "json \<Rightarrow> string \<Rightarrow> json result" where
  "json_const_index (JObj fs) key = deref (map_of fs key)"
| "json_const_index j key = Inl (json_type_error 305 ''cannot use operator[] with a string argument with '' j)"

text \<open>The value \<^verbatim>\<open>operator[]\<close> gives on an object that is not constant: a missing entry is made and null.\<close>

fun json_index :: "json \<Rightarrow> string \<Rightarrow> json result" where
  "json_index (JObj fs) key = Inr (case map_of fs key of None \<Rightarrow> JNull | Some v \<Rightarrow> v)"
| "json_index JNull key = Inr JNull"
| "json_index j key = Inl (json_type_error 305 ''cannot use operator[] with a string argument with '' j)"

fun json_at :: "json \<Rightarrow> nat \<Rightarrow> json result" where
  "json_at (JArr xs) i = (if i < length xs then Inr (xs ! i)
     else Inl (JsonException (''[json.exception.out_of_range.401] array index '' @ dec_string i @ '' is out of range'')))"
| "json_at j i = Inl (json_type_error 304 ''cannot use at() with '' j)"

fun json_size :: "json \<Rightarrow> nat" where
  "json_size JNull = 0"
| "json_size (JArr xs) = length xs"
| "json_size (JObj fs) = length fs"
| "json_size _ = 1"

definition json_empty :: "json \<Rightarrow> bool" where
  "json_empty j \<longleftrightarrow> json_size j = 0"

fun get_string :: "json \<Rightarrow> string result" where
  "get_string (JStr s) = Inr s"
| "get_string j = Inl (json_type_error 302 ''type must be string, but is '' j)"

fun get_bool :: "json \<Rightarrow> bool result" where
  "get_bool (JBool b) = Inr b"
| "get_bool j = Inl (json_type_error 302 ''type must be boolean, but is '' j)"

text \<open>A conversion of a floating-point number that does not fit is undefined.\<close>

fun get_uint64 :: "json \<Rightarrow> uint64 result" where
  "get_uint64 (JNum (JUnsigned n)) = Inr n"
| "get_uint64 (JNum (JInteger i)) = Inr (of_int i)"
| "get_uint64 (JNum (JFloat r)) = (if - 1 < r \<and> r < 2 ^ 64 then Inr (of_int (if r < 0 then 0 else \<lfloor>r\<rfloor>)) else Inl UndefinedBehaviour)"
| "get_uint64 j = Inl (json_type_error 302 ''type must be number, but is '' j)"

subsection \<open>Parameters\<close>

record rpc_lib =
  parse_json :: "string \<Rightarrow> json result"
  dump_json :: "json \<Rightarrow> string result"
  lexical_hex :: "string \<Rightarrow> uint256 result"
  narrow64 :: "uint256 \<Rightarrow> uint64 result"

record rpc_options =
  opt_web3ClientVersion :: string
  opt_version :: uint64
  opt_sdkVersion :: uint64
  opt_coinbase :: bytes

subsection \<open>Methods\<close>

text \<open>The enumerators that the lookup table never yields are left out.\<close>

datatype Methods = Method_invalid | Method_web3_clientVersion | Method_web3_sha3 | Method_net_version | Method_net_listening
  | Method_net_peerCount | Method_eth_protocolVersion | Method_eth_getBlockByHash | Method_eth_getBlockByNumber
  | Method_eth_getBlockTransactionCountByHash | Method_eth_getBlockTransactionCountByNumber | Method_eth_chainId
  | Method_eth_syncing | Method_eth_coinbase | Method_eth_blockNumber | Method_eth_call | Method_eth_estimateGas
  | Method_eth_gasPrice | Method_eth_getBalance | Method_eth_getTransactionCount | Method_eth_getCode
  | Method_eth_sendTransaction | Method_eth_sendRawTransaction | Method_eth_getTransactionByHash
  | Method_eth_getTransactionByBlockHashAndIndex | Method_eth_getTransactionByBlockNumberAndIndex
  | Method_eth_getTransactionReceipt

definition methodsLookupTable :: "(string \<times> Methods) list" where
  "methodsLookupTable =
    [(''web3_clientVersion'', Method_web3_clientVersion),
     (''web3_sha3'', Method_web3_sha3),
     (''net_version'', Method_net_version),
     (''net_listening'', Method_net_listening),
     (''net_peerCount'', Method_net_peerCount),
     (''eth_protocolVersion'', Method_eth_protocolVersion),
     (''eth_getBlockByHash'', Method_eth_getBlockByHash),
     (''eth_getBlockByNumber'', Method_eth_getBlockByNumber),
     (''eth_getBlockTransactionCountByHash'', Method_eth_getBlockTransactionCountByHash),
     (''eth_getBlockTransactionCountByNumber'', Method_eth_getBlockTransactionCountByNumber),
     (''eth_chainId'', Method_eth_chainId),
     (''eth_syncing'', Method_eth_syncing),
     (''eth_coinbase'', Method_eth_coinbase),
     (''eth_blockNumber'', Method_eth_blockNumber),
     (''eth_call'', Method_eth_call),
     (''eth_estimateGas'', Method_eth_estimateGas),
     (''eth_gasPrice'', Method_eth_gasPrice),
     (''eth_getBalance'', Method_eth_getBalance),
     (''eth_getTransactionCount'', Method_eth_getTransactionCount),
     (''eth_getCode'', Method_eth_getCode),
     (''eth_sendTransaction'', Method_eth_sendTransaction),
     (''eth_sendRawTransaction'', Method_eth_sendRawTransaction),
     (''eth_getTransactionByHash'', Method_eth_getTransactionByHash),
     (''eth_getTransactionByBlockHashAndIndex'', Method_eth_getTransactionByBlockHashAndIndex),
     (''eth_getTransactionByBlockNumberAndIndex'', Method_eth_getTransactionByBlockNumberAndIndex),
     (''eth_getTransactionReceipt'', Method_eth_getTransactionReceipt)]"

subsection \<open>Decoding a request\<close>

definition checkJsonRPCSpec :: "json \<Rightarrow> bool result" where
  "checkJsonRPCSpec request = rethrow ''Error while checking json RPC spec: ''
     (if \<not> json_contains request ''jsonrpc'' then Inr False
      else bindE (bindE (json_const_index request ''jsonrpc'') get_string) (\<lambda>version.
      if version \<noteq> ''2.0'' then Inr False
      else if \<not> json_contains request ''method'' then Inr False
      else Inr (case json_find request ''params'' of
        Some (JObj _) \<Rightarrow> True | Some (JArr _) \<Rightarrow> True | Some _ \<Rightarrow> False | None \<Rightarrow> True)))"

definition getMethod :: "json \<Rightarrow> Methods result" where
  "getMethod request = rethrow ''Error while checking json RPC spec: ''
     (bindE (bindE (json_const_index request ''method'') get_string) (\<lambda>m.
      Inr (case map_of methodsLookupTable m of None \<Rightarrow> Method_invalid | Some x \<Rightarrow> x)))"

abbreviation params_of :: "json \<Rightarrow> json result" where
  "params_of request \<equiv> json_const_index request ''params''"

definition no_params :: "string \<Rightarrow> json \<Rightarrow> unit result" where
  "no_params name request = rethrow (''Error while decoding '' @ name @ '': '')
     (bindE (params_of request) (\<lambda>p.
      if \<not> json_empty p then Inl (RuntimeError (name @ '' does not need params'')) else Inr ()))"

definition Decoding_web3_clientVersion :: "json \<Rightarrow> unit result" where
  "Decoding_web3_clientVersion = no_params ''web3_clientVersion''"

definition Decoding_web3_sha3 :: "json \<Rightarrow> bytes result" where
  "Decoding_web3_sha3 request = rethrow ''Error while decoding web3_sha3: ''
     (bindE (params_of request) (\<lambda>p.
      if json_size p \<noteq> 1 then Inl (RuntimeError ''web3_sha3 needs 1 param'')
      else bindE (bindE (json_at p 0) get_string) (\<lambda>s.
      if \<not> Hex_isValid s True then Inl (RuntimeError ''Invalid hex string'') else Hex_toBytes s)))"

definition Decoding_net_version :: "json \<Rightarrow> unit result" where
  "Decoding_net_version = no_params ''net_version''"

definition Decoding_net_listening :: "json \<Rightarrow> unit result" where
  "Decoding_net_listening = no_params ''net_listening''"

definition Decoding_net_peerCount :: "json \<Rightarrow> unit result" where
  "Decoding_net_peerCount = no_params ''net_peerCount''"

definition Decoding_eth_protocolVersion :: "json \<Rightarrow> unit result" where
  "Decoding_eth_protocolVersion = no_params ''eth_protocolVersion''"

text \<open>The regular expressions: lower-case digits of a hash, digits of either case of an address or a hash, where the
  character class also holds the comma, and a number without leading zeros.\<close>

definition lower_hex :: "string \<Rightarrow> bool" where
  "lower_hex s \<longleftrightarrow> list_all (\<lambda>c. c \<in> set ''0123456789abcdef'') s"

definition match_hash :: "string \<Rightarrow> bool" where
  "match_hash s \<longleftrightarrow> take 2 s = ''0x'' \<and> length s = 66 \<and> lower_hex (drop 2 s)"

definition match_any_case :: "nat \<Rightarrow> string \<Rightarrow> bool" where
  "match_any_case n s \<longleftrightarrow> take 2 s = ''0x'' \<and> length s = 2 + n \<and> list_all (\<lambda>c. c \<in> set ''0123456789,abcdefABCDEF'') (drop 2 s)"

definition match_number :: "string \<Rightarrow> bool" where
  "match_number s \<longleftrightarrow> take 2 s = ''0x'' \<and> (drop 2 s = ''0'' \<or> drop 2 s \<noteq> [] \<and> hd (drop 2 s) \<noteq> CHR ''0'' \<and> lower_hex (drop 2 s))"

text \<open>\<^verbatim>\<open>Hex(s).getUint()\<close>\<close>

definition hex_uint :: "rpc_lib \<Rightarrow> string \<Rightarrow> uint256 result" where
  "hex_uint L s = bindE (Hex_new s False) (\<lambda>h. lexical_hex L (hx_hex h))"

definition hex_uint64 :: "rpc_lib \<Rightarrow> string \<Rightarrow> uint64 result" where
  "hex_uint64 L s = bindE (hex_uint L s) (narrow64 L)"

definition include_txs :: "json \<Rightarrow> bool result" where
  "include_txs p = (if json_size p = 2 then bindE (json_at p 1) get_bool else Inr False)"

definition read_hash :: "(string \<Rightarrow> bool) \<Rightarrow> string \<Rightarrow> string \<Rightarrow> bytes result" where
  "read_hash matches message s =
     (if \<not> matches s then Inl (RuntimeError message) else bindE (Hex_toBytes s) (\<lambda>bs. Inr (FixedStr 32 bs)))"

definition Decoding_eth_getBlockByHash :: "json \<Rightarrow> (bytes \<times> bool) result" where
  "Decoding_eth_getBlockByHash request = rethrow ''Error while decoding eth_getBlockByHash: ''
     (bindE (params_of request) (\<lambda>p.
      bindE (include_txs p) (\<lambda>includeTransactions.
      bindE (bindE (json_at p 0) get_string) (\<lambda>blockHash.
      bindE (read_hash match_hash ''Invalid block hash hex'' blockHash) (\<lambda>h. Inr (h, includeTransactions))))))"

definition read_block_number :: "rpc_lib \<Rightarrow> Storage \<Rightarrow> string \<Rightarrow> uint64 result" where
  "read_block_number L st blockNumber =
     (if blockNumber = ''latest'' then bindE (latest st) (\<lambda>b. Inr (nHeight b))
      else if blockNumber = ''earliest'' then Inr 0
      else if blockNumber = ''pending'' then Inl (RuntimeError ''Pending block is not supported'')
      else if \<not> match_number blockNumber then Inl (RuntimeError ''Invalid block hash hex'')
      else hex_uint64 L blockNumber)"

definition Decoding_eth_getBlockByNumber :: "rpc_lib \<Rightarrow> Storage \<Rightarrow> json \<Rightarrow> (uint64 \<times> bool) result" where
  "Decoding_eth_getBlockByNumber L st request = rethrow ''Error while decoding eth_getBlockByNumber: ''
     (bindE (params_of request) (\<lambda>p.
      bindE (include_txs p) (\<lambda>includeTransactions.
      bindE (bindE (json_at p 0) get_string) (\<lambda>blockNumber.
      bindE (read_block_number L st blockNumber) (\<lambda>n. Inr (n, includeTransactions))))))"

definition Decoding_eth_getBlockTransactionCountByHash :: "json \<Rightarrow> bytes result" where
  "Decoding_eth_getBlockTransactionCountByHash request = rethrow ''Error while decoding eth_getBlockTransactionCountByHash: ''
     (bindE (bindE (bindE (params_of request) (\<lambda>p. json_at p 0)) get_string) (read_hash match_hash ''Invalid block hash hex''))"

definition Decoding_eth_getBlockTransactionCountByNumber :: "rpc_lib \<Rightarrow> Storage \<Rightarrow> json \<Rightarrow> uint64 result" where
  "Decoding_eth_getBlockTransactionCountByNumber L st request = rethrow ''Error while decoding eth_getBlockTransactionCountByNumber: ''
     (bindE (bindE (bindE (params_of request) (\<lambda>p. json_at p 0)) get_string) (read_block_number L st))"

definition Decoding_eth_chainId :: "json \<Rightarrow> unit result" where
  "Decoding_eth_chainId = no_params ''eth_chainId''"

definition Decoding_eth_syncing :: "json \<Rightarrow> unit result" where
  "Decoding_eth_syncing = no_params ''eth_syncing''"

definition Decoding_eth_coinbase :: "json \<Rightarrow> unit result" where
  "Decoding_eth_coinbase = no_params ''eth_coinbase''"

definition Decoding_eth_blockNumber :: "json \<Rightarrow> unit result" where
  "Decoding_eth_blockNumber = no_params ''eth_blockNumber''"

definition check_latest :: "rpc_lib \<Rightarrow> Storage \<Rightarrow> string \<Rightarrow> unit result" where
  "check_latest L st block =
     (if block = ''latest'' then Inr ()
      else if \<not> match_number block then Inl (RuntimeError ''Invalid block number'')
      else bindE (hex_uint64 L block) (\<lambda>blockNumber.
           bindE (latest st) (\<lambda>b.
           if blockNumber \<noteq> nHeight b then Inl (RuntimeError ''Only latest block is supported'') else Inr ())))"

definition call_object :: "rpc_lib \<Rightarrow> Storage \<Rightarrow> json \<Rightarrow> json result" where
  "call_object L st request =
     bindE (params_of request) (\<lambda>p. case p of
       JArr xs \<Rightarrow> bindE (json_at p 0) (\<lambda>txObject.
         bindE (if json_size p > 1 then bindE (bindE (json_at p 1) get_string) (check_latest L st) else Inr ()) (\<lambda>_. Inr txObject))
     | JObj _ \<Rightarrow> Inr p
     | _ \<Rightarrow> Inl (RuntimeError ''Invalid params''))"

definition optional :: "json \<Rightarrow> string \<Rightarrow> (string \<Rightarrow> 'a result) \<Rightarrow> 'a \<Rightarrow> 'a result" where
  "optional txObject key f absent =
     (case json_find txObject key of
        None \<Rightarrow> Inr absent
      | Some v \<Rightarrow> if v = JNull then Inr absent else bindE (get_string v) f)"

definition read_address :: "string \<Rightarrow> string \<Rightarrow> bytes result" where
  "read_address message s = (if \<not> match_any_case 40 s then Inl (RuntimeError message) else bindE (Hex_toBytes s) Address_bytes)"

definition read_number :: "rpc_lib \<Rightarrow> string \<Rightarrow> string \<Rightarrow> uint256 result" where
  "read_number L message s = (if \<not> match_number s then Inl (RuntimeError message) else hex_uint L s)"

definition read_gas :: "rpc_lib \<Rightarrow> string \<Rightarrow> uint256 result" where
  "read_gas L s = (if \<not> match_number s then Inl (RuntimeError ''Invalid gas hex'') else bindE (hex_uint64 L s) (\<lambda>n. Inr (ucast n)))"

definition read_data :: "string \<Rightarrow> bytes result" where
  "read_data s = (if \<not> Hex_isValid s True then Inl (RuntimeError ''Invalid data hex'') else Hex_toBytes s)"

text \<open>The fields the two calls read alike.\<close>

definition read_call :: "rpc_lib \<Rightarrow> json \<Rightarrow> bytes result \<Rightarrow> uint256 \<Rightarrow> ethCallInfo result" where
  "read_call L txObject toField default_gas =
     bindE (optional txObject ''from'' (read_address ''Invalid from address hex'') (FixedStr 20 [])) (\<lambda>from.
     bindE toField (\<lambda>to.
     bindE (optional txObject ''gas'' (read_gas L) default_gas) (\<lambda>gas.
     bindE (optional txObject ''gasPrice'' (read_number L ''Invalid gasPrice hex'') 0) (\<lambda>gasPrice.
     bindE (optional txObject ''value'' (read_number L ''Invalid value hex'') 0) (\<lambda>v.
     bindE (optional txObject ''data'' read_data []) (\<lambda>dat. Inr (from, to, gas, gasPrice, v, dat)))))))"

definition Decoding_eth_call :: "rpc_lib \<Rightarrow> Storage \<Rightarrow> json \<Rightarrow> ethCallInfo result" where
  "Decoding_eth_call L st request = rethrow ''Error while decoding eth_call: ''
     (bindE (call_object L st request) (\<lambda>txObject. read_call L txObject
        (bindE (bindE (json_index txObject ''to'') get_string) (read_address ''Invalid to address hex'')) 0))"

definition Decoding_eth_estimateGas :: "rpc_lib \<Rightarrow> Storage \<Rightarrow> json \<Rightarrow> ethCallInfo result" where
  "Decoding_eth_estimateGas L st request = rethrow ''Error while decoding eth_estimateGas: ''
     (bindE (call_object L st request) (\<lambda>txObject. read_call L txObject
        (optional txObject ''to'' (read_address ''Invalid to address hex'') (FixedStr 20 [])) (2 ^ 64 - 1)))"

definition Decoding_eth_gasPrice :: "json \<Rightarrow> unit result" where
  "Decoding_eth_gasPrice = no_params ''eth_gasPrice''"

definition address_and_block :: "rpc_lib \<Rightarrow> Storage \<Rightarrow> json \<Rightarrow> bytes result" where
  "address_and_block L st request =
     bindE (params_of request) (\<lambda>p.
     bindE (bindE (json_at p 0) get_string) (\<lambda>address.
     bindE (bindE (json_at p 1) get_string) (\<lambda>block.
     bindE (check_latest L st block) (\<lambda>_. read_address ''Invalid address hex'' address))))"

definition Decoding_eth_getBalance :: "rpc_lib \<Rightarrow> Storage \<Rightarrow> json \<Rightarrow> bytes result" where
  "Decoding_eth_getBalance L st request = rethrow ''Error while decoding eth_getBalance: '' (address_and_block L st request)"

definition Decoding_eth_getTransactionCount :: "rpc_lib \<Rightarrow> Storage \<Rightarrow> json \<Rightarrow> bytes result" where
  "Decoding_eth_getTransactionCount L st request = rethrow ''Error while decoding eth_getTransactionCount: '' (address_and_block L st request)"

definition Decoding_eth_getCode :: "rpc_lib \<Rightarrow> Storage \<Rightarrow> json \<Rightarrow> bytes result" where
  "Decoding_eth_getCode L st request = rethrow ''Error while decoding eth_getCode: '' (address_and_block L st request)"

definition Decoding_eth_sendRawTransaction :: "crypto \<Rightarrow> uint64 \<Rightarrow> json \<Rightarrow> TxBlock result" where
  "Decoding_eth_sendRawTransaction C requiredChainId request = rethrow ''Error while decoding eth_sendRawTransaction: ''
     (bindE (bindE (bindE (params_of request) (\<lambda>p. json_at p 0)) get_string) (\<lambda>txHex.
      if \<not> Hex_isValid txHex True then Inl (RuntimeError ''Invalid transaction hex'')
      else bindE (Hex_toBytes txHex) (\<lambda>bs. TxBlock_parse C bs requiredChainId)))"

definition Decoding_eth_getTransactionByHash :: "json \<Rightarrow> bytes result" where
  "Decoding_eth_getTransactionByHash request = rethrow ''Error while decoding eth_getTransactionByHash: ''
     (bindE (bindE (bindE (params_of request) (\<lambda>p. json_at p 0)) get_string) (read_hash (match_any_case 64) ''Invalid hash hex''))"

definition Decoding_eth_getTransactionByBlockHashAndIndex :: "rpc_lib \<Rightarrow> json \<Rightarrow> (bytes \<times> uint64) result" where
  "Decoding_eth_getTransactionByBlockHashAndIndex L request = rethrow ''Error while decoding eth_getTransactionByBlockHashAndIndex: ''
     (bindE (params_of request) (\<lambda>p.
      bindE (bindE (json_at p 0) get_string) (\<lambda>blockHash.
      bindE (bindE (json_at p 1) get_string) (\<lambda>index.
      if \<not> match_any_case 64 blockHash then Inl (RuntimeError ''Invalid blockHash hex'')
      else if \<not> match_number index then Inl (RuntimeError ''Invalid index hex'')
      else bindE (Hex_toBytes blockHash) (\<lambda>bs.
           bindE (hex_uint64 L index) (\<lambda>i. Inr (FixedStr 32 bs, i)))))))"

definition Decoding_eth_getTransactionByBlockNumberAndIndex :: "rpc_lib \<Rightarrow> Storage \<Rightarrow> json \<Rightarrow> (uint64 \<times> uint64) result" where
  "Decoding_eth_getTransactionByBlockNumberAndIndex L st request = rethrow ''Error while decoding eth_getTransactionByBlockNumberAndIndex: ''
     (bindE (params_of request) (\<lambda>p.
      bindE (bindE (json_at p 0) get_string) (\<lambda>blockNumber.
      bindE (bindE (json_at p 1) get_string) (\<lambda>index.
      if \<not> match_number index then Inl (RuntimeError ''Invalid index hex'')
      else if blockNumber = ''latest''
      then bindE (latest st) (\<lambda>b. bindE (hex_uint64 L index) (\<lambda>i. Inr (nHeight b, i)))
      else if \<not> match_number blockNumber then Inl (RuntimeError ''Invalid blockNumber hex'')
      else bindE (hex_uint64 L blockNumber) (\<lambda>n. bindE (hex_uint64 L index) (\<lambda>i. Inr (n, i)))))))"

definition Decoding_eth_getTransactionReceipt :: "json \<Rightarrow> bytes result" where
  "Decoding_eth_getTransactionReceipt request = rethrow ''Error while decoding eth_getTransactionReceipt: ''
     (bindE (bindE (bindE (params_of request) (\<lambda>p. json_at p 0)) get_string) (read_hash (match_any_case 64) ''Invalid Hex''))"

subsection \<open>Encoding a reply\<close>

text \<open>Some replies carry the version as the number 2.0 and not as the string the specification asks for.\<close>

definition reply :: "json \<Rightarrow> json" where
  "reply r = JObj [(''jsonrpc'', JStr ''2.0''), (''result'', r)]"

definition reply_num :: "json \<Rightarrow> json" where
  "reply_num r = JObj [(''jsonrpc'', JNum (JFloat 2)), (''result'', r)]"

definition error_object :: "int \<Rightarrow> string \<Rightarrow> json" where
  "error_object code message = JObj [(''code'', JNum (JInteger code)), (''message'', JStr message)]"

definition reply_error :: "int \<Rightarrow> string \<Rightarrow> json" where
  "reply_error code message = JObj [(''jsonrpc'', JStr ''2.0''), (''error'', error_object code message)]"

text \<open>\<^verbatim>\<open>x.hex(true)\<close>, and \<^verbatim>\<open>Hex::fromBytes(x, true).forRPC()\<close> of bytes and of the bytes of a number.\<close>

definition hex_json :: "bytes \<Rightarrow> json result" where
  "hex_json bs = bindE (Hex_fromBytes bs True) (\<lambda>h. Inr (JStr (hx_hex h)))"

definition rpc_json :: "bytes \<Rightarrow> json result" where
  "rpc_json bs = bindE (bindE (Hex_fromBytes bs True) Hex_forRPC) (\<lambda>s. Inr (JStr s))"

definition quantity :: "nat \<Rightarrow> json result" where
  "quantity n = rpc_json (uintToBytes n)"

definition json_object :: "(string \<times> json result) list \<Rightarrow> json result" where
  "json_object fs = bindE (mapE (\<lambda>(k, r). bindE r (\<lambda>v. Inr (k, v))) fs) (\<lambda>es. Inr (JObj es))"

definition zero_hash :: "json result" where
  "zero_hash = hex_json (FixedStr 32 [])"

definition block_tx_json :: "TxBlock \<Rightarrow> json result" where
  "block_tx_json tx = json_object
    [(''type'', Inr (JStr ''0x0'')),
     (''nonce'', quantity (unat (tx_nonce tx))),
     (''to'', hex_json (tx_to tx)),
     (''gas'', quantity (unat (tx_gasLimit tx))),
     (''value'', quantity (unat (tx_value tx))),
     (''input'', rpc_json (tx_data tx)),
     (''gasPrice'', quantity (unat (tx_maxFeePerGas tx))),
     (''chainId'', quantity (unat (tx_chainId tx))),
     (''v'', quantity (unat (tx_v tx))),
     (''r'', quantity (unat (tx_r tx))),
     (''s'', quantity (unat (tx_s tx)))]"

definition getBlockJson :: "crypto \<Rightarrow> Block option \<Rightarrow> bool \<Rightarrow> json result" where
  "getBlockJson C block includeTransactions =
     (case block of
        None \<Rightarrow> Inr (reply_num JNull)
      | Some b \<Rightarrow>
          (case json_object
             [(''hash'', hex_json (Block_hash C b)),
              (''parentHash'', hex_json (prevBlockHash b)),
              (''sha3Uncles'', zero_hash),
              (''miner'', hex_json (toAddress C (validatorPubKey b))),
              (''stateRoot'', zero_hash),
              (''transactionsRoot'', hex_json (txMerkleRoot b)),
              (''receiptsRoot'', zero_hash),
              (''logsBloom'', zero_hash),
              (''difficulty'', Inr (JStr ''0x1'')),
              (''number'', quantity (unat (nHeight b))),
              (''gasLimit'', quantity (2 ^ 64 - 1)),
              (''gasUsed'', quantity 1000000000),
              (''timestamp'', quantity (unat (timestamp b))),
              (''extraData'', Inr (JStr ''0x0'')),
              (''mixHash'', zero_hash),
              (''nonce'', Inr (JStr ''0x0'')),
              (''totalDifficulty'', Inr (JStr ''0x1'')),
              (''baseFeePerGas'', Inr (JStr ''0x9502f900'')),
              (''withdrawRoot'', zero_hash),
              (''size'', quantity (length (serializeBlock b))),
              (''transactions'', bindE (mapE (if includeTransactions then block_tx_json else (\<lambda>tx. hex_json (tx_hash C tx))) (txs b))
                 (\<lambda>ts. Inr (JArr ts))),
              (''withdrawls'', Inr (JArr [])),
              (''uncles'', Inr (JArr []))] of
             Inr r \<Rightarrow> Inr (reply_num r)
           | Inl e \<Rightarrow> if e = UndefinedBehaviour then Inl e
               else Inr (JObj [(''jsonrpc'', JNum (JFloat 2)), (''error'', error_object (-32603) (''Internal error: '' @ what e))])))"

definition Encoding_web3_clientVersion :: "rpc_options \<Rightarrow> json" where
  "Encoding_web3_clientVersion Op = reply (JStr (opt_web3ClientVersion Op))"

definition Encoding_web3_sha3 :: "crypto \<Rightarrow> bytes \<Rightarrow> json result" where
  "Encoding_web3_sha3 C dat = bindE (hex_json (sha3 C dat)) (\<lambda>h. Inr (reply h))"

definition Encoding_net_version :: "rpc_options \<Rightarrow> json" where
  "Encoding_net_version Op = reply_num (JStr (dec_string (unat (opt_version Op))))"

definition Encoding_net_listening :: json where
  "Encoding_net_listening = reply_num (JBool True)"

definition Encoding_net_peerCount :: "ManagerBase \<Rightarrow> json result" where
  "Encoding_net_peerCount M = bindE (quantity (unat (getPeerCount M))) (\<lambda>q. Inr (reply_num q))"

definition Encoding_eth_protocolVersion :: "rpc_options \<Rightarrow> json" where
  "Encoding_eth_protocolVersion Op = reply_num (JStr (dec_string (unat (opt_sdkVersion Op))))"

text \<open>A look-up in the storage may change its caches.\<close>

definition on_storage :: "(Storage \<Rightarrow> (Storage \<times> 'a) result) \<Rightarrow> ('s NormalNode, 'a) action" where
  "on_storage f = state_result (\<lambda>S. bindE (f (storage S)) (\<lambda>(st, x). Inr (S\<lparr>storage := st\<rparr>, x)))"

definition find_block :: "'s rocksdb \<Rightarrow> crypto \<Rightarrow> p2p_env \<Rightarrow> bytes \<Rightarrow> ('s NormalNode, Block option) action" where
  "find_block R C E hash N =
     on_storage (\<lambda>st. getBlock R (database (nd_state N)) C (env_threads E) (chainID (nd_state N)) st hash) N"

definition find_block_height :: "'s rocksdb \<Rightarrow> crypto \<Rightarrow> p2p_env \<Rightarrow> uint64 \<Rightarrow> ('s NormalNode, Block option) action" where
  "find_block_height R C E height N =
     on_storage (\<lambda>st. getBlock_height R (database (nd_state N)) C (env_threads E) (chainID (nd_state N)) st height) N"

definition Encoding_eth_getBlockByHash :: "'s rocksdb \<Rightarrow> crypto \<Rightarrow> p2p_env \<Rightarrow> bytes \<times> bool \<Rightarrow> ('s NormalNode, json) action" where
  "Encoding_eth_getBlockByHash R C E blockInfo = (let (blockHash, includeTransactions) = blockInfo in
     bindS (find_block R C E blockHash) (\<lambda>block. liftS (getBlockJson C block includeTransactions)))"

definition Encoding_eth_getBlockByNumber :: "'s rocksdb \<Rightarrow> crypto \<Rightarrow> p2p_env \<Rightarrow> uint64 \<times> bool \<Rightarrow> ('s NormalNode, json) action" where
  "Encoding_eth_getBlockByNumber R C E blockInfo = (let (blockNumber, includeTransactions) = blockInfo in
     bindS (find_block_height R C E blockNumber) (\<lambda>block. liftS (getBlockJson C block includeTransactions)))"

text \<open>The test for a null pointer does not return, so a missing block is dereferenced.\<close>

definition tx_count :: "Block option \<Rightarrow> json result" where
  "tx_count block = bindE (deref block) (\<lambda>b. bindE (quantity (length (txs b))) (\<lambda>q. Inr (reply q)))"

definition Encoding_eth_getBlockTransactionCountByHash :: "'s rocksdb \<Rightarrow> crypto \<Rightarrow> p2p_env \<Rightarrow> bytes \<Rightarrow> ('s NormalNode, json) action" where
  "Encoding_eth_getBlockTransactionCountByHash R C E blockHash =
     bindS (find_block R C E blockHash) (\<lambda>block. liftS (tx_count block))"

definition Encoding_eth_getBlockTransactionCountByNumber :: "'s rocksdb \<Rightarrow> crypto \<Rightarrow> p2p_env \<Rightarrow> uint64 \<Rightarrow> ('s NormalNode, json) action" where
  "Encoding_eth_getBlockTransactionCountByNumber R C E blockNumber =
     bindS (find_block_height R C E blockNumber) (\<lambda>block. liftS (tx_count block))"

definition Encoding_eth_chainId :: "uint64 \<Rightarrow> json result" where
  "Encoding_eth_chainId cid = bindE (quantity (unat cid)) (\<lambda>q. Inr (reply q))"

definition Encoding_eth_syncing :: json where
  "Encoding_eth_syncing = reply (JBool False)"

definition Encoding_eth_coinbase :: "rpc_options \<Rightarrow> json result" where
  "Encoding_eth_coinbase Op = bindE (hex_json (opt_coinbase Op)) (\<lambda>h. Inr (reply h))"

definition Encoding_eth_blockNumber :: "Storage \<Rightarrow> json result" where
  "Encoding_eth_blockNumber st = bindE (latest st) (\<lambda>b. bindE (quantity (unat (nHeight b))) (\<lambda>q. Inr (reply q)))"

definition internal_error :: "exn \<Rightarrow> json" where
  "internal_error e = reply_error (-32000) (''Internal error: '' @ what e)"

definition Encoding_eth_call :: "crypto \<Rightarrow> ethCallInfo \<Rightarrow> 's State \<Rightarrow> json result" where
  "Encoding_eth_call C callInfo S =
     (case bindE (State_ethCall C S callInfo) hex_json of
        Inr h \<Rightarrow> Inr (reply h)
      | Inl e \<Rightarrow> if e = UndefinedBehaviour then Inl e else Inr (internal_error e))"

text \<open>The verdict of \<^verbatim>\<open>estimateGas\<close> is not looked at.\<close>

definition Encoding_eth_estimateGas :: "'s rocksdb \<Rightarrow> crypto \<Rightarrow> nat \<Rightarrow> ethCallInfo \<Rightarrow> ('s NormalNode, json) action" where
  "Encoding_eth_estimateGas R C depth callInfo N =
     (case on_state (estimateGas R C depth callInfo) N of
        (N', Inr _) \<Rightarrow> (N', Inr (reply (JStr ''0x5208'')))
      | (N', Inl e) \<Rightarrow> if e = UndefinedBehaviour then (N', Inl e) else (N', Inr (internal_error e)))"

definition Encoding_eth_gasPrice :: json where
  "Encoding_eth_gasPrice = reply (JStr ''0x9502f900'')"

definition Encoding_eth_getBalance :: "bytes \<Rightarrow> 's State \<Rightarrow> json result" where
  "Encoding_eth_getBalance address S = bindE (quantity (unat (getNativeBalance S address))) (\<lambda>q. Inr (reply q))"

definition Encoding_eth_getTransactionCount :: "bytes \<Rightarrow> 's State \<Rightarrow> json result" where
  "Encoding_eth_getTransactionCount address S = bindE (quantity (unat (getNativeNonce S address))) (\<lambda>q. Inr (reply q))"

definition Encoding_eth_getCode :: "bytes \<Rightarrow> json" where
  "Encoding_eth_getCode address = reply (JStr ''0x'')"

definition Encoding_eth_sendRawTransaction :: "crypto \<Rightarrow> TxBlock \<Rightarrow> ('s NormalNode, json) action" where
  "Encoding_eth_sendRawTransaction C tx =
     bindS (state_result (\<lambda>S. addTx C S tx)) (\<lambda>invalid.
     if invalid = NotInvalid
     then bindS (liftS (hex_json (tx_hash C tx))) (\<lambda>h.
          bindS (broadcastTxBlock tx) (\<lambda>_. liftS (Inr (reply h))))
     else liftS (Inr (reply_error (-32000) (if invalid = InvalidNonce then ''Invalid nonce'' else ''Invalid balance''))))"

definition pending_tx_json :: "crypto \<Rightarrow> TxBlock \<Rightarrow> json result" where
  "pending_tx_json C tx = json_object
    [(''blockHash'', Inr JNull),
     (''blockIndex'', Inr JNull),
     (''from'', hex_json (tx_from tx)),
     (''gas'', quantity (unat (tx_gasLimit tx))),
     (''gasPrice'', quantity (unat (tx_maxFeePerGas tx))),
     (''hash'', hex_json (tx_hash C tx)),
     (''input'', rpc_json (tx_data tx)),
     (''nonce'', quantity (unat (tx_nonce tx))),
     (''to'', hex_json (tx_to tx)),
     (''transactionIndex'', Inr JNull),
     (''value'', quantity (unat (tx_value tx))),
     (''v'', quantity (unat (tx_v tx))),
     (''r'', quantity (unat (tx_r tx))),
     (''s'', quantity (unat (tx_s tx)))]"

definition located_tx_json :: "crypto \<Rightarrow> located_tx \<Rightarrow> json result" where
  "located_tx_json C found =
     (case found of
        (None, _) \<Rightarrow> Inr (reply JNull)
      | (Some tx, blockHash, blockIndex, blockHeight) \<Rightarrow> bindE (json_object
          [(''blockHash'', hex_json blockHash),
           (''blockNumber'', quantity (unat blockHeight)),
           (''from'', hex_json (tx_from tx)),
           (''gas'', quantity (unat (tx_gasLimit tx))),
           (''gasPrice'', quantity (unat (tx_maxFeePerGas tx))),
           (''hash'', hex_json (tx_hash C tx)),
           (''input'', rpc_json (tx_data tx)),
           (''nonce'', quantity (unat (tx_nonce tx))),
           (''to'', hex_json (tx_to tx)),
           (''transactionIndex'', quantity (unat blockIndex)),
           (''value'', quantity (unat (tx_value tx))),
           (''v'', quantity (unat (tx_v tx))),
           (''r'', quantity (unat (tx_r tx))),
           (''s'', quantity (unat (tx_s tx)))]) (\<lambda>r. Inr (reply r)))"

definition find_tx :: "'s rocksdb \<Rightarrow> crypto \<Rightarrow> bytes \<Rightarrow> ('s NormalNode, located_tx) action" where
  "find_tx R C txHash N = on_storage (\<lambda>st. getTx R (database (nd_state N)) C (chainID (nd_state N)) st txHash) N"

definition Encoding_eth_getTransactionByHash :: "'s rocksdb \<Rightarrow> crypto \<Rightarrow> bytes \<Rightarrow> ('s NormalNode, json) action" where
  "Encoding_eth_getTransactionByHash R C txHash N =
     (case getTxFromMempool (nd_state N) txHash of
        Some tx \<Rightarrow> liftS (bindE (pending_tx_json C tx) (\<lambda>r. Inr (reply r))) N
      | None \<Rightarrow> bindS (find_tx R C txHash) (\<lambda>found. liftS (located_tx_json C found)) N)"

definition Encoding_eth_getTransactionByBlockHashAndIndex :: "'s rocksdb \<Rightarrow> crypto \<Rightarrow> bytes \<times> uint64 \<Rightarrow> ('s NormalNode, json) action" where
  "Encoding_eth_getTransactionByBlockHashAndIndex R C requestInfo N = (let (blockHash, blockIndex) = requestInfo in
     bindS (on_storage (\<lambda>st. getTxByBlockHashAndIndex R (database (nd_state N)) C (chainID (nd_state N)) st blockHash blockIndex))
       (\<lambda>found. liftS (located_tx_json C found)) N)"

definition Encoding_eth_getTransactionByBlockNumberAndIndex :: "'s rocksdb \<Rightarrow> crypto \<Rightarrow> uint64 \<times> uint64 \<Rightarrow> ('s NormalNode, json) action" where
  "Encoding_eth_getTransactionByBlockNumberAndIndex R C requestInfo N = (let (blockNumber, blockIndex) = requestInfo in
     bindS (on_storage (\<lambda>st. getTxByBlockNumberAndIndex R (database (nd_state N)) C (chainID (nd_state N)) st blockNumber blockIndex))
       (\<lambda>found. liftS (located_tx_json C found)) N)"

definition receipt_json :: "crypto \<Rightarrow> located_tx \<Rightarrow> json result" where
  "receipt_json C found =
     (case found of
        (None, _) \<Rightarrow> Inr (reply JNull)
      | (Some tx, blockHash, blockIndex, blockHeight) \<Rightarrow> bindE (json_object
          [(''transactionHash'', hex_json (tx_hash C tx)),
           (''transactionIndex'', quantity (unat blockIndex)),
           (''blockHash'', hex_json blockHash),
           (''blockNumber'', quantity (unat blockHeight)),
           (''from'', hex_json (tx_from tx)),
           (''to'', hex_json (tx_to tx)),
           (''cumulativeGasUsed'', quantity (unat (tx_gasLimit tx))),
           (''effectiveGasUsed'', quantity (unat (tx_gasLimit tx))),
           (''effectiveGasPrice'', quantity (unat (tx_maxFeePerGas tx))),
           (''gasUsed'', quantity (unat (tx_gasLimit tx))),
           (''contractAddress'', Inr JNull),
           (''logs'', Inr (JArr [])),
           (''logsBloom'', zero_hash),
           (''type'', Inr (JStr ''0x00'')),
           (''root'', zero_hash),
           (''status'', Inr (JStr ''0x1''))]) (\<lambda>r. Inr (reply r)))"

definition Encoding_eth_getTransactionReceipt :: "'s rocksdb \<Rightarrow> crypto \<Rightarrow> bytes \<Rightarrow> ('s NormalNode, json) action" where
  "Encoding_eth_getTransactionReceipt R C txHash =
     bindS (find_tx R C txHash) (\<lambda>found. liftS (receipt_json C found))"

subsection \<open>The dispatcher\<close>

definition method_not_found :: json where
  "method_not_found = JObj [(''error'', error_object (-32601) ''Method not found'')]"

definition invalid_request :: json where
  "invalid_request = JObj [(''error'', error_object (-32600) ''Invalid Request, does not conform to JSON-RPC 2.0 spec'')]"

text \<open>A reply that is computed from the state without changing it.\<close>

definition answer_with :: "('s NormalNode \<Rightarrow> json result) \<Rightarrow> ('s NormalNode, json) action" where
  "answer_with f N = (N, f N)"

definition dispatch ::
  "'s rocksdb \<Rightarrow> crypto \<Rightarrow> nat \<Rightarrow> rpc_lib \<Rightarrow> rpc_options \<Rightarrow> p2p_env \<Rightarrow> json \<Rightarrow> Methods \<Rightarrow> ('s NormalNode, json) action" where
  "dispatch R C depth L Op E request m N =
     (let st = storage (nd_state N) in
      case m of
        Method_web3_clientVersion \<Rightarrow> bindS (liftS (Decoding_web3_clientVersion request)) (\<lambda>_. liftS (Inr (Encoding_web3_clientVersion Op))) N
      | Method_web3_sha3 \<Rightarrow> bindS (liftS (Decoding_web3_sha3 request)) (\<lambda>dat. liftS (Encoding_web3_sha3 C dat)) N
      | Method_net_version \<Rightarrow> bindS (liftS (Decoding_net_version request)) (\<lambda>_. liftS (Inr (Encoding_net_version Op))) N
      | Method_net_listening \<Rightarrow> bindS (liftS (Decoding_net_listening request)) (\<lambda>_. liftS (Inr Encoding_net_listening)) N
      | Method_net_peerCount \<Rightarrow> bindS (liftS (Decoding_net_peerCount request)) (\<lambda>_. answer_with (\<lambda>N. Encoding_net_peerCount (nd_base N))) N
      | Method_eth_protocolVersion \<Rightarrow> bindS (liftS (Decoding_eth_protocolVersion request)) (\<lambda>_. liftS (Inr (Encoding_eth_protocolVersion Op))) N
      | Method_eth_getBlockByHash \<Rightarrow> bindS (liftS (Decoding_eth_getBlockByHash request)) (Encoding_eth_getBlockByHash R C E) N
      | Method_eth_getBlockByNumber \<Rightarrow> bindS (liftS (Decoding_eth_getBlockByNumber L st request)) (Encoding_eth_getBlockByNumber R C E) N
      | Method_eth_getBlockTransactionCountByHash \<Rightarrow>
          bindS (liftS (Decoding_eth_getBlockTransactionCountByHash request)) (Encoding_eth_getBlockTransactionCountByHash R C E) N
      | Method_eth_getBlockTransactionCountByNumber \<Rightarrow>
          bindS (liftS (Decoding_eth_getBlockTransactionCountByNumber L st request)) (Encoding_eth_getBlockTransactionCountByNumber R C E) N
      | Method_eth_chainId \<Rightarrow> bindS (liftS (Decoding_eth_chainId request)) (\<lambda>_. answer_with (\<lambda>N. Encoding_eth_chainId (chainID (nd_state N)))) N
      | Method_eth_syncing \<Rightarrow> bindS (liftS (Decoding_eth_syncing request)) (\<lambda>_. liftS (Inr Encoding_eth_syncing)) N
      | Method_eth_coinbase \<Rightarrow> bindS (liftS (Decoding_eth_coinbase request)) (\<lambda>_. liftS (Encoding_eth_coinbase Op)) N
      | Method_eth_blockNumber \<Rightarrow> bindS (liftS (Decoding_eth_blockNumber request)) (\<lambda>_. answer_with (\<lambda>N. Encoding_eth_blockNumber (storage (nd_state N)))) N
      | Method_eth_call \<Rightarrow> bindS (liftS (Decoding_eth_call L st request)) (\<lambda>callInfo. answer_with (\<lambda>N. Encoding_eth_call C callInfo (nd_state N))) N
      | Method_eth_estimateGas \<Rightarrow> bindS (liftS (Decoding_eth_estimateGas L st request)) (Encoding_eth_estimateGas R C depth) N
      | Method_eth_gasPrice \<Rightarrow> bindS (liftS (Decoding_eth_gasPrice request)) (\<lambda>_. liftS (Inr Encoding_eth_gasPrice)) N
      | Method_eth_getBalance \<Rightarrow> bindS (liftS (Decoding_eth_getBalance L st request)) (\<lambda>a. answer_with (\<lambda>N. Encoding_eth_getBalance a (nd_state N))) N
      | Method_eth_getTransactionCount \<Rightarrow>
          bindS (liftS (Decoding_eth_getTransactionCount L st request)) (\<lambda>a. answer_with (\<lambda>N. Encoding_eth_getTransactionCount a (nd_state N))) N
      | Method_eth_getCode \<Rightarrow> bindS (liftS (Decoding_eth_getCode L st request)) (\<lambda>a. liftS (Inr (Encoding_eth_getCode a))) N
      | Method_eth_sendRawTransaction \<Rightarrow>
          bindS (liftS (Decoding_eth_sendRawTransaction C (chainID (nd_state N)) request)) (Encoding_eth_sendRawTransaction C) N
      | Method_eth_getTransactionByHash \<Rightarrow> bindS (liftS (Decoding_eth_getTransactionByHash request)) (Encoding_eth_getTransactionByHash R C) N
      | Method_eth_getTransactionByBlockHashAndIndex \<Rightarrow>
          bindS (liftS (Decoding_eth_getTransactionByBlockHashAndIndex L request)) (Encoding_eth_getTransactionByBlockHashAndIndex R C) N
      | Method_eth_getTransactionByBlockNumberAndIndex \<Rightarrow>
          bindS (liftS (Decoding_eth_getTransactionByBlockNumberAndIndex L st request)) (Encoding_eth_getTransactionByBlockNumberAndIndex R C) N
      | Method_eth_getTransactionReceipt \<Rightarrow> bindS (liftS (Decoding_eth_getTransactionReceipt request)) (Encoding_eth_getTransactionReceipt R C) N
      | Method_invalid \<Rightarrow> (N, Inr method_not_found)
      | Method_eth_sendTransaction \<Rightarrow> (N, Inr method_not_found))"

definition reply_id :: "json \<Rightarrow> json result" where
  "reply_id request = bindE (json_index request ''id'') (\<lambda>i. case i of
     JStr s \<Rightarrow> Inr (JStr s)
   | JNum n \<Rightarrow> bindE (get_uint64 i) (\<lambda>n. Inr (JNum (JUnsigned n)))
   | JNull \<Rightarrow> Inr JNull
   | _ \<Rightarrow> Inl (RuntimeError ''Invalid id type''))"

fun set_id :: "json \<Rightarrow> json \<Rightarrow> json" where
  "set_id (JObj fs) i = JObj (AList.update ''id'' i fs)"
| "set_id j i = j"

text \<open>The body of the \<^verbatim>\<open>try\<close> block.\<close>

definition handle_rpc ::
  "'s rocksdb \<Rightarrow> crypto \<Rightarrow> nat \<Rightarrow> rpc_lib \<Rightarrow> rpc_options \<Rightarrow> p2p_env \<Rightarrow> json \<Rightarrow> ('s NormalNode, json) action" where
  "handle_rpc R C depth L Op E request =
     bindS (liftS (checkJsonRPCSpec request)) (\<lambda>ok.
     if \<not> ok then liftS (Inr invalid_request)
     else bindS (liftS (getMethod request)) (\<lambda>m.
          bindS (dispatch R C depth L Op E request m) (\<lambda>ret.
          bindS (liftS (reply_id request)) (\<lambda>i. liftS (Inr (set_id ret i))))))"

definition rpc_failure :: "exn \<Rightarrow> json" where
  "rpc_failure e = JObj [(''id'', JNum (JUnsigned 0)), (''jsonrpc'', JNum (JFloat 2)),
     (''error'', error_object (-32603) (''Internal error: '' @ what e))]"

definition rpc_answer ::
  "'s rocksdb \<Rightarrow> crypto \<Rightarrow> nat \<Rightarrow> rpc_lib \<Rightarrow> rpc_options \<Rightarrow> p2p_env \<Rightarrow> string \<Rightarrow> ('s NormalNode, json) action" where
  "rpc_answer R C depth L Op E body N =
     (case bindS (liftS (parse_json L body)) (handle_rpc R C depth L Op E) N of
        (N', Inr ret) \<Rightarrow> (N', Inr ret)
      | (N', Inl e) \<Rightarrow> if e = UndefinedBehaviour then (N', Inl e) else (N', Inr (rpc_failure e)))"

definition parseJsonRpcRequest ::
  "'s rocksdb \<Rightarrow> crypto \<Rightarrow> nat \<Rightarrow> rpc_lib \<Rightarrow> rpc_options \<Rightarrow> p2p_env \<Rightarrow> string \<Rightarrow> ('s NormalNode, string) action" where
  "parseJsonRpcRequest R C depth L Op E body =
     bindS (rpc_answer R C depth L Op E body) (\<lambda>ret. liftS (dump_json L ret))"

subsection \<open>No request touches the ledger\<close>

definition ledger_view :: "'s NormalNode \<Rightarrow> (bytes \<times> Account) list \<times> rdPoS \<times> uint64 \<times> Block list
    \<times> (bytes \<rightharpoonup> Block) \<times> (uint64 \<rightharpoonup> bytes) \<times> (bytes \<times> Session) list" where
  "ledger_view N = (accounts (nd_state N), rdpos (nd_state N), chainID (nd_state N), st_chain (storage (nd_state N)),
     blockByHash (storage (nd_state N)), blockHashByHeight (storage (nd_state N)), mb_sessions (nd_base N))"

definition rpc_step :: "crypto \<Rightarrow> 's NormalNode \<Rightarrow> 's NormalNode \<Rightarrow> bool" where
  "rpc_step C N N' \<longleftrightarrow> ledger_view N' = ledger_view N
     \<and> (\<exists>new. mempool (nd_state N') = mempool (nd_state N) @ new
          \<and> (\<forall>(h, tx)\<in>set new. h = tx_hash C tx \<and> admissible (accounts (nd_state N)) tx))"

lemma rpc_step_same: "ledger_view N' = ledger_view N \<Longrightarrow> mempool (nd_state N') = mempool (nd_state N) \<Longrightarrow> rpc_step C N N'"
  by (simp add: rpc_step_def)

interpretation rpc: step_order "rpc_step C" for C
proof
  show "rpc_step C N N" for N by (simp add: rpc_step_same)
  show "rpc_step C N K" if nm: "rpc_step C N M" and mk: "rpc_step C M K" for N M K
  proof -
    obtain new new' where "mempool (nd_state M) = mempool (nd_state N) @ new" "mempool (nd_state K) = mempool (nd_state M) @ new'"
      "\<forall>(h, tx)\<in>set new. h = tx_hash C tx \<and> admissible (accounts (nd_state N)) tx"
      "\<forall>(h, tx)\<in>set new'. h = tx_hash C tx \<and> admissible (accounts (nd_state M)) tx"
      using nm mk unfolding rpc_step_def by blast
    moreover have "accounts (nd_state M) = accounts (nd_state N)" using nm by (simp add: rpc_step_def ledger_view_def)
    ultimately have "mempool (nd_state K) = mempool (nd_state N) @ (new @ new')"
      "\<forall>(h, tx)\<in>set (new @ new'). h = tx_hash C tx \<and> admissible (accounts (nd_state N)) tx" by auto
    moreover have "ledger_view K = ledger_view N" using nm mk by (simp add: rpc_step_def)
    ultimately show ?thesis unfolding rpc_step_def by blast
  qed
qed

lemma rpc_answer_with: "steps_within (rpc_step C) (answer_with f)"
  by (simp add: steps_within_def answer_with_def rpc.refl)

definition keeps_chain :: "(Storage \<Rightarrow> (Storage \<times> 'a) result) \<Rightarrow> bool" where
  "keeps_chain f \<longleftrightarrow> (\<forall>st st' x. f st = Inr (st', x) \<longrightarrow> st_chain st' = st_chain st \<and> blockByHash st' = blockByHash st
     \<and> blockHashByHeight st' = blockHashByHeight st)"

lemma rpc_on_storage: "keeps_chain f \<Longrightarrow> steps_within (rpc_step C) (on_storage f)"
  by (rule steps_withinI, unfold on_storage_def, erule state_result_cases)
    (auto simp: rpc.refl keeps_chain_def ledger_view_def result_simps intro!: rpc_step_same)

lemmas storage_reads = getBlock_def getBlock_height_def cache_block_def getTx_def cache_tx_def getTxByBlockHashAndIndex_def
  getTxByBlockNumberAndIndex_def cached_by_index_def db_by_index_def

lemma keeps_chain_reads:
  "keeps_chain (\<lambda>st. getBlock R db C thrNum cid st hash)"
  "keeps_chain (\<lambda>st. getBlock_height R db C thrNum cid st height)"
  "keeps_chain (\<lambda>st. getTx R db C cid st hash)"
  "keeps_chain (\<lambda>st. getTxByBlockHashAndIndex R db C cid st hash i)"
  "keeps_chain (\<lambda>st. getTxByBlockNumberAndIndex R db C cid st height i)"
  by (auto simp: keeps_chain_def storage_reads result_simps Let_def index_default_def
      split: if_splits option.splits prod.splits sum.splits StorageStatus.splits)

lemma rpc_find:
  "steps_within (rpc_step C) (find_block R C E hash)" "steps_within (rpc_step C) (find_block_height R C E height)"
  "steps_within (rpc_step C) (find_tx R C hash)"
  by (rule steps_withinI, auto simp: find_block_def find_block_height_def find_tx_def
      dest: steps_withinD [OF rpc_on_storage [OF keeps_chain_reads(1)]] steps_withinD [OF rpc_on_storage [OF keeps_chain_reads(2)]]
        steps_withinD [OF rpc_on_storage [OF keeps_chain_reads(3)]])+

lemma rpc_addTx: "steps_within (rpc_step C) (state_result (\<lambda>S. addTx C S tx))"
proof (rule steps_withinI)
  fix N N' r
  assume "state_result (\<lambda>S. addTx C S tx) N = (N', r)"
  then show "rpc_step C N N'"
  proof (cases rule: state_result_cases)
    case (2 S' v)
    from 2(1) show ?thesis
      by (cases rule: addTx_cases) (auto simp: 2(2) rpc_step_def ledger_view_def)
  qed (simp add: rpc.refl)
qed

lemma rpc_broadcast: "steps_within (rpc_step C) (broadcastMessage m)"
  by (rule steps_withinI, rule rpc_step_same)
    (auto simp: broadcastMessage_def bindS_def liftS_def Let_def ledger_view_def emit_def split: if_splits sum.splits prod.splits)

lemma rpc_send: "steps_within (rpc_step C) (Encoding_eth_sendRawTransaction C tx)"
  unfolding Encoding_eth_sendRawTransaction_def broadcastTxBlock_def
  by (intro rpc.bind rpc.choose rpc.lift rpc_addTx rpc_broadcast)

lemma rpc_estimate: "steps_within (rpc_step C) (Encoding_eth_estimateGas R C depth info)"
proof (rule steps_withinI)
  fix N N' r
  assume "Encoding_eth_estimateGas R C depth info N = (N', r)"
  then have "nd_base N' = nd_base N" and "books (nd_state N') = books (nd_state N)"
    by (auto simp: Encoding_eth_estimateGas_def on_state_def split: prod.splits sum.splits if_splits dest: preservesD [OF books_estimateGas])
  then show "rpc_step C N N'" by (intro rpc_step_same) (simp_all add: ledger_view_def books_def core_def)
qed

lemma rpc_lookup:
  "steps_within (rpc_step C) (Encoding_eth_getBlockByHash R C E bi)" "steps_within (rpc_step C) (Encoding_eth_getBlockByNumber R C E bn)"
  "steps_within (rpc_step C) (Encoding_eth_getBlockTransactionCountByHash R C E h)"
  "steps_within (rpc_step C) (Encoding_eth_getBlockTransactionCountByNumber R C E n)"
  "steps_within (rpc_step C) (Encoding_eth_getTransactionReceipt R C h)"
  unfolding Encoding_eth_getBlockByHash_def Encoding_eth_getBlockByNumber_def Encoding_eth_getBlockTransactionCountByHash_def
    Encoding_eth_getBlockTransactionCountByNumber_def Encoding_eth_getTransactionReceipt_def
  by (auto split: prod.split intro!: rpc.bind rpc.lift rpc_find)

lemma rpc_lookup_tx:
  "steps_within (rpc_step C) (Encoding_eth_getTransactionByHash R C h)"
  "steps_within (rpc_step C) (Encoding_eth_getTransactionByBlockHashAndIndex R C hi)"
  "steps_within (rpc_step C) (Encoding_eth_getTransactionByBlockNumberAndIndex R C ni)"
proof -
  note find = steps_withinD [OF rpc.bind [OF rpc_find(3) rpc.lift]]
    steps_withinD [OF rpc.bind [OF rpc_on_storage [OF keeps_chain_reads(4)] rpc.lift]]
    steps_withinD [OF rpc.bind [OF rpc_on_storage [OF keeps_chain_reads(5)] rpc.lift]] steps_withinD [OF rpc.lift]
  show "steps_within (rpc_step C) (Encoding_eth_getTransactionByHash R C h)"
    by (rule steps_withinI) (auto simp: Encoding_eth_getTransactionByHash_def split: option.splits dest: find)
  show "steps_within (rpc_step C) (Encoding_eth_getTransactionByBlockHashAndIndex R C hi)"
    by (rule steps_withinI) (auto simp: Encoding_eth_getTransactionByBlockHashAndIndex_def split: prod.splits dest: find)
  show "steps_within (rpc_step C) (Encoding_eth_getTransactionByBlockNumberAndIndex R C ni)"
    by (rule steps_withinI) (auto simp: Encoding_eth_getTransactionByBlockNumberAndIndex_def split: prod.splits dest: find)
qed

lemma rpc_decoded:
  assumes "bindS (liftS x) k N = (N', r)" and "r \<noteq> Inl UndefinedBehaviour" and "\<And>y. steps_within (rpc_step C) (k y)"
  shows "rpc_step C N N'"
  using steps_withinD [OF rpc.bind [OF rpc.lift assms(3)] assms(1,2)] .

lemmas rpc_encoders = rpc.lift rpc_answer_with rpc_lookup rpc_lookup_tx rpc_send rpc_estimate

lemma rpc_dispatch: "steps_within (rpc_step C) (dispatch R C depth L Op E request m)"
proof (rule steps_withinI)
  fix N N' r
  assume d: "dispatch R C depth L Op E request m N = (N', r)" and r: "r \<noteq> Inl UndefinedBehaviour"
  then show "rpc_step C N N'"
    by (cases m; simp only: dispatch_def Let_def Methods.case) (elim rpc_decoded; (assumption | rule rpc_encoders) | simp add: rpc.refl)+
qed

lemma rpc_handle: "steps_within (rpc_step C) (handle_rpc R C depth L Op E request)"
  unfolding handle_rpc_def by (intro rpc.bind rpc.choose rpc.lift rpc_dispatch)

subsection \<open>How values are printed\<close>

definition hex_text :: "bytes \<Rightarrow> string" where
  "hex_text bs = ''0x'' @ hex_digits bs"

definition number_text :: "nat \<Rightarrow> string" where
  "number_text n = ''0x'' @ hex_number n"

lemma hex_json_eq: "hex_json bs = Inr (JStr (hex_text bs))"
  using Hex_fromBytes_value [of bs True] by (simp add: hex_json_def hex_text_def)

lemma rpc_json_eq: "rpc_json bs = Inr (JStr (if bs = [] then ''0x0'' else ''0x'' @ drop_zeros (hex_digits bs)))"
  using Hex_fromBytes_value [of bs True] by (cases bs) (simp_all add: rpc_json_def Hex_forRPC_def str_at_def)

lemma drop_zeros_append: "drop_zeros xs \<noteq> [] \<Longrightarrow> drop_zeros (xs @ ys) = drop_zeros xs @ ys"
  by (induction xs) auto

lemma hex_digits_append: "hex_digits (xs @ ys) = hex_digits xs @ hex_digits ys"
  by (induction xs) auto

lemma hex_digit_zero: "n < 16 \<Longrightarrow> hex_digit n = CHR ''0'' \<longleftrightarrow> n = 0"
  by (drule hex_digit_cases) (auto simp: hex_digit_def)

lemma hex_number_byte: "256 \<le> n \<Longrightarrow> hex_number n = hex_number (n div 256) @ [hex_digit (n mod 256 div 16), hex_digit (n mod 16)]"
proof -
  assume "256 \<le> n"
  moreover from this have "16 \<le> n div 16" by linarith
  moreover have "n div 16 div 16 = n div 256" "n mod 256 div 16 = n div 16 mod 16"
    using div_mult2_eq [of n 16 16] mod_mult2_eq [of n 16 16] by simp_all
  ultimately show ?thesis using hex_number.simps [of n] hex_number.simps [of "n div 16"] by simp
qed

lemma hex_number_nonempty: "hex_number n \<noteq> []"
  by (subst hex_number.simps) simp

lemma uintToBytes_step: "0 < n \<Longrightarrow> uintToBytes n = uintToBytes (n div 256) @ [of_nat n]"
  using uintToBytes_loop_eq [of "n div 256" "[of_nat n]"]
  by (simp add: uintToBytes_def uintToBytes_loop.simps [of n "[]"]) (simp add: uintToBytes_loop_eq)

lemma drop_zeros_number: "0 < n \<Longrightarrow> drop_zeros (hex_digits (uintToBytes n)) = hex_number n"
proof (induction n rule: less_induct)
  case (less n)
  have low: "hex_digits [of_nat n] = [hex_digit (n mod 256 div 16), hex_digit (n mod 16)]"
    by (simp add: unat_of_nat) (simp add: take_bit_eq_mod mod_mod_cancel)
  show ?case
  proof (cases "n < 256")
    case True
    then have "n div 16 < 16" by linarith
    with True show ?thesis using less.prems low
      by (subst hex_number.simps) (simp add: uintToBytes_step hex_digit_zero hex_number.simps div_eq_0_iff)
  next
    case False
    then have "drop_zeros (hex_digits (uintToBytes (n div 256))) = hex_number (n div 256)" by (intro less.IH) auto
    with False less.prems low show ?thesis
      by (simp add: uintToBytes_step [of n] hex_digits_append drop_zeros_append hex_number_nonempty hex_number_byte del: hex_digits.simps)
  qed
qed

text \<open>A number is printed in hexadecimal without leading zeros.\<close>

lemma quantity_eq: "quantity n = Inr (JStr (number_text n))"
proof (cases "n = 0")
  case False
  moreover from this have "uintToBytes n \<noteq> []" by (simp add: uintToBytes_step)
  ultimately show ?thesis by (simp add: quantity_def rpc_json_eq drop_zeros_number number_text_def)
qed (simp add: quantity_def rpc_json_eq hex_number_zero number_text_def)

subsection \<open>Well-formed requests\<close>

definition request_object :: "string \<Rightarrow> json list \<Rightarrow> json \<Rightarrow> json" where
  "request_object m ps i = JObj [(''jsonrpc'', JStr ''2.0''), (''method'', JStr m), (''params'', JArr ps), (''id'', i)]"

fun plain_id :: "json \<Rightarrow> bool" where
  "plain_id (JStr s) \<longleftrightarrow> True"
| "plain_id (JNum (JUnsigned n)) \<longleftrightarrow> True"
| "plain_id JNull \<longleftrightarrow> True"
| "plain_id _ \<longleftrightarrow> False"

definition reply_to :: "json \<Rightarrow> json \<Rightarrow> json" where
  "reply_to i r = JObj [(''jsonrpc'', JStr ''2.0''), (''result'', r), (''id'', i)]"

lemmas parameterless = Decoding_web3_clientVersion_def Decoding_net_version_def Decoding_net_listening_def Decoding_net_peerCount_def
  Decoding_eth_protocolVersion_def Decoding_eth_chainId_def Decoding_eth_syncing_def Decoding_eth_coinbase_def Decoding_eth_blockNumber_def
  Decoding_eth_gasPrice_def no_params_def

lemmas decoders = parameterless Decoding_web3_sha3_def Decoding_eth_getBlockByHash_def Decoding_eth_getBlockByNumber_def
  Decoding_eth_getBlockTransactionCountByHash_def Decoding_eth_getBlockTransactionCountByNumber_def Decoding_eth_call_def
  Decoding_eth_estimateGas_def call_object_def Decoding_eth_getBalance_def Decoding_eth_getTransactionCount_def Decoding_eth_getCode_def
  address_and_block_def Decoding_eth_sendRawTransaction_def Decoding_eth_getTransactionByHash_def
  Decoding_eth_getTransactionByBlockHashAndIndex_def Decoding_eth_getTransactionByBlockNumberAndIndex_def Decoding_eth_getTransactionReceipt_def

lemma request_spec: "checkJsonRPCSpec (request_object m ps i) = Inr True"
  by (simp add: checkJsonRPCSpec_def request_object_def json_contains_def deref_def rethrow_def)

lemma request_method: "map_of methodsLookupTable m = Some x \<Longrightarrow> getMethod (request_object m ps i) = Inr x"
  by (simp add: getMethod_def request_object_def deref_def rethrow_def)

lemma request_params: "params_of (request_object m ps i) = Inr (JArr ps)"
  by (simp add: request_object_def deref_def)

lemma request_id: "plain_id i \<Longrightarrow> reply_id (request_object m ps i) = Inr i"
  by (induction i rule: plain_id.induct) (simp_all add: reply_id_def request_object_def)

lemma handle_reply:
  assumes "map_of methodsLookupTable m = Some x" and "plain_id i"
    and "dispatch R C depth L Op E (request_object m ps i) x N = (N', Inr (JObj [(''jsonrpc'', v), (''result'', r)]))"
  shows "handle_rpc R C depth L Op E (request_object m ps i) N = (N', Inr (JObj [(''jsonrpc'', v), (''result'', r), (''id'', i)]))"
  using assms by (simp add: handle_rpc_def request_spec request_method request_id liftS_def bindS_def)

lemma handle_request:
  assumes "map_of methodsLookupTable m = Some x" and "plain_id i"
    and "dispatch R C depth L Op E (request_object m ps i) x N = (N', Inr (reply r))"
  shows "handle_rpc R C depth L Op E (request_object m ps i) N = (N', Inr (reply_to i r))"
  using handle_reply [OF assms(1,2)] assms(3) by (simp add: reply_def reply_to_def)

lemma handle_undefined:
  assumes "map_of methodsLookupTable m = Some x" and "dispatch R C depth L Op E (request_object m ps i) x N = (N', Inl UndefinedBehaviour)"
  shows "handle_rpc R C depth L Op E (request_object m ps i) N = (N', Inl UndefinedBehaviour)"
  using assms by (simp add: handle_rpc_def request_spec request_method liftS_def bindS_def)

lemma hex_digit_lower: "n < 16 \<Longrightarrow> hex_digit n \<in> set ''0123456789abcdef''"
  unfolding hex_digit_def by (rule nth_mem) simp

lemma lower_hex_digits: "lower_hex (hex_digits bs)"
  unfolding lower_hex_def by (induction bs) (simp_all only: hex_digits.simps list.pred_inject hex_digit_lower byte_nibbles simp_thms)

lemma match_digits:
  "match_any_case (2 * length bs) (hex_text bs)" "length bs = 32 \<Longrightarrow> match_hash (hex_text bs)"
proof -
  have "set ''0123456789abcdef'' \<subseteq> set ''0123456789,abcdefABCDEF''" by simp
  then have "list_all (\<lambda>c. c \<in> set ''0123456789,abcdefABCDEF'') (hex_digits bs)"
    using lower_hex_digits [of bs] unfolding lower_hex_def list_all_iff by blast
  then show "match_any_case (2 * length bs) (hex_text bs)" by (simp add: match_any_case_def hex_text_def del: list.set)
  show "length bs = 32 \<Longrightarrow> match_hash (hex_text bs)" using lower_hex_digits [of bs] by (simp add: match_hash_def hex_text_def)
qed

lemma Hex_toBytes_text: "Hex_toBytes (hex_text bs) = Inr bs"
  using Hex_toBytes_prefixed [OF hex_digits_only_hex [of bs]] hex_pairs_hex_digits [of bs] by (simp add: hex_text_def)

lemma read_digits:
  "length bs = 20 \<Longrightarrow> read_address message (hex_text bs) = Inr bs"
  "length bs = 32 \<Longrightarrow> read_hash match_hash message (hex_text bs) = Inr bs"
  "length bs = 32 \<Longrightarrow> read_hash (match_any_case 64) message (hex_text bs) = Inr bs"
  using match_digits [of bs] Hex_toBytes_text [of bs]
  by (simp_all add: read_address_def read_hash_def Address_bytes_def FixedStr_def)

text \<open>C32. The balance and the nonce of an address are answered with the values of the state, printed as hexadecimal numbers
  without leading zeros, under the identifier of the request; the node does not change.\<close>

theorem account_replies:
  assumes "length a = 20" and "plain_id i"
  shows "handle_rpc R C depth L Op E (request_object ''eth_getBalance'' [JStr (hex_text a), JStr ''latest''] i) N
      = (N, Inr (reply_to i (JStr (number_text (unat (getNativeBalance (nd_state N) a))))))
    \<and> handle_rpc R C depth L Op E (request_object ''eth_getTransactionCount'' [JStr (hex_text a), JStr ''latest''] i) N
      = (N, Inr (reply_to i (JStr (number_text (unat (getNativeNonce (nd_state N) a))))))"
proof -
  have d: "address_and_block L st (request_object m [JStr (hex_text a), JStr ''latest''] i) = Inr a" for m st
    using read_digits(1) [OF assms(1)] by (simp add: address_and_block_def request_params check_latest_def)
  have "handle_rpc R C depth L Op E (request_object ''eth_getBalance'' [JStr (hex_text a), JStr ''latest''] i) N
      = (N, Inr (reply_to i (JStr (number_text (unat (getNativeBalance (nd_state N) a))))))"
    by (rule handle_request [where x = Method_eth_getBalance, OF _ assms(2)])
      (simp_all add: methodsLookupTable_def dispatch_def Decoding_eth_getBalance_def d rethrow_def
        bindS_def liftS_def answer_with_def Encoding_eth_getBalance_def quantity_eq)
  moreover have "handle_rpc R C depth L Op E (request_object ''eth_getTransactionCount'' [JStr (hex_text a), JStr ''latest''] i) N
      = (N, Inr (reply_to i (JStr (number_text (unat (getNativeNonce (nd_state N) a))))))"
    by (rule handle_request [where x = Method_eth_getTransactionCount, OF _ assms(2)])
      (simp_all add: methodsLookupTable_def dispatch_def Decoding_eth_getTransactionCount_def d rethrow_def
        bindS_def liftS_def answer_with_def Encoding_eth_getTransactionCount_def quantity_eq)
  ultimately show ?thesis ..
qed

subsection \<open>Submitting a transaction\<close>

lemma json_object_ok: "\<forall>(k, r)\<in>set fs. \<exists>v. r = Inr v \<Longrightarrow> json_object fs = Inr (JObj (map (\<lambda>(k, r). (k, projr r)) fs))"
proof -
  assume "\<forall>(k, r)\<in>set fs. \<exists>v. r = Inr v"
  then have "mapE (\<lambda>(k, r). bindE r (\<lambda>v. Inr (k, v))) fs = Inr (map (\<lambda>(k, r). (k, projr r)) fs)" by (induction fs) auto
  then show ?thesis by (simp add: json_object_def)
qed

lemma pending_tx_printed: "\<exists>r. pending_tx_json C tx = Inr r"
  unfolding pending_tx_json_def by (subst json_object_ok) (simp_all add: hex_json_eq quantity_eq rpc_json_eq)

lemma decode_raw:
  assumes "TxBlock_serialisable tx" and "TxBlock_sender_ok C tx"
  shows "Decoding_eth_sendRawTransaction C cid (request_object m [JStr (hex_text (TxBlock_rlpSerialize tx True))] i) = Inr tx"
proof -
  have "Hex_isValid (hex_text bs) True" for bs using hex_digits_only_hex [of bs] by (simp add: Hex_isValid_def hex_text_def only_hex_from_def)
  then show ?thesis
    by (simp add: Decoding_eth_sendRawTransaction_def request_params Hex_toBytes_text TxBlock_roundtrip [OF assms] rethrow_def)
qed

lemma broadcast_tx_message:
  obtains m where "BroadcastEncoder_broadcastTx tx = Inr m" and "Message_number m = Inr (FNVHash (TxBlock_rlpSerialize tx True))"
proof -
  obtain m where m: "BroadcastEncoder_broadcastTx tx = Inr m" "message_of m Broadcasting (uint64ToBytes (FNVHash (TxBlock_rlpSerialize tx True))) BroadcastTx (TxBlock_rlpSerialize tx True)"
    unfolding BroadcastEncoder_broadcastTx_def by (rule encode_broadcast_ok [of BroadcastTx]) simp
  then show thesis using that [OF m(1)] by (simp add: message_of_def Message_number_def RequestID_toUint64_def)
qed

lemma accepted_addTx:
  assumes "addTx C S tx = Inr (S', NotInvalid)" and "map_of (mempool S) (tx_hash C tx) = None"
  shows "S' = S\<lparr>mempool := mempool S @ [(tx_hash C tx, tx)]\<rparr>"
  using assms by (auto simp: addTx_def result_simps split: if_splits)

lemma submit_request:
  assumes "TxBlock_serialisable tx" and "TxBlock_sender_ok C tx" and "plain_id i"
    and "addTx C (nd_state N) tx = Inr (S', NotInvalid)" and "map_of (mempool (nd_state N)) (tx_hash C tx) = None"
    and "\<not> mb_closed (nd_base N)" and "\<not> seen (FNVHash (TxBlock_rlpSerialize tx True)) N"
  obtains m N' where "handle_rpc R C depth L Op E (request_object ''eth_sendRawTransaction'' [JStr (hex_text (TxBlock_rlpSerialize tx True))] i) N
        = (N', Inr (reply_to i (JStr (hex_text (tx_hash C tx)))))"
    and "nd_state N' = (nd_state N)\<lparr>mempool := mempool (nd_state N) @ [(tx_hash C tx, tx)]\<rparr>"
    and "BroadcastEncoder_broadcastTx tx = Inr m"
    and "mb_wire (nd_base N') = mb_wire (nd_base N) @ map (\<lambda>k. Write k m) (normal_sessions (nd_base N))"
proof -
  obtain m where m: "BroadcastEncoder_broadcastTx tx = Inr m" "Message_number m = Inr (FNVHash (TxBlock_rlpSerialize tx True))"
    by (rule broadcast_tx_message)
  define N' where "N' = marked (FNVHash (TxBlock_rlpSerialize tx True)) m (N\<lparr>nd_state := S'\<rparr>)"
  have b: "broadcastMessage m (N\<lparr>nd_state := S'\<rparr>) = (N', Inr ())"
    using broadcastMessage_eq [OF _ m(2), of "N\<lparr>nd_state := S'\<rparr>"] assms(6,7) by (simp add: N'_def seen_def)
  have "handle_rpc R C depth L Op E (request_object ''eth_sendRawTransaction'' [JStr (hex_text (TxBlock_rlpSerialize tx True))] i) N
        = (N', Inr (reply_to i (JStr (hex_text (tx_hash C tx)))))"
    by (rule handle_request [where x = Method_eth_sendRawTransaction, OF _ assms(3)])
      (simp_all add: methodsLookupTable_def dispatch_def decode_raw [OF assms(1,2)] bindS_def liftS_def state_result_def on_state_def
        Encoding_eth_sendRawTransaction_def assms(4) hex_json_eq broadcastTxBlock_def m b)
  moreover have "nd_state N' = S'" "mb_wire (nd_base N') = mb_wire (nd_base N) @ map (\<lambda>k. Write k m) (normal_sessions (nd_base N))"
    by (simp_all add: N'_def marked_def emit_def)
  ultimately show thesis using that m(1) accepted_addTx [OF assms(4,5)] by simp
qed

text \<open>C13. Whatever text arrives at the HTTP port, answering it leaves the accounts, rdPoS, the chain and its index, and the
  sessions of the node as they are; the mempool only gets further transactions, each under its hash and each
  payable by its sender with the right nonce.\<close>

theorem rpc_keeps_ledger:
  assumes "parseJsonRpcRequest R C depth L Op E body N = (N', r)" and "r \<noteq> Inl UndefinedBehaviour"
  shows "ledger_view N' = ledger_view N \<and> (\<exists>new. mempool (nd_state N') = mempool (nd_state N) @ new
     \<and> (\<forall>(h, tx)\<in>set new. h = tx_hash C tx \<and> admissible (accounts (nd_state N)) tx))"
proof -
  have b: "steps_within (rpc_step C) (bindS (liftS (parse_json L body)) (handle_rpc R C depth L Op E))"
    by (intro rpc.bind rpc.lift rpc_handle)
  have "steps_within (rpc_step C) (rpc_answer R C depth L Op E body)"
    by (rule steps_withinI) (auto simp: rpc_answer_def split: prod.splits sum.splits if_splits dest: steps_withinD [OF b])
  then have "steps_within (rpc_step C) (parseJsonRpcRequest R C depth L Op E body)"
    unfolding parseJsonRpcRequest_def by (intro rpc.bind rpc.lift)
  from steps_withinD [OF this assms] show ?thesis unfolding rpc_step_def .
qed

text \<open>C14. A signed transaction that can be serialised (so not one with 55 bytes of data), sent as hexadecimal text, that the state accepts and that is new to the node is answered with its hash. It is then
  at the end of the mempool, has been written to every connected normal node, and a request for that hash is answered with the
  pending transaction.\<close>

theorem sendRawTransaction_submits:
  assumes "TxBlock_serialisable tx" and "TxBlock_sender_ok C tx" and "plain_id i" and "plain_id j"
    and "addTx C (nd_state N) tx = Inr (S', NotInvalid)" and "map_of (mempool (nd_state N)) (tx_hash C tx) = None"
    and "\<not> mb_closed (nd_base N)" and "\<not> seen (FNVHash (TxBlock_rlpSerialize tx True)) N"
  shows "\<exists>m N' r. handle_rpc R C depth L Op E (request_object ''eth_sendRawTransaction'' [JStr (hex_text (TxBlock_rlpSerialize tx True))] i) N
        = (N', Inr (reply_to i (JStr (hex_text (tx_hash C tx)))))
    \<and> nd_state N' = (nd_state N)\<lparr>mempool := mempool (nd_state N) @ [(tx_hash C tx, tx)]\<rparr>
    \<and> BroadcastEncoder_broadcastTx tx = Inr m
    \<and> mb_wire (nd_base N') = mb_wire (nd_base N) @ map (\<lambda>k. Write k m) (normal_sessions (nd_base N))
    \<and> pending_tx_json C tx = Inr r
    \<and> handle_rpc R C depth L Op E (request_object ''eth_getTransactionByHash'' [JStr (hex_text (tx_hash C tx))] j) N' = (N', Inr (reply_to j r))"
proof -
  obtain m N' where s: "handle_rpc R C depth L Op E (request_object ''eth_sendRawTransaction'' [JStr (hex_text (TxBlock_rlpSerialize tx True))] i) N
        = (N', Inr (reply_to i (JStr (hex_text (tx_hash C tx)))))"
    and n: "nd_state N' = (nd_state N)\<lparr>mempool := mempool (nd_state N) @ [(tx_hash C tx, tx)]\<rparr>"
    and m: "BroadcastEncoder_broadcastTx tx = Inr m" "mb_wire (nd_base N') = mb_wire (nd_base N) @ map (\<lambda>k. Write k m) (normal_sessions (nd_base N))"
    by (rule submit_request [OF assms(1,2,3,5-8)])
  obtain r where r: "pending_tx_json C tx = Inr r" using pending_tx_printed ..
  have g: "getTxFromMempool (nd_state N') (tx_hash C tx) = Some tx" "length (tx_hash C tx) = 32"
    using assms(6) by (simp_all add: getTxFromMempool_def n map_add_def TxBlock_hash_def)
  have "handle_rpc R C depth L Op E (request_object ''eth_getTransactionByHash'' [JStr (hex_text (tx_hash C tx))] j) N' = (N', Inr (reply_to j r))"
    by (rule handle_request [where x = Method_eth_getTransactionByHash, OF _ assms(4)])
      (simp_all add: methodsLookupTable_def dispatch_def Decoding_eth_getTransactionByHash_def request_params read_digits(3) rethrow_def
        bindS_def liftS_def Encoding_eth_getTransactionByHash_def g r)
  with s n m r show ?thesis by blast
qed

subsection \<open>Requests that are undefined\<close>

text \<open>C37. A request may leave out its parameters, and the check of the specification accepts that. Every implemented method then reads
  the missing member of a constant object, which is undefined; this includes the methods that take no parameters.\<close>

theorem rpc_missing_params:
  assumes "map_of methodsLookupTable m = Some x" and "x \<noteq> Method_eth_sendTransaction"
  shows "handle_rpc R C depth L Op E (JObj [(''jsonrpc'', JStr ''2.0''), (''method'', JStr m), (''id'', i)]) N = (N, Inl UndefinedBehaviour)"
proof -
  let ?request = "JObj [(''jsonrpc'', JStr ''2.0''), (''method'', JStr m), (''id'', i)]"
  have p: "params_of ?request = Inl UndefinedBehaviour" by (simp add: deref_def)
  have s: "checkJsonRPCSpec ?request = Inr True" by (simp add: checkJsonRPCSpec_def json_contains_def deref_def rethrow_def)
  have g: "getMethod ?request = Inr x" using assms(1) by (simp add: getMethod_def deref_def rethrow_def)
  from assms have "x \<noteq> Method_invalid" by (auto simp: methodsLookupTable_def split: if_splits)
  with assms(2) have "dispatch R C depth L Op E ?request x N = (N, Inl UndefinedBehaviour)"
    by (cases x) (simp_all add: dispatch_def decoders p rethrow_def bindS_def liftS_def del: json_const_index.simps)
  then show ?thesis by (simp add: handle_rpc_def s g bindS_def liftS_def)
qed

text \<open>For a hash that no block has, \<^verbatim>\<open>eth_getBlockByHash\<close> answers null, while \<^verbatim>\<open>eth_getBlockTransactionCountByHash\<close> sets its answer
  to null and then dereferences the null pointer.\<close>

theorem unknown_block_replies:
  assumes "length h = 32" and "plain_id i" and "blockExists R (database (nd_state N)) (storage (nd_state N)) h = NotFound"
  shows "handle_rpc R C depth L Op E (request_object ''eth_getBlockByHash'' [JStr (hex_text h)] i) N
      = (N, Inr (JObj [(''jsonrpc'', JNum (JFloat 2)), (''result'', JNull), (''id'', i)]))
    \<and> handle_rpc R C depth L Op E (request_object ''eth_getBlockTransactionCountByHash'' [JStr (hex_text h)] i) N = (N, Inl UndefinedBehaviour)"
proof -
  have f: "find_block R C E h N = (N, Inr None)" using assms(3) by (simp add: find_block_def on_storage_def state_result_def on_state_def getBlock_def)
  have "handle_rpc R C depth L Op E (request_object ''eth_getBlockByHash'' [JStr (hex_text h)] i) N
      = (N, Inr (JObj [(''jsonrpc'', JNum (JFloat 2)), (''result'', JNull), (''id'', i)]))"
    by (rule handle_reply [where x = Method_eth_getBlockByHash, OF _ assms(2)])
      (simp_all add: methodsLookupTable_def dispatch_def Decoding_eth_getBlockByHash_def include_txs_def request_params read_digits(2) [OF assms(1)]
        rethrow_def bindS_def liftS_def Encoding_eth_getBlockByHash_def f getBlockJson_def reply_num_def)
  moreover have "handle_rpc R C depth L Op E (request_object ''eth_getBlockTransactionCountByHash'' [JStr (hex_text h)] i) N = (N, Inl UndefinedBehaviour)"
    by (rule handle_undefined [where x = Method_eth_getBlockTransactionCountByHash])
      (simp_all add: methodsLookupTable_def dispatch_def Decoding_eth_getBlockTransactionCountByHash_def request_params read_digits(2) [OF assms(1)]
        rethrow_def bindS_def liftS_def Encoding_eth_getBlockTransactionCountByHash_def f tx_count_def deref_def)
  ultimately show ?thesis ..
qed

subsection \<open>A node that answers\<close>

text \<open>A peer is connected, the mempool is empty, and the parser of the library reads every text as the given request.\<close>

definition rpc_node :: "(bytes \<times> bytes) list NormalNode" where
  "rpc_node = seal_peered\<lparr>nd_state := seal_state\<lparr>mempool := []\<rparr>\<rparr>"

definition sample_lib :: "json \<Rightarrow> rpc_lib" where
  "sample_lib request = \<lparr>parse_json = (\<lambda>_. Inr request), dump_json = (\<lambda>_. Inr ''{}''), lexical_hex = (\<lambda>_. Inr 0), narrow64 = (\<lambda>n. Inr (ucast n))\<rparr>"

definition sample_options :: rpc_options where
  "sample_options = \<lparr>opt_web3ClientVersion = ''OrbiterSDK'', opt_version = 1, opt_sdkVersion = 1, opt_coinbase = replicate 20 0\<rparr>"

definition raw_request :: json where
  "raw_request = request_object ''eth_sendRawTransaction'' [JStr (hex_text (TxBlock_rlpSerialize seal_pay True))] (JNum (JUnsigned 1))"

lemma rpc_node_simps:
  "mempool (nd_state rpc_node) = []" "accounts (nd_state rpc_node) = [(seal_address 9, \<lparr>acc_balance = 1000, acc_nonce = 0\<rparr>)]"
  "\<not> mb_closed (nd_base rpc_node)" "\<not> seen i rpc_node" "mb_wire (nd_base rpc_node) = []" "normal_sessions (nd_base rpc_node) = [replicate 32 1]"
  using seal_peered_simps by (simp_all add: rpc_node_def seal_state_simps seen_def)

lemma rpc_node_accepts: "\<exists>S'. addTx seal_crypto (nd_state rpc_node) seal_pay = Inr (S', NotInvalid)"
  by (simp add: addTx_def validateTransactionInternal_def rpc_node_simps tx_cost_def seal_pay_def demo_pay_def u256_mul_def u256_add_def)

lemma rpc_node_fresh: "map_of (mempool (nd_state rpc_node)) h = None"
  by (simp add: rpc_node_simps)

theorem rpc_keeps_ledger_witness:
  "\<exists>N'. parseJsonRpcRequest alist_rocks seal_crypto 2 (sample_lib raw_request) sample_options any_env ''request'' rpc_node = (N', Inr ''{}'')
     \<and> ledger_view N' = ledger_view rpc_node \<and> mempool (nd_state N') = [(tx_hash seal_crypto seal_pay, seal_pay)]"
proof -
  obtain S' where a: "addTx seal_crypto (nd_state rpc_node) seal_pay = Inr (S', NotInvalid)" using rpc_node_accepts ..
  obtain N' where h: "handle_rpc alist_rocks seal_crypto 2 (sample_lib raw_request) sample_options any_env raw_request rpc_node
      = (N', Inr (reply_to (JNum (JUnsigned 1)) (JStr (hex_text (tx_hash seal_crypto seal_pay)))))"
    and n: "nd_state N' = (nd_state rpc_node)\<lparr>mempool := mempool (nd_state rpc_node) @ [(tx_hash seal_crypto seal_pay, seal_pay)]\<rparr>"
    using submit_request [OF seal_pay_serialisable seal_pay_sender _ a rpc_node_fresh rpc_node_simps(3,4), of "JNum (JUnsigned 1)"]
    unfolding raw_request_def by (metis plain_id.simps(2))
  then have p: "parseJsonRpcRequest alist_rocks seal_crypto 2 (sample_lib raw_request) sample_options any_env ''request'' rpc_node = (N', Inr ''{}'')"
    by (simp add: parseJsonRpcRequest_def rpc_answer_def bindS_def liftS_def) (simp add: sample_lib_def liftS_def)
  from rpc_keeps_ledger [OF p] p n show ?thesis by (simp add: rpc_node_simps)
qed

theorem account_replies_witness:
  "handle_rpc alist_rocks seal_crypto 2 (sample_lib JNull) sample_options any_env
     (request_object ''eth_getBalance'' [JStr (hex_text (seal_address 9)), JStr ''latest''] JNull) rpc_node
   = (rpc_node, Inr (reply_to JNull (JStr ''0x3e8'')))"
proof -
  have "number_text 1000 = ''0x3e8''" by (simp add: number_text_def hex_number.simps hex_digit_def)
  moreover have "getNativeBalance (nd_state rpc_node) (seal_address 9) = 1000" by (simp add: getNativeBalance_def rpc_node_simps)
  ultimately show ?thesis
    using account_replies [of "seal_address 9" JNull alist_rocks seal_crypto 2 "sample_lib JNull" sample_options any_env rpc_node] seal_address_nat(2)
    by simp
qed

theorem sendRawTransaction_submits_witness:
  "\<exists>m N' r. handle_rpc alist_rocks seal_crypto 2 (sample_lib raw_request) sample_options any_env raw_request rpc_node
       = (N', Inr (reply_to (JNum (JUnsigned 1)) (JStr (hex_text (tx_hash seal_crypto seal_pay)))))
     \<and> mb_wire (nd_base N') = [Write (replicate 32 1) m] \<and> pending_tx_json seal_crypto seal_pay = Inr r"
proof -
  obtain S' where a: "addTx seal_crypto (nd_state rpc_node) seal_pay = Inr (S', NotInvalid)" using rpc_node_accepts ..
  have i: "plain_id (JNum (JUnsigned 1))" by simp
  from sendRawTransaction_submits [OF seal_pay_serialisable seal_pay_sender i i a rpc_node_fresh rpc_node_simps(3,4), of alist_rocks 2
      "sample_lib raw_request" sample_options any_env] show ?thesis
    unfolding raw_request_def [symmetric] rpc_node_simps(5,6) by (elim exE conjE) (intro exI conjI, assumption, simp, assumption)
qed

theorem rpc_missing_params_witness:
  "handle_rpc alist_rocks seal_crypto 2 (sample_lib JNull) sample_options any_env
     (JObj [(''jsonrpc'', JStr ''2.0''), (''method'', JStr ''eth_blockNumber''), (''id'', JNull)]) rpc_node = (rpc_node, Inl UndefinedBehaviour)"
  by (rule rpc_missing_params [where x = Method_eth_blockNumber]) (simp_all add: methodsLookupTable_def)

theorem unknown_block_replies_witness:
  "handle_rpc alist_rocks seal_crypto 2 (sample_lib JNull) sample_options any_env
     (request_object ''eth_getBlockTransactionCountByHash'' [JStr (hex_text (replicate 32 7))] JNull)
     (rpc_node\<lparr>nd_state := demo_state\<lparr>storage := Storage_empty\<rparr>\<rparr>)
   = (rpc_node\<lparr>nd_state := demo_state\<lparr>storage := Storage_empty\<rparr>\<rparr>, Inl UndefinedBehaviour)"
proof -
  let ?N = "rpc_node\<lparr>nd_state := demo_state\<lparr>storage := Storage_empty\<rparr>\<rparr>"
  have "blockExists alist_rocks (database (nd_state ?N)) (storage (nd_state ?N)) (replicate 32 7) = NotFound"
    by (simp add: blockExists_def Storage_empty_def demo_state_def DB_has_def alist_rocks_def)
  from unknown_block_replies [OF _ _ this, of JNull] show ?thesis by simp
qed

end
