(* ===== verification/Nested_Calls.thy ===== *)
theory Nested_Calls
  imports Ledger
begin

text \<open>
  Contracts that call contracts. The model bounds the depth of nested calls; this theory shows that a
  depth of two is enough for the contracts of the program: only the wrapper calls another contract, and
  the two functions it calls are ones that call nothing, whatever contract stands at the other end. A call below the second level is
  never made, so it does not matter what the model puts in its place.
\<close>

subsection \<open>The selector of an encoded call\<close>

lemma encode_loop_prefix: "\<exists>x. fst (encode_loop vs off d dyn) = d @ x"
proof (induction vs arbitrary: off d dyn)
  case (Cons v vs)
  obtain h t off' where "encode_arg v off = (h, t, off')" by (metis prod_cases3)
  then show ?case using Cons [of off' "d @ h" "dyn @ t"] by auto
qed simp

lemma Encoder_selector:
  assumes "Encoder C vs func = Inr raw" and "func \<noteq> ''''"
  shows "take 4 raw = encodeFunction C func"
proof -
  have "encode_header C func vs = Inr hdr \<Longrightarrow> hdr = encodeFunction C func" for hdr
    using assms(2) by (auto simp: encode_header_def Let_def result_simps split: option.splits if_splits)
  moreover from assms(1) obtain hdr where h: "encode_header C func vs = Inr hdr"
    and r: "raw = fst (encode_loop vs (of_nat (32 * length vs)) hdr []) @ snd (encode_loop vs (of_nat (32 * length vs)) hdr [])"
    by (auto simp: Encoder_def Let_def result_simps case_prod_unfold)
  ultimately obtain x where "raw = encodeFunction C func @ x"
    using encode_loop_prefix [of vs "of_nat (32 * length vs)" hdr "[]"] by auto
  moreover have "length (encodeFunction C func) = 4" by (simp add: encodeFunction_def length_sha3)
  ultimately show ?thesis by simp
qed

subsection \<open>Calls that do not nest\<close>

definition flat_selectors :: "bytes set" where
  "flat_selectors = {[0xa9, 0x05, 0x9c, 0xbb], [0x23, 0xb8, 0x72, 0xdd]}"

text \<open>What the Keccak function gives for the two headers the wrapper encodes.\<close>

definition selectors_known :: "crypto \<Rightarrow> bool" where
  "selectors_known C \<longleftrightarrow>
     encodeFunction C ''transfer(address,uint256)'' = [0xa9, 0x05, 0x9c, 0xbb]
     \<and> encodeFunction C ''transferFrom(address,address,uint256)'' = [0x23, 0xb8, 0x72, 0xdd]"

lemma flat_dispatch:
  "functor \<in> flat_selectors \<Longrightarrow> find_function C ec a c functor = find_function C ec' a c functor"
  by (cases c) (auto simp: flat_selectors_def find_function_def ERC20Wrapper_functions_def)

lemma flat_ethCall:
  assumes "take 4 data \<in> flat_selectors"
  shows "dynamic_ethCall C ec a (f, t, gl, gp, v, data) = dynamic_ethCall C ec' a (f, t, gl, gp, v, data)"
  unfolding dynamic_ethCall_def Let_def prod.case flat_dispatch [OF assms, of C ec a _ ec'] by (rule refl)

lemma flat_callContract:
  "take 4 raw \<in> flat_selectors
   \<Longrightarrow> dc_callContract (dynamic_ethCall C ec) self tok raw v = dc_callContract (dynamic_ethCall C ec') self tok raw v"
  by (simp only: dc_callContract_def iface_callContract_def prod.case Let_def flat_ethCall [of raw C ec _ _ _ _ _ _ ec'])

lemma bindS_liftS_cong: "(\<And>x. r = Inr x \<Longrightarrow> k x = k' x) \<Longrightarrow> bindS (liftS r) k = bindS (liftS r) k'"
  by (cases r) (simp_all add: fun_eq_iff bindS_def liftS_def)

lemma nested_wrapper:
  assumes "selectors_known C"
  shows "wrapper_withdraw C (dynamic_ethCall C ec) = wrapper_withdraw C (dynamic_ethCall C ec')"
    and "wrapper_transferTo C (dynamic_ethCall C ec) = wrapper_transferTo C (dynamic_ethCall C ec')"
    and "wrapper_deposit C (dynamic_ethCall C ec) = wrapper_deposit C (dynamic_ethCall C ec')"
proof -
  have s: "take 4 raw \<in> flat_selectors"
    if "Encoder C vs func = Inr raw" "func = ''transfer(address,uint256)'' \<or> func = ''transferFrom(address,address,uint256)''" for vs func raw
    using Encoder_selector [OF that(1)] that(2) assms by (auto simp: flat_selectors_def selectors_known_def)
  have call: "bindS (liftS (Encoder C vs func)) (\<lambda>raw. dc_callContract (dynamic_ethCall C ec) self tok raw v)
      = bindS (liftS (Encoder C vs func)) (\<lambda>raw. dc_callContract (dynamic_ethCall C ec') self tok raw v)"
    if "func = ''transfer(address,uint256)''" for vs func self tok v
    using s that flat_callContract by (intro bindS_liftS_cong) blast
  have deposit: "bindS (liftS (Encoder C vs func)) (\<lambda>raw. bindS (dc_callContract (dynamic_ethCall C ec) self tok raw v) k)
      = bindS (liftS (Encoder C vs func)) (\<lambda>raw. bindS (dc_callContract (dynamic_ethCall C ec') self tok raw v) k)"
    if "func = ''transferFrom(address,address,uint256)''" for vs func self tok v k
    by (rule bindS_liftS_cong, rule arg_cong [where f = "\<lambda>m. bindS m k"], rule flat_callContract, erule s, rule disjI2 [OF that])
  show "wrapper_withdraw C (dynamic_ethCall C ec) = wrapper_withdraw C (dynamic_ethCall C ec')"
    "wrapper_transferTo C (dynamic_ethCall C ec) = wrapper_transferTo C (dynamic_ethCall C ec')"
    unfolding wrapper_withdraw_def [abs_def] wrapper_transferTo_def [abs_def] call [OF refl] by (rule refl)+
  show "wrapper_deposit C (dynamic_ethCall C ec) = wrapper_deposit C (dynamic_ethCall C ec')"
    unfolding wrapper_deposit_def [abs_def] deposit [OF refl] by (rule refl)
qed

lemma nested_dispatch:
  assumes "selectors_known C"
  shows "find_function C (dynamic_ethCall C ec) = find_function C (dynamic_ethCall C ec')"
  unfolding find_function_def [abs_def] ERC20Wrapper_functions_def nested_wrapper [OF assms, of ec ec'] by (rule refl)

lemma nested_ethCall:
  assumes "selectors_known C"
  shows "dynamic_ethCall C (dynamic_ethCall C ec) = dynamic_ethCall C (dynamic_ethCall C ec')"
  unfolding dynamic_ethCall_def [of C "dynamic_ethCall C ec", abs_def] dynamic_ethCall_def [of C "dynamic_ethCall C ec'", abs_def]
    nested_dispatch [OF assms, of ec ec'] by (rule refl)

text \<open>C25. Nested calls end: whatever a call at the third level would do, \<open>deeper\<close>, a call of any contract with any data in any state does the same,
  because it is never made; no call nests deeper than from a wrapper to a token. So every depth of at least two gives the behaviour of the code.\<close>

theorem eth_call_depth_two:
  fixes S :: "'s State" and deeper :: "bytes \<Rightarrow> ethCallInfo \<Rightarrow> ('s State, unit) action"
  assumes "selectors_known C" and "2 \<le> n"
  shows "dynamic_ethCall C (dynamic_ethCall C deeper) a info S = eth_call C n a info S"
proof -
  obtain k where n: "n = Suc (Suc k)" using assms(2) by (metis add_2_eq_Suc le_Suc_ex)
  show ?thesis unfolding n eth_call.simps nested_ethCall [OF assms(1), of deeper "eth_call C k"] by (rule refl)
qed

subsection \<open>A wrapper that calls a token\<close>

lemma contract_at_put [simp]: "contract_at b (put_contract a c S) = (if b = a then Some c else contract_at b S)"
  by (simp add: contract_at_def put_contract_def update_conv')

lemma put_contract_twice [simp]: "put_contract a c (put_contract a d S) = put_contract a c S"
  by (simp add: put_contract_def)

lemma dynamic_ethCall_token:
  assumes "contract_at a S = Some (C_ERC20 t)" and "token_ethCall ERC20_functions data t = (t', r)"
  shows "dynamic_ethCall C ec a (f, to, gl, gp, v, data) S = (put_contract a (C_ERC20 t') S, r)"
  using assms
  by (auto simp: dynamic_ethCall_def token_ethCall_def find_function_def on_token_def at_contract_def self_base_def
      BaseContract.defs split: option.splits prod.splits sum.splits)

lemma transfer_encoded:
  assumes "selectors_known C" and "length to = 20"
  shows "Encoder C [AAddress to, AUint256 v] ''transfer(address,uint256)'' = Inr (call_data (Transfer to v))"
proof -
  have "encode_header C ''transfer(address,uint256)'' [AAddress to, AUint256 v] = Inr [0xa9, 0x05, 0x9c, 0xbb]"
    using assms(1) by (simp add: encode_header_def header_loop.simps header_types_def header_type_def view_at_def selectors_known_def)
  then show ?thesis
    using encode_loop_eq [of "[AAddress to, AUint256 v]" 64 "[0xa9, 0x05, 0x9c, 0xbb]" "[]"] assms(2)
    by (simp add: Encoder_def call_data_def abi_packed_def)
qed

definition selector_crypto :: crypto where
  "selector_crypto = demo_crypto\<lparr>keccak256 := (\<lambda>b. of_nat (be_nat (
     (if b = bytes_of_string ''transfer(address,uint256)'' then [0xa9, 0x05, 0x9c, 0xbb] else [0x23, 0xb8, 0x72, 0xdd]) @ replicate 28 0)))\<rparr>"

lemma selector_crypto_known: "selectors_known selector_crypto"
proof -
  have e: "uint256ToBytes (of_nat (be_nat b)) = b" if "length b = 32" for b
    using that be_bytes_be_nat_eq [of b 32] unat_of_nat_be_nat [of b 32, where 'w = 256] by (simp add: uint256ToBytes_eq)
  have "bytes_of_string ''transferFrom(address,address,uint256)'' \<noteq> bytes_of_string ''transfer(address,uint256)''"
    by (rule notI, drule arg_cong [where f = length]) (simp add: bytes_of_string_def)
  then show ?thesis
    by (simp add: selectors_known_def encodeFunction_def sha3_def selector_crypto_def e del: be_nat_append)
qed

definition nest_wrapper :: wrapper where
  "nest_wrapper = set_locals (replicate 20 1) (replicate 20 1) 0 True
     ((wrapper_of_base (BaseContract_new (bytes_of_string ''ERC20Wrapper'') (replicate 20 8) (replicate 20 1) 8080))
        \<lparr>tokensAndBalances := SafeMap_owned [replicate 20 9 \<mapsto> [replicate 20 1 \<mapsto> 10]]\<rparr>)"

definition nest_state :: "(bytes \<times> bytes) list State" where
  "nest_state = demo_state\<lparr>manager := demo_manager\<lparr>cm_contracts :=
     [(replicate 20 9, C_ERC20 (deployed [1] [2] 18 1000 (replicate 20 9) (replicate 20 8) 8080)), (replicate 20 8, C_ERC20Wrapper nest_wrapper)]\<rparr>\<rparr>"

lemma nest_contracts:
  "contract_at (replicate 20 8) nest_state = Some (C_ERC20Wrapper nest_wrapper)"
  "contract_at (replicate 20 9) nest_state = Some (C_ERC20 (deployed [1] [2] 18 1000 (replicate 20 9) (replicate 20 8) 8080))"
  by (simp_all add: contract_at_def nest_state_def replicate_eq_replicate)

lemma nest_wrapper_simps:
  "tokensAndBalances nest_wrapper = SafeMap_owned [replicate 20 9 \<mapsto> [replicate 20 1 \<mapsto> 10]]"
  "loc_caller nest_wrapper = replicate 20 1" "contractAddress nest_wrapper = replicate 20 8"
  by (simp_all add: nest_wrapper_def set_locals_def wrapper_of_base_def BaseContract_new_def BaseContract.defs DynamicContract.defs wrapper.defs)

lemma nest_debit:
  obtains w where "wrapper_debit (replicate 20 9) 5 nest_wrapper = (w, Inr ())" "loc_caller w = replicate 20 1" "contractAddress w = replicate 20 8"
  by (simp add: wrapper_debit_def bindS_def on_tokens_def sm_find_mut_def Let_def nest_wrapper_simps note_use_def u256_sub_eq)

text \<open>Withdrawing five of the ten tokens that the wrapper holds for the caller makes the wrapper call the token.\<close>

abbreviation withdraw_call :: ethCallInfo where
  "withdraw_call \<equiv> (replicate 20 1, replicate 20 8, 0, 0, 0, [0xf3, 0xfe, 0xf3, 0xa3] @ abi_packed [AAddress (replicate 20 9), AUint256 5])"

lemma nest_withdraw:
  obtains w where "wrapper_withdraw selector_crypto ec (replicate 20 8) (replicate 20 9) 5 nest_state
    = dc_callContract ec (replicate 20 8) (replicate 20 9) (call_data (Transfer (replicate 20 1) 5)) 0
        (put_contract (replicate 20 8) (C_ERC20Wrapper w) nest_state)"
proof -
  obtain w where "wrapper_debit (replicate 20 9) 5 nest_wrapper = (w, Inr ())" "loc_caller w = replicate 20 1" "contractAddress w = replicate 20 8"
    by (rule nest_debit)
  then show thesis
    by (intro that [of w]) (simp add: wrapper_withdraw_def bindS_def on_wrapper_def nest_contracts self_base_def BaseContract.defs
        transfer_encoded [OF selector_crypto_known] liftS_def)
qed

lemma nest_dispatch:
  "find_function selector_crypto ec (replicate 20 8) (C_ERC20Wrapper nest_wrapper) [0xf3, 0xfe, 0xf3, 0xa3]
     = Some (\<lambda>data. args [T_address, T_uint256] data (\<lambda>d. arg_address d 0 (\<lambda>tok. arg_uint256 d 1 (\<lambda>v. wrapper_withdraw selector_crypto ec (replicate 20 8) tok v))))"
  by (simp add: find_function_def ERC20Wrapper_functions_def)

lemma nest_args: "Decoder [T_address, T_uint256] (abi_packed [AAddress (replicate 20 9), AUint256 5]) = Inr [AAddress (replicate 20 9), AUint256 5]"
  using Decoder_packed [of "[AAddress (replicate 20 9), AUint256 5]"] by simp

lemma nest_call:
  "snd (dynamic_ethCall selector_crypto ec (replicate 20 8) withdraw_call nest_state)
   = rethrow '''' (snd (wrapper_withdraw selector_crypto ec (replicate 20 8) (replicate 20 9) 5 nest_state))"
  by (simp add: dynamic_ethCall_def nest_contracts nest_dispatch args_def arg_address_def arg_uint256_def nest_args getData_address_def
      getData_uint256_def getData_def rethrow_def split: prod.split sum.split)

lemma nest_depth_one: "snd (eth_call selector_crypto 1 (replicate 20 8) withdraw_call nest_state) = Inl UndefinedBehaviour"
proof -
  obtain w where "wrapper_withdraw selector_crypto (eth_call selector_crypto 0) (replicate 20 8) (replicate 20 9) 5 nest_state
    = dc_callContract (eth_call selector_crypto 0) (replicate 20 8) (replicate 20 9) (call_data (Transfer (replicate 20 1) 5)) 0
        (put_contract (replicate 20 8) (C_ERC20Wrapper w) nest_state)" by (rule nest_withdraw)
  then show ?thesis
    unfolding One_nat_def eth_call.simps(2) nest_call
    by (simp add: dc_callContract_def iface_callContract_def bindS_def liftS_def nest_contracts replicate_eq_replicate rethrow_def)
qed

lemma nest_depth_two: "snd (eth_call selector_crypto 2 (replicate 20 8) withdraw_call nest_state) = Inr ()"
proof -
  let ?T = "deployed [1] [2] 18 1000 (replicate 20 9) (replicate 20 8) 8080" and ?call = "Transfer (replicate 20 1) 5"
  obtain w where w: "wrapper_withdraw selector_crypto (eth_call selector_crypto 1) (replicate 20 8) (replicate 20 9) 5 nest_state
    = dc_callContract (eth_call selector_crypto 1) (replicate 20 8) (replicate 20 9) (call_data ?call) 0
        (put_contract (replicate 20 8) (C_ERC20Wrapper w) nest_state)" by (rule nest_withdraw)
  let ?S = "put_contract (replicate 20 8) (C_ERC20Wrapper w) nest_state"
  define t where "t = set_locals (loc_origin ?T) (replicate 20 8) 0 (loc_commit (manager ?S)) ?T"
  have t: "token_ok t" "spec_call (loc_caller t) ?call (token_abs t) \<noteq> None" by (simp_all add: t_def deployed_ok)
  obtain t' where t': "token_ethCall ERC20_functions (call_data ?call) t = (t', Inr ())"
    using ERC20_call_spec [OF t(1), of ?call] t(2) by auto
  have "at_contract (replicate 20 9) (\<lambda>c. contract_locals (loc_origin (contract_base c)) (replicate 20 8) 0 (loc_commit (manager ?S)) c) ?S
      = put_contract (replicate 20 9) (C_ERC20 t) ?S"
    by (simp add: at_contract_def nest_contracts replicate_eq_replicate t_def BaseContract.defs)
  moreover have "eth_call selector_crypto 1 (replicate 20 9) (replicate 20 8, replicate 20 9, 0, 0, 0, call_data ?call)
      (put_contract (replicate 20 9) (C_ERC20 t) ?S) = (put_contract (replicate 20 9) (C_ERC20 t') ?S, Inr ())"
    by (simp add: dynamic_ethCall_token [OF _ t'])
  ultimately have d: "snd (dc_callContract (eth_call selector_crypto 1) (replicate 20 8) (replicate 20 9) (call_data ?call) 0 ?S) = Inr ()"
    by (simp add: dc_callContract_def iface_callContract_def bindS_def liftS_def nest_contracts replicate_eq_replicate)
  have "eth_call selector_crypto 2 = (dynamic_ethCall selector_crypto (eth_call selector_crypto 1) :: bytes \<Rightarrow> ethCallInfo \<Rightarrow> ((bytes \<times> bytes) list State, unit) action)"
    by (simp add: numeral_2_eq_2)
  then show ?thesis by (simp only: nest_call w d) (simp add: rethrow_def)
qed

theorem eth_call_depth_two_witness:
  "snd (dynamic_ethCall selector_crypto (dynamic_ethCall selector_crypto (\<lambda>a info S. (S, Inl (RuntimeError ''third level''))))
     (replicate 20 8) withdraw_call nest_state) = Inr ()
   \<and> snd (eth_call selector_crypto 1 (replicate 20 8) withdraw_call nest_state) = Inl UndefinedBehaviour"
  using eth_call_depth_two [OF selector_crypto_known, of 2 "\<lambda>a info S. (S, Inl (RuntimeError ''third level''))" "replicate 20 8" withdraw_call nest_state]
    nest_depth_one nest_depth_two by simp

end
