(* ===== verification/Contract_Persist.thy ===== *)
theory Contract_Persist
  imports Ledger Storage_Persist
begin

text \<open>
  Saving and loading contracts: the destructors and the loading constructors of \<^verbatim>\<open>ERC20\<close>, \<^verbatim>\<open>NativeWrapper\<close> and
  \<^verbatim>\<open>ERC20Wrapper\<close>, and the constructor and destructor of \<^verbatim>\<open>ContractManager\<close>, which keep the list of contracts.
  The order in which \<^verbatim>\<open>std::unordered_map\<close> iterates is not specified: it is the argument \<open>it\<close>, and the theorems
  hold for every order.
\<close>

subsection \<open>Writing and reading maps\<close>

record iteration =
  it_flat :: "(bytes \<rightharpoonup> uint256) \<Rightarrow> (bytes \<times> uint256) list"
  it_nested :: "(bytes \<rightharpoonup> (bytes \<rightharpoonup> uint256)) \<Rightarrow> (bytes \<times> (bytes \<rightharpoonup> uint256)) list"

definition member_prefix :: "bytes \<Rightarrow> string \<Rightarrow> bytes" where
  "member_prefix address name = contract_prefix address @ bytes_of_string name"

definition balances_batch :: "iteration \<Rightarrow> (bytes \<rightharpoonup> uint256) \<Rightarrow> DBBatch" where
  "balances_batch it m = \<lparr>bt_puts = map (\<lambda>(a, v). \<lparr>de_key = a, de_value = uintToBytes (unat v)\<rparr>) (it_flat it m), bt_dels = []\<rparr>"

definition nested_batch :: "iteration \<Rightarrow> (bytes \<rightharpoonup> (bytes \<rightharpoonup> uint256)) \<Rightarrow> DBBatch" where
  "nested_batch it m =
     \<lparr>bt_puts = concat (map (\<lambda>(a, inner). map (\<lambda>(b, v). \<lparr>de_key = a, de_value = b @ uintToBytes (unat v)\<rparr>) (it_flat it inner)) (it_nested it m)),
      bt_dels = []\<rparr>"

definition load_balance :: "DBEntry \<Rightarrow> (token, unit) action" where
  "load_balance e =
     bindS (liftS (fromBigEndian256 (de_value e))) (\<lambda>v.
     bindS (liftS (Address_bytes (de_key e))) (\<lambda>a.
     on_balances (sm_index_modify 0 a (\<lambda>_. Inr v))))"

text \<open>One entry of a nested map: the value is the inner key and the number.\<close>

definition load_nested ::
  "((nested_map, unit) action \<Rightarrow> ('t, unit) action) \<Rightarrow> DBEntry \<Rightarrow> ('t, unit) action" where
  "load_nested on_map e =
     bindS (liftS (bindE (substr (de_value e) 20 (length (de_value e))) fromBigEndian256)) (\<lambda>v.
     bindS (liftS (Address_bytes (de_key e))) (\<lambda>a.
     bindS (liftS (bindE (substr (de_value e) 0 20) Address_bytes)) (\<lambda>b.
     on_map (sm_index_modify Map.empty a (inner_modify b (\<lambda>_. Inr v))))))"

subsection \<open>The token contracts\<close>

definition ERC20_load :: "'s rocksdb \<Rightarrow> 's \<Rightarrow> bytes \<Rightarrow> token result" where
  "ERC20_load R db address =
     bindE (BaseContract_load R db address) (\<lambda>b.
     let get = (\<lambda>key. DB_get R db (bytes_of_string key) (contract_prefix address));
         (t, r) = bindS (on_name (SafeString_assign (get ''_name''))) (\<lambda>_.
                  bindS (on_symbol (SafeString_assign (get ''_symbol''))) (\<lambda>_.
                  bindS (liftS (bytesToUint8 (get ''_decimals''))) (\<lambda>decimals.
                  bindS (on_decimals (SafeUint_assign decimals)) (\<lambda>_.
                  bindS (liftS (bytesToUint256 (get ''_totalSupply''))) (\<lambda>supply.
                  bindS (on_totalSupply (SafeUint_assign supply)) (\<lambda>_.
                  bindS (forS load_balance (DB_getBatch R db (member_prefix address ''_balances'') [])) (\<lambda>_.
                  forS (load_nested on_allowed) (DB_getBatch R db (member_prefix address ''_allowed'') []))))))))
                  (token_of_base b)
     in bindE r (\<lambda>_. Inr (token_updateState True t)))"

definition ERC20_close :: "'s rocksdb \<Rightarrow> iteration \<Rightarrow> token \<Rightarrow> 's \<Rightarrow> 's" where
  "ERC20_close R it t db0 =
     (let address = contractAddress t;
          put = (\<lambda>key v db. fst (DB_put R db (bytes_of_string key) v (contract_prefix address)));
          db = put ''_totalSupply'' (uint256ToBytes (sv_get (tok_totalSupply t)))
              (put ''_decimals'' (uint8ToBytes (sv_get (tok_decimals t)))
              (put ''_symbol'' (sv_get (tok_symbol t)) (put ''_name'' (sv_get (tok_name t)) db0)));
          db1 = fst (DB_putBatch R db (balances_batch it (sm_map (tok_balances t))) (member_prefix address ''_balances''))
      in fst (DB_putBatch R db1 (nested_batch it (sm_map (tok_allowed t))) (member_prefix address ''_allowed'')))"

text \<open>\<^verbatim>\<open>NativeWrapper\<close> loads and saves the same members in the same way.\<close>

definition NativeWrapper_load :: "'s rocksdb \<Rightarrow> 's \<Rightarrow> bytes \<Rightarrow> token result" where
  "NativeWrapper_load R db address = ERC20_load R db address"

definition NativeWrapper_close :: "'s rocksdb \<Rightarrow> iteration \<Rightarrow> token \<Rightarrow> 's \<Rightarrow> 's" where
  "NativeWrapper_close R it t db = ERC20_close R it t db"

definition ERC20Wrapper_load :: "'s rocksdb \<Rightarrow> 's \<Rightarrow> bytes \<Rightarrow> wrapper result" where
  "ERC20Wrapper_load R db address =
     bindE (BaseContract_load R db address) (\<lambda>b.
     let (w, r) = forS (load_nested on_tokens) (DB_getBatch R db (member_prefix address ''_tokensAndBalances'') []) (wrapper_of_base b)
     in bindE r (\<lambda>_. Inr (wrapper_updateState True w)))"

definition ERC20Wrapper_close :: "'s rocksdb \<Rightarrow> iteration \<Rightarrow> wrapper \<Rightarrow> 's \<Rightarrow> 's" where
  "ERC20Wrapper_close R it w db =
     fst (DB_putBatch R db (nested_batch it (sm_map (tokensAndBalances w))) (member_prefix (contractAddress w) ''_tokensAndBalances''))"

subsection \<open>The contract manager\<close>

definition load_contract :: "'s rocksdb \<Rightarrow> 's \<Rightarrow> DBEntry \<Rightarrow> (bytes \<times> contract) list \<Rightarrow> (bytes \<times> contract) list result" where
  "load_contract R db e cs =
     (let add = (\<lambda>a c. Inr (if map_of cs a = None then cs @ [(a, c)] else cs)) in
      if de_value e = bytes_of_string ''ERC20''
      then bindE (Address_bytes (de_key e)) (\<lambda>a. bindE (ERC20_load R db a) (\<lambda>t. add a (C_ERC20 t)))
      else if de_value e = bytes_of_string ''ERC20Wrapper''
      then bindE (Address_bytes (de_key e)) (\<lambda>a. bindE (ERC20Wrapper_load R db a) (\<lambda>w. add a (C_ERC20Wrapper w)))
      else if de_value e = bytes_of_string ''NativeWrapper''
      then bindE (Address_bytes (de_key e)) (\<lambda>a. bindE (NativeWrapper_load R db a) (\<lambda>t. add a (C_NativeWrapper t)))
      else Inl (RuntimeError ''Unknown contract: ''))"

definition ContractManager_open :: "'s rocksdb \<Rightarrow> 's \<Rightarrow> ('s \<times> ContractManager) result" where
  "ContractManager_open R db0 =
     (let name = bytes_of_string ''ContractManager'';
          db = BaseContract_put R db0 name manager_address dead_address 0
      in bindE (foldE (load_contract R db) (DB_getBatch R db DBPrefix_contractManager []) []) (\<lambda>cs.
         Inr (db, BaseContract.extend (BaseContract_new name manager_address dead_address 0) (ContractManager.fields [] cs))))"

text \<open>The destructor writes the names; then the members go, and with the map of contracts every contract.\<close>

fun contract_close :: "'s rocksdb \<Rightarrow> iteration \<Rightarrow> contract \<Rightarrow> 's \<Rightarrow> 's" where
  "contract_close R it (C_ERC20 t) db = ERC20_close R it t db"
| "contract_close R it (C_NativeWrapper t) db = NativeWrapper_close R it t db"
| "contract_close R it (C_ERC20Wrapper w) db = ERC20Wrapper_close R it w db"

definition ContractManager_close :: "'s rocksdb \<Rightarrow> iteration \<Rightarrow> ContractManager \<Rightarrow> 's \<Rightarrow> 's" where
  "ContractManager_close R it m db =
     (let batch = \<lparr>bt_puts = map (\<lambda>(a, c). \<lparr>de_key = a, de_value = contractName (contract_base c)\<rparr>) (cm_contracts m), bt_dels = []\<rparr>;
          db1 = fst (DB_putBatch R db batch DBPrefix_contractManager)
      in fold (\<lambda>(a, c). contract_close R it c) (cm_contracts m) db1)"

subsection \<open>What is in the database after saving\<close>

definition enumerates :: "('k \<times> 'v) list \<Rightarrow> ('k \<rightharpoonup> 'v) \<Rightarrow> bool" where
  "enumerates xs m \<longleftrightarrow> distinct (map fst xs) \<and> map_of xs = m"

text \<open>An iteration over a map visits every entry once.\<close>

definition iteration_ok :: "iteration \<Rightarrow> bool" where
  "iteration_ok it \<longleftrightarrow> (\<forall>m. finite (dom m) \<longrightarrow> enumerates (it_flat it m) m) \<and> (\<forall>m. finite (dom m) \<longrightarrow> enumerates (it_nested it m) m)"

lemma batch_effect_outside: "\<not> starts_with key pfx \<Longrightarrow> batch_effect b pfx m key = m key"
proof -
  assume n: "\<not> starts_with key pfx"
  then have "map_of (rev (map (\<lambda>e. (pfx @ de_key e, de_value e)) (bt_puts b))) key = None"
    by (auto simp: map_of_eq_None_iff starts_with_iff)
  moreover have "key \<notin> (\<lambda>k. pfx @ k) ` set (bt_dels b)" using n by (auto simp: starts_with_iff)
  ultimately show ?thesis by (simp add: batch_effect_def map_add_def)
qed

text \<open>A nested map is written entry by entry under the outer key, so the last entry of a key remains.\<close>

definition last_entries :: "('m \<Rightarrow> ('k \<times> 'v) list) \<Rightarrow> ('a \<rightharpoonup> 'm) \<Rightarrow> 'a \<rightharpoonup> 'k \<times> 'v" where
  "last_entries f m a = (case m a of None \<Rightarrow> None | Some inner \<Rightarrow> if f inner = [] then None else Some (last (f inner)))"

lemma map_of_concat_last:
  assumes "distinct (map fst xs)"
  shows "map_of (rev (concat (map (\<lambda>(a, inner). map (\<lambda>e. (a, g e)) (f inner)) xs))) = map_option g \<circ> last_entries f (map_of xs)"
  using assms
proof (induction xs)
  case (Cons x xs)
  obtain a inner where x: "x = (a, inner)" by fastforce
  have "map_of (rev (map (\<lambda>e. (a, g e)) es)) k = (if k = a \<and> es \<noteq> [] then Some (g (last es)) else None)" for es k
    by (induction es rule: rev_induct) auto
  moreover have "a \<notin> set (map fst xs)" using Cons.prems by (simp add: x)
  then have "map_of xs a = None" by (simp add: map_of_eq_None_iff)
  ultimately show ?case
    using Cons by (auto simp: x fun_eq_iff map_add_def last_entries_def split: option.split)
qed (simp add: last_entries_def fun_eq_iff)

lemma stored_batch_key:
  assumes "enumerates xs m" and "bt_dels b = []" and "bt_puts b = map (\<lambda>(k, v). \<lparr>de_key = k, de_value = f v\<rparr>) xs"
  shows "batch_effect b pfx st (pfx @ k) = (case m k of Some v \<Rightarrow> Some (f v) | None \<Rightarrow> st (pfx @ k))"
proof -
  have "map_of (rev (map (\<lambda>e. (de_key e, de_value e)) (bt_puts b))) = map_of (map (\<lambda>e. (de_key e, de_value e)) (bt_puts b))"
    by (rule map_of_rev_distinct) (use assms in \<open>simp add: enumerates_def comp_def case_prod_unfold\<close>)
  moreover have "map_of (map (\<lambda>e. (de_key e, de_value e)) (bt_puts b)) k = map_option f (m k)"
    using assms(1) map_of_map [of f xs] by (simp add: assms(3) enumerates_def comp_def case_prod_unfold)
  ultimately show ?thesis by (simp add: batch_effect_key assms(2) split: option.split)
qed

lemma stored_nested_key:
  assumes "enumerates (it_nested it m) m"
  shows "batch_effect (nested_batch it m) pfx st (pfx @ k) =
    (case last_entries (it_flat it) m k of Some (b, v) \<Rightarrow> Some (b @ uintToBytes (unat v)) | None \<Rightarrow> st (pfx @ k))"
proof -
  let ?g = "\<lambda>(b, v). b @ uintToBytes (unat (v :: uint256))"
  have "map (\<lambda>e. (de_key e, de_value e)) (bt_puts (nested_batch it m))
      = concat (map (\<lambda>(a, inner). map (\<lambda>e. (a, ?g e)) (it_flat it inner)) (it_nested it m))"
    by (simp add: nested_batch_def map_concat comp_def case_prod_unfold)
  then have "map_of (rev (map (\<lambda>e. (de_key e, de_value e)) (bt_puts (nested_batch it m)))) k = map_option ?g (last_entries (it_flat it) m k)"
    using map_of_concat_last [of "it_nested it m" ?g "it_flat it"] assms by (simp add: enumerates_def)
  then show ?thesis by (simp add: batch_effect_key nested_batch_def split: option.split prod.split)
qed

lemma store_writes:
  assumes "rocks_ok R A" and "writes_succeed R"
  shows "A (fst (DB_put R s key v pfx)) = (A s)(pfx @ key \<mapsto> v)" and "A (fst (DB_putBatch R s b pfx)) = batch_effect b pfx (A s)"
  by (rule DB_put_abs [OF assms(1)] DB_putBatch_effect [OF assms(1)], simp add: writes_succeedD [OF assms(2)])+

definition token_saved :: "iteration \<Rightarrow> token \<Rightarrow> store \<Rightarrow> store" where
  "token_saved it t st =
     (let p = contract_prefix (contractAddress t) in
      batch_effect (nested_batch it (sm_map (tok_allowed t))) (member_prefix (contractAddress t) ''_allowed'')
        (batch_effect (balances_batch it (sm_map (tok_balances t))) (member_prefix (contractAddress t) ''_balances'')
          (st(p @ bytes_of_string ''_name'' \<mapsto> sv_get (tok_name t), p @ bytes_of_string ''_symbol'' \<mapsto> sv_get (tok_symbol t),
              p @ bytes_of_string ''_decimals'' \<mapsto> uint8ToBytes (sv_get (tok_decimals t)),
              p @ bytes_of_string ''_totalSupply'' \<mapsto> uint256ToBytes (sv_get (tok_totalSupply t))))))"

lemma ERC20_close_store:
  "rocks_ok R A \<Longrightarrow> writes_succeed R \<Longrightarrow> A (ERC20_close R it t db) = token_saved it t (A db)"
  by (simp only: ERC20_close_def token_saved_def Let_def store_writes)

lemma member_key: "starts_with (contract_prefix a @ k) (member_prefix a s) \<longleftrightarrow> starts_with k (bytes_of_string s)"
  by (auto simp: starts_with_iff member_prefix_def)

lemma member_name_simps:
  "\<not> starts_with (bytes_of_string ''_name'') (bytes_of_string ''_balances'')" "\<not> starts_with (bytes_of_string ''_name'') (bytes_of_string ''_allowed'')"
  "\<not> starts_with (bytes_of_string ''_symbol'') (bytes_of_string ''_balances'')" "\<not> starts_with (bytes_of_string ''_symbol'') (bytes_of_string ''_allowed'')"
  "\<not> starts_with (bytes_of_string ''_decimals'') (bytes_of_string ''_balances'')" "\<not> starts_with (bytes_of_string ''_decimals'') (bytes_of_string ''_allowed'')"
  "\<not> starts_with (bytes_of_string ''_totalSupply'') (bytes_of_string ''_balances'')" "\<not> starts_with (bytes_of_string ''_totalSupply'') (bytes_of_string ''_allowed'')"
  "\<not> starts_with (bytes_of_string ''contractName'') (bytes_of_string ''_balances'')" "\<not> starts_with (bytes_of_string ''contractName'') (bytes_of_string ''_allowed'')" "\<not> starts_with (bytes_of_string ''contractName'') (bytes_of_string ''_tokensAndBalances'')"
  "\<not> starts_with (bytes_of_string ''contractCreator'') (bytes_of_string ''_balances'')" "\<not> starts_with (bytes_of_string ''contractCreator'') (bytes_of_string ''_allowed'')" "\<not> starts_with (bytes_of_string ''contractCreator'') (bytes_of_string ''_tokensAndBalances'')"
  "\<not> starts_with (bytes_of_string ''contractChainId'') (bytes_of_string ''_balances'')" "\<not> starts_with (bytes_of_string ''contractChainId'') (bytes_of_string ''_allowed'')" "\<not> starts_with (bytes_of_string ''contractChainId'') (bytes_of_string ''_tokensAndBalances'')"
  by (simp_all add: starts_with_def bytes_of_string_def)

lemmas saved_simps = token_saved_def Let_def batch_effect_outside member_key member_name_simps

lemma token_saved_gets:
  fixes it t
  defines "p \<equiv> contract_prefix (contractAddress t)"
  shows "token_saved it t st (p @ bytes_of_string ''_name'') = Some (sv_get (tok_name t))"
    "token_saved it t st (p @ bytes_of_string ''_symbol'') = Some (sv_get (tok_symbol t))"
    "token_saved it t st (p @ bytes_of_string ''_decimals'') = Some (uint8ToBytes (sv_get (tok_decimals t)))"
    "token_saved it t st (p @ bytes_of_string ''_totalSupply'') = Some (uint256ToBytes (sv_get (tok_totalSupply t)))"
    "token_saved it t st (p @ bytes_of_string ''contractName'') = st (p @ bytes_of_string ''contractName'')"
    "token_saved it t st (p @ bytes_of_string ''contractCreator'') = st (p @ bytes_of_string ''contractCreator'')"
    "token_saved it t st (p @ bytes_of_string ''contractChainId'') = st (p @ bytes_of_string ''contractChainId'')"
  unfolding p_def by (simp_all add: saved_simps, simp_all add: bytes_of_string_def)

lemma member_prefix_ne:
  "\<not> starts_with (bytes_of_string ''_balances'' @ k) (bytes_of_string ''_allowed'')"
  "\<not> starts_with (bytes_of_string ''_allowed'' @ k) (bytes_of_string ''_balances'')"
  "n \<in> {''_name'', ''_symbol'', ''_decimals'', ''_totalSupply''} \<Longrightarrow>
     bytes_of_string ''_balances'' @ k \<noteq> bytes_of_string n \<and> bytes_of_string ''_allowed'' @ k \<noteq> bytes_of_string n"
proof -
  show "n \<in> {''_name'', ''_symbol'', ''_decimals'', ''_totalSupply''} \<Longrightarrow>
     bytes_of_string ''_balances'' @ k \<noteq> bytes_of_string n \<and> bytes_of_string ''_allowed'' @ k \<noteq> bytes_of_string n"
    by (elim insertE emptyE) (simp_all add: bytes_of_string_def)
qed (simp_all add: starts_with_def bytes_of_string_def)

lemma token_saved_maps:
  fixes it t
  defines "a \<equiv> contractAddress t"
  assumes "enumerates (it_flat it (sm_map (tok_balances t))) (sm_map (tok_balances t))"
    and "enumerates (it_nested it (sm_map (tok_allowed t))) (sm_map (tok_allowed t))"
  shows "token_saved it t st (member_prefix a ''_balances'' @ k) =
      (case sm_map (tok_balances t) k of Some v \<Rightarrow> Some (uintToBytes (unat v)) | None \<Rightarrow> st (member_prefix a ''_balances'' @ k))"
    and "token_saved it t st (member_prefix a ''_allowed'' @ k) =
      (case last_entries (it_flat it) (sm_map (tok_allowed t)) k of
         Some (b, v) \<Rightarrow> Some (b @ uintToBytes (unat v)) | None \<Rightarrow> st (member_prefix a ''_allowed'' @ k))"
proof -
  let ?b = "contract_prefix a @ bytes_of_string ''_balances'' @ k" and ?al = "contract_prefix a @ bytes_of_string ''_allowed'' @ k"
  have b: "member_prefix a ''_balances'' @ k = ?b" and al: "member_prefix a ''_allowed'' @ k = ?al" by (simp_all add: member_prefix_def)
  have "\<not> starts_with ?b (member_prefix a ''_allowed'')" "\<not> starts_with ?al (member_prefix a ''_balances'')"
    by (simp_all add: member_key member_prefix_ne(1,2))
  moreover have "?b \<noteq> contract_prefix a @ bytes_of_string n" "?al \<noteq> contract_prefix a @ bytes_of_string n"
    if "n \<in> {''_name'', ''_symbol'', ''_decimals'', ''_totalSupply''}" for n
    using member_prefix_ne(3) [OF that, of k] by simp_all
  ultimately show "token_saved it t st (member_prefix a ''_balances'' @ k) =
      (case sm_map (tok_balances t) k of Some v \<Rightarrow> Some (uintToBytes (unat v)) | None \<Rightarrow> st (member_prefix a ''_balances'' @ k))"
    "token_saved it t st (member_prefix a ''_allowed'' @ k) =
      (case last_entries (it_flat it) (sm_map (tok_allowed t)) k of
         Some (b, v) \<Rightarrow> Some (b @ uintToBytes (unat v)) | None \<Rightarrow> st (member_prefix a ''_allowed'' @ k))"
    using stored_batch_key [OF assms(2), of "balances_batch it (sm_map (tok_balances t))" "\<lambda>v. uintToBytes (unat v)" "member_prefix a ''_balances''" _ k]
      stored_nested_key [OF assms(3), of "member_prefix a ''_allowed''" _ k]
    unfolding token_saved_def Let_def a_def [symmetric] b al
    by (simp_all add: batch_effect_outside balances_batch_def cong: option.case_cong)
qed

text \<open>Saving a contract touches only the keys behind its address.\<close>

lemma token_saved_other: "\<not> starts_with key (contract_prefix (contractAddress t)) \<Longrightarrow> token_saved it t st key = st key"
proof -
  assume n: "\<not> starts_with key (contract_prefix (contractAddress t))"
  then have "\<not> starts_with key (member_prefix (contractAddress t) s)" for s by (auto simp: starts_with_iff member_prefix_def)
  with n show ?thesis by (auto simp: token_saved_def Let_def batch_effect_outside starts_with_iff)
qed

subsection \<open>Reading maps back\<close>

text \<open>A map member of a contract while the contract runs: an indexed write changes its content at the key.\<close>

locale map_member =
  fixes on_map :: "(('k, 'v) safe_map, unit) action \<Rightarrow> ('t, unit) action"
    and dflt :: 'v
    and run :: "'t \<Rightarrow> bool"
    and content :: "'t \<Rightarrow> 'k \<rightharpoonup> 'v"
  assumes index_write: "run t \<Longrightarrow> f (case content t k of None \<Rightarrow> dflt | Some x \<Rightarrow> x) = Inr y \<Longrightarrow>
    \<exists>t1. on_map (sm_index_modify dflt k f) t = (t1, Inr ()) \<and> run t1 \<and> content t1 = (content t)(k \<mapsto> y)"
begin

lemma load_loop:
  assumes "run t" and "distinct (map key es)" and "\<forall>e\<in>set es. content t (key e) = None"
    and "\<forall>e\<in>set es. body e = on_map (sm_index_modify dflt (key e) (f e)) \<and> f e dflt = Inr (val e)"
  shows "\<exists>t1. forS body es t = (t1, Inr ()) \<and> run t1 \<and> content t1 = content t ++ map_of (map (\<lambda>e. (key e, val e)) es)"
  using assms
proof (induction es arbitrary: t)
  case (Cons e es)
  then obtain t1 where t1: "body e t = (t1, Inr ())" "run t1" "content t1 = (content t)(key e \<mapsto> val e)"
    using index_write [of t "f e" "key e" "val e"] by auto
  have k: "key e \<notin> key ` set es" using Cons.prems(2) by simp
  then have "\<forall>e'\<in>set es. content t1 (key e') = None" using Cons.prems(3) t1(3) by (auto simp: image_iff)
  then obtain t2 where "forS body es t1 = (t2, Inr ())" "run t2" "content t2 = content t1 ++ map_of (map (\<lambda>e. (key e, val e)) es)"
    using Cons.IH [OF t1(2)] Cons.prems(2,4) by auto
  moreover have "map_of (map (\<lambda>e. (key e, val e)) es) (key e) = None" using k by (force simp: map_of_eq_None_iff)
  ultimately show ?case
    using t1 by (intro exI [of _ t2]) (auto simp: bindS_Inr map_add_def fun_eq_iff split: option.split)
qed (simp add: liftS_def)

end

interpretation balances_member: map_member on_balances 0 "\<lambda>t. token_running u t \<and> tok_allowed t = al" "\<lambda>t. sm_lookup (tok_balances t)"
  for u al
proof
  fix t and f :: "uint256 \<Rightarrow> uint256 result" and k y
  assume r: "token_running u t \<and> tok_allowed t = al" and f: "f (case sm_lookup (tok_balances t) k of None \<Rightarrow> 0 | Some x \<Rightarrow> x) = Inr y"
  have "inner_at (sm_lookup (tok_balances t)) k = (case sm_lookup (tok_balances t) k of None \<Rightarrow> 0 | Some x \<Rightarrow> x)"
    by (simp add: inner_at_def index_default_def split: option.split)
  with f have "f (inner_at (sm_lookup (tok_balances t)) k) = Inr y" by simp
  then show "\<exists>t1. on_balances (sm_index_modify 0 k f) t = (t1, Inr ()) \<and> (token_running u t1 \<and> tok_allowed t1 = al)
      \<and> sm_lookup (tok_balances t1) = (sm_lookup (tok_balances t))(k \<mapsto> y)"
    using on_balances_step [of u t k f] r by (metis (no_types, lifting) map_sum.simps(2))
qed

interpretation allowed_member: map_member on_allowed Map.empty "\<lambda>t. token_running u t \<and> tok_balances t = bl" "\<lambda>t. sm_lookup (tok_allowed t)"
  for u bl
proof
  fix t and f :: "(bytes \<rightharpoonup> uint256) \<Rightarrow> (bytes \<rightharpoonup> uint256) result" and k y
  assume r: "token_running u t \<and> tok_balances t = bl" and f: "f (case sm_lookup (tok_allowed t) k of None \<Rightarrow> Map.empty | Some x \<Rightarrow> x) = Inr y"
  then show "\<exists>t1. on_allowed (sm_index_modify Map.empty k f) t = (t1, Inr ()) \<and> (token_running u t1 \<and> tok_balances t1 = bl)
      \<and> sm_lookup (tok_allowed t1) = (sm_lookup (tok_allowed t))(k \<mapsto> y)"
    using on_allowed_step [of u t k f] by (metis (no_types, lifting) map_sum.simps(2))
qed

subsection \<open>The loading constructor of a token\<close>

text \<open>Variables that were used before the loops.\<close>

definition with_used :: "member list \<Rightarrow> token \<Rightarrow> token" where
  "with_used pre t = t\<lparr>dc_used := pre @ dc_used t\<rparr>"

definition used_blind :: "(token, 'r) action \<Rightarrow> bool" where
  "used_blind m \<longleftrightarrow> (\<forall>pre t. m (with_used pre t) = apfst (with_used pre) (m t))"

lemma used_blind_bindS:
  assumes "used_blind m" and "\<And>x. used_blind (k x)"
  shows "used_blind (bindS m k)"
  unfolding used_blind_def
proof (intro allI)
  fix pre t
  obtain t1 r where m: "m t = (t1, r)" by fastforce
  then have "m (with_used pre t) = (with_used pre t1, r)" using assms(1) by (simp add: used_blind_def)
  then show "bindS m k (with_used pre t) = apfst (with_used pre) (bindS m k t)"
    using assms(2) m by (cases r) (simp_all add: bindS_def used_blind_def)
qed

lemma used_blind_base: "used_blind (liftS r)" "used_blind (on_balances f)" "used_blind (on_allowed g)"
  by (auto simp: used_blind_def with_used_def liftS_def on_balances_def on_allowed_def note_use_def split: prod.split)

lemma used_blind_forS: "(\<And>e. used_blind (m e)) \<Longrightarrow> used_blind (forS m es)"
  by (induction es) (simp_all add: used_blind_bindS used_blind_base)

lemma used_blind_loads: "used_blind (load_balance e)" "used_blind (load_nested on_allowed e)"
  unfolding load_balance_def load_nested_def by (intro used_blind_bindS used_blind_base)+

text \<open>The four scalar members after their assignment and commit.\<close>

definition scalars :: "bytes \<Rightarrow> bytes \<Rightarrow> uint8 \<Rightarrow> uint256 \<Rightarrow> bool \<Rightarrow> token \<Rightarrow> token" where
  "scalars n s d supply c t =
     (let str = (\<lambda>x. \<lparr>sv_value = (if c then x else []), sv_ptr = Some x, sv_owner = True, sv_registered = \<not> c\<rparr>) in
      t\<lparr>tok_name := str n, tok_symbol := str s,
        tok_decimals := (if c then \<lparr>sv_value = d, sv_ptr = None, sv_owner = True, sv_registered = False\<rparr>
                         else \<lparr>sv_value = 0, sv_ptr = Some d, sv_owner = True, sv_registered = True\<rparr>),
        tok_totalSupply := (if c then \<lparr>sv_value = supply, sv_ptr = None, sv_owner = True, sv_registered = False\<rparr>
                            else \<lparr>sv_value = 0, sv_ptr = Some supply, sv_owner = True, sv_registered = True\<rparr>)\<rparr>)"

abbreviation scalar_members :: "member list" where
  "scalar_members \<equiv> [V_name, V_symbol, V_decimals, V_totalSupply]"

lemma scalars_assigned:
  "bindS (on_name (SafeString_assign n)) (\<lambda>_. bindS (on_symbol (SafeString_assign s)) (\<lambda>_.
   bindS (on_decimals (SafeUint_assign d)) (\<lambda>_. bindS (on_totalSupply (SafeUint_assign supply)) k))) (token_of_base b) = k () (with_used scalar_members (scalars n s d supply False (token_of_base b)))"
  unfolding SafeString_assign_def SafeUint_assign_def
  by (simp add: bindS_def on_member_defs token_of_base_def BaseContract.defs DynamicContract.defs token.defs liftS_def
      sv_modify_def sv_markAsUsed_def sv_registers_def sv_check_def sv_get_def SafeString_owned_def SafeUint_owned_def
      scalars_def with_used_def)

lemma update_member_used: "update_member c v (t\<lparr>dc_used := x\<rparr>) = (update_member c v t)\<lparr>dc_used := x\<rparr>"
  by (cases v) simp_all

lemma fold_update_used: "fold (update_member c) us (t\<lparr>dc_used := x\<rparr>) = (fold (update_member c) us t)\<lparr>dc_used := x\<rparr>"
  by (induction us arbitrary: t) (simp_all add: update_member_used)

lemma scalars_frame:
  assumes "token_frame t = token_frame (scalars n s d supply False t0)"
  shows "fold (update_member True) scalar_members t = scalars n s d supply True t"
    and "token_frame (scalars n s d supply True t) = token_frame (scalars n s d supply True t0)"
proof -
  have "tok_name t = tok_name (token_frame t)" "tok_symbol t = tok_symbol (token_frame t)" "tok_decimals t = tok_decimals (token_frame t)"
    "tok_totalSupply t = tok_totalSupply (token_frame t)" by (simp_all add: token_frame_def)
  then have f: "tok_name t = tok_name (scalars n s d supply False t0)" "tok_symbol t = tok_symbol (scalars n s d supply False t0)"
    "tok_decimals t = tok_decimals (scalars n s d supply False t0)" "tok_totalSupply t = tok_totalSupply (scalars n s d supply False t0)"
    unfolding assms by (simp_all add: token_frame_def)
  show "fold (update_member True) scalar_members t = scalars n s d supply True t"
    by (simp add: f, simp add: scalars_def Let_def SafeString_commit_def sv_commit_def sv_check_def sv_get_def)
  have "token_frame (scalars n s d supply True u) = scalars n s d supply True (token_frame u)" for u
    by (simp add: scalars_def token_frame_def Let_def)
  moreover have "scalars n s d supply True (token_frame (scalars n s d supply False t0)) = scalars n s d supply True (token_frame t0)"
    by (simp add: scalars_def token_frame_def Let_def)
  ultimately show "token_frame (scalars n s d supply True t) = token_frame (scalars n s d supply True t0)" using assms by simp
qed

lemma load_update:
  assumes "token_running (scalars n s d supply False t0) t"
  shows "token_updateState True (with_used scalar_members t) = token_updateState True (scalars n s d supply True t)"
    and "token_running (scalars n s d supply True t0) (scalars n s d supply True t)"
proof -
  have fr: "token_frame t = token_frame (scalars n s d supply False t0)" using assms by (simp add: token_running_def)
  have "fold (update_member True) (scalar_members @ dc_used t) (with_used scalar_members t)
      = (fold (update_member True) (dc_used t) (scalars n s d supply True t))\<lparr>dc_used := scalar_members @ dc_used t\<rparr>"
    by (simp only: with_used_def fold_append comp_def fold_update_used scalars_frame(1) [OF fr])
  then show "token_updateState True (with_used scalar_members t) = token_updateState True (scalars n s d supply True t)"
    by (simp add: token_updateState_def with_used_def scalars_def Let_def)
  show "token_running (scalars n s d supply True t0) (scalars n s d supply True t)"
    using assms scalars_frame(2) [OF fr] by (simp add: token_running_def scalars_def Let_def)
qed

lemma load_balance_eq:
  assumes "length (de_key e) = 20" and "fromBigEndian256 (de_value e) = Inr v"
  shows "load_balance e = on_balances (sm_index_modify 0 (de_key e) (\<lambda>_. Inr v))"
  using assms by (simp add: load_balance_def Address_bytes_def)

lemma load_nested_eq:
  assumes "length (de_key e) = 20" and "length b = 20" and "de_value e = b @ x" and "fromBigEndian256 x = Inr v"
  shows "load_nested on_map e = on_map (sm_index_modify Map.empty (de_key e) (inner_modify b (\<lambda>_. Inr v)))"
  using assms by (simp add: load_nested_def Address_bytes_def substr_def)

lemma token_of_base_simps:
  "sm_lookup (tok_balances (token_of_base b)) = Map.empty" "sm_lookup (tok_allowed (token_of_base b)) = Map.empty"
  "token_settled (token_of_base b)" "BaseContract.truncate (token_of_base b) = b"
  by (simp_all add: token_of_base_def BaseContract.defs DynamicContract.defs token.defs sm_lookup_owned token_settled_def map_tracked_owned)

lemma loaded_members:
  assumes "token_frame u = token_frame (scalars n s d supply True (token_of_base b))"
  shows "BaseContract.truncate u = b \<and> sv_get (tok_name u) = n \<and> sv_get (tok_symbol u) = s \<and> sv_get (tok_decimals u) = d
    \<and> sv_get (tok_totalSupply u) = supply"
proof -
  have f: "BaseContract.truncate u = BaseContract.truncate (token_frame u)" "tok_name u = tok_name (token_frame u)"
    "tok_symbol u = tok_symbol (token_frame u)" "tok_decimals u = tok_decimals (token_frame u)" "tok_totalSupply u = tok_totalSupply (token_frame u)"
    by (simp_all add: token_frame_def BaseContract.truncate_def)
  show ?thesis
    unfolding f assms using token_of_base_simps(4) [of b]
    by (simp add: token_frame_def scalars_def Let_def sv_get_def sv_check_def BaseContract.truncate_def)
qed

lemma ERC20_load_eq:
  fixes R :: "'s rocksdb"
  assumes base: "BaseContract_load R db a = Inr b"
    and gets: "DB_get R db (bytes_of_string ''_name'') (contract_prefix a) = n" "DB_get R db (bytes_of_string ''_symbol'') (contract_prefix a) = s"
      "bytesToUint8 (DB_get R db (bytes_of_string ''_decimals'') (contract_prefix a)) = Inr d"
      "bytesToUint256 (DB_get R db (bytes_of_string ''_totalSupply'') (contract_prefix a)) = Inr supply"
    and es: "DB_getBatch R db (member_prefix a ''_balances'') [] = es" "distinct (map de_key es)"
      "\<And>e. e \<in> set es \<Longrightarrow> length (de_key e) = 20 \<and> fromBigEndian256 (de_value e) = Inr (val e)"
    and fs: "DB_getBatch R db (member_prefix a ''_allowed'') [] = fs" "distinct (map de_key fs)"
      "\<And>e. e \<in> set fs \<Longrightarrow> length (de_key e) = 20 \<and> length (sp e) = 20 \<and> (\<exists>x. de_value e = sp e @ x \<and> fromBigEndian256 x = Inr (am e))"
  shows "\<exists>t. ERC20_load R db a = Inr t \<and> token_settled t \<and> BaseContract.truncate t = b
    \<and> sv_get (tok_name t) = n \<and> sv_get (tok_symbol t) = s \<and> sv_get (tok_decimals t) = d \<and> sv_get (tok_totalSupply t) = supply
    \<and> sm_lookup (tok_balances t) = map_of (map (\<lambda>e. (de_key e, val e)) es)
    \<and> sm_lookup (tok_allowed t) = map_of (map (\<lambda>e. (de_key e, [sp e \<mapsto> am e])) fs)"
proof -
  let ?start = "scalars n s d supply False (token_of_base b)"
  have lk: "sm_lookup (tok_balances (scalars n s d supply c t)) = sm_lookup (tok_balances t)"
    "sm_lookup (tok_allowed (scalars n s d supply c t)) = sm_lookup (tok_allowed t)" for c t by (simp_all add: scalars_def Let_def)
  have run0: "token_running ?start ?start"
    using token_of_base_simps(3) [of b] by (intro settled_token_running) (simp add: token_settled_def scalars_def Let_def)
  have "\<forall>e\<in>set es. load_balance e = on_balances (sm_index_modify 0 (de_key e) (\<lambda>_. Inr (val e))) \<and> Inr (val e) = Inr (val e)"
    using es(3) load_balance_eq by blast
  then obtain t1 where t1: "forS load_balance es ?start = (t1, Inr ())" "token_running ?start t1" "tok_allowed t1 = tok_allowed ?start"
    "sm_lookup (tok_balances t1) = map_of (map (\<lambda>e. (de_key e, val e)) es)"
    using balances_member.load_loop [where u = ?start and al = "tok_allowed ?start" and t = ?start and key = de_key and es = es and body = load_balance
        and f = "\<lambda>e _. Inr (val e)" and val = val] run0 es(2)
    by (auto simp: lk token_of_base_simps)
  have "\<forall>e\<in>set fs. load_nested on_allowed e = on_allowed (sm_index_modify Map.empty (de_key e) (inner_modify (sp e) (\<lambda>_. Inr (am e))))
      \<and> inner_modify (sp e) (\<lambda>_. Inr (am e)) Map.empty = Inr [sp e \<mapsto> am e]"
  proof
    fix e assume "e \<in> set fs"
    from fs(3) [OF this] obtain x where x: "length (de_key e) = 20" "length (sp e) = 20" "de_value e = sp e @ x" "fromBigEndian256 x = Inr (am e)"
      by blast
    show "load_nested on_allowed e = on_allowed (sm_index_modify Map.empty (de_key e) (inner_modify (sp e) (\<lambda>_. Inr (am e))))
      \<and> inner_modify (sp e) (\<lambda>_. Inr (am e)) Map.empty = Inr [sp e \<mapsto> am e]"
      using load_nested_eq [OF x] by (simp add: inner_modify_def)
  qed
  then obtain t2 where t2: "forS (load_nested on_allowed) fs t1 = (t2, Inr ())" "token_running ?start t2" "tok_balances t2 = tok_balances t1"
    "sm_lookup (tok_allowed t2) = map_of (map (\<lambda>e. (de_key e, [sp e \<mapsto> am e])) fs)"
    using allowed_member.load_loop [where u = ?start and bl = "tok_balances t1" and t = t1 and key = de_key and es = fs
        and body = "load_nested on_allowed" and f = "\<lambda>e. inner_modify (sp e) (\<lambda>_. Inr (am e))" and val = "\<lambda>e. [sp e \<mapsto> am e]"] t1(2,3) fs(2)
    by (auto simp: lk token_of_base_simps)
  let ?new = "token_updateState True (scalars n s d supply True t2)"
  have "used_blind (forS load_balance es)" "used_blind (forS (load_nested on_allowed) fs)"
    by (intro used_blind_forS used_blind_loads)+
  then have "bindS (forS load_balance es) (\<lambda>_. forS (load_nested on_allowed) fs) (with_used scalar_members ?start) = (with_used scalar_members t2, Inr ())"
    using t1(1) t2(1) by (simp add: used_blind_def bindS_def)
  then have "ERC20_load R db a = Inr (token_updateState True (with_used scalar_members t2))"
    using base gets es(1) fs(1) by (simp add: ERC20_load_def Let_def scalars_assigned)
  then have l: "ERC20_load R db a = Inr ?new" by (simp only: load_update(1) [OF t2(2)])
  note e = token_updateState_end [OF load_update(2) [OF t2(2)], where c = True]
  from l e(1,3,4) loaded_members [OF e(2)] t1(4) t2(3,4) show ?thesis by (intro exI [of _ ?new]) (simp add: lk)
qed

subsection \<open>A token survives a restart\<close>

definition base_stored :: "store \<Rightarrow> 'a BaseContract_scheme \<Rightarrow> bool" where
  "base_stored st c \<longleftrightarrow>
     (let p = contract_prefix (contractAddress c) in
      st (p @ bytes_of_string ''contractName'') = Some (contractName c) \<and> st (p @ bytes_of_string ''contractCreator'') = Some (contractCreator c)
      \<and> st (p @ bytes_of_string ''contractChainId'') = Some (uint64ToBytes (contractChainId c)) \<and> length (contractCreator c) = 20)"

definition base_of :: "'a BaseContract_scheme \<Rightarrow> BaseContract" where
  "base_of c = BaseContract_new (contractName c) (contractAddress c) (contractCreator c) (contractChainId c)"

lemma BaseContract_load_stored:
  assumes "rocks_ok R A" and "base_stored (A db) c"
  shows "BaseContract_load R db (contractAddress c) = Inr (base_of c)"
  using assms by (simp add: BaseContract_load_def base_stored_def base_of_def Let_def DB_get_eq Address_bytes_def codec64.dec_enc)

text \<open>A map of addresses can be stored when all keys are addresses and the database has no entry for a key that
  the map no longer has.\<close>

definition flat_storable :: "store \<Rightarrow> bytes \<Rightarrow> (bytes \<rightharpoonup> uint256) \<Rightarrow> bool" where
  "flat_storable st pfx m \<longleftrightarrow> finite (dom m) \<and> (\<forall>k\<in>dom m. length k = 20) \<and> (\<forall>k. st (pfx @ k) \<noteq> None \<longrightarrow> k \<in> dom m)"

definition nested_storable :: "store \<Rightarrow> bytes \<Rightarrow> (bytes \<rightharpoonup> (bytes \<rightharpoonup> uint256)) \<Rightarrow> bool" where
  "nested_storable st pfx m \<longleftrightarrow> finite (dom m) \<and> (\<forall>k\<in>dom m. length k = 20)
     \<and> (\<forall>inner\<in>ran m. finite (dom inner) \<and> (\<forall>b\<in>dom inner. length b = 20))
     \<and> (\<forall>k. st (pfx @ k) \<noteq> None \<longrightarrow> (\<exists>inner. m k = Some inner \<and> inner \<noteq> Map.empty))"

lemma map_of_keys: "map_of (map (\<lambda>e. (f e, g (f e))) es) k = (if k \<in> f ` set es then Some (g k) else None)"
  by (induction es) auto

lemma stored_flat_entries:
  assumes "rocks_ok R A" and "flat_storable st pfx m"
    and "\<And>k. A db (pfx @ k) = (case m k of Some v \<Rightarrow> Some (uintToBytes (unat v)) | None \<Rightarrow> st (pfx @ k))"
  defines "es \<equiv> DB_getBatch R db pfx []"
  shows "distinct (map de_key es)" and "map_of (map (\<lambda>e. (de_key e, the (m (de_key e)))) es) = m"
    and "e \<in> set es \<Longrightarrow> length (de_key e) = 20 \<and> fromBigEndian256 (de_value e) = Inr (the (m (de_key e)))"
proof -
  have n: "st (pfx @ k) = None" if "m k = None" for k using assms(2) that by (auto simp: flat_storable_def domIff)
  have e: "e \<in> set es \<longleftrightarrow> (\<exists>v. m (de_key e) = Some v \<and> de_value e = uintToBytes (unat v))" for e
    using DB_getBatch_all(1) [OF assms(1), of e db pfx] n [of "de_key e"] by (auto simp: es_def assms(3) split: option.splits)
  show "distinct (map de_key es)" unfolding es_def by (rule DB_getBatch_all(2) [OF assms(1)])
  show "e \<in> set es \<Longrightarrow> length (de_key e) = 20 \<and> fromBigEndian256 (de_value e) = Inr (the (m (de_key e)))"
    using assms(2) by (auto simp: e flat_storable_def fromBigEndian256_uintToBytes)
  have "k \<in> de_key ` set es" if "m k = Some v" for k v
    by (rule image_eqI [of _ _ "\<lparr>de_key = k, de_value = uintToBytes (unat v)\<rparr>"]) (simp_all add: e that)
  then have "k \<in> de_key ` set es \<longleftrightarrow> m k \<noteq> None" for k by (auto simp: e)
  then show "map_of (map (\<lambda>e. (de_key e, the (m (de_key e)))) es) = m"
    using map_of_keys [of de_key "\<lambda>k. the (m k)" es] by (auto simp: fun_eq_iff)
qed

lemma last_entries_Some:
  assumes "iteration_ok it" and "nested_storable st pfx m" and "last_entries (it_flat it) m k = Some (b, v)"
  shows "length k = 20" and "length b = 20"
proof -
  from assms(3) obtain inner where i: "m k = Some inner" "it_flat it inner \<noteq> []" "last (it_flat it inner) = (b, v)"
    by (auto simp: last_entries_def split: option.splits if_splits)
  then have inner: "inner \<in> ran m" by (auto simp: ran_def)
  then have "map_of (it_flat it inner) = inner" using assms(1,2) by (simp add: iteration_ok_def nested_storable_def enumerates_def)
  moreover have "(b, v) \<in> set (it_flat it inner)" using i(2,3) last_in_set by metis
  ultimately have "b \<in> dom inner" by (metis dom_map_of_conv_image_fst fst_conv image_eqI)
  then show "length b = 20" using assms(2) inner by (simp add: nested_storable_def)
  show "length k = 20" using assms(2) i(1) by (auto simp: nested_storable_def)
qed

lemma stored_nested_entries:
  assumes "rocks_ok R A" and "iteration_ok it" and "nested_storable st pfx m"
    and "\<And>k. A db (pfx @ k) = (case last_entries (it_flat it) m k of Some (b, v) \<Rightarrow> Some (b @ uintToBytes (unat v)) | None \<Rightarrow> st (pfx @ k))"
  defines "es \<equiv> DB_getBatch R db pfx []" and "le \<equiv> \<lambda>k. the (last_entries (it_flat it) m k)"
  shows "distinct (map de_key es)"
    and "map_of (map (\<lambda>e. (de_key e, [fst (le (de_key e)) \<mapsto> snd (le (de_key e))])) es) = (\<lambda>k. map_option (\<lambda>(b, v). [b \<mapsto> v]) (last_entries (it_flat it) m k))"
    and "e \<in> set es \<Longrightarrow> length (de_key e) = 20 \<and> length (fst (le (de_key e))) = 20
      \<and> (\<exists>x. de_value e = fst (le (de_key e)) @ x \<and> fromBigEndian256 x = Inr (snd (le (de_key e))))"
proof -
  have n: "st (pfx @ k) = None" if "last_entries (it_flat it) m k = None" for k
  proof (rule ccontr)
    assume "st (pfx @ k) \<noteq> None"
    then obtain inner where i: "m k = Some inner" "inner \<noteq> Map.empty" using assms(3) by (auto simp: nested_storable_def)
    then have "inner \<in> ran m" by (auto simp: ran_def)
    then have "map_of (it_flat it inner) = inner" using assms(2,3) by (simp add: iteration_ok_def nested_storable_def enumerates_def)
    with i that show False by (auto simp: last_entries_def split: if_splits)
  qed
  have e: "e \<in> set es \<longleftrightarrow> (\<exists>b v. last_entries (it_flat it) m (de_key e) = Some (b, v) \<and> de_value e = b @ uintToBytes (unat v))" for e
    using DB_getBatch_all(1) [OF assms(1), of e db pfx] n [of "de_key e"] by (auto simp: es_def assms(4) split: option.splits)
  show "distinct (map de_key es)" unfolding es_def by (rule DB_getBatch_all(2) [OF assms(1)])
  show "e \<in> set es \<Longrightarrow> length (de_key e) = 20 \<and> length (fst (le (de_key e))) = 20
      \<and> (\<exists>x. de_value e = fst (le (de_key e)) @ x \<and> fromBigEndian256 x = Inr (snd (le (de_key e))))"
    using last_entries_Some [OF assms(2,3)] by (auto simp: e le_def fromBigEndian256_uintToBytes)
  have "k \<in> de_key ` set es" if "last_entries (it_flat it) m k = Some (b, v)" for k b v
    by (rule image_eqI [of _ _ "\<lparr>de_key = k, de_value = b @ uintToBytes (unat v)\<rparr>"]) (simp_all add: e that)
  then have "k \<in> de_key ` set es \<longleftrightarrow> last_entries (it_flat it) m k \<noteq> None" for k by (auto simp: e)
  then show "map_of (map (\<lambda>e. (de_key e, [fst (le (de_key e)) \<mapsto> snd (le (de_key e))])) es) = (\<lambda>k. map_option (\<lambda>(b, v). [b \<mapsto> v]) (last_entries (it_flat it) m k))"
    using map_of_keys [of de_key "\<lambda>k. [fst (le k) \<mapsto> snd (le k)]" es]
    by (simp add: fun_eq_iff le_def case_prod_unfold split: option.split) fastforce
qed

definition token_storable :: "store \<Rightarrow> token \<Rightarrow> bool" where
  "token_storable st t \<longleftrightarrow> token_settled t \<and> base_stored st t
     \<and> flat_storable st (member_prefix (contractAddress t) ''_balances'') (sm_lookup (tok_balances t))
     \<and> nested_storable st (member_prefix (contractAddress t) ''_allowed'') (sm_lookup (tok_allowed t))"

text \<open>What remains of a nested map: one entry per outer key.\<close>

definition kept_entries :: "iteration \<Rightarrow> (bytes \<rightharpoonup> (bytes \<rightharpoonup> uint256)) \<Rightarrow> bytes \<rightharpoonup> (bytes \<rightharpoonup> uint256)" where
  "kept_entries it m = (\<lambda>k. map_option (\<lambda>(b, v). [b \<mapsto> v]) (last_entries (it_flat it) m k))"

definition token_reloaded :: "iteration \<Rightarrow> token \<Rightarrow> token \<Rightarrow> bool" where
  "token_reloaded it t t' \<longleftrightarrow> token_settled t' \<and> BaseContract.truncate t' = base_of t
     \<and> sv_get (tok_name t') = sv_get (tok_name t) \<and> sv_get (tok_symbol t') = sv_get (tok_symbol t)
     \<and> sv_get (tok_decimals t') = sv_get (tok_decimals t) \<and> sv_get (tok_totalSupply t') = sv_get (tok_totalSupply t)
     \<and> sm_lookup (tok_balances t') = sm_lookup (tok_balances t)
     \<and> sm_lookup (tok_allowed t') = kept_entries it (sm_lookup (tok_allowed t))"

lemma token_reload:
  assumes "rocks_ok R A" and "iteration_ok it" and st: "token_storable st t"
    and db: "\<And>k. A db (contract_prefix (contractAddress t) @ k) = token_saved it t st (contract_prefix (contractAddress t) @ k)"
  shows "\<exists>t'. ERC20_load R db (contractAddress t) = Inr t' \<and> token_reloaded it t t'"
proof -
  let ?a = "contractAddress t" and ?B = "sm_lookup (tok_balances t)" and ?L = "sm_lookup (tok_allowed t)"
  let ?le = "\<lambda>k. the (last_entries (it_flat it) ?L k)"
  have set: "sm_map (tok_balances t) = ?B" "sm_map (tok_allowed t) = ?L" using st by (simp_all add: token_storable_def token_settled_def map_tracked_def)
  have flat: "flat_storable st (member_prefix ?a ''_balances'') ?B" and nest: "nested_storable st (member_prefix ?a ''_allowed'') ?L"
    and base: "base_stored st t" using st by (simp_all add: token_storable_def)
  have en: "enumerates (it_flat it ?B) ?B" "enumerates (it_nested it ?L) ?L"
    using assms(2) flat nest by (simp_all add: iteration_ok_def flat_storable_def nested_storable_def)
  note maps = token_saved_maps [of it t st, unfolded set, OF en]
  have mem: "A db (member_prefix ?a m @ k) = token_saved it t st (member_prefix ?a m @ k)" for m k
    using db [of "bytes_of_string m @ k"] by (simp add: member_prefix_def)
  note es = stored_flat_entries [OF assms(1) flat, of db, unfolded mem, OF maps(1)]
  note fs = stored_nested_entries [OF assms(1,2) nest, of db, unfolded mem, OF maps(2)]
  have "base_stored (A db) t" using base by (simp add: base_stored_def Let_def db token_saved_gets)
  then have "BaseContract_load R db ?a = Inr (base_of t)" by (rule BaseContract_load_stored [OF assms(1)])
  from ERC20_load_eq [OF this _ _ _ _ refl es(1) es(3) refl fs(1) fs(3), of "sv_get (tok_name t)" "sv_get (tok_symbol t)" "sv_get (tok_decimals t)" "sv_get (tok_totalSupply t)"]
  show ?thesis
    by (simp add: DB_get_eq [OF assms(1)] db token_saved_gets codec8.dec_enc codec256.dec_enc es(2) fs(2) token_reloaded_def kept_entries_def)
qed

end
