(* ===== verification/Restart.thy ===== *)
theory Restart
  imports Contract_Persist
begin

text \<open>
  Stopping and starting a node: the destructor of the contract manager saves every contract, the constructor
  loads them again. Every contract comes back with its name, members and balances; of the allowances of an
  owner, and of the users of a token in a wrapper, only the one that was written last comes back.
\<close>

subsection \<open>The wrapper\<close>

definition wrapper_running :: "wrapper \<Rightarrow> wrapper \<Rightarrow> bool" where
  "wrapper_running w0 w \<longleftrightarrow> (dc_used w = [] \<or> dc_used w = [V_tokensAndBalances])
     \<and> map_tracked (dc_used w \<noteq> []) (sm_lookup (tokensAndBalances w0)) (tokensAndBalances w)
     \<and> BaseContract.truncate w = BaseContract.truncate w0"

definition wrapper_settled :: "wrapper \<Rightarrow> bool" where
  "wrapper_settled w \<longleftrightarrow> dc_used w = [] \<and> map_settled (tokensAndBalances w)"

interpretation tokens_member: map_member on_tokens Map.empty "wrapper_running u" "\<lambda>w. sm_lookup (tokensAndBalances w)" for u
proof
  fix t and f :: "(bytes \<rightharpoonup> uint256) \<Rightarrow> (bytes \<rightharpoonup> uint256) result" and k y
  assume r: "wrapper_running u t" and f: "f (case sm_lookup (tokensAndBalances t) k of None \<Rightarrow> Map.empty | Some x \<Rightarrow> x) = Inr y"
  let ?m = "tokensAndBalances t"
  let ?new = "note_use V_tokensAndBalances (sm_registers ?m) (t\<lparr>tokensAndBalances := fst (sm_index_modify Map.empty k f ?m)\<rparr>)"
  have "on_tokens (sm_index_modify Map.empty k f) t = (?new, Inr ())"
    using sm_index_modify_simps(1) [of Map.empty k f ?m] f by (simp add: on_tokens_def case_prod_unfold)
  moreover have "map_tracked True (sm_lookup (tokensAndBalances u)) (fst (sm_index_modify Map.empty k f ?m)) \<and> (sm_registers ?m \<longleftrightarrow> dc_used t = [])"
    using r map_tracked_modify [of "dc_used t \<noteq> []" "sm_lookup (tokensAndBalances u)" ?m Map.empty k f] by (simp add: wrapper_running_def)
  then have "wrapper_running u ?new" using r by (auto simp: wrapper_running_def note_use_def BaseContract.truncate_def)
  moreover have "sm_lookup (tokensAndBalances ?new) = (sm_lookup ?m)(k \<mapsto> y)" using f by (simp add: note_use_def sm_index_modify_simps(2))
  ultimately show "\<exists>t1. on_tokens (sm_index_modify Map.empty k f) t = (t1, Inr ()) \<and> wrapper_running u t1
      \<and> sm_lookup (tokensAndBalances t1) = (sm_lookup ?m)(k \<mapsto> y)" by blast
qed

lemma wrapper_update:
  assumes "wrapper_running w0 w"
  shows "wrapper_settled (wrapper_updateState True w) \<and> sm_lookup (tokensAndBalances (wrapper_updateState True w)) = sm_lookup (tokensAndBalances w)
    \<and> BaseContract.truncate (wrapper_updateState True w) = BaseContract.truncate w0"
proof -
  have m: "map_tracked (dc_used w \<noteq> []) (sm_lookup (tokensAndBalances w0)) (tokensAndBalances w)" using assms by (simp add: wrapper_running_def)
  from map_tracked_end [OF m, of True] show ?thesis
    using assms by (auto simp: wrapper_running_def wrapper_settled_def wrapper_updateState_def BaseContract.truncate_def)
qed

definition wrapper_saved :: "iteration \<Rightarrow> wrapper \<Rightarrow> store \<Rightarrow> store" where
  "wrapper_saved it w st =
     batch_effect (nested_batch it (sm_map (tokensAndBalances w))) (member_prefix (contractAddress w) ''_tokensAndBalances'') st"

definition wrapper_storable :: "store \<Rightarrow> wrapper \<Rightarrow> bool" where
  "wrapper_storable st w \<longleftrightarrow> wrapper_settled w \<and> base_stored st w
     \<and> nested_storable st (member_prefix (contractAddress w) ''_tokensAndBalances'') (sm_lookup (tokensAndBalances w))"

definition wrapper_reloaded :: "iteration \<Rightarrow> wrapper \<Rightarrow> wrapper \<Rightarrow> bool" where
  "wrapper_reloaded it w w' \<longleftrightarrow> wrapper_settled w' \<and> BaseContract.truncate w' = base_of w
     \<and> sm_lookup (tokensAndBalances w') = kept_entries it (sm_lookup (tokensAndBalances w))"

lemma wrapper_reload:
  assumes "rocks_ok R A" and "iteration_ok it" and st: "wrapper_storable st w"
    and db: "\<And>k. A db (contract_prefix (contractAddress w) @ k) = wrapper_saved it w st (contract_prefix (contractAddress w) @ k)"
  shows "\<exists>w'. ERC20Wrapper_load R db (contractAddress w) = Inr w' \<and> wrapper_reloaded it w w'"
proof -
  let ?a = "contractAddress w" and ?L = "sm_lookup (tokensAndBalances w)" and ?p = "member_prefix (contractAddress w) ''_tokensAndBalances''"
  let ?le = "\<lambda>k. the (last_entries (it_flat it) ?L k)"
  have set: "sm_map (tokensAndBalances w) = ?L" using st by (simp add: wrapper_storable_def wrapper_settled_def map_tracked_def)
  have nest: "nested_storable st ?p ?L" and base: "base_stored st w" using st by (simp_all add: wrapper_storable_def)
  have en: "enumerates (it_nested it ?L) ?L" using assms(2) nest by (simp add: iteration_ok_def nested_storable_def)
  have "A db (?p @ k) = wrapper_saved it w st (?p @ k)" for k using db [of "bytes_of_string ''_tokensAndBalances'' @ k"] by (simp add: member_prefix_def)
  then have mem: "A db (?p @ k) = (case last_entries (it_flat it) ?L k of Some (b, v) \<Rightarrow> Some (b @ uintToBytes (unat v)) | None \<Rightarrow> st (?p @ k))" for k
    using stored_nested_key [OF en] by (simp add: wrapper_saved_def set)
  note fs = stored_nested_entries [OF assms(1,2) nest, of db, OF mem]
  have "base_stored (A db) w"
    using base by (simp add: base_stored_def Let_def db wrapper_saved_def batch_effect_outside member_key member_name_simps)
  then have load: "BaseContract_load R db ?a = Inr (base_of w)" by (rule BaseContract_load_stored [OF assms(1)])
  let ?w0 = "wrapper_of_base (base_of w)"
  have w0: "sm_lookup (tokensAndBalances ?w0) = Map.empty" "wrapper_running ?w0 ?w0" "BaseContract.truncate ?w0 = base_of w"
    by (simp_all add: wrapper_of_base_def BaseContract.defs DynamicContract.defs wrapper.defs sm_lookup_owned wrapper_running_def map_tracked_owned)
  let ?fs = "DB_getBatch R db ?p []"
  have "\<forall>e\<in>set ?fs. load_nested on_tokens e = on_tokens (sm_index_modify Map.empty (de_key e) (inner_modify (fst (?le (de_key e))) (\<lambda>_. Inr (snd (?le (de_key e))))))
      \<and> inner_modify (fst (?le (de_key e))) (\<lambda>_. Inr (snd (?le (de_key e)))) Map.empty = Inr [fst (?le (de_key e)) \<mapsto> snd (?le (de_key e))]"
  proof
    fix e assume "e \<in> set ?fs"
    from fs(3) [OF this] obtain x where x: "length (de_key e) = 20" "length (fst (?le (de_key e))) = 20" "de_value e = fst (?le (de_key e)) @ x"
      "fromBigEndian256 x = Inr (snd (?le (de_key e)))" by blast
    show "load_nested on_tokens e = on_tokens (sm_index_modify Map.empty (de_key e) (inner_modify (fst (?le (de_key e))) (\<lambda>_. Inr (snd (?le (de_key e))))))
      \<and> inner_modify (fst (?le (de_key e))) (\<lambda>_. Inr (snd (?le (de_key e)))) Map.empty = Inr [fst (?le (de_key e)) \<mapsto> snd (?le (de_key e))]"
      using load_nested_eq [OF x] by (simp add: inner_modify_def)
  qed
  from tokens_member.load_loop [OF w0(2) fs(1) _ this] w0(1) fs(2) obtain w1 where
    w1: "forS (load_nested on_tokens) ?fs ?w0 = (w1, Inr ())" "wrapper_running ?w0 w1"
      "sm_lookup (tokensAndBalances w1) = kept_entries it ?L" by (auto simp: kept_entries_def)
  then show ?thesis
    using load wrapper_update [OF w1(2)] w0(3) by (simp add: ERC20Wrapper_load_def wrapper_reloaded_def)
qed

subsection \<open>All contracts\<close>

fun contract_saved :: "iteration \<Rightarrow> contract \<Rightarrow> store \<Rightarrow> store" where
  "contract_saved it (C_ERC20 t) st = token_saved it t st"
| "contract_saved it (C_NativeWrapper t) st = token_saved it t st"
| "contract_saved it (C_ERC20Wrapper w) st = wrapper_saved it w st"

text \<open>The name of a contract is the name of its class, and what it needs of the database is there.\<close>

fun contract_storable :: "store \<Rightarrow> contract \<Rightarrow> bool" where
  "contract_storable st (C_ERC20 t) \<longleftrightarrow> contractName t = bytes_of_string ''ERC20'' \<and> token_storable st t"
| "contract_storable st (C_NativeWrapper t) \<longleftrightarrow> contractName t = bytes_of_string ''NativeWrapper'' \<and> token_storable st t"
| "contract_storable st (C_ERC20Wrapper w) \<longleftrightarrow> contractName w = bytes_of_string ''ERC20Wrapper'' \<and> wrapper_storable st w"

fun contract_reloaded :: "iteration \<Rightarrow> contract \<Rightarrow> contract \<Rightarrow> bool" where
  "contract_reloaded it (C_ERC20 t) (C_ERC20 t') \<longleftrightarrow> token_reloaded it t t'"
| "contract_reloaded it (C_NativeWrapper t) (C_NativeWrapper t') \<longleftrightarrow> token_reloaded it t t'"
| "contract_reloaded it (C_ERC20Wrapper w) (C_ERC20Wrapper w') \<longleftrightarrow> wrapper_reloaded it w w'"
| "contract_reloaded it _ _ \<longleftrightarrow> False"

lemma contract_close_store:
  "rocks_ok R A \<Longrightarrow> writes_succeed R \<Longrightarrow> A (contract_close R it c db) = contract_saved it c (A db)"
  by (cases c) (simp_all add: NativeWrapper_close_def ERC20_close_store ERC20Wrapper_close_def wrapper_saved_def store_writes)

lemma truncate_simps [simp]:
  "contractAddress (BaseContract.truncate c) = contractAddress c" "contractName (BaseContract.truncate c) = contractName c"
  by (simp_all add: BaseContract.truncate_def)

lemma contract_saved_other:
  "\<not> starts_with key (contract_prefix (contractAddress (contract_base c))) \<Longrightarrow> contract_saved it c st key = st key"
proof (cases c)
  case (C_ERC20Wrapper w)
  assume "\<not> starts_with key (contract_prefix (contractAddress (contract_base c)))"
  then have "\<not> starts_with key (member_prefix (contractAddress w) ''_tokensAndBalances'')"
    by (auto simp: C_ERC20Wrapper starts_with_iff member_prefix_def)
  then show ?thesis by (simp add: C_ERC20Wrapper wrapper_saved_def batch_effect_outside)
qed (simp_all add: token_saved_other)

lemma batch_effect_pointwise: "st key = st' key \<Longrightarrow> batch_effect b pfx st key = batch_effect b pfx st' key"
  by (simp add: batch_effect_def map_add_def restrict_map_def split: option.split)

lemma contract_saved_pointwise: "st key = st' key \<Longrightarrow> contract_saved it c st key = contract_saved it c st' key"
  by (cases c) (auto simp: token_saved_def wrapper_saved_def Let_def intro!: batch_effect_pointwise)

lemma contract_prefix_key:
  "length a = length b \<Longrightarrow> starts_with (contract_prefix a @ k) (contract_prefix b) \<longleftrightarrow> a = b"
  by (auto simp: starts_with_iff contract_prefix_def)

lemma closes_store:
  assumes "rocks_ok R A" and "writes_succeed R" and "distinct (map fst cs)"
    and "\<forall>(a, c)\<in>set cs. length a = 20 \<and> contractAddress (contract_base c) = a" and "length a = 20"
  shows "A (fold (\<lambda>(a, c). contract_close R it c) cs db) (contract_prefix a @ k) =
      (case map_of cs a of Some c \<Rightarrow> contract_saved it c (A db) (contract_prefix a @ k) | None \<Rightarrow> A db (contract_prefix a @ k))"
  using assms(3,4)
proof (induction cs arbitrary: db)
  case (Cons x cs)
  obtain b c where x: "x = (b, c)" by fastforce
  have b: "length b = 20" "contractAddress (contract_base c) = b" using Cons.prems by (simp_all add: x)
  let ?db = "contract_close R it c db"
  have db: "A ?db = contract_saved it c (A db)" by (rule contract_close_store [OF assms(1,2)])
  have n: "map_of cs b = None" using Cons.prems by (simp add: x map_of_eq_None_iff)
  have other: "A ?db (contract_prefix a @ k) = A db (contract_prefix a @ k)" if "a \<noteq> b"
    using contract_saved_other [of "contract_prefix a @ k" c] contract_prefix_key [of a b k] that b assms(5) by (simp add: db)
  have "A (fold (\<lambda>(a, c). contract_close R it c) cs ?db) (contract_prefix a @ k) =
      (case map_of cs a of Some c \<Rightarrow> contract_saved it c (A ?db) (contract_prefix a @ k) | None \<Rightarrow> A ?db (contract_prefix a @ k))"
    using Cons.IH Cons.prems by simp
  then show ?case
    using n other contract_saved_pointwise [of "A ?db" "contract_prefix a @ k" "A db"]
    by (cases "a = b") (auto simp: x db split: option.split)
qed simp

lemma closes_manager:
  assumes "rocks_ok R A" and "writes_succeed R"
  shows "A (fold (\<lambda>(a, c). contract_close R it c) cs db) (DBPrefix_contractManager @ k) = A db (DBPrefix_contractManager @ k)"
proof (induction cs arbitrary: db)
  case (Cons x cs)
  obtain b c where x: "x = (b, c)" by fastforce
  have "\<not> starts_with (DBPrefix_contractManager @ k) (contract_prefix (contractAddress (contract_base c)))"
    by (auto simp: starts_with_iff contract_prefix_def DBPrefix_defs)
  then have "A (contract_close R it c db) (DBPrefix_contractManager @ k) = A db (DBPrefix_contractManager @ k)"
    by (simp add: contract_close_store [OF assms] contract_saved_other)
  then show ?case using Cons.IH by (simp add: x)
qed simp

lemma load_contracts:
  assumes "distinct (map de_key es @ map fst cs)"
    and "\<And>e cs. e \<in> set es \<Longrightarrow> map_of cs (de_key e) = None \<Longrightarrow> load_contract R db e cs = Inr (cs @ [(de_key e, g (de_key e))])"
  shows "foldE (load_contract R db) es cs = Inr (cs @ map (\<lambda>e. (de_key e, g (de_key e))) es)"
  using assms
proof (induction es arbitrary: cs)
  case (Cons e es)
  have "map_of cs (de_key e) = None" using Cons.prems(1) by (auto simp: map_of_eq_None_iff)
  then have "load_contract R db e cs = Inr (cs @ [(de_key e, g (de_key e))])" using Cons.prems(2) by simp
  then show ?case using Cons.IH [of "cs @ [(de_key e, g (de_key e))]"] Cons.prems by simp
qed simp

lemma class_names:
  "bytes_of_string ''ERC20Wrapper'' \<noteq> bytes_of_string ''ERC20''" "bytes_of_string ''NativeWrapper'' \<noteq> bytes_of_string ''ERC20''"
  "bytes_of_string ''NativeWrapper'' \<noteq> bytes_of_string ''ERC20Wrapper''"
  by (simp_all add: bytes_of_string_def)

lemma contract_reload:
  assumes "rocks_ok R A" and "iteration_ok it" and "contract_storable st c" and "contractAddress (contract_base c) = de_key e" and "length (de_key e) = 20"
    and "de_value e = contractName (contract_base c)"
    and "\<And>k. A db (contract_prefix (de_key e) @ k) = contract_saved it c st (contract_prefix (de_key e) @ k)"
  shows "\<exists>c'. contract_reloaded it c c' \<and> (\<forall>cs. map_of cs (de_key e) = None \<longrightarrow> load_contract R db e cs = Inr (cs @ [(de_key e, c')]))"
proof (cases c)
  case (C_ERC20 t)
  then obtain t' where "ERC20_load R db (de_key e) = Inr t'" "token_reloaded it t t'"
    using token_reload [OF assms(1,2), of st t db] assms(3,4,7) by auto
  then show ?thesis using C_ERC20 assms(3,5,6) by (intro exI [of _ "C_ERC20 t'"]) (simp add: load_contract_def Let_def Address_bytes_def)
next
  case (C_NativeWrapper t)
  then obtain t' where "ERC20_load R db (de_key e) = Inr t'" "token_reloaded it t t'"
    using token_reload [OF assms(1,2), of st t db] assms(3,4,7) by auto
  then show ?thesis using C_NativeWrapper assms(3,5,6)
    by (intro exI [of _ "C_NativeWrapper t'"]) (simp add: load_contract_def Let_def Address_bytes_def NativeWrapper_load_def class_names)
next
  case (C_ERC20Wrapper w)
  then obtain w' where "ERC20Wrapper_load R db (de_key e) = Inr w'" "wrapper_reloaded it w w'"
    using wrapper_reload [OF assms(1,2), of st w db] assms(3,4,7) by auto
  then show ?thesis using C_ERC20Wrapper assms(3,5,6)
    by (intro exI [of _ "C_ERC20Wrapper w'"]) (simp add: load_contract_def Let_def Address_bytes_def class_names)
qed

text \<open>The database knows no contract that the manager does not have.\<close>

definition manager_storable :: "store \<Rightarrow> ContractManager \<Rightarrow> bool" where
  "manager_storable st m \<longleftrightarrow> distinct (map fst (cm_contracts m))
     \<and> (\<forall>(a, c)\<in>set (cm_contracts m). length a = 20 \<and> a \<noteq> manager_address \<and> contractAddress (contract_base c) = a \<and> contract_storable st c)
     \<and> (\<forall>k. st (DBPrefix_contractManager @ k) \<noteq> None \<longrightarrow> k \<in> fst ` set (cm_contracts m))"

lemma BaseContract_put_other:
  assumes "rocks_ok R A" and "writes_succeed R" and "\<not> starts_with key (contract_prefix address)"
  shows "A (BaseContract_put R db name address creator chainId) key = A db key"
  using assms by (auto simp: BaseContract_put_def Let_def store_writes starts_with_iff)

lemma closed_manager_store:
  fixes it name n
  assumes "rocks_ok R A" and "writes_succeed R" and m: "manager_storable (A db) m"
  defines "db' \<equiv> BaseContract_put R (ContractManager_close R it m db) name manager_address dead_address n"
  shows "A db' (DBPrefix_contractManager @ k) = map_option (contractName \<circ> contract_base) (map_of (cm_contracts m) k)"
    and "map_of (cm_contracts m) a = Some c \<Longrightarrow> A db' (contract_prefix a @ k) = contract_saved it c (A db) (contract_prefix a @ k)"
proof -
  let ?cs = "cm_contracts m"
  let ?batch = "\<lparr>bt_puts = map (\<lambda>(a, c). \<lparr>de_key = a, de_value = contractName (contract_base c)\<rparr>) ?cs, bt_dels = []\<rparr>"
  define db1 where "db1 = fst (DB_putBatch R db ?batch DBPrefix_contractManager)"
  have close: "ContractManager_close R it m db = fold (\<lambda>(a, c). contract_close R it c) ?cs db1"
    by (simp add: ContractManager_close_def db1_def Let_def)
  have db1: "A db1 = batch_effect ?batch DBPrefix_contractManager (A db)" unfolding db1_def by (rule store_writes(2) [OF assms(1,2)])
  have len: "length manager_address = 20" by (simp add: manager_address_def)
  have cs: "distinct (map fst ?cs)" "\<forall>(a, c)\<in>set ?cs. length a = 20 \<and> contractAddress (contract_base c) = a"
    using m by (auto simp: manager_storable_def)
  have other: "\<not> starts_with (DBPrefix_contractManager @ k) (contract_prefix x)" for x
    by (auto simp: starts_with_iff contract_prefix_def DBPrefix_defs)
  have "A db' (DBPrefix_contractManager @ k) = A db1 (DBPrefix_contractManager @ k)"
    unfolding db'_def close by (simp add: BaseContract_put_other [OF assms(1,2) other] closes_manager [OF assms(1,2)])
  also have "\<dots> = (case map_of ?cs k of Some c \<Rightarrow> Some (contractName (contract_base c)) | None \<Rightarrow> A db (DBPrefix_contractManager @ k))"
    unfolding db1 by (rule stored_batch_key) (use cs(1) in \<open>simp_all add: enumerates_def\<close>)
  also have "\<dots> = map_option (contractName \<circ> contract_base) (map_of ?cs k)"
  proof (cases "map_of ?cs k")
    case None
    then have "k \<notin> fst ` set ?cs" by (simp add: map_of_eq_None_iff)
    with m None show ?thesis by (auto simp: manager_storable_def)
  qed simp
  finally show "A db' (DBPrefix_contractManager @ k) = map_option (contractName \<circ> contract_base) (map_of ?cs k)" .
  assume a: "map_of ?cs a = Some c"
  then have ac: "length a = 20" "a \<noteq> manager_address" using m by (auto simp: manager_storable_def dest!: map_of_SomeD)
  have "A db' (contract_prefix a @ k) = contract_saved it c (A db1) (contract_prefix a @ k)"
    unfolding db'_def close
    by (subst BaseContract_put_other [OF assms(1,2)])
      (use a ac len in \<open>simp_all add: closes_store [OF assms(1,2) cs ac(1)] contract_prefix_key\<close>)
  also have "A db1 (contract_prefix a @ k) = A db (contract_prefix a @ k)"
    unfolding db1 by (rule batch_effect_outside) (auto simp: starts_with_iff contract_prefix_def DBPrefix_defs)
  then have "contract_saved it c (A db1) (contract_prefix a @ k) = contract_saved it c (A db) (contract_prefix a @ k)"
    by (rule contract_saved_pointwise)
  finally show "A db' (contract_prefix a @ k) = contract_saved it c (A db) (contract_prefix a @ k)" .
qed

lemma contracts_reload:
  assumes "rocks_ok R A" and "writes_succeed R" and "iteration_ok it" and m: "manager_storable (A db) m"
  shows "\<exists>db' m'. ContractManager_open R (ContractManager_close R it m db) = Inr (db', m')
    \<and> (\<forall>a. rel_option (contract_reloaded it) (map_of (cm_contracts m) a) (map_of (cm_contracts m') a))"
proof -
  let ?cs = "cm_contracts m"
  define db' where "db' = BaseContract_put R (ContractManager_close R it m db) (bytes_of_string ''ContractManager'') manager_address dead_address 0"
  note st = closed_manager_store [OF assms(1,2) m, where it = it and name = "bytes_of_string ''ContractManager''" and n = 0, folded db'_def]
  define es where "es = DB_getBatch R db' DBPrefix_contractManager []"
  have e: "e \<in> set es \<longleftrightarrow> (\<exists>c. map_of ?cs (de_key e) = Some c \<and> de_value e = contractName (contract_base c))" for e
    unfolding es_def DB_getBatch_all(1) [OF assms(1)] st(1) by auto
  have d: "distinct (map de_key es)" unfolding es_def by (rule DB_getBatch_all(2) [OF assms(1)])
  have "\<exists>c'. contract_reloaded it (the (map_of ?cs (de_key e))) c'
      \<and> (\<forall>cs. map_of cs (de_key e) = None \<longrightarrow> load_contract R db' e cs = Inr (cs @ [(de_key e, c')]))" if "e \<in> set es" for e
  proof -
    from that obtain c where c: "map_of ?cs (de_key e) = Some c" "de_value e = contractName (contract_base c)" by (auto simp: e)
    then have "length (de_key e) = 20" "contractAddress (contract_base c) = de_key e" "contract_storable (A db) c"
      using m by (auto simp: manager_storable_def dest!: map_of_SomeD)
    with contract_reload [OF assms(1,3), of "A db" c e db'] st(2) c show ?thesis by simp
  qed
  then obtain h where h: "\<And>e. e \<in> set es \<Longrightarrow> contract_reloaded it (the (map_of ?cs (de_key e))) (h e)
      \<and> (\<forall>cs. map_of cs (de_key e) = None \<longrightarrow> load_contract R db' e cs = Inr (cs @ [(de_key e, h e)]))" by metis
  define g where "g k = h (THE e. e \<in> set es \<and> de_key e = k)" for k
  have g: "g (de_key e) = h e" if "e \<in> set es" for e
    unfolding g_def by (rule arg_cong [where f = h], rule the_equality) (use that d in \<open>auto simp: distinct_map dest: inj_onD\<close>)
  have load: "foldE (load_contract R db') es [] = Inr (map (\<lambda>e. (de_key e, g (de_key e))) es)"
    using load_contracts [of es "[]" R db' g] d h g by simp
  have "rel_option (contract_reloaded it) (map_of ?cs a) (map_of (map (\<lambda>e. (de_key e, g (de_key e))) es) a)" for a
  proof (cases "map_of ?cs a")
    case None
    then have "a \<notin> de_key ` set es" by (auto simp: e)
    with None show ?thesis using map_of_keys [of de_key g es a] by simp
  next
    case (Some c)
    let ?e = "\<lparr>de_key = a, de_value = contractName (contract_base c)\<rparr>"
    have i: "?e \<in> set es" by (simp add: e Some)
    have "a \<in> de_key ` set es" by (rule image_eqI [OF _ i]) simp
    moreover have "contract_reloaded it c (g a)" using h [OF i] g [OF i] Some by simp
    ultimately have "a \<in> de_key ` set es" "contract_reloaded it c (g a)" .
    with Some show ?thesis using map_of_keys [of de_key g es a] by simp
  qed
  with load show ?thesis
    by (simp add: ContractManager_open_def Let_def BaseContract.defs ContractManager.defs flip: db'_def es_def)
qed

text \<open>C10. What a restart of the node keeps of the contracts, whatever order the hash maps iterate in and provided that the database accepts the writes and knows no
  contracts or holders but those of the manager: after the manager has been closed and opened again, the same contracts stand at the same addresses, of the same class, with
  the same name and creator, and a token has the same symbol, decimals, supply and balances. Of the allowances of an owner only the one that was written last comes back, and of the
  balances that a wrapper keeps for one token only that of the user written last: the deposits of the other users are lost.\<close>

theorem contracts_restart:
  assumes "rocks_ok R A" and "writes_succeed R" and "iteration_ok it" and "manager_storable (A db) m"
  shows "\<exists>db' m'. ContractManager_open R (ContractManager_close R it m db) = Inr (db', m')
    \<and> (\<forall>a. rel_option (contract_reloaded it) (map_of (cm_contracts m) a) (map_of (cm_contracts m') a))"
  using assms by (rule contracts_reload)

subsection \<open>One token\<close>

definition demo_iteration :: iteration where
  "demo_iteration = \<lparr>it_flat = \<lambda>m. map (\<lambda>k. (k, the (m k))) (sorted_list_of_set (dom m)),
     it_nested = \<lambda>m. map (\<lambda>k. (k, the (m k))) (sorted_list_of_set (dom m))\<rparr>"

lemma sorted_enumerates: "finite (dom m) \<Longrightarrow> enumerates (map (\<lambda>k. (k, the (m k))) (sorted_list_of_set (dom m))) m"
  for m :: "bytes \<rightharpoonup> 'v"
  using map_of_keys [of "\<lambda>k. k" "\<lambda>k. the (m k)" "sorted_list_of_set (dom m)"]
  by (auto simp: enumerates_def comp_def fun_eq_iff domIff)

lemma demo_iteration_ok: "iteration_ok demo_iteration"
  by (simp add: iteration_ok_def demo_iteration_def sorted_enumerates)

definition restart_token :: token where
  "restart_token = deployed [84] [84] 18 500 (replicate 20 3) (replicate 20 1) 8080"

definition restart_manager :: ContractManager where
  "restart_manager = demo_manager\<lparr>cm_contracts := [(replicate 20 3, C_ERC20 restart_token)]\<rparr>"

definition restart_db :: "(bytes \<times> bytes) list" where
  "restart_db = BaseContract_put alist_rocks [] (bytes_of_string ''ERC20'') (replicate 20 3) (replicate 20 1) 8080"

lemma restart_storable:
  "manager_storable (map_of restart_db) restart_manager" "writes_succeed alist_rocks"
proof -
  show w: "writes_succeed alist_rocks" by (simp add: writes_succeed_def alist_rocks_def)
  let ?p = "contract_prefix (replicate 20 3)"
  have db: "map_of restart_db = [?p @ bytes_of_string ''contractName'' \<mapsto> bytes_of_string ''ERC20'', ?p @ bytes_of_string ''contractAddress'' \<mapsto> replicate 20 3,
      ?p @ bytes_of_string ''contractCreator'' \<mapsto> replicate 20 1, ?p @ bytes_of_string ''contractChainId'' \<mapsto> uint64ToBytes 8080]"
    by (simp only: restart_db_def BaseContract_put_def Let_def store_writes [OF alist_rocks_ok w] map_of.simps)
  have t: "contractAddress restart_token = replicate 20 3" "contractName restart_token = bytes_of_string ''ERC20''" "contractCreator restart_token = replicate 20 1"
    "contractChainId restart_token = 8080" "tok_balances restart_token = sm_commit (minted (replicate 20 1) 500)"
    "tok_allowed restart_token = SafeMap_owned Map.empty"
    by (simp_all add: restart_token_def deployed_def token_of_base_def BaseContract_new_def BaseContract.defs DynamicContract.defs token.defs)
  have settled: "token_settled restart_token"
    using deployed_ok(1) [of "[84]" "[84]" 18 500 "replicate 20 3" "replicate 20 1" 8080] by (simp add: token_ok_def restart_token_def)
  have none: "map_of restart_db (member_prefix (replicate 20 3) s @ k) = None" if "s = ''_balances'' \<or> s = ''_allowed''" for s k
    using that unfolding db member_prefix_def by (elim disjE) (simp_all add: bytes_of_string_def)
  have "base_stored (map_of restart_db) restart_token"
    unfolding base_stored_def Let_def t db by (simp add: bytes_of_string_def)
  then have "contract_storable (map_of restart_db) (C_ERC20 restart_token)"
    using settled none by (simp add: t token_storable_def flat_storable_def nested_storable_def minted_simps sm_lookup_owned)
  moreover have "map_of restart_db (DBPrefix_contractManager @ k) = None" for k
    unfolding db by (simp add: contract_prefix_def DBPrefix_defs)
  moreover have "replicate 20 3 \<noteq> manager_address" by (rule notI, drule arg_cong [where f = hd]) (simp add: manager_address_def)
  ultimately show "manager_storable (map_of restart_db) restart_manager" by (simp add: manager_storable_def restart_manager_def t)
qed

theorem contracts_restart_witness:
  "\<exists>db' m' t'. ContractManager_open alist_rocks (ContractManager_close alist_rocks demo_iteration restart_manager restart_db) = Inr (db', m')
     \<and> map_of (cm_contracts m') (replicate 20 3) = Some (C_ERC20 t') \<and> sm_lookup (tok_balances t') = [replicate 20 1 \<mapsto> 500]"
proof -
  obtain db' m' where o: "ContractManager_open alist_rocks (ContractManager_close alist_rocks demo_iteration restart_manager restart_db) = Inr (db', m')"
    and r: "\<forall>a. rel_option (contract_reloaded demo_iteration) (map_of (cm_contracts restart_manager) a) (map_of (cm_contracts m') a)"
    using contracts_restart [OF alist_rocks_ok restart_storable(2) demo_iteration_ok restart_storable(1)] by blast
  have "map_of (cm_contracts restart_manager) (replicate 20 3) = Some (C_ERC20 restart_token)" by (simp add: restart_manager_def)
  with r obtain c' where c': "map_of (cm_contracts m') (replicate 20 3) = Some c'" "contract_reloaded demo_iteration (C_ERC20 restart_token) c'"
    by (metis option_rel_Some1)
  then obtain t' where "c' = C_ERC20 t'" "token_reloaded demo_iteration restart_token t'" by (cases c') auto
  moreover have "tok_balances restart_token = sm_commit (minted (replicate 20 1) 500)"
    by (simp add: restart_token_def deployed_def)
  ultimately show ?thesis using o c'(1) by (simp add: token_reloaded_def minted_simps)
qed

subsection \<open>Accounts\<close>

text \<open>A size byte below 256 and the digits behind it.\<close>

lemma minimal_bytes_eq:
  assumes "bytesRequired n \<le> 32"
  shows "\<exists>b. minimal_bytes n = b # uintToBytes n \<and> unat (fromBigEndian [b] :: uint8) = bytesRequired n"
proof (cases "n = 0")
  case True
  then show ?thesis by (intro exI [of _ 0]) (simp add: minimal_bytes_def fromBigEndian_single)
next
  case False
  let ?k = "bytesRequired n"
  have k: "0 < ?k" "?k < 256" using False assms bytesRequired_eq_0_iff [of n] by linarith+
  then have "bytesRequired ?k = 1" by (simp add: bytesRequired_pos)
  then have "length (uintToBytes ?k) = 1" by simp
  then obtain b where b: "uintToBytes ?k = [b]" by (cases "uintToBytes ?k") (simp_all del: length_uintToBytes)
  have "unat (fromBigEndian (uintToBytes ?k) :: uint8) = ?k" using k by (intro fromBigEndian_uintToBytes_nat) simp
  with b False show ?thesis by (simp add: minimal_bytes_def)
qed

lemma parse_serialize_account: "parse_account (serialize_account acc) = Inr acc"
proof -
  let ?B = "uintToBytes (unat (acc_balance acc))" and ?N = "uintToBytes (unat (acc_nonce acc))"
  have "bytesRequired (unat (acc_balance acc)) \<le> 32" by (rule bytesRequired_u256) (rule uint256_lt)
  from minimal_bytes_eq [OF this] obtain b where b: "minimal_bytes (unat (acc_balance acc)) = b # ?B" "unat (fromBigEndian [b] :: uint8) = length ?B" by auto
  have "bytesRequired (unat (acc_nonce acc)) \<le> 8" by (rule bytesRequired_u64) (rule uint64_lt)
  then have "bytesRequired (unat (acc_nonce acc)) \<le> 32" by simp
  from minimal_bytes_eq [OF this] obtain c where c: "minimal_bytes (unat (acc_nonce acc)) = c # ?N" "unat (fromBigEndian [c] :: uint8) = length ?N" by auto
  have s: "serialize_account acc = b # ?B @ c # ?N" by (simp add: serialize_account_def b(1) c(1))
  show ?thesis unfolding s using b(2) c(2) by (simp add: parse_account_def substr_def Let_def)
qed

definition accounts_storable :: "store \<Rightarrow> (bytes \<times> Account) list \<Rightarrow> bool" where
  "accounts_storable st accs \<longleftrightarrow> accounts_ok accs \<and> accs \<noteq> [] \<and> (\<forall>(a, acc)\<in>set accs. length a = 20)
     \<and> (\<forall>k. st (DBPrefix_nativeAccounts @ k) \<noteq> None \<longrightarrow> k \<in> fst ` set accs)"

lemma load_accounts_loop:
  assumes "distinct (map de_key es @ map fst accs)" and "\<forall>e\<in>set es. length (de_key e) = 20 \<and> parse_account (de_value e) = Inr (g (de_key e))"
  shows "foldE load_account es accs = Inr (accs @ map (\<lambda>e. (de_key e, g (de_key e))) es)"
  using assms
proof (induction es arbitrary: accs)
  case (Cons e es)
  have "map_of accs (de_key e) = None" using Cons.prems(1) by (auto simp: map_of_eq_None_iff)
  then have "load_account e accs = Inr (accs @ [(de_key e, g (de_key e))])" using Cons.prems(2) by (simp add: load_account_def)
  then show ?case using Cons.IH [of "accs @ [(de_key e, g (de_key e))]"] Cons.prems by simp
qed simp

text \<open>The accounts survive a restart: what the destructor of the state writes, the constructor reads back as
  the same accounts, with the same balances and nonces, and it does not create the genesis account again.\<close>

theorem accounts_restart:
  assumes "rocks_ok R A" and "writes_succeed R" and st: "accounts_storable (A (database S)) (accounts S)"
  shows "\<exists>accs. load_accounts R (State_close R S) = Inr (State_close R S, accs) \<and> map_of accs = map_of (accounts S)"
proof -
  let ?p = DBPrefix_nativeAccounts and ?m = "map_of (accounts S)"
  define db where "db = State_close R S"
  have ok: "distinct (map fst (accounts S))" "accounts S \<noteq> []" using st by (simp_all add: accounts_storable_def accounts_ok_def)
  have "A db (?p @ k) = (case ?m k of Some acc \<Rightarrow> Some (serialize_account acc) | None \<Rightarrow> A (database S) (?p @ k))" for k
    unfolding db_def State_close_def store_writes(2) [OF assms(1,2)]
    by (rule stored_batch_key) (use ok(1) in \<open>simp_all add: enumerates_def accounts_batch_def\<close>)
  moreover have "A (database S) (?p @ k) = None" if "?m k = None" for k
  proof -
    have "k \<notin> fst ` set (accounts S)" using that by (simp add: map_of_eq_None_iff)
    then show ?thesis using st by (auto simp: accounts_storable_def)
  qed
  ultimately have db: "A db (?p @ k) = map_option serialize_account (?m k)" for k by (cases "?m k") simp_all
  define es where "es = DB_getBatch R db ?p []"
  have e: "e \<in> set es \<longleftrightarrow> (\<exists>acc. ?m (de_key e) = Some acc \<and> de_value e = serialize_account acc)" for e
    unfolding es_def DB_getBatch_all(1) [OF assms(1)] db by auto
  have d: "distinct (map de_key es)" unfolding es_def by (rule DB_getBatch_all(2) [OF assms(1)])
  have "length (de_key e) = 20 \<and> parse_account (de_value e) = Inr (the (?m (de_key e)))" if "e \<in> set es" for e
    using that st by (auto simp: e accounts_storable_def parse_serialize_account dest: map_of_SomeD)
  then have load: "foldE load_account es [] = Inr (map (\<lambda>e. (de_key e, the (?m (de_key e)))) es)"
    using load_accounts_loop [of es "[]" "\<lambda>k. the (?m k)"] d by simp
  have k: "k \<in> de_key ` set es" if "?m k = Some acc" for k acc
    by (rule image_eqI [of _ _ "\<lparr>de_key = k, de_value = serialize_account acc\<rparr>"]) (simp_all add: e that)
  then have "k \<in> de_key ` set es \<longleftrightarrow> ?m k \<noteq> None" for k by (auto simp: e)
  then have m: "map_of (map (\<lambda>e. (de_key e, the (?m (de_key e)))) es) = ?m"
    using map_of_keys [of de_key "\<lambda>k. the (?m k)" es] by (auto simp: fun_eq_iff)
  have "?m (fst (hd (accounts S))) = Some (snd (hd (accounts S)))" using ok by simp
  from k [OF this] have "es \<noteq> []" by auto
  with load m show ?thesis by (simp add: load_accounts_def Let_def flip: db_def es_def)
qed

theorem accounts_restart_witness:
  "\<exists>accs. load_accounts alist_rocks (State_close alist_rocks demo_state) = Inr (State_close alist_rocks demo_state, accs)
     \<and> map_of accs = map_of (accounts demo_state)"
  by (rule accounts_restart [OF alist_rocks_ok restart_storable(2)])
    (simp add: accounts_storable_def accounts_ok_def demo_state_def)

end
