(* ===== verification/Spec2Isabelle.thy ===== *)
theory Spec2Isabelle
  imports Syncer Json_Rpc Nested_Calls Restart
begin

text \<open>
  A verification library for the Orbiter SDK, the C++ node software of a blockchain in which validators are
  chosen at random (rdPoS). This is the root theory; it imports the theories of the components. File names
  are relative to the directory \<^verbatim>\<open>src/\<close> of the repository.

  \<^bold>\<open>The program.\<close> A node keeps a chain of blocks (\<^verbatim>\<open>core/storage.cpp\<close>), the native accounts and the mempool
  (\<^verbatim>\<open>core/state.cpp\<close>), the validators and their mempool (\<^verbatim>\<open>core/rdpos.cpp\<close>) and the contracts
  (\<^verbatim>\<open>contract/\<close>). A block arrives from a peer (\<^verbatim>\<open>net/p2p/\<close>) or is made by the node itself when it is the proposer of the round
  (\<^verbatim>\<open>core/blockchain.cpp\<close>, class \<^verbatim>\<open>Syncer\<close>); it is validated by \<^verbatim>\<open>State::validateNextBlock\<close>, which asks \<^verbatim>\<open>rdPoS\<close>, and executed by
  \<^verbatim>\<open>State::processNextBlock\<close>, which runs its transactions, hands the block to \<^verbatim>\<open>rdPoS\<close>, cleans the mempool and stores the block. Users talk to the node by
  JSON-RPC (\<^verbatim>\<open>net/http/\<close>). Everything that is sent or stored is a byte string made by \<^verbatim>\<open>utils/\<close>.

  \<^bold>\<open>How code becomes definitions.\<close> A class is a record with its members as fields, a member function is a function
  of that record, and the names are those of the code. Code that throws returns \<open>'a result\<close>, a sum of the exception and the value; code that changes
  an object and may throw is an \<open>action\<close>, which returns the changed object together with the result, because the changes made before an
  exception stay. What the C++ standard leaves undefined (a null pointer, an index past the end) is the result \<open>UndefinedBehaviour\<close>,
  which no handler catches. Integers are words of their width; the checked \<^verbatim>\<open>uint256_t\<close> throws where its exact result does not fit. Bytes are
  8-bit words and text is a list of characters. An \<^verbatim>\<open>unordered_map\<close> is a map where its order is never looked at and an association list where it is.

  \<^bold>\<open>Byte strings and cryptography.\<close>
  \<^item> \<open>Prelude\<close>: exceptions, results, actions, views and the arithmetic of big-endian byte strings.
  \<^item> \<open>Bytes\<close> (\<^verbatim>\<open>utils/utils.cpp\<close>): integer conversions and paddings; they are inverse to each other and \<^verbatim>\<open>uintToBytes\<close> is minimal.
  \<^item> \<open>Crypto\<close> (\<^verbatim>\<open>utils/strings.h\<close>, \<^verbatim>\<open>utils/ecdsa.cpp\<close>): fixed-size strings, signing and recovering; signatures have a low \<^verbatim>\<open>s\<close> and stay in the range the parsers require.
  \<^item> \<open>Hex_Strings\<close> (\<^verbatim>\<open>utils/hex.cpp\<close>): hexadecimal text and checksummed addresses, with round trips.
  \<^item> \<open>Merkle_Tree\<close> (\<^verbatim>\<open>utils/merkle.cpp\<close>, \<^verbatim>\<open>utils/randomgen.cpp\<close>): every proof that is produced verifies; shuffling permutes.
  \<^item> \<open>Db\<close> (\<^verbatim>\<open>utils/db.cpp\<close>): seen through its operations, the database layer keeps one map for every prefix; writes that fail are not described.

  \<^bold>\<open>Transactions and blocks.\<close>
  \<^item> \<open>Rlp\<close>, \<open>Tx_Block\<close>, \<open>Tx_Validator\<close> (\<^verbatim>\<open>utils/tx.cpp\<close>): what the signing constructor makes is parsed back exactly; what the parser accepts carries the address its signature gives;
    the lengths the parser wrongly refuses.
  \<^item> \<open>Blocks\<close> (\<^verbatim>\<open>utils/block.cpp\<close>): a finalized block is parsed back exactly, every parsed block has the right roots and randomness, and parsing on several
    threads gives the result of parsing on one.
  \<^item> \<open>Abi\<close> (\<^verbatim>\<open>contract/abi.cpp\<close>): decoding what was encoded gives the arguments; what is decoded has the requested types and is what the data holds at its slots and offsets.

  \<^bold>\<open>Contracts.\<close>
  \<^item> \<open>Safe_Vars\<close>, \<open>Safe_Map\<close>, \<open>Safe_String\<close> (\<^verbatim>\<open>contract/variables/\<close>): a call that is reverted leaves every variable as it was and a committed one keeps its effect; the contract of a
    variable is a locale, interpreted for the integers and the maps.
  \<^item> \<open>Tokens\<close>, \<open>Token_Spec\<close> (\<^verbatim>\<open>contract/erc20.cpp\<close>, \<^verbatim>\<open>nativewrapper.cpp\<close>, base classes): a token call refines an abstract token and keeps the sum of the balances equal to the supply.
  \<^item> \<open>Manager\<close> (\<^verbatim>\<open>contract/contractmanager.cpp\<close>, \<^verbatim>\<open>erc20wrapper.cpp\<close>): creating and calling contracts, and contracts that call contracts.
  \<^item> \<open>Nested_Calls\<close>: the depth of nested calls is a parameter of the model. At a depth of two the result does not depend on what a deeper call would do, because
    none is made; so every depth of at least two gives the behaviour of the code.
  \<^item> \<open>Contract_Persist\<close>, \<open>Restart\<close>: saving all contracts and loading them again, for every order in which the maps are iterated: what comes back, and which
    allowances and deposits do not.

  \<^bold>\<open>The node.\<close>
  \<^item> \<open>Rdpos\<close> (\<^verbatim>\<open>core/rdpos.cpp\<close>): the exact condition under which a block is valid, the invariant of the mempool of validator transactions, and the new round after a block.
  \<^item> \<open>Storages\<close>, \<open>Storage_Persist\<close> (\<^verbatim>\<open>core/storage.cpp\<close>): the chain stays linked and exactly indexed under pushes and pops; closing and opening gives back the last 501 blocks
    of the whole chain and leaves the others in the database, over any number of restarts.
  \<^item> \<open>Chain_State\<close>, \<open>Ledger\<close> (\<^verbatim>\<open>core/state.cpp\<close>): validating and executing transactions and blocks, and what they do to the balances.
  \<^item> \<open>Node\<close>, \<open>Chain_Node\<close>: no contract call reaches the chain, rdPoS or the mempool (rules collected in \<open>preserve_rules\<close>), hence the invariant of the whole node, also over blocks that throw halfway, the effect of a processed
    block, and that a valid block of transfers is always processed.
  \<^item> \<open>Syncer\<close> (\<^verbatim>\<open>core/blockchain.cpp\<close>): the proposer creates, stores and broadcasts a valid block once all validators have sent their two transactions; a validator that sends two
    transactions without a hash makes the selection loop run forever. That loop is a \<open>partial_function\<close> into an option type, where \<open>None\<close> means that it does not end.
  \<^item> \<open>Sample_Round\<close>: a concrete round with its keys, block and state, on which the hypotheses of the theorems about blocks and peers are shown to hold.

  \<^bold>\<open>The network.\<close>
  \<^item> \<open>P2p_Encoding\<close> (\<^verbatim>\<open>net/p2p/p2pencoding.cpp\<close>): what one node encodes another decodes.
  \<^item> \<open>P2p_Manager\<close> (\<^verbatim>\<open>net/p2p/p2pmanager*.cpp\<close>, \<^verbatim>\<open>p2pdiscoveryworker.cpp\<close>, \<^verbatim>\<open>p2pserver.cpp\<close>): the handlers of the managers as actions. What a manager writes to its sessions is a trace.
  \<^item> \<open>Network\<close>: whatever bytes arrive, the chain only grows by valid blocks and each broadcast reaches a peer at most once. The locale \<open>step_order\<close> carries such proofs through
    handlers; it is interpreted for the base manager, the broadcasts, the chain and the requests of users.
  \<^item> \<open>Json_Rpc\<close> (\<^verbatim>\<open>net/http/jsonrpc/\<close>, \<^verbatim>\<open>net/http/httpparser.cpp\<close>, the values of \<^verbatim>\<open>utils/json.hpp\<close>): no request changes the ledger; a valid raw transaction reaches the mempool and the peers
    and is found again under its hash; balances and nonces are reported exactly; requests without parameters are undefined.

  \<^bold>\<open>Parameters.\<close> Code outside the repository is an argument of the definitions: the hash and the curve operations (record \<open>crypto\<close>, with \<open>library_signs\<close> as the documented range of a signature where a theorem needs it), RocksDB (record
  \<open>rocksdb\<close>, with \<open>rocks_ok\<close> as the documented behaviour of iterators and of writes that report success), reading an IP address and hexadecimal numbers with Boost, the clock, random bytes, the number of hardware threads and the iteration order of
  hash maps. The parser and the printer of the vendored JSON library are arguments as well. No theorem assumes that a hash function has no collisions; where a theorem needs two hashes to differ, that is a
  hypothesis on these two values.

  \<^bold>\<open>Not modelled.\<close> Sockets, handshakes and the HTTP server are callbacks of Boost. Mutexes and threads: an operation holds its lock for its whole duration, so operations are
  interleaved only as a whole, and the loops of the worker threads are modelled by one round of their body. \<^verbatim>\<open>Blockchain\<close> only owns the components. Options and logging are input and output. \<^verbatim>\<open>SafeString\<close> has the operations
  that contracts use; the others forward to \<^verbatim>\<open>std::string\<close>. The checked integers of 8 to 256 bits are one definition per operator with the width as a type parameter. The sources of the Avalanche plugin are not part of the build.
\<close>

end
